(* ===== verification/Prelude.thy ===== *)
theory Prelude
  imports "HOL-Library.Word"
begin

text \<open>
  What every component shares: the outcome of a Go computation (a value, a panic, or no
  return), the machine types, \<open>sort.Search\<close> of the standard library, and the generic
  lemmas on lists and words that the component proofs use through the collections
  \<open>go_simps\<close> and \<open>search_simps\<close>.
\<close>

named_theorems go_simps "evaluation of outcomes"
named_theorems search_simps "facts about binary search"

section \<open>Machine types\<close>

type_synonym u64 = "64 word"
type_synonym u32 = "32 word"
type_synonym byte = "8 word"

text \<open>Arithmetic on int64 as integers: the wrap-around, and division towards 0.\<close>

definition wrap64 :: "int \<Rightarrow> int" where
  "wrap64 n = sint (word_of_int n :: 64 word)"

lemma wrap64_small: "\<lbrakk> - (2 ^ 63) \<le> n; n < 2 ^ 63 \<rbrakk> \<Longrightarrow> wrap64 n = n"
  by (simp add: wrap64_def signed_of_int signed_take_bit_int_eq_self)

definition go_quot :: "int \<Rightarrow> int \<Rightarrow> int" where
  "go_quot a b = sgn a * sgn b * (\<bar>a\<bar> div \<bar>b\<bar>)"

section \<open>Outcomes\<close>

text \<open>
  A Go function of this repository either returns, panics (nil dereference, index or slice
  bounds, a failed assertion, the size of a new slice or channel, a full buffer, a bad argument,
  a division by 0), or never returns. Errors that the code returns as values are part of the returned value.
\<close>

datatype gopanic =
    NilDeref | IndexOutOfRange | SliceBounds | AssertFailed | MakeSliceLen | MakeChanSize | BufferFull | BadArgument | DivideByZero

datatype 'a go = Ret 'a | Panic gopanic | Hang

primrec go_bind :: "'a go \<Rightarrow> ('a \<Rightarrow> 'b go) \<Rightarrow> 'b go" where
  "go_bind (Ret x) f = f x"
| "go_bind (Panic p) f = Panic p"
| "go_bind Hang f = Hang"

declare go_bind.simps [go_simps]

lemma go_bind_cong [fundef_cong]:
  assumes "m = m'" and "\<And>x. m' = Ret x \<Longrightarrow> f x = g x"
  shows "go_bind m f = go_bind m' g"
  using assms by (cases m') auto

lemma go_bind_eq_Ret [go_simps]:
  "go_bind m f = Ret y \<longleftrightarrow> (\<exists>x. m = Ret x \<and> f x = Ret y)"
  by (cases m) auto

lemma go_bind_assoc: "go_bind (go_bind m f) g = go_bind m (\<lambda>x. go_bind (f x) g)"
  by (cases m) auto

text \<open>A loop that may run forever is a partial function; \<open>None\<close> is not returning.\<close>

primrec may_hang :: "'a go option \<Rightarrow> 'a go" where
  "may_hang None = Hang"
| "may_hang (Some r) = r"

declare may_hang.simps [go_simps]

primrec go_fold :: "('a \<Rightarrow> 's \<Rightarrow> 's go) \<Rightarrow> 'a list \<Rightarrow> 's \<Rightarrow> 's go" where
  "go_fold f [] s = Ret s"
| "go_fold f (x # xs) s = go_bind (f x s) (go_fold f xs)"

lemma go_fold_append: "go_fold f (xs @ ys) s = go_bind (go_fold f xs s) (go_fold f ys)"
proof (induction xs arbitrary: s)
  case (Cons x xs)
  then have "go_fold f (xs @ ys) = (\<lambda>s. go_bind (go_fold f xs s) (go_fold f ys))" by (simp add: fun_eq_iff)
  then show ?case by (simp add: go_bind_assoc)
qed simp

text \<open>A loop whose body keeps an invariant and never fails ends normally.\<close>

lemma go_fold_invariant:
  assumes "I [] s"
    and "\<And>done x s. \<lbrakk> I done s; x \<in> set xs \<rbrakk> \<Longrightarrow> \<exists>s'. f x s = Ret s' \<and> I (done @ [x]) s'"
  shows "\<exists>s'. go_fold f xs s = Ret s' \<and> I xs s'"
proof -
  have "\<exists>s'. go_fold f ys s = Ret s' \<and> I (done @ ys) s'"
    if "I done s" and "set ys \<subseteq> set xs" for "done" ys s
    using that
  proof (induction ys arbitrary: "done" s)
    case Nil
    then show ?case by simp
  next
    case (Cons y ys)
    then obtain s' where "f y s = Ret s'" and "I (done @ [y]) s'"
      using assms(2) by (metis insert_subset list.simps(15))
    with Cons.IH [of "done @ [y]" s'] Cons.prems(2) show ?case by simp
  qed
  from this [of "[]" s xs] assms(1) show ?thesis by simp
qed

section \<open>Errors as values\<close>

text \<open>
  A function that returns an error beside its value gives \<open>Inl\<close> the error or \<open>Inr\<close> the value; a
  loop over a list returns at the first error.
\<close>

definition err_bind :: "'e + 'a \<Rightarrow> ('a \<Rightarrow> 'e + 'b) \<Rightarrow> 'e + 'b" where
  "err_bind m f = (case m of Inl e \<Rightarrow> Inl e | Inr x \<Rightarrow> f x)"

lemma err_bind_simps [simp]: "err_bind (Inl e) f = Inl e" "err_bind (Inr x) f = f x"
  by (simp_all add: err_bind_def)

lemma err_bind_eq_Inr: "err_bind m f = Inr y \<longleftrightarrow> (\<exists>x. m = Inr x \<and> f x = Inr y)"
  by (cases m) auto

lemma err_bind_cong [fundef_cong]:
  "\<lbrakk> m = m'; \<And>x. m' = Inr x \<Longrightarrow> f x = g x \<rbrakk> \<Longrightarrow> err_bind m f = err_bind m' g"
  by (cases m') auto

primrec err_fold :: "('a \<Rightarrow> 's \<Rightarrow> 'e + 's) \<Rightarrow> 'a list \<Rightarrow> 's \<Rightarrow> 'e + 's" where
  "err_fold f [] s = Inr s"
| "err_fold f (x # xs) s = err_bind (f x s) (err_fold f xs)"

lemma err_fold_append: "err_fold f (xs @ ys) s = err_bind (err_fold f xs s) (err_fold f ys)"
proof (induction xs arbitrary: s)
  case (Cons x xs)
  then show ?case by (cases "f x s") auto
qed simp

lemma err_fold_invariant:
  assumes "I [] s" and "\<And>done x s. \<lbrakk> I done s; x \<in> set xs \<rbrakk> \<Longrightarrow> \<exists>s'. f x s = Inr s' \<and> I (done @ [x]) s'"
  shows "\<exists>s'. err_fold f xs s = Inr s' \<and> I xs s'"
proof -
  have "\<exists>s'. err_fold f ys s = Inr s' \<and> I (done @ ys) s'" if "I done s" "set ys \<subseteq> set xs" for "done" ys s
    using that
  proof (induction ys arbitrary: "done" s)
    case (Cons y ys)
    then obtain s' where "f y s = Inr s'" "I (done @ [y]) s'" using assms(2) by (metis insert_subset list.simps(15))
    with Cons.IH [of "done @ [y]" s'] Cons.prems(2) show ?case by simp
  qed simp
  from this [of "[]" s xs] assms(1) show ?thesis by simp
qed

section \<open>Allocations\<close>

text \<open>
  The sizes that \<open>make\<close> accepts on amd64: \<open>n\<close> elements of \<open>esize\<close> bytes within the address space of
  48 bits, of which a channel takes 96 bytes for itself. Beyond that \<open>make\<close> panics; below it, memory
  is supposed to be there.
\<close>

definition make_fits :: "int \<Rightarrow> int \<Rightarrow> bool" where
  "make_fits esize n \<longleftrightarrow> 0 \<le> n \<and> esize * n \<le> 2 ^ 48"

definition chan_fits :: "int \<Rightarrow> int \<Rightarrow> bool" where
  "chan_fits esize n \<longleftrightarrow> 0 \<le> n \<and> esize * n \<le> 2 ^ 48 - 96"

text \<open>\<open>make([]T, n)\<close> with elements \<open>x\<close>.\<close>

definition make_slice :: "int \<Rightarrow> int \<Rightarrow> 'a \<Rightarrow> 'a list go" where
  "make_slice esize n x = (if make_fits esize n then Ret (replicate (nat n) x) else Panic MakeSliceLen)"

section \<open>Slices\<close>

text \<open>Indexing, slicing and writing a Go slice; an index out of range is a panic.\<close>

definition go_index :: "'a list \<Rightarrow> int \<Rightarrow> 'a go" where
  "go_index xs i = (if 0 \<le> i \<and> i < int (length xs) then Ret (xs ! nat i) else Panic IndexOutOfRange)"

definition go_set :: "'a list \<Rightarrow> int \<Rightarrow> 'a \<Rightarrow> 'a list go" where
  "go_set xs i x =
     (if 0 \<le> i \<and> i < int (length xs) then Ret (xs[nat i := x]) else Panic IndexOutOfRange)"

definition go_slice :: "'a list \<Rightarrow> int \<Rightarrow> int \<Rightarrow> 'a list go" where
  "go_slice xs i j =
     (if 0 \<le> i \<and> i \<le> j \<and> j \<le> int (length xs) then Ret (take (nat j - nat i) (drop (nat i) xs))
      else Panic SliceBounds)"

lemma go_index_nat [go_simps]: "i < length xs \<Longrightarrow> go_index xs (int i) = Ret (xs ! i)"
  by (simp add: go_index_def)

lemma go_set_nat [go_simps]: "i < length xs \<Longrightarrow> go_set xs (int i) x = Ret (xs[i := x])"
  by (simp add: go_set_def)

lemma go_slice_nat [go_simps]:
  "i \<le> j \<Longrightarrow> j \<le> length xs \<Longrightarrow> go_slice xs (int i) (int j) = Ret (take (j - i) (drop i xs))"
  by (simp add: go_slice_def)

lemma go_index_member:
  "\<lbrakk> 0 \<le> i; i < int (length xs) \<rbrakk> \<Longrightarrow> \<exists>x \<in> set xs. go_index xs i = Ret x"
  by (simp add: go_index_def)

text \<open>\<open>bs\<close> written over the part of \<open>xs\<close> that ends before position \<open>i\<close>.\<close>

definition put_before :: "'a list \<Rightarrow> nat \<Rightarrow> 'a list \<Rightarrow> 'a list" where
  "put_before xs i bs = take (i - length bs) xs @ bs @ drop i xs"

lemma length_put_before [simp]:
  "length bs \<le> i \<Longrightarrow> i \<le> length xs \<Longrightarrow> length (put_before xs i bs) = length xs"
  by (simp add: put_before_def)

lemma put_before_Nil [simp]: "put_before xs i [] = xs"
  by (simp add: put_before_def)

lemma put_before_put_before:
  assumes "length as + length bs \<le> i" and "i \<le> length xs"
  shows "put_before (put_before xs i bs) (i - length bs) as = put_before xs i (as @ bs)"
proof -
  have "i - length bs - length as = i - (length as + length bs)" by simp
  then show ?thesis using assms by (simp add: put_before_def min_def)
qed

lemma put_before_take:
  "i \<le> length xs \<Longrightarrow> put_before (take i xs) (length (take i xs)) bs @ drop i xs = put_before xs i bs"
  by (simp add: put_before_def min_absorb1 min_absorb2)

lemma put_before_all: "length bs = length xs \<Longrightarrow> put_before xs (length xs) bs = bs"
  by (simp add: put_before_def)

section \<open>Binary search of the standard library\<close>

text \<open>
  \<open>sort.Search(n, f)\<close>: the loop \<open>for i < j { h := (i+j)/2; if !f(h) { i = h+1 } else { j = h } }\<close>.
\<close>

function search_loop :: "(nat \<Rightarrow> bool) \<Rightarrow> nat \<Rightarrow> nat \<Rightarrow> nat" where
  "search_loop f i j =
     (if i < j then
        let h = (i + j) div 2
        in if \<not> f h then search_loop f (h + 1) j else search_loop f i h
      else i)"
  by pat_completeness auto
termination
  by (relation "measure (\<lambda>(f, i, j). j - i)") auto

declare search_loop.simps [simp del]

definition sort_Search :: "nat \<Rightarrow> (nat \<Rightarrow> bool) \<Rightarrow> nat" where
  "sort_Search n f = search_loop f 0 n"

lemma search_loop_stop [simp]: "\<not> i < j \<Longrightarrow> search_loop f i j = i"
  by (simp add: search_loop.simps)

lemma search_loop_bounds: "i \<le> j \<Longrightarrow> i \<le> search_loop f i j \<and> search_loop f i j \<le> j"
proof (induction f i j rule: search_loop.induct)
  case (1 f i j)
  show ?case
  proof (cases "i < j")
    case True
    let ?h = "(i + j) div 2"
    have "i \<le> ?h" "?h < j" using True by auto
    with 1 True show ?thesis
      by (cases "f ?h") (fastforce simp: search_loop.simps [of f i j] Let_def)+
  next
    case False
    with "1.prems" show ?thesis by simp
  qed
qed

lemma search_loop_boundary:
  assumes "i \<le> j" and "\<And>k. k < i \<Longrightarrow> \<not> f k" and "\<And>k. j \<le> k \<Longrightarrow> k < n \<Longrightarrow> f k"
    and mono: "\<And>a b. \<lbrakk> a \<le> b; b < n; f a \<rbrakk> \<Longrightarrow> f b" and "j \<le> n"
  shows "(\<forall>k < search_loop f i j. \<not> f k) \<and> (\<forall>k. search_loop f i j \<le> k \<longrightarrow> k < n \<longrightarrow> f k)"
  using assms
proof (induction f i j rule: search_loop.induct)
  case (1 f i j)
  show ?case
  proof (cases "i < j")
    case True
    define h where "h = (i + j) div 2"
    have h: "i \<le> h" "h < j" using True by (auto simp: h_def)
    show ?thesis
    proof (cases "f h")
      case fh: True
      have hn: "f k" if "h \<le> k" "k < n" for k
        using "1.prems"(4) [OF that(1) that(2) fh] .
      have "(\<forall>k < search_loop f i h. \<not> f k) \<and> (\<forall>k. search_loop f i h \<le> k \<longrightarrow> k < n \<longrightarrow> f k)"
        by (rule "1.IH"(2) [OF True h_def]) (use fh h "1.prems" hn in \<open>auto\<close>)
      with True fh show ?thesis
        by (simp add: search_loop.simps [of f i j] h_def Let_def)
    next
      case nfh: False
      have low: "\<not> f k" if "k < h + 1" for k
      proof
        assume "f k"
        with "1.prems"(4) [of k h] that h \<open>j \<le> n\<close> have "f h" by linarith
        with nfh show False ..
      qed
      have "(\<forall>k < search_loop f (h + 1) j. \<not> f k)
          \<and> (\<forall>k. search_loop f (h + 1) j \<le> k \<longrightarrow> k < n \<longrightarrow> f k)"
        by (rule "1.IH"(1) [OF True h_def]) (use nfh h "1.prems" low in \<open>auto\<close>)
      with True nfh show ?thesis
        by (simp add: search_loop.simps [of f i j] h_def Let_def)
    qed
  next
    case False
    with "1.prems" show ?thesis by auto
  qed
qed

text \<open>On a monotone test, the search returns the boundary.\<close>

lemma sort_Search_boundary:
  assumes "\<forall>a b. a \<le> b \<longrightarrow> b < n \<longrightarrow> f a \<longrightarrow> f b"
  shows "k < sort_Search n f \<Longrightarrow> \<not> f k"
    and "\<lbrakk> sort_Search n f \<le> k; k < n \<rbrakk> \<Longrightarrow> f k"
    and "sort_Search n f \<le> n"
  using search_loop_boundary [of 0 n f n] search_loop_bounds [of 0 n f] assms
  by (auto simp: sort_Search_def)

end
