(* ===== verification/GroupVarint.thy ===== *)
theory GroupVarint
  imports Prelude
begin

text \<open>
  The interface to \<open>github.com/dgryski/go-groupvarint\<close>, which bitmap/codec.go calls and which
  is not part of the repository: \<open>Encode4\<close> packs four uint32 values into at most 17 bytes,
  \<open>Decode4\<close> reads them back from a slice of at least 17 bytes, and the table \<open>BytesUsed\<close>
  gives the length of a group from its first byte. The laws of the locale are what the codec
  relies on. The theory ends with a provider: the group varint format (a header byte of four
  two-bit length codes, then the values in little-endian order), which shows that the laws can
  be met.
\<close>

locale group_varint =
  fixes Encode4 :: "u32 list \<Rightarrow> byte list"
    and Decode4 :: "byte list \<Rightarrow> u32 list"
    and BytesUsed :: "byte \<Rightarrow> nat"
  assumes Encode4_nonempty: "length us = 4 \<Longrightarrow> Encode4 us \<noteq> []"
    and BytesUsed_Encode4: "length us = 4 \<Longrightarrow> BytesUsed (hd (Encode4 us)) = length (Encode4 us)"
    and BytesUsed_le: "BytesUsed b \<le> 17"
    and Decode4_Encode4:
      "\<lbrakk> length us = 4; 17 \<le> length (Encode4 us @ rest) \<rbrakk> \<Longrightarrow> Decode4 (Encode4 us @ rest) = us"

section \<open>A provider: the group varint format\<close>

fun le_bytes :: "nat \<Rightarrow> nat \<Rightarrow> byte list" where
  "le_bytes 0 v = []"
| "le_bytes (Suc n) v = of_nat v # le_bytes n (v div 256)"

fun le_val :: "byte list \<Rightarrow> nat" where
  "le_val [] = 0"
| "le_val (b # bs) = unat b + 256 * le_val bs"

lemma length_le_bytes [simp]: "length (le_bytes n v) = n"
  by (induction n arbitrary: v) auto

lemma le_val_le_bytes: "v < 256 ^ n \<Longrightarrow> le_val (le_bytes n v) = v"
  by (induction n arbitrary: v) (auto simp: unat_of_nat less_mult_imp_div_less mult.commute)

text \<open>The two-bit length code of a value: its number of bytes, less one.\<close>

definition gv_code :: "u32 \<Rightarrow> nat" where
  "gv_code u = (if unat u < 256 then 0 else if unat u < 65536 then 1
     else if unat u < 16777216 then 2 else 3)"

definition gv_part :: "u32 \<Rightarrow> byte list" where
  "gv_part u = le_bytes (Suc (gv_code u)) (unat u)"

fun gv_header :: "nat list \<Rightarrow> nat" where
  "gv_header [] = 0"
| "gv_header (c # cs) = c + 4 * gv_header cs"

fun gv_codes :: "nat \<Rightarrow> nat \<Rightarrow> nat list" where
  "gv_codes 0 h = []"
| "gv_codes (Suc k) h = h mod 4 # gv_codes k (h div 4)"

fun gv_parts :: "nat list \<Rightarrow> byte list \<Rightarrow> u32 list" where
  "gv_parts [] bs = []"
| "gv_parts (c # cs) bs = of_nat (le_val (take (Suc c) bs)) # gv_parts cs (drop (Suc c) bs)"

definition gv_Encode4 :: "u32 list \<Rightarrow> byte list" where
  "gv_Encode4 us = of_nat (gv_header (map gv_code us)) # concat (map gv_part us)"

definition gv_Decode4 :: "byte list \<Rightarrow> u32 list" where
  "gv_Decode4 bs = gv_parts (gv_codes 4 (unat (hd bs))) (tl bs)"

definition gv_BytesUsed :: "byte \<Rightarrow> nat" where
  "gv_BytesUsed h = 1 + sum_list (map Suc (gv_codes 4 (unat h)))"

lemma gv_code_le: "gv_code u \<le> 3"
  by (simp add: gv_code_def)

lemma unat_lt_gv_code: "unat (u :: u32) < 256 ^ Suc (gv_code u)"
  using unsigned_less [of u, where ?'a = nat] by (simp add: gv_code_def)

lemma gv_codes_header: "\<lbrakk> \<forall>c \<in> set cs. c \<le> 3; length cs = k \<rbrakk> \<Longrightarrow> gv_codes k (gv_header cs) = cs"
  by (induction cs arbitrary: k) (auto simp: less_Suc_eq_le)

lemma gv_codes_le: "c \<in> set (gv_codes k h) \<Longrightarrow> c \<le> 3"
  by (induction k arbitrary: h) auto

lemma gv_codes_sum: "sum_list (map Suc (gv_codes k h)) \<le> 4 * k"
proof (induction k arbitrary: h)
  case (Suc k)
  have "Suc (h mod 4) \<le> 4" by (simp add: Suc_le_eq)
  with Suc.IH [of "h div 4"] show ?case by simp
qed simp

lemma gv_header_lt: "\<forall>c \<in> set cs. c \<le> 3 \<Longrightarrow> gv_header cs < 4 ^ length cs"
  by (induction cs) auto

lemma gv_header_byte:
  assumes "length us = 4"
  shows "unat (of_nat (gv_header (map gv_code us)) :: byte) = gv_header (map gv_code us)"
proof -
  have "gv_header (map gv_code us) < 4 ^ 4"
    using gv_header_lt [of "map gv_code us"] gv_code_le assms by auto
  then show ?thesis by (simp add: unat_of_nat)
qed

lemma gv_codes_Encode4:
  "length us = 4 \<Longrightarrow> gv_codes 4 (unat (of_nat (gv_header (map gv_code us)) :: byte)) = map gv_code us"
  by (simp add: gv_header_byte gv_codes_header gv_code_le)

lemma gv_parts_concat:
  "gv_parts (map gv_code us) (concat (map gv_part us) @ rest) = us"
  by (induction us) (simp_all add: gv_part_def le_val_le_bytes unat_lt_gv_code del: le_bytes.simps power_Suc)

lemma length_gv_parts: "length (concat (map gv_part us)) = sum_list (map Suc (map gv_code us))"
  by (induction us) (auto simp: gv_part_def)

interpretation gv: group_varint gv_Encode4 gv_Decode4 gv_BytesUsed
proof unfold_locales
  fix us :: "u32 list" and rest assume "length us = 4"
  then show "gv_BytesUsed (hd (gv_Encode4 us)) = length (gv_Encode4 us)"
    by (simp add: gv_BytesUsed_def gv_Encode4_def gv_codes_Encode4 length_gv_parts)
next
  fix b :: byte
  show "gv_BytesUsed b \<le> 17"
    using gv_codes_sum [of 4 "unat b"] by (simp add: gv_BytesUsed_def)
next
  fix us :: "u32 list" and rest assume "length us = 4"
  then show "gv_Decode4 (gv_Encode4 us @ rest) = us"
    by (simp add: gv_Decode4_def gv_Encode4_def gv_codes_Encode4 gv_parts_concat)
qed (simp add: gv_Encode4_def)

end
