(* ===== verification/Varint.thy ===== *)
theory Varint
  imports Prelude
begin

unbundle bit_operations_syntax

text \<open>
  The base-128 varints of the standard library's \<open>encoding/binary\<close>: \<open>PutUvarint\<close> and
  \<open>Uvarint\<close>, which bitmap/codec.go uses for its delta buffers and whose byte format the
  protobuf code of bitmap/pb.pb.go writes too, with the round trip between them.
\<close>

section \<open>Writing\<close>

lemma unat_drop7: "unat (drop_bit 7 (x :: 'a::len word)) = unat x div 128"
proof -
  have "unat (drop_bit 7 x) = drop_bit 7 (unat x)" by (rule unat_drop_bit_eq)
  then show ?thesis by (simp add: drop_bit_eq_div [of 7 "unat x"])
qed

function put_uvarint :: "u64 \<Rightarrow> byte list" where
  "put_uvarint x =
     (if 0x80 \<le> x then (ucast x OR 0x80) # put_uvarint (drop_bit 7 x) else [ucast x])"
  by pat_completeness auto
termination
proof (relation "measure unat")
  fix x :: u64 assume "0x80 \<le> x"
  then have "0 < unat x" by (simp add: word_le_nat_alt)
  then show "(drop_bit 7 x, x) \<in> measure unat"
    by (simp add: unat_drop7)
qed simp

declare put_uvarint.simps [simp del]

lemma put_uvarint_last: "\<not> 0x80 \<le> x \<Longrightarrow> put_uvarint x = [ucast x]"
  by (simp add: put_uvarint.simps)

lemma put_uvarint_more:
  "0x80 \<le> x \<Longrightarrow> put_uvarint x = (ucast x OR 0x80) # put_uvarint (drop_bit 7 x)"
  by (simp add: put_uvarint.simps)

lemma put_uvarint_nonempty [simp]: "put_uvarint x \<noteq> []"
  by (cases "0x80 \<le> x") (simp_all add: put_uvarint_last put_uvarint_more)

section \<open>Reading\<close>

text \<open>
  \<open>binary.Uvarint\<close> returns the value and the number of bytes read; the count is 0 when the
  buffer ends inside the number and negative when the number does not fit 64 bits.
\<close>

fun uvarint_loop :: "nat \<Rightarrow> u64 \<Rightarrow> nat \<Rightarrow> byte list \<Rightarrow> u64 \<times> int" where
  "uvarint_loop i x s [] = (0, 0)"
| "uvarint_loop i x s (b # bs) =
     (if i = 10 then (0, - (int i + 1))
      else if b < 0x80 then
        (if i = 9 \<and> 1 < b then (0, - (int i + 1))
         else (x OR push_bit s (ucast b), int i + 1))
      else uvarint_loop (i + 1) (x OR push_bit s (ucast (b AND 0x7f))) (s + 7) bs)"

definition uvarint :: "byte list \<Rightarrow> u64 \<times> int" where
  "uvarint bs = uvarint_loop 0 0 0 bs"

section \<open>Bits of a varint byte\<close>

lemma mask7_numeral: "(0x7f :: 'a::len word) = mask 7"
  by (simp add: mask_eq_exp_minus_1)

lemma bit_0x80: "bit (0x80 :: byte) n \<longleftrightarrow> n = 7"
proof -
  have "(0x80 :: byte) = 2 ^ 7" by simp
  then show ?thesis by (simp only: bit_exp_iff) auto
qed

lemma cont_byte_ge: "\<not> ((x OR 0x80) :: byte) < 0x80"
  by (metis le_word_or2 not_less or.commute)

lemma cont_byte_payload:
  "ucast (((ucast x OR 0x80) :: byte) AND 0x7f) = ((ucast (x :: u64) :: 'a::len word) AND 0x7f)"
  unfolding mask7_numeral
  by (rule bit_word_eqI)
    (auto simp only: bit_unsigned_iff bit_and_iff bit_or_iff bit_mask_iff bit_0x80 possible_bit_word,
      simp_all)

lemma last_byte_less: "\<not> 0x80 \<le> x \<Longrightarrow> (ucast (x :: u64) :: byte) < 0x80"
  by (simp add: word_less_nat_alt word_le_nat_alt unsigned_ucast_eq take_bit_nat_eq_self)

lemma small_bits: "\<lbrakk> \<not> 0x80 \<le> (x :: u64); bit x n \<rbrakk> \<Longrightarrow> n < 7"
proof -
  assume "\<not> 0x80 \<le> x" and b: "bit x n"
  then have less: "unat x < 2 ^ 7" by (simp add: word_le_nat_alt)
  from b have "bit (unat x) n" by (simp add: bit_unsigned_iff)
  then have "2 ^ n \<le> unat x"
    by (metis bit_iff_odd div_less even_zero not_le)
  with less have "(2 :: nat) ^ n < 2 ^ 7" by linarith
  then show ?thesis by (rule power_less_imp_less_exp [rotated]) simp
qed

lemma last_byte_value:
  "\<not> 0x80 \<le> x \<Longrightarrow> (ucast (ucast (x :: u64) :: byte) :: 'a::len word) = ucast x"
  by (rule bit_word_eqI) (auto simp: bit_simps dest: small_bits)

lemma split7:
  "(z OR push_bit s (x AND 0x7f)) OR push_bit (s + 7) (drop_bit 7 x) = z OR push_bit s (x :: 'a::len word)"
proof -
  have idx: "7 + (n - (s + 7)) = n - s" if "\<not> n - s < 7" for n :: nat
    using that by arith
  show ?thesis
    unfolding mask7_numeral
    by (rule bit_word_eqI) (use idx in \<open>fastforce simp: bit_simps\<close>)
qed

section \<open>The round trip\<close>

lemma uvarint_loop_put_uvarint:
  "\<lbrakk> unat v * 2 ^ (7 * i) < 2 ^ 64; i \<le> 9 \<rbrakk> \<Longrightarrow>
   uvarint_loop i x (7 * i) (put_uvarint v @ rest)
     = (x OR push_bit (7 * i) v, int (i + length (put_uvarint v)))"
proof (induction v arbitrary: i x rule: put_uvarint.induct)
  case (1 v)
  show ?case
  proof (cases "0x80 \<le> v")
    case True
    then have "128 \<le> unat v" by (simp add: word_le_nat_alt)
    then have "2 ^ 7 * 2 ^ (7 * i) \<le> unat v * 2 ^ (7 * i)" by simp
    with "1.prems"(1) have "2 ^ 7 * 2 ^ (7 * i) < (2 :: nat) ^ 64" by (rule le_less_trans [rotated])
    then have "(2 :: nat) ^ (7 + 7 * i) < 2 ^ 64" by (simp only: power_add)
    then have "7 + 7 * i < 64" using power_less_imp_less_exp [of "2 :: nat" "7 + 7 * i" 64] by simp
    then have i: "i \<le> 8" by simp
    have "unat (drop_bit 7 v) * 2 ^ (7 * Suc i) = (unat v div 128 * 128) * 2 ^ (7 * i)"
      by (simp add: unat_drop7 power_add)
    also have "\<dots> \<le> unat v * 2 ^ (7 * i)" by simp
    finally have small: "unat (drop_bit 7 v) * 2 ^ (7 * Suc i) < 2 ^ 64"
      using "1.prems"(1) by linarith
    have "uvarint_loop (Suc i) (x OR push_bit (7 * i) (v AND 0x7f)) (7 * Suc i) (put_uvarint (drop_bit 7 v) @ rest)
      = (x OR push_bit (7 * i) v, int (Suc i + length (put_uvarint (drop_bit 7 v))))"
      using "1.IH" [OF True small, of "x OR push_bit (7 * i) (v AND 0x7f)"] i split7 [of x "7 * i" v]
      by (simp add: add.commute)
    with True i show ?thesis
      by (simp add: put_uvarint_more cont_byte_ge cont_byte_payload add.commute)
  next
    case False
    have "\<not> 1 < (ucast v :: byte)" if "i = 9"
    proof -
      from that "1.prems"(1) have "unat v < 2" by simp
      then show ?thesis
        by (simp add: word_less_nat_alt unsigned_ucast_eq take_bit_nat_eq_self)
    qed
    with False "1.prems"(2) show ?thesis
      by (auto simp: put_uvarint_last last_byte_less last_byte_value)
  qed
qed

theorem uvarint_put_uvarint:
  "uvarint (put_uvarint v @ rest) = (v, int (length (put_uvarint v)))"
  using uvarint_loop_put_uvarint [of v 0 0 rest] unsigned_less [of v, where ?'a = nat]
  by (simp add: uvarint_def)

lemma length_put_uvarint_aux:
  "unat v < 2 ^ (7 * k) \<Longrightarrow> 0 < k \<Longrightarrow> length (put_uvarint v) \<le> k"
proof (induction v arbitrary: k rule: put_uvarint.induct)
  case (1 v)
  show ?case
  proof (cases "0x80 \<le> v")
    case True
    then have "128 \<le> unat v" by (simp add: word_le_nat_alt)
    moreover obtain j where k: "k = Suc j" using "1.prems"(2) by (cases k) auto
    ultimately have "0 < j" using "1.prems"(1) by (cases j) auto
    moreover have "unat (drop_bit 7 v) < 2 ^ (7 * j)"
      using "1.prems"(1) k by (simp add: unat_drop7 power_add less_mult_imp_div_less mult.commute)
    ultimately have "length (put_uvarint (drop_bit 7 v)) \<le> j" using "1.IH" [OF True] by blast
    with True k show ?thesis by (simp add: put_uvarint_more)
  next
    case False
    with "1.prems"(2) show ?thesis by (simp add: put_uvarint_last)
  qed
qed

lemma length_put_uvarint: "length (put_uvarint v) \<le> 10"
proof -
  have "unat v < 2 ^ (7 * 10)" using unsigned_less [of v, where ?'a = nat] by simp
  then show ?thesis by (rule length_put_uvarint_aux) simp
qed

end
