(* ===== verification/UidCodec.thy ===== *)
theory UidCodec
  imports GroupVarint Varint
begin

unbundle bit_operations_syntax

text \<open>
  bitmap/codec.go: the encoder that packs a list of uint64 uids into blocks (a base and
  group-varint coded deltas) and the decoder that reads and seeks them.
  \<open>github.com/dgryski/go-groupvarint\<close> is the three parameters \<open>Encode4\<close>, \<open>Decode4\<close>,
  \<open>BytesUsed\<close> with the laws of the locale \<open>group_varint\<close>; of the allocator of
  \<open>ristretto/v2/z\<close> only the reference number matters, which is the parameter \<open>ref\<close>; it is supposed to
  give the memory it is asked for.
\<close>

section \<open>State\<close>

record uid_block =
  Base :: u64
  Deltas :: "byte list"
  NumUids :: u32

text \<open>
  \<open>UidPack.Blocks\<close> is a slice of pointers. The codec makes and reads packs without nil pointers, whose
  blocks are the blocks themselves; the messages of pb.pb.go are over \<open>uid_block option\<close>.
\<close>

record 'b UidPack =
  BlockSize :: u32
  Blocks :: "'b list"
  AllocRef :: u64

type_synonym uid_pack = "uid_block UidPack"

record encoder =
  eBlockSize :: int
  epack :: "uid_pack option"
  euids :: "u64 list"
  eAlloc :: "u64 option"
  ebuf :: "byte list option"

record decoder =
  dPack :: "uid_pack option"
  dblockIdx :: nat
  duids :: "u64 list"

datatype seekPos = SeekStart | SeekCurrent

definition bitMask :: u64 where
  "bitMask = 0xffffffff00000000"

definition match32MSB :: "u64 \<Rightarrow> u64 \<Rightarrow> bool" where
  "match32MSB num1 num2 \<longleftrightarrow> num1 AND bitMask = num2 AND bitMask"

section \<open>The encoder\<close>

text \<open>
  The inner loop \<open>for i := 0; i < 4; i++\<close> of \<open>packBlock\<close>: up to four deltas from the pending
  uids, padded with 0, and the uid the last delta leads to; \<open>prev\<close> is the source's \<open>last\<close>.
\<close>

fun fill_tmp :: "nat \<Rightarrow> u64 \<Rightarrow> u64 list \<Rightarrow> u32 list \<times> u64" where
  "fill_tmp 0 prev us = ([], prev)"
| "fill_tmp (Suc k) prev [] = (let (ds, l) = fill_tmp k prev [] in (0 # ds, l))"
| "fill_tmp (Suc k) prev (u # us) = (let (ds, l) = fill_tmp k u us in (ucast (u - prev) # ds, l))"

fun pack_deltas :: "(u32 list \<Rightarrow> byte list) \<Rightarrow> u64 \<Rightarrow> u64 list \<Rightarrow> byte list" where
  "pack_deltas Encode4 prev us =
     (let (tmpUids, prev') = fill_tmp 4 prev us;
          data = Encode4 tmpUids
      in if length us \<le> 4 then data else data @ pack_deltas Encode4 prev' (drop 4 us))"

declare pack_deltas.simps [simp del]

definition packBlock :: "(u32 list \<Rightarrow> byte list) \<Rightarrow> encoder \<Rightarrow> encoder go" where
  "packBlock Encode4 e =
     (case euids e of
        [] \<Rightarrow> Ret e
      | base # rest \<Rightarrow>
          (case (eAlloc e, ebuf e, epack e) of
             (Some _, Some _, Some pack) \<Rightarrow>
               (let deltas = pack_deltas Encode4 base rest;
                    block = \<lparr>Base = base, Deltas = deltas, NumUids = of_nat (length (euids e))\<rparr>
                in Ret (e\<lparr>euids := [], ebuf := Some deltas,
                          epack := Some (pack\<lparr>Blocks := Blocks pack @ [block]\<rparr>)\<rparr>))
           | _ \<Rightarrow> Panic NilDeref))"

definition Add :: "(u32 list \<Rightarrow> byte list) \<Rightarrow> u64 \<Rightarrow> u64 \<Rightarrow> encoder \<Rightarrow> encoder go" where
  "Add Encode4 ref uid e =
     (let e = (if epack e = None
               then e\<lparr>epack := Some \<lparr>BlockSize = word_of_int (eBlockSize e), Blocks = [], AllocRef = 0\<rparr>,
                      ebuf := Some []\<rparr>
               else e);
          e = (if eAlloc e = None then e\<lparr>eAlloc := Some ref\<rparr> else e)
      in go_bind
           (if euids e \<noteq> [] \<and> \<not> match32MSB (last (euids e)) uid
            then go_bind (packBlock Encode4 e) (\<lambda>e. Ret (e\<lparr>euids := []\<rparr>))
            else Ret e)
           (\<lambda>e. let e = e\<lparr>euids := euids e @ [uid]\<rparr>
                in if eBlockSize e \<le> int (length (euids e))
                   then go_bind (packBlock Encode4 e) (\<lambda>e. Ret (e\<lparr>euids := []\<rparr>))
                   else Ret e))"

definition Done :: "(u32 list \<Rightarrow> byte list) \<Rightarrow> encoder \<Rightarrow> uid_pack option go" where
  "Done Encode4 e =
     go_bind (packBlock Encode4 e)
       (\<lambda>e. Ret (case (epack e, eAlloc e) of
                   (Some pack, Some ref) \<Rightarrow> Some (pack\<lparr>AllocRef := ref\<rparr>)
                 | _ \<Rightarrow> epack e))"

definition new_encoder :: "int \<Rightarrow> encoder" where
  "new_encoder blockSize =
     \<lparr>eBlockSize = blockSize, epack = None, euids = [], eAlloc = None, ebuf = None\<rparr>"

definition Encode :: "(u32 list \<Rightarrow> byte list) \<Rightarrow> u64 \<Rightarrow> u64 list \<Rightarrow> int \<Rightarrow> uid_pack option go" where
  "Encode Encode4 ref uids blockSize =
     go_bind (go_fold (Add Encode4 ref) uids (new_encoder blockSize)) (Done Encode4)"

text \<open>
  \<open>EncodeFromBuffer\<close>: reads varint deltas and adds the running sum. A negative count makes the
  slice expression \<open>buf[n:]\<close> panic; a count of 0 leaves the buffer as it was, so the loop need
  not end and the model is a partial function.
\<close>

partial_function (option) encode_buffer_loop ::
  "(u32 list \<Rightarrow> byte list) \<Rightarrow> u64 \<Rightarrow> byte list \<Rightarrow> u64 \<Rightarrow> encoder \<Rightarrow> encoder go option" where
  "encode_buffer_loop Encode4 ref buf prev enc =
     (if buf = [] then Some (Ret enc)
      else let uid = fst (uvarint buf); n = snd (uvarint buf)
           in if n < 0 then Some (Panic SliceBounds)
              else let next = prev + uid
                   in case Add Encode4 ref next enc of
                        Panic p \<Rightarrow> Some (Panic p)
                      | Hang \<Rightarrow> Some Hang
                      | Ret enc \<Rightarrow> encode_buffer_loop Encode4 ref (drop (nat n) buf) next enc)"

definition EncodeFromBuffer :: "(u32 list \<Rightarrow> byte list) \<Rightarrow> u64 \<Rightarrow> byte list \<Rightarrow> int \<Rightarrow> uid_pack option go" where
  "EncodeFromBuffer Encode4 ref buf blockSize =
     go_bind (may_hang (encode_buffer_loop Encode4 ref buf 0 (new_encoder blockSize))) (Done Encode4)"

text \<open>\<open>FreePack\<close>: the reference of the allocator that is released, if one is.\<close>

definition FreePack :: "uid_pack option \<Rightarrow> u64 option" where
  "FreePack pack =
     (case pack of None \<Rightarrow> None | Some p \<Rightarrow> if AllocRef p = 0 then None else Some (AllocRef p))"

definition CopyUidPack :: "uid_pack option \<Rightarrow> uid_pack option" where
  "CopyUidPack pack =
     (case pack of
        None \<Rightarrow> None
      | Some p \<Rightarrow> Some \<lparr>BlockSize = BlockSize p,
          Blocks = map (\<lambda>b. \<lparr>Base = Base b, Deltas = Deltas b, NumUids = NumUids b\<rparr>) (Blocks p),
          AllocRef = 0\<rparr>)"

definition ApproxLen :: "uid_pack option \<Rightarrow> int" where
  "ApproxLen pack =
     (case pack of None \<Rightarrow> 0 | Some p \<Rightarrow> wrap64 (int (length (Blocks p)) * uint (BlockSize p)))"

definition ExactLen :: "uid_pack option \<Rightarrow> int" where
  "ExactLen pack =
     (case pack of
        None \<Rightarrow> 0
      | Some p \<Rightarrow> if Blocks p = [] then 0 else fold (\<lambda>b num. num + uint (NumUids b)) (Blocks p) 0)"

section \<open>The decoder\<close>

text \<open>The loop \<open>for i := 0; i < 4; i++\<close> of \<open>UnpackBlock\<close>: the running sums of the deltas.\<close>

fun add_deltas :: "u64 \<Rightarrow> u32 list \<Rightarrow> u64 list" where
  "add_deltas prev [] = []"
| "add_deltas prev (t # ts) = (let sum = prev + ucast t in sum # add_deltas sum ts)"

text \<open>
  The loop of \<open>UnpackBlock\<close>. It compares the length as a uint32, which wraps; it may
  therefore run forever for a count within four of \<open>2 ^ 32\<close>, and the model is a partial
  function.
\<close>

partial_function (option) unpack_loop ::
  "(byte list \<Rightarrow> u32 list) \<Rightarrow> (byte \<Rightarrow> nat) \<Rightarrow> u32 \<Rightarrow> u64 \<Rightarrow> byte list \<Rightarrow> u64 list \<Rightarrow> u64 list go option"
  where
  "unpack_loop Decode4 BytesUsed numUids prev encData uids =
     (if (of_nat (length uids) :: u32) < numUids then
        let encData = (if length encData < 17
                       then encData @ replicate (17 - length encData) 0 else encData);
            sums = add_deltas prev (Decode4 encData);
            used = BytesUsed (hd encData)
        in if length encData < used then Some (Panic SliceBounds)
           else unpack_loop Decode4 BytesUsed numUids (last (prev # sums))
                  (drop used encData) (uids @ sums)
      else Some (Ret uids))"

definition UnpackBlock ::
  "(byte list \<Rightarrow> u32 list) \<Rightarrow> (byte \<Rightarrow> nat) \<Rightarrow> decoder \<Rightarrow> (u64 list \<times> decoder) go" where
  "UnpackBlock Decode4 BytesUsed d =
     (case dPack d of
        None \<Rightarrow> Panic NilDeref
      | Some pack \<Rightarrow>
          if length (Blocks pack) \<le> dblockIdx d then Ret ([], d\<lparr>duids := []\<rparr>)
          else let block = Blocks pack ! dblockIdx d
               in case unpack_loop Decode4 BytesUsed (NumUids block) (Base block) (Deltas block) [Base block] of
                    None \<Rightarrow> Hang
                  | Some r \<Rightarrow> go_bind r (\<lambda>us.
                      let us = take (unat (NumUids block)) us
                      in Ret (us, d\<lparr>duids := us\<rparr>)))"

definition Next ::
  "(byte list \<Rightarrow> u32 list) \<Rightarrow> (byte \<Rightarrow> nat) \<Rightarrow> decoder \<Rightarrow> (u64 list \<times> decoder) go" where
  "Next Decode4 BytesUsed d = UnpackBlock Decode4 BytesUsed (d\<lparr>dblockIdx := dblockIdx d + 1\<rparr>)"

definition Valid :: "decoder \<Rightarrow> bool go" where
  "Valid d = (case dPack d of None \<Rightarrow> Panic NilDeref
     | Some pack \<Rightarrow> Ret (dblockIdx d < length (Blocks pack)))"

definition Decoder_ApproxLen :: "decoder option \<Rightarrow> int" where
  "Decoder_ApproxLen d =
     (case d of None \<Rightarrow> 0
      | Some d \<Rightarrow> (case dPack d of None \<Rightarrow> 0
         | Some pack \<Rightarrow> wrap64 (uint (BlockSize pack) * (int (length (Blocks pack)) - int (dblockIdx d)))))"

fun seek_test :: "seekPos \<Rightarrow> u64 \<Rightarrow> u64 \<Rightarrow> bool" where
  "seek_test SeekStart uid x \<longleftrightarrow> uid \<le> x"
| "seek_test SeekCurrent uid x \<longleftrightarrow> uid < x"

definition Seek ::
  "(byte list \<Rightarrow> u32 list) \<Rightarrow> (byte \<Rightarrow> nat) \<Rightarrow> u64 \<Rightarrow> seekPos \<Rightarrow> decoder \<Rightarrow> (u64 list \<times> decoder) go"
  where
  "Seek Decode4 BytesUsed uid whence d =
     (case dPack d of
        None \<Rightarrow> Ret ([], d)
      | Some pack \<Rightarrow>
          let d = d\<lparr>dblockIdx := 0\<rparr>
          in if uid = 0 then UnpackBlock Decode4 BytesUsed d
             else
               let idx = sort_Search (length (Blocks pack))
                           (\<lambda>i. seek_test whence uid (Base (Blocks pack ! i)))
               in if idx = 0 then UnpackBlock Decode4 BytesUsed d
                  else if idx < length (Blocks pack) \<and> Base (Blocks pack ! idx) = uid
                  then UnpackBlock Decode4 BytesUsed (d\<lparr>dblockIdx := idx\<rparr>)
                  else
                    go_bind (UnpackBlock Decode4 BytesUsed (d\<lparr>dblockIdx := idx - 1\<rparr>))
                      (\<lambda>(us, d).
                        let uidx = sort_Search (length us) (\<lambda>i. seek_test whence uid (us ! i))
                        in if uidx < length us
                           then Ret (drop uidx us, d\<lparr>duids := drop uidx us\<rparr>)
                           else Next Decode4 BytesUsed d))"

definition NewDecoder ::
  "(byte list \<Rightarrow> u32 list) \<Rightarrow> (byte \<Rightarrow> nat) \<Rightarrow> uid_pack option \<Rightarrow> decoder go" where
  "NewDecoder Decode4 BytesUsed pack =
     go_bind (Seek Decode4 BytesUsed 0 SeekStart \<lparr>dPack = pack, dblockIdx = 0, duids = []\<rparr>)
       (\<lambda>(_, d). Ret d)"

definition PeekNextBase :: "decoder \<Rightarrow> u64 go" where
  "PeekNextBase d =
     (case dPack d of
        None \<Rightarrow> Panic NilDeref
      | Some pack \<Rightarrow>
          let bidx = dblockIdx d + 1
          in Ret (if bidx < length (Blocks pack) then Base (Blocks pack ! bidx) else - 1))"

text \<open>
  The \<open>for\<close> loop of \<open>LinearSeek\<close>. Past the last block \<open>PeekNextBase\<close> returns
  \<open>math.MaxUint64\<close>, so the loop does not end when that is the uid sought (until the 64-bit
  index itself overflows, which the model does not follow).
\<close>

partial_function (option) linear_seek_loop :: "u64 \<Rightarrow> decoder \<Rightarrow> decoder go option" where
  "linear_seek_loop seek d =
     (case PeekNextBase d of
        Panic p \<Rightarrow> Some (Panic p)
      | Hang \<Rightarrow> Some Hang
      | Ret v \<Rightarrow> if seek < v then Some (Ret d)
                 else linear_seek_loop seek (d\<lparr>dblockIdx := dblockIdx d + 1\<rparr>))"

definition LinearSeek ::
  "(byte list \<Rightarrow> u32 list) \<Rightarrow> (byte \<Rightarrow> nat) \<Rightarrow> u64 \<Rightarrow> decoder \<Rightarrow> (u64 list \<times> decoder) go" where
  "LinearSeek Decode4 BytesUsed seek d =
     (case linear_seek_loop seek d of
        None \<Rightarrow> Hang
      | Some r \<Rightarrow> go_bind r (UnpackBlock Decode4 BytesUsed))"

text \<open>
  The loop \<open>for uids := dec.Seek(..); len(uids) > 0; uids = dec.Next()\<close> of \<open>Decode\<close> and
  \<open>DecodeToBuffer\<close>, with the statements of its body as the parameter \<open>body\<close>. It ends because
  every non-empty result comes from a block and \<open>Next\<close> moves to a later one.
\<close>

lemma UnpackBlock_frame:
  assumes "UnpackBlock Decode4 BytesUsed d = Ret (us, d')"
  shows "dPack d' = dPack d" "dblockIdx d' = dblockIdx d"
    and "us \<noteq> [] \<Longrightarrow> \<exists>pack. dPack d = Some pack \<and> dblockIdx d < length (Blocks pack)"
  using assms
  by (auto simp: UnpackBlock_def Let_def go_simps split: option.splits if_splits)

definition blocks_left :: "u64 list \<Rightarrow> decoder \<Rightarrow> nat" where
  "blocks_left us d =
     (if us = [] then 0
      else Suc (case dPack d of None \<Rightarrow> 0 | Some pack \<Rightarrow> length (Blocks pack) - dblockIdx d))"

lemma blocks_left_Next:
  assumes "us \<noteq> []" and "Next Decode4 BytesUsed d = Ret (us', d')"
  shows "blocks_left us' d' < blocks_left us d"
  using assms UnpackBlock_frame [OF assms(2) [unfolded Next_def]]
  by (auto simp: blocks_left_def)

function for_blocks ::
  "(byte list \<Rightarrow> u32 list) \<Rightarrow> (byte \<Rightarrow> nat) \<Rightarrow> (u64 list \<Rightarrow> 's \<Rightarrow> 's go) \<Rightarrow> u64 list \<Rightarrow> decoder \<Rightarrow> 's \<Rightarrow> 's go"
  where
  "for_blocks Decode4 BytesUsed body uids dec s =
     (if uids = [] then Ret s
      else go_bind (body uids s) (\<lambda>s.
             go_bind (Next Decode4 BytesUsed dec)
               (\<lambda>(uids', dec'). for_blocks Decode4 BytesUsed body uids' dec' s)))"
  by pat_completeness auto
termination
  by (relation "measure (\<lambda>(_, _, _, us, d, _). blocks_left us d)") (auto dest: blocks_left_Next)

declare for_blocks.simps [simp del]

text \<open>\<open>Decode\<close> first reserves room for \<open>ApproxLen\<close> uids.\<close>

definition Decode ::
  "(byte list \<Rightarrow> u32 list) \<Rightarrow> (byte \<Rightarrow> nat) \<Rightarrow> uid_pack option \<Rightarrow> u64 \<Rightarrow> u64 list go" where
  "Decode Decode4 BytesUsed pack seek =
     (if \<not> make_fits 8 (ApproxLen pack) then Panic MakeSliceLen
      else go_bind (Seek Decode4 BytesUsed seek SeekStart \<lparr>dPack = pack, dblockIdx = 0, duids = []\<rparr>)
             (\<lambda>(uids, dec). for_blocks Decode4 BytesUsed (\<lambda>uids out. Ret (out @ uids)) uids dec []))"

text \<open>
  The buffer of \<open>DecodeToBuffer\<close> comes from \<open>ristretto/v2/z\<close>: \<open>fits n\<close> says that it can grow to \<open>n\<close>
  bytes, up to the 32 GB that are asked for here. A write beyond that panics.
\<close>

definition write_delta :: "(nat \<Rightarrow> bool) \<Rightarrow> u64 \<Rightarrow> byte list \<times> u64 \<Rightarrow> (byte list \<times> u64) go" where
  "write_delta fits u = (\<lambda>(buf, prev).
     let tmp = put_uvarint (u - prev)
     in if fits (length buf + length tmp) then Ret (buf @ tmp, u) else Panic BufferFull)"

definition DecodeToBuffer ::
  "(byte list \<Rightarrow> u32 list) \<Rightarrow> (byte \<Rightarrow> nat) \<Rightarrow> (nat \<Rightarrow> bool) \<Rightarrow> uid_pack option \<Rightarrow> u64 \<Rightarrow> byte list go" where
  "DecodeToBuffer Decode4 BytesUsed fits pack seek =
     go_bind (Seek Decode4 BytesUsed seek SeekStart \<lparr>dPack = pack, dblockIdx = 0, duids = []\<rparr>)
       (\<lambda>(uids, dec).
         go_bind (for_blocks Decode4 BytesUsed (go_fold (write_delta fits)) uids dec ([], 0))
           (\<lambda>(buf, prev). Ret buf))"

definition Uids :: "decoder \<Rightarrow> u64 list" where
  "Uids d = duids d"

definition BlockIdx :: "decoder \<Rightarrow> nat" where
  "BlockIdx d = dblockIdx d"

end
