(* ===== verification/PbWire.thy ===== *)
theory PbWire
  imports UidCodec
begin

unbundle bit_operations_syntax

text \<open>
  The messages of bitmap/pb.pb.go that carry the codec's packs: \<open>UidBlock\<close> and \<open>UidPack\<close>.
  \<open>MarshalToSizedBuffer\<close> writes a buffer from its end to its start at the offset it keeps;
  \<open>Unmarshal\<close> reads fields at an index that moves forward. Both are modelled with the
  buffer and the index explicit, so that a write or a slice out of range is a panic. Go's
  slices become lists: a nil and an empty slice are the same. A pointer to a message is an
  \<open>option\<close>, so that a nil message and nil pointers among the blocks of a pack are represented.
\<close>

section \<open>Sizes\<close>

text \<open>\<open>math/bits.Len64\<close>: the number of bits up to the highest that is set.\<close>

fun bit_len :: "nat \<Rightarrow> nat" where
  "bit_len n = (if n = 0 then 0 else Suc (bit_len (n div 2)))"

declare bit_len.simps [simp del]

definition sovPb :: "u64 \<Rightarrow> nat" where
  "sovPb x = (bit_len (unat (x OR 1)) + 6) div 7"

definition UidBlock_Size :: "uid_block option \<Rightarrow> nat" where
  "UidBlock_Size m =
     (case m of
        None \<Rightarrow> 0
      | Some m \<Rightarrow>
          (if Base m \<noteq> 0 then 1 + sovPb (Base m) else 0)
          + (let l = length (Deltas m) in if 0 < l then 1 + l + sovPb (of_nat l) else 0)
          + (if NumUids m \<noteq> 0 then 1 + sovPb (ucast (NumUids m)) else 0))"

text \<open>A pack as a message, whose blocks are pointers, and the message of a pack without nil pointers.\<close>

type_synonym pb_pack = "uid_block option UidPack"

definition pointers :: "uid_pack \<Rightarrow> pb_pack" where
  "pointers p = \<lparr>BlockSize = BlockSize p, Blocks = map Some (Blocks p), AllocRef = AllocRef p\<rparr>"

definition UidPack_Size :: "pb_pack option \<Rightarrow> nat" where
  "UidPack_Size m =
     (case m of
        None \<Rightarrow> 0
      | Some m \<Rightarrow>
          (if BlockSize m \<noteq> 0 then 1 + sovPb (ucast (BlockSize m)) else 0)
          + fold (\<lambda>e n. let l = UidBlock_Size e in n + 1 + l + sovPb (of_nat l)) (Blocks m) 0
          + (if AllocRef m \<noteq> 0 then 2 + sovPb (AllocRef m) else 0))"

section \<open>Writing\<close>

function encode_varint_loop :: "byte list \<Rightarrow> int \<Rightarrow> u64 \<Rightarrow> byte list go" where
  "encode_varint_loop dAtA offset v =
     (if 0x80 \<le> v
      then go_bind (go_set dAtA offset (ucast (v AND 0x7f OR 0x80)))
             (\<lambda>dAtA. encode_varint_loop dAtA (offset + 1) (drop_bit 7 v))
      else go_set dAtA offset (ucast v))"
  by pat_completeness auto
termination
proof (relation "measure (\<lambda>(_, _, v). unat v)")
  fix v :: u64 and d e :: "byte list" and i :: int assume "0x80 \<le> v"
  then have "0 < unat v" by (simp add: word_le_nat_alt)
  then show "((d, i + 1, drop_bit 7 v), (e, i, v)) \<in> measure (\<lambda>(_, _, v). unat v)"
    by (simp add: unat_drop7)
qed simp

declare encode_varint_loop.simps [simp del]

definition encodeVarintPb :: "byte list \<Rightarrow> int \<Rightarrow> u64 \<Rightarrow> (byte list \<times> int) go" where
  "encodeVarintPb dAtA offset v =
     (let offset = offset - int (sovPb v); base = offset
      in go_bind (encode_varint_loop dAtA offset v) (\<lambda>dAtA. Ret (dAtA, base)))"

text \<open>\<open>i--; dAtA[i] = b\<close> and \<open>copy(dAtA[i:], bs)\<close>.\<close>

definition put_byte :: "byte \<Rightarrow> byte list \<times> int \<Rightarrow> (byte list \<times> int) go" where
  "put_byte b = (\<lambda>(dAtA, i). go_bind (go_set dAtA (i - 1) b) (\<lambda>dAtA. Ret (dAtA, i - 1)))"

definition copy_at :: "byte list \<Rightarrow> int \<Rightarrow> byte list \<Rightarrow> byte list go" where
  "copy_at dAtA i bs =
     (if 0 \<le> i \<and> i \<le> int (length dAtA)
      then Ret (take (nat i) dAtA @ take (length dAtA - nat i) bs @ drop (nat i + length bs) dAtA)
      else Panic SliceBounds)"

text \<open>The fields of a nil message are looked at without a test, which panics.\<close>

definition UidBlock_MarshalToSizedBuffer :: "uid_block option \<Rightarrow> byte list \<Rightarrow> (byte list \<times> int) go" where
  "UidBlock_MarshalToSizedBuffer m dAtA =
     (case m of
        None \<Rightarrow> Panic NilDeref
      | Some m \<Rightarrow>
          let l = int (length dAtA) in
          go_bind (if NumUids m \<noteq> 0
                   then go_bind (encodeVarintPb dAtA l (ucast (NumUids m))) (put_byte 0x18)
                   else Ret (dAtA, l)) (\<lambda>(dAtA, i).
          go_bind (if 0 < length (Deltas m)
                   then let i = i - int (length (Deltas m))
                        in go_bind (copy_at dAtA i (Deltas m)) (\<lambda>dAtA.
                           go_bind (encodeVarintPb dAtA i (of_nat (length (Deltas m)))) (put_byte 0x12))
                   else Ret (dAtA, i)) (\<lambda>(dAtA, i).
          go_bind (if Base m \<noteq> 0
                   then go_bind (encodeVarintPb dAtA i (Base m)) (put_byte 0x8)
                   else Ret (dAtA, i)) (\<lambda>(dAtA, i).
          Ret (dAtA, l - i)))))"

text \<open>
  The callers' slices \<open>dAtA[:size]\<close>; the bytes returned are \<open>dAtA[:n]\<close>. No error is ever
  returned by the writers of these two messages, so their results carry none.
\<close>

definition UidBlock_Marshal :: "uid_block option \<Rightarrow> byte list go" where
  "UidBlock_Marshal m =
     (let size = UidBlock_Size m
      in go_bind (make_slice 1 (int size) 0) (\<lambda>dAtA.
         go_bind (go_slice dAtA 0 (int size)) (\<lambda>d.
         go_bind (UidBlock_MarshalToSizedBuffer m d) (\<lambda>(dAtA, n). go_slice dAtA 0 n))))"

definition UidBlock_MarshalTo :: "uid_block option \<Rightarrow> byte list \<Rightarrow> (byte list \<times> int) go" where
  "UidBlock_MarshalTo m dAtA =
     (let size = UidBlock_Size m
      in go_bind (go_slice dAtA 0 (int size)) (\<lambda>d.
         go_bind (UidBlock_MarshalToSizedBuffer m d) (\<lambda>(d, n). Ret (d @ drop size dAtA, n))))"

text \<open>The loop over the blocks, from the last to the first.\<close>

fun marshal_blocks :: "uid_block option list \<Rightarrow> byte list \<times> int \<Rightarrow> (byte list \<times> int) go" where
  "marshal_blocks [] s = Ret s"
| "marshal_blocks (b # bs) s =
     go_bind (marshal_blocks bs s) (\<lambda>(dAtA, i).
     go_bind (go_slice dAtA 0 i) (\<lambda>d.
     go_bind (UidBlock_MarshalToSizedBuffer b d) (\<lambda>(d, size).
     go_bind (encodeVarintPb (d @ drop (nat i) dAtA) (i - size) (word_of_int size)) (put_byte 0x12))))"

definition UidPack_MarshalToSizedBuffer :: "pb_pack option \<Rightarrow> byte list \<Rightarrow> (byte list \<times> int) go" where
  "UidPack_MarshalToSizedBuffer m dAtA =
     (case m of
        None \<Rightarrow> Panic NilDeref
      | Some m \<Rightarrow>
          let l = int (length dAtA) in
          go_bind (if AllocRef m \<noteq> 0
                   then go_bind (go_bind (encodeVarintPb dAtA l (AllocRef m)) (put_byte 0x1)) (put_byte 0xb8)
                   else Ret (dAtA, l)) (\<lambda>s.
          go_bind (marshal_blocks (Blocks m) s) (\<lambda>(dAtA, i).
          go_bind (if BlockSize m \<noteq> 0
                   then go_bind (encodeVarintPb dAtA i (ucast (BlockSize m))) (put_byte 0x8)
                   else Ret (dAtA, i)) (\<lambda>(dAtA, i).
          Ret (dAtA, l - i)))))"

definition UidPack_Marshal :: "pb_pack option \<Rightarrow> byte list go" where
  "UidPack_Marshal m =
     (let size = UidPack_Size m
      in go_bind (make_slice 1 (int size) 0) (\<lambda>dAtA.
         go_bind (go_slice dAtA 0 (int size)) (\<lambda>d.
         go_bind (UidPack_MarshalToSizedBuffer m d) (\<lambda>(dAtA, n). go_slice dAtA 0 n))))"

definition UidPack_MarshalTo :: "pb_pack option \<Rightarrow> byte list \<Rightarrow> (byte list \<times> int) go" where
  "UidPack_MarshalTo m dAtA =
     (let size = UidPack_Size m
      in go_bind (go_slice dAtA 0 (int size)) (\<lambda>d.
         go_bind (UidPack_MarshalToSizedBuffer m d) (\<lambda>(d, n). Ret (d @ drop size dAtA, n))))"

end
