(* ===== verification/PbWrite.thy ===== *)
theory PbWrite
  imports PbWire
begin

unbundle bit_operations_syntax

text \<open>
  The bytes of a \<open>UidBlock\<close> and a \<open>UidPack\<close> on the wire, as functions of the message, and the
  proof that the backward writers of PbWire.thy write exactly these bytes, in the space that
  \<open>Size\<close> announces, without a write out of range.
\<close>

section \<open>Specification of the wire format\<close>

definition varint_field :: "byte list \<Rightarrow> u64 \<Rightarrow> byte list" where
  "varint_field tag v = (if v = 0 then [] else tag @ put_uvarint v)"

definition bytes_field :: "byte list \<Rightarrow> byte list \<Rightarrow> byte list" where
  "bytes_field tag bs = tag @ put_uvarint (of_nat (length bs)) @ bs"

definition block_wire :: "uid_block \<Rightarrow> byte list" where
  "block_wire b =
     varint_field [0x8] (Base b)
     @ (if Deltas b = [] then [] else bytes_field [0x12] (Deltas b))
     @ varint_field [0x18] (ucast (NumUids b))"

definition pack_wire :: "uid_pack \<Rightarrow> byte list" where
  "pack_wire p =
     varint_field [0x8] (ucast (BlockSize p))
     @ concat (map (\<lambda>b. bytes_field [0x12] (block_wire b)) (Blocks p))
     @ varint_field [0xb8, 0x1] (AllocRef p)"

section \<open>The size of a varint\<close>

lemma bit_len_pos: "0 < n \<Longrightarrow> bit_len n = Suc (bit_len (n div 2))"
  by (simp add: bit_len.simps [of n])

lemma bit_len_0 [simp]: "bit_len 0 = 0"
  by (simp add: bit_len.simps)

lemma bit_len_or_1: "bit_len (unat ((v :: u64) OR 1)) = Suc (bit_len (unat v div 2))"
proof -
  have eq: "unat (v OR 1) = unat v OR 1" by (simp add: unsigned_or_eq)
  have half: "(n OR 1) div 2 = n div 2" for n :: nat
    by (rule bit_eqI) (simp add: bit_simps flip: bit_Suc)
  have "0 < unat v OR 1" by (rule gr0I) (simp add: or_eq_0_iff)
  then show ?thesis unfolding eq by (subst bit_len_pos) (simp_all only: half)
qed

lemma bit_len_128: "128 \<le> n \<Longrightarrow> bit_len (n div 2) = 7 + bit_len (n div 256)"
  by (simp add: bit_len_pos [of "n div 2"] bit_len_pos [of "n div 4"] bit_len_pos [of "n div 8"]
      bit_len_pos [of "n div 16"] bit_len_pos [of "n div 32"] bit_len_pos [of "n div 64"]
      bit_len_pos [of "n div 128"] div_mult2_eq [symmetric])

lemma bit_len_small: "bit_len n \<le> k \<longleftrightarrow> n < 2 ^ k"
proof (induction n arbitrary: k rule: bit_len.induct)
  case (1 n)
  show ?case
  proof (cases "n = 0")
    case False
    then have n: "bit_len n = Suc (bit_len (n div 2))" by (simp add: bit_len_pos [of n])
    show ?thesis
    proof (cases k)
      case (Suc j)
      have "n div 2 < 2 ^ j \<longleftrightarrow> n < 2 ^ Suc j" by auto
      with n Suc "1.IH" [OF False, of j] show ?thesis by simp
    qed (use n False in simp)
  qed simp
qed

lemma sovPb_put_uvarint: "sovPb v = length (put_uvarint v)"
proof (induction v rule: put_uvarint.induct)
  case (1 v)
  show ?case
  proof (cases "0x80 \<le> v")
    case True
    then have "128 \<le> unat v" by (simp add: word_le_nat_alt)
    then have "bit_len (unat v div 2) = 7 + bit_len (unat (drop_bit 7 v) div 2)"
      by (simp add: bit_len_128 unat_drop7 div_mult2_eq [symmetric])
    then have "sovPb v = Suc (sovPb (drop_bit 7 v))"
      by (simp add: sovPb_def bit_len_or_1)
    with 1 True show ?thesis by (simp add: put_uvarint_more)
  next
    case False
    then have "unat v div 2 < 2 ^ 6" by (simp add: word_le_nat_alt)
    then have "bit_len (unat v div 2) \<le> 6" by (simp only: bit_len_small)
    with False show ?thesis by (simp add: sovPb_def bit_len_or_1 put_uvarint_last)
  qed
qed

section \<open>Sizes\<close>

lemma ucast32_eq_0 [simp]: "(ucast (x :: u32) :: u64) = 0 \<longleftrightarrow> x = 0"
proof -
  have "unat (ucast x :: u64) = unat x"
    using unsigned_less [of x, where ?'a = nat]
    by (simp add: unsigned_ucast_eq unsigned_take_bit_eq take_bit_nat_eq_self)
  then show ?thesis by (metis unsigned_0 unsigned_word_eqI)
qed

lemma bit_0x80_64: "bit (0x80 :: u64) n \<longleftrightarrow> n = 7"
proof -
  have "(0x80 :: u64) = 2 ^ 7" by simp
  then show ?thesis by (simp only: bit_exp_iff) auto
qed

lemma length_block_wire: "length (block_wire b) = UidBlock_Size (Some b)"
  by (auto simp: block_wire_def UidBlock_Size_def varint_field_def bytes_field_def
      sovPb_put_uvarint Let_def)

lemma fold_block_sizes:
  "fold (\<lambda>e n. let l = UidBlock_Size e in n + 1 + l + sovPb (of_nat l)) bs n
     = n + sum_list (map (\<lambda>e. 1 + UidBlock_Size e + sovPb (of_nat (UidBlock_Size e))) bs)"
  by (induction bs arbitrary: n) (simp_all add: Let_def)

lemma pointers_sel [simp]:
  "BlockSize (pointers p) = BlockSize p" "Blocks (pointers p) = map Some (Blocks p)" "AllocRef (pointers p) = AllocRef p"
  by (simp_all add: pointers_def)

lemma length_blocks_wire:
  "length (concat (map (\<lambda>b. bytes_field [0x12] (block_wire b)) bs))
     = sum_list (map (\<lambda>e. 1 + UidBlock_Size e + sovPb (of_nat (UidBlock_Size e))) (map Some bs))"
  by (induction bs) (simp_all add: bytes_field_def sovPb_put_uvarint length_block_wire)

lemma length_pack_wire: "length (pack_wire p) = UidPack_Size (Some (pointers p))"
  by (simp only: pack_wire_def UidPack_Size_def fold_block_sizes length_append length_blocks_wire option.case pointers_sel)
    (auto simp: varint_field_def sovPb_put_uvarint)

section \<open>The writers\<close>

lemma encode_varint_loop_put:
  "i + length (put_uvarint v) \<le> length d \<Longrightarrow>
   encode_varint_loop d (int i) v = Ret (take i d @ put_uvarint v @ drop (i + length (put_uvarint v)) d)"
proof (induction v arbitrary: i d rule: put_uvarint.induct)
  case (1 v)
  show ?case
  proof (cases "0x80 \<le> v")
    case True
    let ?b = "ucast (v AND 0x7f OR 0x80) :: byte"
    have b: "?b = ucast v OR 0x80"
      unfolding mask7_numeral
      by (rule bit_word_eqI)
        (auto simp only: bit_unsigned_iff bit_and_iff bit_or_iff bit_mask_iff bit_0x80 bit_0x80_64 possible_bit_word,
          simp_all)
    have len: "Suc i + length (put_uvarint (drop_bit 7 v)) \<le> length (d[i := ?b])"
      using "1.prems" True by (simp add: put_uvarint_more)
    have i: "i < length d" using len by simp
    have "take (Suc i) (d[i := ?b]) = take i d @ [?b]"
      using i by (simp add: take_Suc_conv_app_nth)
    moreover have "int i + 1 = int (Suc i)" by simp
    ultimately show ?thesis
      using "1.IH" [OF True len] True i
      by (simp add: encode_varint_loop.simps [of d] go_set_nat put_uvarint_more b add.commute)
  next
    case False
    then have i: "i < length d" using "1.prems" by (simp add: put_uvarint_last)
    then have "d[i := ucast v] = take i d @ ucast v # drop (Suc i) d" by (rule upd_conv_take_nth_drop)
    with False i show ?thesis
      by (simp add: encode_varint_loop.simps [of d] go_set_nat put_uvarint_last)
  qed
qed

lemma encodeVarintPb_put:
  assumes "length (put_uvarint v) \<le> i" and "i \<le> length d"
  shows "encodeVarintPb d (int i) v
    = Ret (put_before d i (put_uvarint v), int (i - length (put_uvarint v)))"
proof -
  have "int i - int (sovPb v) = int (i - length (put_uvarint v))"
    using assms(1) by (simp add: sovPb_put_uvarint of_nat_diff)
  then show ?thesis
    using encode_varint_loop_put [of "i - length (put_uvarint v)" v d] assms
    by (simp add: encodeVarintPb_def Let_def put_before_def)
qed

lemma put_byte_put:
  assumes "0 < i" and "i \<le> length d"
  shows "put_byte b (d, int i) = Ret (put_before d i [b], int (i - 1))"
proof -
  have "int i - 1 = int (i - 1)" using assms(1) by simp
  moreover have "d[i - 1 := b] = put_before d i [b]"
    using assms upd_conv_take_nth_drop [of "i - 1" d b] by (simp add: put_before_def)
  ultimately show ?thesis
    using assms go_set_nat [of "i - 1" d b] by (simp add: put_byte_def)
qed

lemma copy_at_put:
  assumes "length bs \<le> i" and "i \<le> length d"
  shows "copy_at d (int (i - length bs)) bs = Ret (put_before d i bs)"
proof -
  have "length d - (i - length bs) = length bs + (length d - i)" using assms by simp
  moreover have "nat (int i - int (length bs)) = i - length bs" by simp
  ultimately show ?thesis using assms by (simp add: copy_at_def put_before_def)
qed

text \<open>A field: the value, then its tag in front of it.\<close>

lemma write_varint_field:
  assumes "length (varint_field [t] v) \<le> i" and "i \<le> length d"
  shows "(if v \<noteq> 0 then go_bind (encodeVarintPb d (int i) v) (put_byte t) else Ret (d, int i))
    = Ret (put_before d i (varint_field [t] v), int (i - length (varint_field [t] v)))"
proof (cases "v = 0")
  case False
  then have n: "Suc (length (put_uvarint v)) \<le> i" using assms(1) by (simp add: varint_field_def)
  let ?d = "put_before d i (put_uvarint v)"
  have "put_byte t (?d, int (i - length (put_uvarint v)))
    = Ret (put_before ?d (i - length (put_uvarint v)) [t], int (i - length (put_uvarint v) - 1))"
    by (rule put_byte_put) (use n assms in simp_all)
  moreover have "put_before ?d (i - length (put_uvarint v)) [t] = put_before d i ([t] @ put_uvarint v)"
    by (rule put_before_put_before) (use n assms in simp_all)
  ultimately show ?thesis
    using False n assms by (simp add: encodeVarintPb_put varint_field_def)
qed (simp add: varint_field_def)

lemma write_bytes_field:
  assumes "length (bytes_field [t] bs) \<le> i" and "i \<le> length d"
  shows "go_bind (encodeVarintPb (put_before d i bs) (int (i - length bs)) (of_nat (length bs))) (put_byte t)
    = Ret (put_before d i (bytes_field [t] bs), int (i - length (bytes_field [t] bs)))"
proof -
  let ?v = "of_nat (length bs) :: u64"
  have n: "1 + length (put_uvarint ?v) + length bs \<le> i" using assms(1) by (simp add: bytes_field_def)
  have vf: "length (put_uvarint ?v) \<le> i - length bs" "i - length bs \<le> length (put_before d i bs)"
    using n assms(2) by simp_all
  let ?d = "put_before (put_before d i bs) (i - length bs) (put_uvarint ?v)"
  have d: "?d = put_before d i (put_uvarint ?v @ bs)"
    by (rule put_before_put_before) (use n assms in simp_all)
  have "put_byte t (?d, int (i - length (put_uvarint ?v @ bs)))
    = Ret (put_before ?d (i - length (put_uvarint ?v @ bs)) [t], int (i - length (put_uvarint ?v @ bs) - 1))"
    by (rule put_byte_put) (use n assms in \<open>simp_all add: d\<close>)
  moreover have "put_before ?d (i - length (put_uvarint ?v @ bs)) [t] = put_before d i ([t] @ put_uvarint ?v @ bs)"
    unfolding d by (rule put_before_put_before) (use n assms in simp_all)
  moreover have "i - length bs - length (put_uvarint ?v) = i - length (put_uvarint ?v @ bs)" by simp
  ultimately show ?thesis
    by (simp add: encodeVarintPb_put [OF vf] bytes_field_def)
qed

lemma marshal_block_sized:
  assumes "UidBlock_Size (Some b) \<le> length d"
  shows "UidBlock_MarshalToSizedBuffer (Some b) d
    = Ret (put_before d (length d) (block_wire b), int (length (block_wire b)))"
proof -
  define f3 where "f3 = varint_field [0x18] (ucast (NumUids b))"
  define f2 where "f2 = (if Deltas b = [] then [] else bytes_field [0x12] (Deltas b))"
  define f1 where "f1 = varint_field [0x8] (Base b)"
  let ?l = "length d"
  have len: "length f1 + length f2 + length f3 \<le> ?l"
    using assms by (simp add: length_block_wire [symmetric] block_wire_def f1_def f2_def f3_def)
  have nz: "NumUids b \<noteq> 0 \<longleftrightarrow> (ucast (NumUids b) :: u64) \<noteq> 0" by simp
  have s3: "(if NumUids b \<noteq> 0 then go_bind (encodeVarintPb d (int ?l) (ucast (NumUids b))) (put_byte 0x18)
      else Ret (d, int ?l)) = Ret (put_before d ?l f3, int (?l - length f3))"
    unfolding nz f3_def by (rule write_varint_field) (use len in \<open>simp_all add: f3_def\<close>)
  let ?d3 = "put_before d ?l f3" and ?i3 = "?l - length f3"
  have s2: "(if 0 < length (Deltas b)
      then let i = int ?i3 - int (length (Deltas b))
           in go_bind (copy_at ?d3 i (Deltas b)) (\<lambda>dAtA.
              go_bind (encodeVarintPb dAtA i (of_nat (length (Deltas b)))) (put_byte 0x12))
      else Ret (?d3, int ?i3)) = Ret (put_before ?d3 ?i3 f2, int (?i3 - length f2))"
  proof (cases "Deltas b = []")
    case False
    then have n: "length (bytes_field [0x12] (Deltas b)) \<le> ?i3" using len by (simp add: f2_def)
    then have le: "length (Deltas b) \<le> ?i3" by (simp add: bytes_field_def)
    then have i: "int ?i3 - int (length (Deltas b)) = int (?i3 - length (Deltas b))" by simp
    have d3: "?i3 \<le> length ?d3" using len by simp
    from False show ?thesis
      by (simp only: i Let_def copy_at_put [OF le d3] go_bind.simps write_bytes_field [OF n d3] f2_def) simp
  qed (simp add: f2_def)
  have d2: "put_before ?d3 ?i3 f2 = put_before d ?l (f2 @ f3)"
    by (rule put_before_put_before) (use len in simp_all)
  let ?i2 = "?i3 - length f2"
  have s1: "(if Base b \<noteq> 0 then go_bind (encodeVarintPb (put_before ?d3 ?i3 f2) (int ?i2) (Base b)) (put_byte 0x8)
      else Ret (put_before ?d3 ?i3 f2, int ?i2))
    = Ret (put_before (put_before ?d3 ?i3 f2) ?i2 f1, int (?i2 - length f1))"
    unfolding f1_def by (rule write_varint_field) (use len in \<open>simp_all add: f1_def\<close>)
  have i2: "?i2 = ?l - length (f2 @ f3)" by simp
  have d1: "put_before (put_before ?d3 ?i3 f2) ?i2 f1 = put_before d ?l (f1 @ f2 @ f3)"
    unfolding d2 i2 by (rule put_before_put_before) (use len in simp_all)
  have "int ?l - int (?i2 - length f1) = int (length (f1 @ f2 @ f3))" using len by simp
  then show ?thesis
    unfolding UidBlock_MarshalToSizedBuffer_def option.case Let_def
    by (simp only: s3 go_bind.simps prod.case) (simp only: s2 [unfolded Let_def] s1 go_bind.simps prod.case d1,
        simp add: block_wire_def f1_def f2_def f3_def)
qed

text \<open>The blocks of a pack, from the last to the first.\<close>

definition blocks_wire :: "uid_block list \<Rightarrow> byte list" where
  "blocks_wire bs = concat (map (\<lambda>b. bytes_field [0x12] (block_wire b)) bs)"

lemma marshal_blocks_put:
  "\<lbrakk> length (blocks_wire bs) \<le> i; i \<le> length d \<rbrakk> \<Longrightarrow>
   marshal_blocks (map Some bs) (d, int i) = Ret (put_before d i (blocks_wire bs), int (i - length (blocks_wire bs)))"
proof (induction bs)
  case Nil
  then show ?case by (simp add: blocks_wire_def)
next
  case (Cons b bs)
  let ?d = "put_before d i (blocks_wire bs)" and ?i = "i - length (blocks_wire bs)"
  let ?f = "bytes_field [0x12] (block_wire b)"
  have len: "length ?f + length (blocks_wire bs) \<le> i" using Cons.prems by (simp add: blocks_wire_def)
  have d: "length ?d = length d" using len Cons.prems by simp
  have f: "length ?f \<le> ?i" "?i \<le> length ?d" using len Cons.prems d by simp_all
  have fits: "UidBlock_Size (Some b) \<le> length (take ?i ?d)" "length (block_wire b) \<le> ?i"
    using f by (simp_all add: length_block_wire [symmetric] bytes_field_def)
  have rec: "marshal_blocks (map Some bs) (d, int i) = Ret (?d, int ?i)"
    using Cons len by simp
  have slice: "go_slice ?d 0 (int ?i) = Ret (take ?i ?d)"
    using go_slice_nat [of 0 ?i ?d] f by simp
  have inner: "put_before (take ?i ?d) (length (take ?i ?d)) (block_wire b) @ drop ?i ?d
      = put_before ?d ?i (block_wire b)"
    by (rule put_before_take) (rule f(2))
  have sz: "int ?i - int (length (block_wire b)) = int (?i - length (block_wire b))"
    using fits by simp
  have "put_before ?d ?i ?f = put_before d i (blocks_wire (b # bs))"
    using put_before_put_before [of ?f "blocks_wire bs" i d] len Cons.prems by (simp add: blocks_wire_def)
  moreover have "?i - length ?f = i - length (blocks_wire (b # bs))" by (simp add: blocks_wire_def)
  moreover have "word_of_int (int (length (block_wire b))) = (of_nat (length (block_wire b)) :: u64)"
    by simp
  ultimately have last: "go_bind (encodeVarintPb (put_before ?d ?i (block_wire b))
      (int ?i - int (length (block_wire b))) (word_of_int (int (length (block_wire b))))) (put_byte 0x12)
    = Ret (put_before d i (blocks_wire (b # bs)), int (i - length (blocks_wire (b # bs))))"
    using write_bytes_field [OF f] unfolding sz by metis
  have "marshal_blocks (map Some (b # bs)) (d, int i) = go_bind (UidBlock_MarshalToSizedBuffer (Some b) (take ?i ?d))
      (\<lambda>(d', size). go_bind (encodeVarintPb (d' @ drop ?i ?d) (int ?i - size) (word_of_int size)) (put_byte 0x12))"
    unfolding list.map marshal_blocks.simps rec go_bind.simps prod.case slice nat_int ..
  also have "\<dots> = Ret (put_before d i (blocks_wire (b # bs)), int (i - length (blocks_wire (b # bs))))"
    unfolding marshal_block_sized [OF fits(1)] go_bind.simps prod.case inner by (rule last)
  finally show ?case .
qed

lemma write_ref_field:
  assumes "length (varint_field [t, t'] v) \<le> i" and "i \<le> length d"
  shows "(if v \<noteq> 0 then go_bind (go_bind (encodeVarintPb d (int i) v) (put_byte t')) (put_byte t)
      else Ret (d, int i))
    = Ret (put_before d i (varint_field [t, t'] v), int (i - length (varint_field [t, t'] v)))"
proof (cases "v = 0")
  case False
  then have n: "Suc (Suc (length (put_uvarint v))) \<le> i" using assms(1) by (simp add: varint_field_def)
  have one: "go_bind (encodeVarintPb d (int i) v) (put_byte t')
    = Ret (put_before d i (t' # put_uvarint v), int (i - Suc (length (put_uvarint v))))"
    using write_varint_field [of t' v i d] False n assms(2) by (simp add: varint_field_def)
  let ?d = "put_before d i (t' # put_uvarint v)" and ?i = "i - Suc (length (put_uvarint v))"
  have "put_byte t (?d, int ?i) = Ret (put_before ?d ?i [t], int (?i - 1))"
    by (rule put_byte_put) (use n assms in simp_all)
  moreover have "put_before ?d ?i [t] = put_before d i (t # t' # put_uvarint v)"
    using put_before_put_before [of "[t]" "t' # put_uvarint v" i d] n assms(2) by simp
  ultimately show ?thesis
    using False by (simp add: one varint_field_def)
qed (simp add: varint_field_def)

lemma marshal_pack_sized:
  assumes "UidPack_Size (Some (pointers p)) \<le> length d"
  shows "UidPack_MarshalToSizedBuffer (Some (pointers p)) d
    = Ret (put_before d (length d) (pack_wire p), int (length (pack_wire p)))"
proof -
  define f3 where "f3 = varint_field [0xb8, 0x1] (AllocRef p)"
  define f2 where "f2 = blocks_wire (Blocks p)"
  define f1 where "f1 = varint_field [0x8] (ucast (BlockSize p))"
  let ?l = "length d"
  have wire: "pack_wire p = f1 @ f2 @ f3" by (simp add: pack_wire_def f1_def f2_def f3_def blocks_wire_def)
  have len: "length f1 + length f2 + length f3 \<le> ?l"
    using assms by (simp add: length_pack_wire [symmetric] wire)
  have nz: "BlockSize p \<noteq> 0 \<longleftrightarrow> (ucast (BlockSize p) :: u64) \<noteq> 0" by simp
  let ?d3 = "put_before d ?l f3" and ?i3 = "?l - length f3"
  have s3: "(if AllocRef p \<noteq> 0
      then go_bind (go_bind (encodeVarintPb d (int ?l) (AllocRef p)) (put_byte 0x1)) (put_byte 0xb8)
      else Ret (d, int ?l)) = Ret (?d3, int ?i3)"
    unfolding f3_def by (rule write_ref_field) (use len in \<open>simp_all add: f3_def\<close>)
  let ?d2 = "put_before ?d3 ?i3 f2" and ?i2 = "?i3 - length f2"
  have s2: "marshal_blocks (map Some (Blocks p)) (?d3, int ?i3) = Ret (?d2, int ?i2)"
    unfolding f2_def by (rule marshal_blocks_put) (use len in \<open>simp_all add: f2_def\<close>)
  have d2: "?d2 = put_before d ?l (f2 @ f3)"
    by (rule put_before_put_before) (use len in simp_all)
  have s1: "(if BlockSize p \<noteq> 0 then go_bind (encodeVarintPb ?d2 (int ?i2) (ucast (BlockSize p))) (put_byte 0x8)
      else Ret (?d2, int ?i2)) = Ret (put_before ?d2 ?i2 f1, int (?i2 - length f1))"
    unfolding f1_def nz by (rule write_varint_field) (use len in \<open>simp_all add: f1_def\<close>)
  have i2: "?i2 = ?l - length (f2 @ f3)" by simp
  have d1: "put_before ?d2 ?i2 f1 = put_before d ?l (f1 @ f2 @ f3)"
    unfolding d2 i2 by (rule put_before_put_before) (use len in simp_all)
  have "int ?l - int (?i2 - length f1) = int (length (f1 @ f2 @ f3))" using len by simp
  then show ?thesis
    unfolding UidPack_MarshalToSizedBuffer_def option.case Let_def pointers_sel
    by (simp only: s3 go_bind.simps prod.case s2 s1 d1 wire)
qed

section \<open>Nil blocks\<close>

lemma marshal_blocks_panic: "marshal_blocks ys s = Panic e \<Longrightarrow> marshal_blocks (xs @ ys) s = Panic e"
  by (induction xs) simp_all

text \<open>A nil pointer among the blocks panics: the blocks after the last of them have been written then.\<close>

lemma marshal_pack_nil:
  assumes "None \<in> set (Blocks m)" and "UidPack_Size (Some m) \<le> length d"
  shows "UidPack_MarshalToSizedBuffer (Some m) d = Panic NilDeref"
proof -
  from split_list_last [OF assms(1)] obtain xs ys where "Blocks m = xs @ None # ys" "None \<notin> set ys" by blast
  then obtain bs where blocks: "Blocks m = xs @ None # map Some bs"
    by (metis ex_map_conv not_None_eq)
  define f3 where "f3 = varint_field [0xb8, 0x1] (AllocRef m)"
  let ?l = "length d"
  let ?sz = "\<lambda>e. 1 + UidBlock_Size e + sovPb (of_nat (UidBlock_Size e))"
  have "sum_list (map ?sz (Blocks m)) + (if AllocRef m \<noteq> 0 then 2 + sovPb (AllocRef m) else 0) \<le> UidPack_Size (Some m)"
    unfolding UidPack_Size_def option.case fold_block_sizes by linarith
  moreover have "sum_list (map ?sz (map Some bs)) \<le> sum_list (map ?sz (Blocks m))"
    by (simp add: blocks del: map_map)
  moreover have "length (blocks_wire bs) = sum_list (map ?sz (map Some bs))"
    unfolding blocks_wire_def by (rule length_blocks_wire)
  moreover have "length f3 = (if AllocRef m \<noteq> 0 then 2 + sovPb (AllocRef m) else 0)"
    by (simp add: f3_def varint_field_def sovPb_put_uvarint)
  ultimately have len: "length (blocks_wire bs) + length f3 \<le> ?l" using assms(2) by linarith
  let ?d3 = "put_before d ?l f3" and ?i3 = "?l - length f3"
  have s3: "(if AllocRef m \<noteq> 0
      then go_bind (go_bind (encodeVarintPb d (int ?l) (AllocRef m)) (put_byte 0x1)) (put_byte 0xb8)
      else Ret (d, int ?l)) = Ret (?d3, int ?i3)"
    unfolding f3_def by (rule write_ref_field) (use len in \<open>simp_all add: f3_def\<close>)
  let ?d2 = "put_before ?d3 ?i3 (blocks_wire bs)" and ?i2 = "?i3 - length (blocks_wire bs)"
  have s2: "marshal_blocks (map Some bs) (?d3, int ?i3) = Ret (?d2, int ?i2)"
    by (rule marshal_blocks_put) (use len in simp_all)
  have "go_slice ?d2 0 (int ?i2) = Ret (take ?i2 ?d2)"
    using go_slice_nat [of 0 ?i2 ?d2] len by simp
  with s2 have "marshal_blocks (None # map Some bs) (?d3, int ?i3) = Panic NilDeref"
    by (simp add: UidBlock_MarshalToSizedBuffer_def)
  from marshal_blocks_panic [OF this, of xs] show ?thesis
    unfolding UidPack_MarshalToSizedBuffer_def option.case Let_def s3 go_bind.simps blocks by simp
qed

section \<open>Fresh buffers\<close>

lemma make_fits_size: "make_fits 1 (int n) \<longleftrightarrow> n \<le> 2 ^ 48"
  by (auto simp: make_fits_def)

lemma UidBlock_Marshal_wire:
  "UidBlock_Size (Some b) \<le> 2 ^ 48 \<Longrightarrow> UidBlock_Marshal (Some b) = Ret (block_wire b)"
proof -
  assume size: "UidBlock_Size (Some b) \<le> 2 ^ 48"
  let ?d = "replicate (UidBlock_Size (Some b)) (0 :: byte)"
  have "go_slice ?d 0 (int (length ?d)) = Ret ?d"
    using go_slice_nat [of 0 "length ?d" ?d] by simp
  moreover have "put_before ?d (length ?d) (block_wire b) = block_wire b"
    by (rule put_before_all) (simp add: length_block_wire)
  moreover have "go_slice (block_wire b) 0 (int (length (block_wire b))) = Ret (block_wire b)"
    using go_slice_nat [of 0 "length (block_wire b)" "block_wire b"] by simp
  ultimately show ?thesis
    using marshal_block_sized [of b ?d] size
    by (simp add: UidBlock_Marshal_def make_slice_def make_fits_size Let_def)
qed

lemma UidPack_Marshal_sized:
  assumes "UidPack_Size (Some m) \<le> 2 ^ 48"
  shows "UidPack_Marshal (Some m) = go_bind (UidPack_MarshalToSizedBuffer (Some m) (replicate (UidPack_Size (Some m)) 0))
    (\<lambda>(dAtA, n). go_slice dAtA 0 n)"
proof -
  let ?d = "replicate (UidPack_Size (Some m)) (0 :: byte)"
  have "go_slice ?d 0 (int (length ?d)) = Ret ?d"
    using go_slice_nat [of 0 "length ?d" ?d] by simp
  then show ?thesis using assms by (simp add: UidPack_Marshal_def make_slice_def make_fits_size Let_def)
qed

lemma UidPack_Marshal_wire:
  assumes "UidPack_Size (Some (pointers p)) \<le> 2 ^ 48"
  shows "UidPack_Marshal (Some (pointers p)) = Ret (pack_wire p)"
proof -
  let ?d = "replicate (UidPack_Size (Some (pointers p))) (0 :: byte)"
  have "put_before ?d (length ?d) (pack_wire p) = pack_wire p"
    by (rule put_before_all) (simp add: length_pack_wire)
  moreover have "go_slice (pack_wire p) 0 (int (length (pack_wire p))) = Ret (pack_wire p)"
    using go_slice_nat [of 0 "length (pack_wire p)" "pack_wire p"] by simp
  ultimately show ?thesis
    using marshal_pack_sized [of p ?d] by (simp add: UidPack_Marshal_sized [OF assms])
qed

lemma UidPack_MarshalTo_wire:
  "UidPack_MarshalTo (Some (pointers p)) d = (if UidPack_Size (Some (pointers p)) \<le> length d
     then Ret (pack_wire p @ drop (UidPack_Size (Some (pointers p))) d, int (UidPack_Size (Some (pointers p))))
     else Panic SliceBounds)"
proof (cases "UidPack_Size (Some (pointers p)) \<le> length d")
  case True
  let ?d = "take (UidPack_Size (Some (pointers p))) d"
  have "go_slice d 0 (int (UidPack_Size (Some (pointers p)))) = Ret ?d"
    using go_slice_nat [of 0 "UidPack_Size (Some (pointers p))" d] True by simp
  moreover have "put_before ?d (length ?d) (pack_wire p) = pack_wire p"
    by (rule put_before_all) (use True in \<open>simp add: length_pack_wire\<close>)
  ultimately show ?thesis
    using marshal_pack_sized [of p ?d] True by (simp add: UidPack_MarshalTo_def Let_def length_pack_wire)
qed (simp add: UidPack_MarshalTo_def go_slice_def)

end
