(* ===== verification/PbRead.thy ===== *)
theory PbRead
  imports PbWrite
begin

unbundle bit_operations_syntax

text \<open>
  The readers of bitmap/pb.pb.go for \<open>UidBlock\<close> and \<open>UidPack\<close>: the inlined varint loop, the
  skipping of unknown fields, one iteration of each \<open>Unmarshal\<close> loop and the loop itself.
  A result is an error or a value, inside an outcome that may be a panic; the lemmas show that
  it never is, whatever the bytes.
\<close>

section \<open>Errors\<close>

datatype pb_error =
    ErrIntOverflowPb | ErrUnexpectedEOF | ErrInvalidLengthPb | ErrUnexpectedEndOfGroupPb
  | EndGroupForNonGroup | IllegalTag int u64 | WrongWireType nat nat | IllegalWireType nat

type_synonym 'a pb = "(pb_error + 'a) go"

definition pb_bind :: "'a pb \<Rightarrow> ('a \<Rightarrow> 'b pb) \<Rightarrow> 'b pb" where
  "pb_bind m f = go_bind m (\<lambda>r. case r of Inl e \<Rightarrow> Ret (Inl e) | Inr x \<Rightarrow> f x)"

abbreviation fail :: "pb_error \<Rightarrow> 'a pb" where "fail e \<equiv> Ret (Inl e)"
abbreviation ok :: "'a \<Rightarrow> 'a pb" where "ok x \<equiv> Ret (Inr x)"

section \<open>Reading numbers\<close>

text \<open>
  The loop \<open>for shift := uint(0); ; shift += 7\<close> that the generated code repeats for every
  number, at the width of the variable it fills.
\<close>

function read_varint :: "byte list \<Rightarrow> nat \<Rightarrow> nat \<Rightarrow> 'a::len word \<Rightarrow> ('a word \<times> nat) pb" where
  "read_varint dAtA iNdEx shift v =
     (if 64 \<le> shift then fail ErrIntOverflowPb
      else if length dAtA \<le> iNdEx then fail ErrUnexpectedEOF
      else go_bind (go_index dAtA (int iNdEx)) (\<lambda>b.
             let v = v OR push_bit shift (ucast (b AND 0x7f))
             in if b < 0x80 then ok (v, iNdEx + 1) else read_varint dAtA (iNdEx + 1) (shift + 7) v))"
  by pat_completeness auto
termination
  by (relation "measure (\<lambda>(_, _, shift, _). 64 - shift)") auto

declare read_varint.simps [simp del]

text \<open>
  The sum of two non-negative ints; it is negative, \<open>None\<close>, when it wraps (lemma
  \<open>add_int_wraps\<close>).
\<close>

definition add_int :: "nat \<Rightarrow> nat \<Rightarrow> nat option" where
  "add_int i n = (if i + n < 2 ^ 63 then Some (i + n) else None)"

text \<open>
  A length, read into an int: the index after it and the end of the bytes it announces.
\<close>

definition read_length :: "byte list \<Rightarrow> nat \<Rightarrow> (nat \<times> nat) pb" where
  "read_length dAtA iNdEx =
     pb_bind (read_varint dAtA iNdEx 0 (0 :: u64)) (\<lambda>(w, iNdEx).
       let len = sint w
       in if len < 0 then fail ErrInvalidLengthPb
          else case add_int iNdEx (nat len) of
                 None \<Rightarrow> fail ErrInvalidLengthPb
               | Some postIndex \<Rightarrow>
                   if length dAtA < postIndex then fail ErrUnexpectedEOF
                   else ok (iNdEx, postIndex))"

section \<open>Unknown fields\<close>

text \<open>
  One iteration of the loop of \<open>skipPb\<close>: the index and the group depth after one field. The
  index may run past the data, which the loop and the callers test.
\<close>

definition skip_field :: "byte list \<Rightarrow> nat \<Rightarrow> nat \<Rightarrow> (nat \<times> nat) pb" where
  "skip_field dAtA iNdEx depth =
     pb_bind (read_varint dAtA iNdEx 0 (0 :: u64)) (\<lambda>(wire, iNdEx).
       let wireType = unat (wire AND 0x7);
           advance = (\<lambda>n. case add_int iNdEx n of None \<Rightarrow> fail ErrInvalidLengthPb
                                              | Some j \<Rightarrow> ok (j, depth))
       in if wireType = 0 then
            pb_bind (read_varint dAtA iNdEx 0 (0 :: u64)) (\<lambda>(_, iNdEx). ok (iNdEx, depth))
          else if wireType = 1 then advance 8
          else if wireType = 2 then
            pb_bind (read_varint dAtA iNdEx 0 (0 :: u64)) (\<lambda>(w, iNdEx).
              if sint w < 0 then fail ErrInvalidLengthPb
              else case add_int iNdEx (nat (sint w)) of
                     None \<Rightarrow> fail ErrInvalidLengthPb
                   | Some j \<Rightarrow> ok (j, depth))
          else if wireType = 3 then ok (iNdEx, depth + 1)
          else if wireType = 4 then
            (if depth = 0 then fail ErrUnexpectedEndOfGroupPb else ok (iNdEx, depth - 1))
          else if wireType = 5 then advance 4
          else fail (IllegalWireType wireType))"

lemma pb_bind_cong [fundef_cong]:
  assumes "m = m'" and "\<And>x. m' = ok x \<Longrightarrow> f x = g x"
  shows "pb_bind m f = pb_bind m' g"
  using assms by (auto simp: pb_bind_def intro!: go_bind_cong split: sum.splits)

lemma pb_bind_ok [go_simps]: "pb_bind (ok x) f = f x"
  by (simp add: pb_bind_def)

lemma pb_bind_fail [go_simps]: "pb_bind (fail e) f = fail e"
  by (simp add: pb_bind_def)

lemma pb_bind_eq_ok [go_simps]: "pb_bind m f = ok y \<longleftrightarrow> (\<exists>x. m = ok x \<and> f x = ok y)"
  by (cases m) (auto simp: pb_bind_def split: sum.splits)

lemma read_varint_forward: "read_varint d i s v = ok (w, j) \<Longrightarrow> i < j"
proof (induction d i s v rule: read_varint.induct)
  case (1 d i s v)
  from "1.prems" have "\<not> 64 \<le> s" "\<not> length d \<le> i"
    by (auto simp: read_varint.simps [of d] split: if_splits)
  then show ?case
    using "1.prems" "1.IH"
    by (fastforce simp: read_varint.simps [of d] go_index_nat Let_def split: if_splits)
qed

lemma add_int_Some: "add_int i n = Some j \<longleftrightarrow> j = i + n \<and> j < 2 ^ 63"
  by (auto simp: add_int_def)

lemma skip_field_forward: "skip_field d i depth = ok (j, depth') \<Longrightarrow> i < j"
  by (auto simp: skip_field_def Let_def go_simps add_int_Some
      dest!: read_varint_forward split: if_splits option.splits)

function skip_loop :: "byte list \<Rightarrow> nat \<Rightarrow> nat \<Rightarrow> nat pb" where
  "skip_loop dAtA iNdEx depth =
     (if iNdEx < length dAtA then
        pb_bind (skip_field dAtA iNdEx depth) (\<lambda>(iNdEx, depth).
          if depth = 0 then ok iNdEx else skip_loop dAtA iNdEx depth)
      else fail ErrUnexpectedEOF)"
  by pat_completeness auto
termination
  by (relation "measure (\<lambda>(dAtA, iNdEx, _). length dAtA - iNdEx)") (auto dest!: skip_field_forward)

declare skip_loop.simps [simp del]

definition skipPb :: "byte list \<Rightarrow> nat pb" where
  "skipPb dAtA = skip_loop dAtA 0 0"

text \<open>The \<open>default\<close> branch of both messages.\<close>

definition skip_unknown :: "byte list \<Rightarrow> nat \<Rightarrow> nat pb" where
  "skip_unknown dAtA preIndex =
     go_bind (go_slice dAtA (int preIndex) (int (length dAtA))) (\<lambda>rest.
     pb_bind (skipPb rest) (\<lambda>skippy.
       case add_int preIndex skippy of
         None \<Rightarrow> fail ErrInvalidLengthPb
       | Some j \<Rightarrow> if length dAtA < j then fail ErrUnexpectedEOF else ok j))"

section \<open>Messages\<close>

text \<open>The tag at the head of a field: its number, its wire type and the index after it.\<close>

definition read_tag :: "byte list \<Rightarrow> nat \<Rightarrow> (int \<times> nat \<times> nat) pb" where
  "read_tag dAtA iNdEx =
     pb_bind (read_varint dAtA iNdEx 0 (0 :: u64)) (\<lambda>(wire, iNdEx).
       let fieldNum = sint (ucast (drop_bit 3 wire) :: u32);
           wireType = unat (wire AND 0x7)
       in if wireType = 4 then fail EndGroupForNonGroup
          else if fieldNum \<le> 0 then fail (IllegalTag fieldNum wire)
          else ok (fieldNum, wireType, iNdEx))"

definition UidBlock_field :: "byte list \<Rightarrow> nat \<Rightarrow> uid_block \<Rightarrow> (nat \<times> uid_block) pb" where
  "UidBlock_field dAtA preIndex m =
     pb_bind (read_tag dAtA preIndex) (\<lambda>(fieldNum, wireType, iNdEx).
       if fieldNum = 1 then
         (if wireType \<noteq> 0 then fail (WrongWireType 1 wireType)
          else pb_bind (read_varint dAtA iNdEx 0 0) (\<lambda>(v, iNdEx). ok (iNdEx, m\<lparr>Base := v\<rparr>)))
       else if fieldNum = 2 then
         (if wireType \<noteq> 2 then fail (WrongWireType 2 wireType)
          else pb_bind (read_length dAtA iNdEx) (\<lambda>(iNdEx, postIndex).
                 go_bind (go_slice dAtA (int iNdEx) (int postIndex)) (\<lambda>bs.
                 ok (postIndex, m\<lparr>Deltas := bs\<rparr>))))
       else if fieldNum = 3 then
         (if wireType \<noteq> 0 then fail (WrongWireType 3 wireType)
          else pb_bind (read_varint dAtA iNdEx 0 0) (\<lambda>(v, iNdEx). ok (iNdEx, m\<lparr>NumUids := v\<rparr>)))
       else pb_bind (skip_unknown dAtA preIndex) (\<lambda>iNdEx. ok (iNdEx, m)))"

lemma read_tag_forward: "read_tag d i = ok (f, w, j) \<Longrightarrow> i < j"
  by (auto simp: read_tag_def Let_def go_simps dest!: read_varint_forward split: if_splits)

lemma read_length_forward: "read_length d i = ok (j, k) \<Longrightarrow> i < j \<and> j \<le> k \<and> k \<le> length d"
  by (auto simp: read_length_def Let_def go_simps add_int_Some
      dest!: read_varint_forward split: if_splits option.splits)

lemma skip_loop_forward: "skip_loop d i depth = ok j \<Longrightarrow> i < j"
proof (induction d i depth rule: skip_loop.induct)
  case (1 d i depth)
  from "1.prems" obtain k depth' where k: "i < length d" "skip_field d i depth = ok (k, depth')"
    "(if depth' = 0 then ok k else skip_loop d k depth') = ok j"
    by (auto simp: skip_loop.simps [of d i] go_simps split: if_splits)
  then have "i < k" by (auto dest: skip_field_forward)
  with "1.IH" [OF k(1,2) refl] k(3) show ?case by (auto split: if_splits)
qed

lemma skip_unknown_forward: "skip_unknown d i = ok j \<Longrightarrow> i < j"
  by (auto simp: skip_unknown_def skipPb_def go_simps add_int_Some
      dest!: skip_loop_forward split: option.splits if_splits)

lemma UidBlock_field_forward: "UidBlock_field d i m = ok (j, m') \<Longrightarrow> i < j"
  by (auto simp: UidBlock_field_def go_simps
      dest!: read_tag_forward read_varint_forward read_length_forward skip_unknown_forward
      split: if_splits)

function UidBlock_unmarshal_loop :: "byte list \<Rightarrow> nat \<Rightarrow> uid_block \<Rightarrow> uid_block pb" where
  "UidBlock_unmarshal_loop dAtA iNdEx m =
     (if iNdEx < length dAtA then
        pb_bind (UidBlock_field dAtA iNdEx m) (\<lambda>(iNdEx, m). UidBlock_unmarshal_loop dAtA iNdEx m)
      else if length dAtA < iNdEx then fail ErrUnexpectedEOF
      else ok m)"
  by pat_completeness auto
termination
  by (relation "measure (\<lambda>(dAtA, iNdEx, _). length dAtA - iNdEx)") (auto dest!: UidBlock_field_forward)

declare UidBlock_unmarshal_loop.simps [simp del]

definition UidBlock_Unmarshal :: "byte list \<Rightarrow> uid_block \<Rightarrow> uid_block pb" where
  "UidBlock_Unmarshal dAtA m = UidBlock_unmarshal_loop dAtA 0 m"

definition zero_block :: uid_block where
  "zero_block = \<lparr>Base = 0, Deltas = [], NumUids = 0\<rparr>"

definition UidPack_field :: "byte list \<Rightarrow> nat \<Rightarrow> pb_pack \<Rightarrow> (nat \<times> pb_pack) pb" where
  "UidPack_field dAtA preIndex m =
     pb_bind (read_tag dAtA preIndex) (\<lambda>(fieldNum, wireType, iNdEx).
       if fieldNum = 1 then
         (if wireType \<noteq> 0 then fail (WrongWireType 1 wireType)
          else pb_bind (read_varint dAtA iNdEx 0 0) (\<lambda>(v, iNdEx). ok (iNdEx, m\<lparr>BlockSize := v\<rparr>)))
       else if fieldNum = 2 then
         (if wireType \<noteq> 2 then fail (WrongWireType 2 wireType)
          else pb_bind (read_length dAtA iNdEx) (\<lambda>(iNdEx, postIndex).
                 go_bind (go_slice dAtA (int iNdEx) (int postIndex)) (\<lambda>bs.
                 pb_bind (UidBlock_Unmarshal bs zero_block) (\<lambda>b.
                 ok (postIndex, m\<lparr>Blocks := Blocks m @ [Some b]\<rparr>)))))
       else if fieldNum = 23 then
         (if wireType \<noteq> 0 then fail (WrongWireType 23 wireType)
          else pb_bind (read_varint dAtA iNdEx 0 0) (\<lambda>(v, iNdEx). ok (iNdEx, m\<lparr>AllocRef := v\<rparr>)))
       else pb_bind (skip_unknown dAtA preIndex) (\<lambda>iNdEx. ok (iNdEx, m)))"

lemma UidPack_field_forward: "UidPack_field d i m = ok (j, m') \<Longrightarrow> i < j"
  by (auto simp: UidPack_field_def go_simps
      dest!: read_tag_forward read_varint_forward read_length_forward skip_unknown_forward
      split: if_splits)

function UidPack_unmarshal_loop :: "byte list \<Rightarrow> nat \<Rightarrow> pb_pack \<Rightarrow> pb_pack pb" where
  "UidPack_unmarshal_loop dAtA iNdEx m =
     (if iNdEx < length dAtA then
        pb_bind (UidPack_field dAtA iNdEx m) (\<lambda>(iNdEx, m). UidPack_unmarshal_loop dAtA iNdEx m)
      else if length dAtA < iNdEx then fail ErrUnexpectedEOF
      else ok m)"
  by pat_completeness auto
termination
  by (relation "measure (\<lambda>(dAtA, iNdEx, _). length dAtA - iNdEx)") (auto dest!: UidPack_field_forward)

declare UidPack_unmarshal_loop.simps [simp del]

definition UidPack_Unmarshal :: "byte list \<Rightarrow> pb_pack \<Rightarrow> pb_pack pb" where
  "UidPack_Unmarshal dAtA m = UidPack_unmarshal_loop dAtA 0 m"

definition zero_pack :: pb_pack where
  "zero_pack = \<lparr>BlockSize = 0, Blocks = [], AllocRef = 0\<rparr>"

end
