(* ===== verification/UidBlocks.thy ===== *)
theory UidBlocks
  imports UidCodec
begin

unbundle bit_operations_syntax

text \<open>
  One block: the uids that \<open>packBlock\<close> may put into a block (a run: nondecreasing, all with the
  same 32 most significant bits) and the proof that \<open>UnpackBlock\<close> reads a run back.
\<close>

section \<open>Runs\<close>

fun run_from :: "u64 \<Rightarrow> u64 list \<Rightarrow> bool" where
  "run_from p [] \<longleftrightarrow> True"
| "run_from p (u # us) \<longleftrightarrow> p \<le> u \<and> match32MSB p u \<and> run_from u us"

definition run :: "u64 list \<Rightarrow> bool" where
  "run us \<longleftrightarrow> us \<noteq> [] \<and> run_from (hd us) (tl us)"

lemma run_from_snoc:
  "run_from p (us @ [u]) \<longleftrightarrow>
     run_from p us \<and> last (p # us) \<le> u \<and> match32MSB (last (p # us)) u"
  by (induction us arbitrary: p) auto

lemma run_single [simp]: "run [u]"
  by (simp add: run_def)

lemma run_snoc: "run us \<Longrightarrow> run (us @ [u]) \<longleftrightarrow> last us \<le> u \<and> match32MSB (last us) u"
  by (cases us) (auto simp: run_def run_from_snoc)

lemma run_from_sorted: "run_from p us \<Longrightarrow> sorted (p # us)"
proof (induction us arbitrary: p)
  case (Cons u us)
  then have "sorted (u # us)" and "p \<le> u" by auto
  then show ?case by auto
qed simp

lemma run_sorted: "run us \<Longrightarrow> sorted us"
  using run_from_sorted [of "hd us" "tl us"] by (cases us) (auto simp: run_def)

section \<open>Deltas\<close>

lemma match32MSB_drop: "match32MSB a b \<Longrightarrow> drop_bit 32 a = drop_bit 32 b"
proof -
  have mask: "bitMask = NOT (mask 32)"
    by (simp add: bitMask_def mask_eq_exp_minus_1)
  assume "match32MSB a b"
  then have *: "bit (a AND NOT (mask 32)) n = bit (b AND NOT (mask 32)) n" for n
    by (simp add: match32MSB_def mask)
  show ?thesis
  proof (rule bit_word_eqI)
    fix n assume "n < LENGTH(64)"
    show "bit (drop_bit 32 a) n = bit (drop_bit 32 b) n"
      using * [of "32 + n"] bit_imp_le_length [of a "32 + n"] bit_imp_le_length [of b "32 + n"]
      by (auto simp: bit_simps)
  qed
qed

lemma delta_less:
  assumes "match32MSB a b" and "a \<le> b"
  shows "unat (b - a) < 2 ^ 32"
proof -
  have "unat (drop_bit 32 a) = unat (drop_bit 32 b)" using match32MSB_drop [OF assms(1)] by simp
  then have div: "unat a div 2 ^ 32 = unat b div 2 ^ 32"
    by (simp add: unat_drop_bit_eq drop_bit_eq_div [of 32 "unat a"] drop_bit_eq_div [of 32 "unat b"])
  have le: "unat a \<le> unat b" using assms(2) by (simp add: word_le_nat_alt)
  have "unat a = 2 ^ 32 * (unat b div 2 ^ 32) + unat a mod 2 ^ 32"
    by (metis div mult_div_mod_eq)
  moreover have "unat b = 2 ^ 32 * (unat b div 2 ^ 32) + unat b mod 2 ^ 32"
    by (metis mult_div_mod_eq)
  moreover have "unat b mod 2 ^ 32 < 2 ^ 32" by simp
  ultimately have "unat b - unat a < 2 ^ 32" by linarith
  then show ?thesis using assms(2) by (simp add: unat_sub)
qed

lemma delta_back:
  assumes "match32MSB a b" and "a \<le> b"
  shows "a + ucast (ucast (b - a) :: u32) = b"
proof -
  have "unat (ucast (ucast (b - a) :: u32) :: u64) = unat (b - a)"
    using delta_less [OF assms]
    by (simp add: unsigned_ucast_eq unsigned_take_bit_eq take_bit_nat_eq_self)
  then have "(ucast (ucast (b - a) :: u32) :: u64) = b - a" by (rule unsigned_word_eqI)
  then show ?thesis by simp
qed

lemma length_fill_tmp: "length (fst (fill_tmp k p us)) = k"
  by (induction k p us rule: fill_tmp.induct) (auto split: prod.splits)

lemma fill_tmp_last: "snd (fill_tmp k p us) = last (p # take k us)"
  by (induction k p us rule: fill_tmp.induct) (auto split: prod.splits)

text \<open>Adding the deltas gives the uids back, and the padding repeats the last one.\<close>

lemma add_deltas_fill_tmp:
  "run_from p us \<Longrightarrow>
   add_deltas p (fst (fill_tmp k p us)) = take k us @ replicate (k - length us) (last (p # us))"
  by (induction k p us rule: fill_tmp.induct) (auto simp: delta_back split: prod.splits)

lemma run_from_drop:
  "run_from p us \<Longrightarrow> run_from (last (p # take k us)) (drop k us)"
proof (induction us arbitrary: p k)
  case (Cons u us)
  then show ?case by (cases k) auto
qed simp

section \<open>Reading a packed run\<close>

lemma unpack_loop_stop:
  "\<not> (of_nat (length uids) :: u32) < n \<Longrightarrow>
   unpack_loop Decode4 BytesUsed n p bs uids = Some (Ret uids)"
  by (simp add: unpack_loop.simps)

definition pad17 :: "byte list \<Rightarrow> byte list" where
  "pad17 bs = (if length bs < 17 then bs @ replicate (17 - length bs) 0 else bs)"

lemma pad17_append: "\<exists>rest. pad17 (xs @ ys) = xs @ ys @ rest \<and> 17 \<le> length (xs @ ys @ rest)"
  by (cases "length (xs @ ys) < 17") (auto simp: pad17_def)

lemma unpack_loop_step:
  "(of_nat (length uids) :: u32) < n \<Longrightarrow>
   unpack_loop Decode4 BytesUsed n p bs uids =
     (if length (pad17 bs) < BytesUsed (hd (pad17 bs)) then Some (Panic SliceBounds)
      else unpack_loop Decode4 BytesUsed n (last (p # add_deltas p (Decode4 (pad17 bs))))
             (drop (BytesUsed (hd (pad17 bs))) (pad17 bs)) (uids @ add_deltas p (Decode4 (pad17 bs))))"
  by (subst unpack_loop.simps) (simp add: pad17_def Let_def)

definition mk_block :: "(u32 list \<Rightarrow> byte list) \<Rightarrow> u64 list \<Rightarrow> uid_block" where
  "mk_block Encode4 us =
     \<lparr>Base = hd us, Deltas = pack_deltas Encode4 (hd us) (tl us), NumUids = of_nat (length us)\<rparr>"

context group_varint
begin

lemma unpack_loop_pack_deltas:
  assumes "run_from p us" and "length uids + length us \<le> 2 ^ 32 - 4"
  shows "\<exists>extra. unpack_loop Decode4 BytesUsed (of_nat (length uids + length us)) p
           (pack_deltas Encode4 p us @ junk) uids = Some (Ret (uids @ us @ extra))"
  using assms
proof (induction us arbitrary: p uids junk rule: length_induct)
  case (1 us)
  let ?n = "of_nat (length uids + length us) :: u32"
  have unat_n: "unat ?n = length uids + length us"
    using "1.prems"(2) by (simp only: unat_of_nat) simp
  show ?case
  proof (cases "us = []")
    case True
    then show ?thesis by (simp add: unpack_loop_stop)
  next
    case False
    have "unat (of_nat (length uids) :: u32) = length uids"
      using "1.prems"(2) by (simp only: unat_of_nat) simp
    with False unat_n have go: "(of_nat (length uids) :: u32) < ?n"
      by (simp add: word_less_nat_alt)
    define tmp where "tmp = fst (fill_tmp 4 p us)"
    define rest where "rest = (if length us \<le> 4 then [] else pack_deltas Encode4 (last (p # take 4 us)) (drop 4 us))"
    have len: "length tmp = 4" by (simp add: tmp_def length_fill_tmp)
    have deltas: "pack_deltas Encode4 p us = Encode4 tmp @ rest"
      using fill_tmp_last [of 4 p us]
      by (subst pack_deltas.simps) (auto simp: tmp_def rest_def split: prod.splits)
    obtain pad where pad: "pad17 (pack_deltas Encode4 p us @ junk) = Encode4 tmp @ (rest @ junk @ pad)"
      and long: "17 \<le> length (Encode4 tmp @ (rest @ junk @ pad))"
      using pad17_append [of "Encode4 tmp" "rest @ junk"] by (auto simp: deltas)
    have hd_tmp: "hd (Encode4 tmp @ x) = hd (Encode4 tmp)" for x
      using Encode4_nonempty [OF len] by simp
    define sums where "sums = take 4 us @ replicate (4 - length us) (last (p # us))"
    have sums: "add_deltas p (Decode4 (Encode4 tmp @ (rest @ junk @ pad))) = sums"
      using Decode4_Encode4 [OF len long] add_deltas_fill_tmp [OF "1.prems"(1), of 4]
      by (simp add: tmp_def sums_def)
    have step: "unpack_loop Decode4 BytesUsed ?n p (pack_deltas Encode4 p us @ junk) uids
      = unpack_loop Decode4 BytesUsed ?n (last (p # sums)) (rest @ junk @ pad) (uids @ sums)"
      by (simp only: unpack_loop_step [OF go] pad hd_tmp BytesUsed_Encode4 [OF len] sums) simp
    show ?thesis
    proof (cases "length us \<le> 4")
      case True
      then have "uids @ sums = uids @ us @ replicate (4 - length us) (last (p # us))"
        by (simp add: sums_def)
      moreover have "\<not> (of_nat (length (uids @ sums)) :: u32) < ?n"
      proof -
        have "unat (of_nat (length (uids @ sums)) :: u32) = length (uids @ sums)"
        proof -
          have "1 \<le> length us" using False by (cases us) auto
          moreover have "length uids + length us \<le> 4294967292" using "1.prems"(2) by simp
          ultimately have "length uids + 4 < 4294967296" by linarith
          then have "length (uids @ sums) < 2 ^ LENGTH(32)"
            using True by (simp add: sums_def)
          then show ?thesis by (simp only: unat_of_nat mod_less)
        qed
        with unat_n True show ?thesis by (simp add: word_less_nat_alt sums_def)
      qed
      ultimately show ?thesis using step by (auto simp: unpack_loop_stop)
    next
      case more: False
      then have s4: "sums = take 4 us" by (simp add: sums_def)
      have "length (drop 4 us) < length us" using more by simp
      moreover have "run_from (last (p # take 4 us)) (drop 4 us)"
        by (rule run_from_drop) (rule "1.prems"(1))
      moreover have "length (uids @ take 4 us) + length (drop 4 us) \<le> 2 ^ 32 - 4"
        using "1.prems"(2) more by simp
      ultimately obtain extra where
        rec: "unpack_loop Decode4 BytesUsed (of_nat (length (uids @ take 4 us) + length (drop 4 us)))
           (last (p # take 4 us)) (pack_deltas Encode4 (last (p # take 4 us)) (drop 4 us) @ (junk @ pad))
           (uids @ take 4 us) = Some (Ret ((uids @ take 4 us) @ drop 4 us @ extra))"
        using "1.IH" by blast
      have count: "length (uids @ take 4 us) + length (drop 4 us) = length uids + length us"
        using more by simp
      have split4: "(uids @ take 4 us) @ drop 4 us @ extra = uids @ us @ extra"
        by (metis append.assoc append_take_drop_id)
      have "unpack_loop Decode4 BytesUsed ?n (last (p # sums)) (rest @ junk @ pad) (uids @ sums)
          = Some (Ret (uids @ us @ extra))"
        using rec unfolding count split4 s4 rest_def by (simp only: more if_False)
      with step show ?thesis by (intro exI) (rule trans)
    qed
  qed
qed

text \<open>\<open>UnpackBlock\<close> on a pack whose blocks were made from runs.\<close>

lemma UnpackBlock_mk_block:
  assumes "dPack d = Some pack" and "Blocks pack = map (mk_block Encode4) uss"
    and "dblockIdx d < length uss" and "run (uss ! dblockIdx d)"
    and "length (uss ! dblockIdx d) \<le> 2 ^ 32 - 4"
  shows "UnpackBlock Decode4 BytesUsed d
    = Ret (uss ! dblockIdx d, d\<lparr>duids := uss ! dblockIdx d\<rparr>)"
proof -
  obtain u us where us: "uss ! dblockIdx d = u # us"
    using assms(4) by (auto simp: run_def neq_Nil_conv)
  have "run_from u us" using assms(4) by (simp add: us run_def)
  then obtain extra where loop: "unpack_loop Decode4 BytesUsed (of_nat (length (u # us))) u
      (pack_deltas Encode4 u us) [u] = Some (Ret (u # us @ extra))"
    using unpack_loop_pack_deltas [of u us "[u]" "[]"] assms(5) us by auto
  have "unat (of_nat (length (u # us)) :: u32) = length (u # us)"
    using assms(5) us by (simp only: unat_of_nat) simp
  with loop assms us show ?thesis
    by (simp add: UnpackBlock_def mk_block_def Let_def)
qed

end

lemma UnpackBlock_past_end:
  assumes "dPack d = Some pack" and "length (Blocks pack) \<le> dblockIdx d"
  shows "UnpackBlock Decode4 BytesUsed d = Ret ([], d\<lparr>duids := []\<rparr>)"
  using assms by (simp add: UnpackBlock_def)

end
