(* ===== verification/UidRoundtrip.thy ===== *)
theory UidRoundtrip
  imports UidBlocks
begin

unbundle bit_operations_syntax

text \<open>
  The codec as a whole: the invariant of the encoder (everything added is in the finished
  blocks or still pending, and every block is a run no longer than the block size), and the
  decoder's reading, seeking and scanning of the packs the encoder makes.
\<close>

section \<open>The encoder's invariant\<close>

definition good_blocks :: "int \<Rightarrow> u64 list list \<Rightarrow> bool" where
  "good_blocks bs uss \<longleftrightarrow> (\<forall>us \<in> set uss. run us \<and> int (length us) \<le> max 1 bs)"

definition enc_inv ::
  "(u32 list \<Rightarrow> byte list) \<Rightarrow> int \<Rightarrow> u64 \<Rightarrow> u64 list \<Rightarrow> u64 list list \<Rightarrow> encoder \<Rightarrow> bool" where
  "enc_inv Encode4 bs ref added uss e \<longleftrightarrow>
     eBlockSize e = bs \<and> added = concat uss @ euids e \<and> good_blocks bs uss
     \<and> (euids e \<noteq> [] \<longrightarrow> run (euids e)) \<and> int (length (euids e)) < max 1 bs
     \<and> (if added = [] then epack e = None \<and> eAlloc e = None \<and> uss = []
        else epack e = Some \<lparr>BlockSize = word_of_int bs, Blocks = map (mk_block Encode4) uss, AllocRef = 0\<rparr>
             \<and> eAlloc e = Some ref \<and> ebuf e \<noteq> None)"

lemma enc_inv_new: "enc_inv Encode4 bs ref [] [] (new_encoder bs)"
  by (simp add: enc_inv_def good_blocks_def new_encoder_def)

lemma packBlock_pending:
  assumes "epack e = Some pack" and "eAlloc e = Some ref" and "ebuf e \<noteq> None" and "euids e \<noteq> []"
  shows "\<exists>buf. packBlock Encode4 e = Ret (e\<lparr>euids := [], ebuf := Some buf,
           epack := Some (pack\<lparr>Blocks := Blocks pack @ [mk_block Encode4 (euids e)]\<rparr>)\<rparr>)"
  using assms by (cases "euids e") (auto simp: packBlock_def mk_block_def Let_def)

text \<open>
  An encoder in mid-stream: its pack holds the blocks \<open>uss\<close> and \<open>pend\<close> is pending.
\<close>

definition mid ::
  "(u32 list \<Rightarrow> byte list) \<Rightarrow> int \<Rightarrow> u64 \<Rightarrow> u64 list list \<Rightarrow> u64 list \<Rightarrow> encoder \<Rightarrow> bool" where
  "mid Encode4 bs ref uss pend e \<longleftrightarrow>
     eBlockSize e = bs \<and> euids e = pend \<and> eAlloc e = Some ref \<and> ebuf e \<noteq> None
     \<and> epack e = Some \<lparr>BlockSize = word_of_int bs, Blocks = map (mk_block Encode4) uss, AllocRef = 0\<rparr>"

lemma enc_invD:
  assumes "enc_inv Encode4 bs ref added uss e"
  shows "eBlockSize e = bs" and "added = concat uss @ euids e" and "good_blocks bs uss"
    and "euids e \<noteq> [] \<longrightarrow> run (euids e)" and "int (length (euids e)) < max 1 bs"
  using assms unfolding enc_inv_def by blast+

lemma enc_inv_mid:
  "\<lbrakk> added \<noteq> []; enc_inv Encode4 bs ref added uss e \<rbrakk> \<Longrightarrow> mid Encode4 bs ref uss (euids e) e"
  by (simp add: enc_inv_def mid_def)

lemma packBlock_mid:
  assumes "mid Encode4 bs ref uss pend e" and "pend \<noteq> []"
  shows "\<exists>e'. packBlock Encode4 e = Ret e' \<and> mid Encode4 bs ref (uss @ [pend]) [] e'"
  using packBlock_pending [of e _ ref Encode4] assms by (fastforce simp: mid_def)

lemma mid_enc_inv:
  "\<lbrakk> mid Encode4 bs ref uss pend e; concat uss @ pend = added; added \<noteq> []; good_blocks bs uss;
     pend \<noteq> [] \<longrightarrow> run pend; int (length pend) < max 1 bs \<rbrakk> \<Longrightarrow>
   enc_inv Encode4 bs ref added uss e"
  by (auto simp: mid_def enc_inv_def)

text \<open>The second half of \<open>Add\<close>: the uid joins the pending run, which is packed when full.\<close>

lemma append_pending:
  assumes "mid Encode4 bs ref uss pend e" and "run (pend @ [u])"
    and "int (length pend) < max 1 bs" and "good_blocks bs uss"
  shows "\<exists>uss' pend' e'.
    (let e = e\<lparr>euids := euids e @ [u]\<rparr>
     in if eBlockSize e \<le> int (length (euids e))
        then go_bind (packBlock Encode4 e) (\<lambda>e. Ret (e\<lparr>euids := []\<rparr>)) else Ret e) = Ret e'
    \<and> mid Encode4 bs ref uss' pend' e' \<and> concat uss' @ pend' = concat uss @ pend @ [u]
    \<and> good_blocks bs uss' \<and> (pend' \<noteq> [] \<longrightarrow> run pend') \<and> int (length pend') < max 1 bs"
proof -
  let ?e = "e\<lparr>euids := euids e @ [u]\<rparr>"
  have m: "mid Encode4 bs ref uss (pend @ [u]) ?e" using assms(1) by (simp add: mid_def)
  show ?thesis
  proof (cases "bs \<le> int (length (pend @ [u]))")
    case True
    obtain e' where e': "packBlock Encode4 ?e = Ret e'"
      "mid Encode4 bs ref (uss @ [pend @ [u]]) [] e'"
      using packBlock_mid [OF m] by auto
    then have "mid Encode4 bs ref (uss @ [pend @ [u]]) [] (e'\<lparr>euids := []\<rparr>)"
      by (simp add: mid_def)
    moreover have "good_blocks bs (uss @ [pend @ [u]])"
      using assms(2-4) by (auto simp: good_blocks_def)
    moreover have "eBlockSize ?e \<le> int (length (euids ?e))"
      using True m by (simp add: mid_def)
    ultimately show ?thesis using e'(1)
      by (intro exI [of _ "uss @ [pend @ [u]]"] exI [of _ "[]"] exI [of _ "e'\<lparr>euids := []\<rparr>"]) simp
  next
    case False
    then have "\<not> eBlockSize ?e \<le> int (length (euids ?e))" using m by (simp add: mid_def)
    moreover have "int (length (pend @ [u])) < max 1 bs" using False by simp
    ultimately show ?thesis using m assms(2,4)
      by (intro exI [of _ uss] exI [of _ "pend @ [u]"] exI [of _ ?e]) simp
  qed
qed

lemma Add_inv:
  assumes inv: "enc_inv Encode4 bs ref added uss e" and "sorted (added @ [u])"
  shows "\<exists>uss' e'. Add Encode4 ref u e = Ret e' \<and> enc_inv Encode4 bs ref (added @ [u]) uss' e'"
proof -
  let ?second = "\<lambda>e. let e = e\<lparr>euids := euids e @ [u]\<rparr>
     in if eBlockSize e \<le> int (length (euids e))
        then go_bind (packBlock Encode4 e) (\<lambda>e. Ret (e\<lparr>euids := []\<rparr>)) else Ret e"
  define e1 where "e1 = (let e = (if epack e = None
               then e\<lparr>epack := Some \<lparr>BlockSize = word_of_int (eBlockSize e), Blocks = [], AllocRef = 0\<rparr>,
                      ebuf := Some []\<rparr> else e)
     in if eAlloc e = None then e\<lparr>eAlloc := Some ref\<rparr> else e)"
  have m1: "mid Encode4 bs ref uss (euids e) e1"
    using inv by (cases "added = []") (auto simp: enc_inv_def mid_def e1_def new_encoder_def)
  have good: "good_blocks bs uss" and len: "int (length (euids e)) < max 1 bs"
    and pend: "euids e \<noteq> [] \<longrightarrow> run (euids e)" and added: "added = concat uss @ euids e"
    using enc_invD [OF inv] by blast+
  have eu1: "euids e1 = euids e" using m1 by (simp add: mid_def)
  have "Add Encode4 ref u e = go_bind
     (if euids e1 \<noteq> [] \<and> \<not> match32MSB (last (euids e1)) u
      then go_bind (packBlock Encode4 e1) (\<lambda>e. Ret (e\<lparr>euids := []\<rparr>)) else Ret e1) ?second"
    unfolding Add_def e1_def Let_def by (rule refl)
  then have Add: "Add Encode4 ref u e = go_bind
     (if euids e \<noteq> [] \<and> \<not> match32MSB (last (euids e)) u
      then go_bind (packBlock Encode4 e1) (\<lambda>e. Ret (e\<lparr>euids := []\<rparr>)) else Ret e1) ?second"
    by (simp only: eu1)
  have concl: "\<exists>uss' e'. ?second e2 = Ret e' \<and> enc_inv Encode4 bs ref (added @ [u]) uss' e'"
    if "mid Encode4 bs ref uss2 pend2 e2" and "concat uss2 @ pend2 = added"
      and "run (pend2 @ [u])" and "int (length pend2) < max 1 bs" and "good_blocks bs uss2"
    for uss2 pend2 e2
    using append_pending [OF that(1,3,4,5)] that(2)
    by (elim exE conjE) (intro exI conjI, assumption, rule mid_enc_inv, simp_all)
  show ?thesis
  proof (cases "euids e \<noteq> [] \<and> \<not> match32MSB (last (euids e)) u")
    case True
    obtain e2 where "packBlock Encode4 e1 = Ret e2" and m2: "mid Encode4 bs ref (uss @ [euids e]) [] e2"
      using packBlock_mid [OF m1] True by auto
    moreover have "mid Encode4 bs ref (uss @ [euids e]) [] (e2\<lparr>euids := []\<rparr>)"
      using m2 by (simp add: mid_def)
    moreover have "good_blocks bs (uss @ [euids e])"
      using good pend True len by (auto simp: good_blocks_def)
    ultimately show ?thesis
      using concl [of "uss @ [euids e]" "[]" "e2\<lparr>euids := []\<rparr>"] True added
      by (simp only: Add) auto
  next
    case False
    have "run (euids e @ [u])"
    proof (cases "euids e = []")
      case ne: False
      then have "last (euids e) \<le> u"
        using \<open>sorted (added @ [u])\<close> added by (simp add: sorted_append)
      with ne False pend show ?thesis by (simp add: run_snoc)
    qed simp
    with False show ?thesis using concl [OF m1] added len good by (simp only: Add) auto
  qed
qed

lemma go_fold_Add_inv:
  "\<lbrakk> enc_inv Encode4 bs ref added uss e; sorted (added @ us) \<rbrakk> \<Longrightarrow>
   \<exists>uss' e'. go_fold (Add Encode4 ref) us e = Ret e' \<and> enc_inv Encode4 bs ref (added @ us) uss' e'"
proof (induction us arbitrary: added uss e)
  case Nil
  then show ?case by auto
next
  case (Cons u us)
  have "sorted (added @ [u])" using Cons.prems(2) by (simp add: sorted_append)
  with Add_inv [OF Cons.prems(1)] obtain uss' e' where
    "Add Encode4 ref u e = Ret e'" "enc_inv Encode4 bs ref (added @ [u]) uss' e'" by blast
  with Cons.IH [of "added @ [u]" uss' e'] Cons.prems(2) show ?case by simp
qed

lemma Done_inv:
  assumes "enc_inv Encode4 bs ref added uss e"
  shows "\<exists>uss'. concat uss' = added \<and> good_blocks bs uss' \<and>
    Done Encode4 e = Ret (if added = [] then None
      else Some \<lparr>BlockSize = word_of_int bs, Blocks = map (mk_block Encode4) uss', AllocRef = ref\<rparr>)"
proof (cases "euids e = []")
  case True
  then have done_e: "Done Encode4 e = Ret (case (epack e, eAlloc e) of
      (Some pack, Some ref) \<Rightarrow> Some (pack\<lparr>AllocRef := ref\<rparr>) | _ \<Rightarrow> epack e)"
    by (simp add: Done_def packBlock_def)
  show ?thesis
  proof (cases "added = []")
    case empty: True
    then have "epack e = None" and "uss = []"
      using assms by (auto simp: enc_inv_def new_encoder_def)
    then show ?thesis
      using empty done_e by (intro exI [of _ "[]"]) (simp add: good_blocks_def)
  next
    case False
    then show ?thesis
      using assms True done_e by (intro exI [of _ uss]) (simp add: enc_inv_def)
  qed
next
  case False
  then have "added \<noteq> []" using enc_invD(2) [OF assms] by simp
  then have m: "mid Encode4 bs ref uss (euids e) e" using assms by (rule enc_inv_mid)
  obtain e' where "packBlock Encode4 e = Ret e'" "mid Encode4 bs ref (uss @ [euids e]) [] e'"
    using packBlock_mid [OF m] False by auto
  then have "Done Encode4 e = Ret (Some \<lparr>BlockSize = word_of_int bs,
      Blocks = map (mk_block Encode4) (uss @ [euids e]), AllocRef = ref\<rparr>)"
    by (simp add: Done_def mid_def)
  moreover have "concat (uss @ [euids e]) = added" using enc_invD(2) [OF assms] by simp
  moreover have "good_blocks bs (uss @ [euids e])"
    using enc_invD(3,4,5) [OF assms] False by (auto simp: good_blocks_def)
  moreover note \<open>added \<noteq> []\<close>
  ultimately show ?thesis by (intro exI [of _ "uss @ [euids e]"]) simp
qed

text \<open>What \<open>Encode\<close> returns for a nondecreasing list of uids.\<close>

lemma Encode_blocks:
  assumes "sorted uids"
  shows "\<exists>uss. concat uss = uids \<and> good_blocks bs uss \<and>
    Encode Encode4 ref uids bs = Ret (if uids = [] then None
      else Some \<lparr>BlockSize = word_of_int bs, Blocks = map (mk_block Encode4) uss, AllocRef = ref\<rparr>)"
proof -
  obtain uss e where fold: "go_fold (Add Encode4 ref) uids (new_encoder bs) = Ret e"
    and inv: "enc_inv Encode4 bs ref uids uss e"
    using go_fold_Add_inv [OF enc_inv_new [of Encode4 bs ref], of uids] assms by auto
  from Done_inv [OF inv] show ?thesis by (simp add: Encode_def fold)
qed

end
