(* ===== verification/UidSeek.thy ===== *)
theory UidSeek
  imports UidRoundtrip
begin

unbundle bit_operations_syntax

text \<open>
  Reading, seeking and scanning a pack whose blocks were made from runs.
\<close>

section \<open>Searching in sorted lists\<close>

definition upward :: "('a::linorder \<Rightarrow> bool) \<Rightarrow> bool" where
  "upward P \<longleftrightarrow> (\<forall>x y. x \<le> y \<longrightarrow> P x \<longrightarrow> P y)"

lemma upward_seek_test: "upward (seek_test whence uid)"
  by (cases whence) (auto simp: upward_def)

lemma filter_upward_split:
  assumes "\<forall>x \<in> set xs. \<not> P x" and "\<forall>y \<in> set ys. P y"
  shows "filter P (xs @ ys) = ys"
  using assms by simp

text \<open>On a sorted list the binary search splits off exactly the elements that pass.\<close>

lemma filter_sort_Search:
  assumes "sorted xs" and "upward P"
  shows "filter P xs = drop (sort_Search (length xs) (\<lambda>i. P (xs ! i))) xs"
proof -
  let ?f = "\<lambda>i. P (xs ! i)" and ?n = "sort_Search (length xs) (\<lambda>i. P (xs ! i))"
  have "\<forall>a b. a \<le> b \<longrightarrow> b < length xs \<longrightarrow> ?f a \<longrightarrow> ?f b"
    using sorted_nth_mono [OF assms(1)] assms(2) unfolding upward_def by blast
  note bnd = sort_Search_boundary [OF this]
  have "\<forall>x \<in> set (take ?n xs). \<not> P x"
    using bnd(1) bnd(3) by (auto simp: in_set_conv_nth)
  moreover have "\<forall>y \<in> set (drop ?n xs). P y"
    using bnd(2) by (auto simp: in_set_conv_nth)
  ultimately have "filter P (take ?n xs @ drop ?n xs) = drop ?n xs"
    by (rule filter_upward_split)
  then show ?thesis by simp
qed

section \<open>Sorted concatenations of non-empty blocks\<close>

lemma sorted_concat_blocks:
  assumes "sorted (concat uss)" and "i < length uss" and "uss ! i \<noteq> []"
  shows "\<And>x. x \<in> set (concat (take i uss)) \<Longrightarrow> x \<le> hd (uss ! i)"
    and "\<And>y. y \<in> set (uss ! i) \<union> set (concat (drop (Suc i) uss)) \<Longrightarrow> hd (uss ! i) \<le> y"
    and "sorted (uss ! i)"
proof -
  have split: "concat uss = concat (take i uss) @ (uss ! i) @ concat (drop (Suc i) uss)"
    using id_take_nth_drop [OF assms(2)] by (metis concat.simps(2) concat_append)
  have s: "sorted (concat (take i uss) @ (uss ! i) @ concat (drop (Suc i) uss))"
    using assms(1) by (simp only: split)
  then show "\<And>x. x \<in> set (concat (take i uss)) \<Longrightarrow> x \<le> hd (uss ! i)"
    and "\<And>y. y \<in> set (uss ! i) \<union> set (concat (drop (Suc i) uss)) \<Longrightarrow> hd (uss ! i) \<le> y"
    and "sorted (uss ! i)"
    using assms(3) by (cases "uss ! i"; auto simp: sorted_append)+
qed

lemma strict_concat_blocks:
  assumes "sorted_wrt (<) (concat uss)" and "i < length uss" and "uss ! i \<noteq> []"
    and "x \<in> set (concat (take i uss))"
  shows "x < hd (uss ! i)"
proof -
  have split: "concat uss = concat (take i uss) @ (uss ! i) @ concat (drop (Suc i) uss)"
    using id_take_nth_drop [OF assms(2)] by (metis concat.simps(2) concat_append)
  have "sorted_wrt (<) (concat (take i uss) @ (uss ! i) @ concat (drop (Suc i) uss))"
    using assms(1) by (simp only: split)
  then show ?thesis using assms(3,4) by (auto simp: sorted_wrt_append)
qed

section \<open>Reading on from a block\<close>

text \<open>
  \<open>pack_of uss p\<close>: the blocks of \<open>p\<close> are the runs \<open>uss\<close>, each short enough for the uint32
  count; \<open>reads\<close>: a decoder's state after a call returned \<open>us\<close> from block \<open>i\<close>.
\<close>

definition pack_of :: "(u32 list \<Rightarrow> byte list) \<Rightarrow> u64 list list \<Rightarrow> uid_pack \<Rightarrow> bool" where
  "pack_of Encode4 uss p \<longleftrightarrow> Blocks p = map (mk_block Encode4) uss
     \<and> (\<forall>us \<in> set uss. run us \<and> length us \<le> 2 ^ 32 - 4)"

lemma pack_of_nth: "\<lbrakk> pack_of Encode4 uss p; i < length uss \<rbrakk> \<Longrightarrow> uss ! i \<noteq> []"
  by (auto simp: pack_of_def run_def)

lemma pack_of_Encode:
  assumes "good_blocks bs uss" and "bs \<le> 2 ^ 32 - 4" and "Blocks p = map (mk_block Encode4) uss"
  shows "pack_of Encode4 uss p"
  using assms by (fastforce simp: pack_of_def good_blocks_def)

text \<open>
  \<open>Seek\<close> leaves the decoder so that what it returned and the blocks after it are exactly
  the uids that pass the test.
\<close>

definition seeks :: "u64 list list \<Rightarrow> u64 list \<Rightarrow> u64 list \<Rightarrow> decoder \<Rightarrow> bool" where
  "seeks uss want us d \<longleftrightarrow> us @ (if us = [] then [] else concat (drop (Suc (dblockIdx d)) uss)) = want"

context group_varint
begin

lemma UnpackBlock_pack_of:
  assumes "pack_of Encode4 uss p" and "dPack d = Some p"
  shows "UnpackBlock Decode4 BytesUsed d =
    (let us = (if dblockIdx d < length uss then uss ! dblockIdx d else []) in Ret (us, d\<lparr>duids := us\<rparr>))"
proof (cases "dblockIdx d < length uss")
  case True
  with assms show ?thesis
    by (subst UnpackBlock_mk_block [of d p uss]) (auto simp: pack_of_def Let_def)
next
  case False
  with assms show ?thesis by (simp add: UnpackBlock_past_end pack_of_def)
qed

lemma for_blocks_pack_of:
  assumes "pack_of Encode4 uss p" and "dPack d = Some p"
  shows "for_blocks Decode4 BytesUsed body us d s =
    (if us = [] then Ret s else go_fold body (us # drop (Suc (dblockIdx d)) uss) s)"
  using assms
proof (induction "length uss - dblockIdx d" arbitrary: us d s rule: less_induct)
  case less
  show ?case
  proof (cases "us = []")
    case True
    then show ?thesis by (simp add: for_blocks.simps)
  next
    case False
    let ?d = "d\<lparr>dblockIdx := dblockIdx d + 1\<rparr>"
    define us' where "us' = (if Suc (dblockIdx d) < length uss then uss ! Suc (dblockIdx d) else [])"
    have nx: "Next Decode4 BytesUsed d = Ret (us', ?d\<lparr>duids := us'\<rparr>)"
      unfolding Next_def using UnpackBlock_pack_of [OF less.prems(1), of ?d] less.prems(2)
      by (simp add: us'_def Let_def)
    have step: "for_blocks Decode4 BytesUsed body us d s
        = go_bind (body us s) (\<lambda>s. for_blocks Decode4 BytesUsed body us' (?d\<lparr>duids := us'\<rparr>) s)"
      using False nx by (subst for_blocks.simps) simp
    show ?thesis
    proof (cases "Suc (dblockIdx d) < length uss")
      case True
      have ne: "us' \<noteq> []" using True pack_of_nth [OF less.prems(1) True] by (simp add: us'_def)
      have "drop (Suc (dblockIdx d)) uss = us' # drop (Suc (Suc (dblockIdx d))) uss"
        using True by (simp add: us'_def Cons_nth_drop_Suc)
      with step ne less.hyps [of "?d\<lparr>duids := us'\<rparr>" us'] less.prems True False
      show ?thesis by (simp cong: go_bind_cong)
    next
      case last: False
      then have "us' = []" by (simp add: us'_def)
      with step last False show ?thesis by (simp add: for_blocks.simps cong: go_bind_cong)
    qed
  qed
qed

lemma seeks_block:
  assumes "pack_of Encode4 uss p"
  shows "seeks uss (concat (drop i uss)) (if i < length uss then uss ! i else []) (d\<lparr>dblockIdx := i, duids := x\<rparr>)"
proof (cases "i < length uss")
  case True
  then have "drop i uss = uss ! i # drop (Suc i) uss" by (simp add: Cons_nth_drop_Suc)
  with True pack_of_nth [OF assms True] show ?thesis by (simp add: seeks_def)
qed (simp add: seeks_def)

lemma Seek_0:
  assumes "pack_of Encode4 uss p" and "dPack d = Some p"
  shows "\<exists>us d'. Seek Decode4 BytesUsed 0 whence d = Ret (us, d') \<and> dPack d' = Some p
    \<and> seeks uss (concat uss) us d'"
  using seeks_block [OF assms(1), where i = 0 and d = d] assms
  by (auto simp: Seek_def UnpackBlock_pack_of Let_def)

lemma Base_mk_block [simp]: "Base (mk_block E us) = hd us"
  by (simp add: mk_block_def)

lemma Seek_pack_of:
  assumes po: "pack_of Encode4 uss p" and d: "dPack d = Some p"
    and strict: "sorted_wrt (<) (concat uss)" and "uid \<noteq> 0"
  shows "\<exists>us d'. Seek Decode4 BytesUsed uid whence d = Ret (us, d') \<and> dPack d' = Some p
    \<and> seeks uss (filter (seek_test whence uid) (concat uss)) us d'"
proof -
  let ?P = "seek_test whence uid"
  have sorted: "sorted (concat uss)" using strict strict_sorted_imp_sorted by blast
  have blocks: "Blocks p = map (mk_block Encode4) uss" using po by (simp add: pack_of_def)
  define f where "f = (\<lambda>i. ?P (Base (Blocks p ! i)))"
  have f_hd: "f i = ?P (hd (uss ! i))" if "i < length uss" for i
    using that by (simp add: f_def blocks)
  define idx where "idx = sort_Search (length uss) f"
  have mono: "f b" if "a \<le> b" "b < length uss" "f a" for a b
  proof -
    have "hd (uss ! a) \<le> hd (uss ! b)"
    proof (cases "a = b")
      case False
      then have "a < length (take b uss)" "take b uss ! a = uss ! a" using that by auto
      then have "uss ! a \<in> set (take b uss)" by (metis nth_mem)
      moreover have "hd (uss ! a) \<in> set (uss ! a)" using pack_of_nth [OF po, of a] that by simp
      ultimately have "hd (uss ! a) \<in> set (concat (take b uss))" by auto
      then show ?thesis using sorted_concat_blocks(1) [OF sorted that(2) pack_of_nth [OF po that(2)]] by blast
    qed simp
    then show ?thesis using f_hd that upward_seek_test [of whence uid] by (auto simp: upward_def)
  qed
  then have "\<forall>a b. a \<le> b \<longrightarrow> b < length uss \<longrightarrow> f a \<longrightarrow> f b" by blast
  note bnd = sort_Search_boundary [OF this, folded idx_def]
  have later: "?P y" if "y \<in> set (concat (drop i uss))" "idx \<le> i" for i y
  proof -
    have i: "i < length uss" using that by (cases "i < length uss") auto
    then have "y \<in> set (uss ! i) \<union> set (concat (drop (Suc i) uss))"
      using that(1) by (simp add: Cons_nth_drop_Suc [symmetric])
    then have "hd (uss ! i) \<le> y"
      by (rule sorted_concat_blocks(2) [OF sorted i pack_of_nth [OF po i]])
    moreover have "?P (hd (uss ! i))" using bnd(2) [OF that(2) i] f_hd [OF i] by simp
    ultimately show ?thesis using upward_seek_test [of whence uid] by (auto simp: upward_def)
  qed
  let ?d0 = "d\<lparr>dblockIdx := 0\<rparr>"
  have Unpack: "UnpackBlock Decode4 BytesUsed (e\<lparr>dblockIdx := i\<rparr>) =
      (let us = (if i < length uss then uss ! i else []) in Ret (us, e\<lparr>dblockIdx := i, duids := us\<rparr>))"
    if "dPack e = Some p" for i and e
    using UnpackBlock_pack_of [OF po, of "e\<lparr>dblockIdx := i\<rparr>"] that by simp
  have Seek: "Seek Decode4 BytesUsed uid whence d =
     (if idx = 0 then UnpackBlock Decode4 BytesUsed ?d0
      else if idx < length uss \<and> Base (Blocks p ! idx) = uid
      then UnpackBlock Decode4 BytesUsed (d\<lparr>dblockIdx := idx\<rparr>)
      else go_bind (UnpackBlock Decode4 BytesUsed (d\<lparr>dblockIdx := idx - 1\<rparr>))
        (\<lambda>(us, d).
          let uidx = sort_Search (length us) (\<lambda>i. ?P (us ! i))
          in if uidx < length us then Ret (drop uidx us, d\<lparr>duids := drop uidx us\<rparr>)
             else Next Decode4 BytesUsed d))"
  proof -
    have len: "length uss = length (Blocks p)" by (simp add: blocks)
    have upd: "?d0\<lparr>dblockIdx := i\<rparr> = d\<lparr>dblockIdx := i\<rparr>" for i by simp
    show ?thesis
      by (simp only: Seek_def d option.case Let_def idx_def f_def len upd \<open>uid \<noteq> 0\<close> if_False)
  qed
  show ?thesis
  proof (cases "idx = 0")
    case True
    have "filter ?P (concat uss) = concat (drop 0 uss)"
      using later [of _ 0] True by (auto simp: filter_id_conv)
    then show ?thesis
      using seeks_block [OF po, where i = 0 and d = d] True Unpack [OF d, of 0] Seek d by (auto simp: Let_def)
  next
    case pos: False
    show ?thesis
    proof (cases "idx < length uss \<and> Base (Blocks p ! idx) = uid")
      case True
      then have i: "idx < length uss" and hd: "hd (uss ! idx) = uid" by (auto simp: blocks)
      have "\<forall>x \<in> set (concat (take idx uss)). \<not> ?P x"
        using strict_concat_blocks [OF strict i pack_of_nth [OF po i]] hd
        by (cases whence) fastforce+
      moreover have "\<forall>y \<in> set (concat (drop idx uss)). ?P y" using later by blast
      ultimately have "filter ?P (concat (take idx uss) @ concat (drop idx uss)) = concat (drop idx uss)"
        by (rule filter_upward_split)
      then have "filter ?P (concat uss) = concat (drop idx uss)"
        by (metis append_take_drop_id concat_append)
      then show ?thesis
        using seeks_block [OF po, where i = idx and d = d] True pos Unpack [OF d, of idx] Seek d
        by (auto simp: Let_def)
    next
      case prev: False
      define i where "i = idx - 1"
      have i: "i < length uss" and idx: "idx = Suc i" using pos bnd(3) by (auto simp: i_def)
      define uidx where "uidx = sort_Search (length (uss ! i)) (\<lambda>j. ?P (uss ! i ! j))"
      have notP: "\<not> ?P (hd (uss ! i))" using bnd(1) [of i] f_hd [OF i] idx by simp
      have before: "\<forall>x \<in> set (concat (take i uss)). \<not> ?P x"
        using sorted_concat_blocks(1) [OF sorted i pack_of_nth [OF po i]] notP upward_seek_test [of whence uid]
        by (auto simp: upward_def)
      have "filter ?P (uss ! i) = drop uidx (uss ! i)"
        using filter_sort_Search [OF _ upward_seek_test] sorted_concat_blocks(3) [OF sorted i pack_of_nth [OF po i]]
        by (simp add: uidx_def)
      moreover have "concat uss = concat (take i uss) @ (uss ! i) @ concat (drop idx uss)"
        using id_take_nth_drop [OF i] idx by (metis concat.simps(2) concat_append)
      moreover have "filter ?P (concat (drop idx uss)) = concat (drop idx uss)"
        using later by (auto simp: filter_id_conv)
      moreover have "filter ?P (concat (take i uss)) = []" using before by (simp add: filter_empty_conv)
      ultimately have want: "filter ?P (concat uss) = drop uidx (uss ! i) @ concat (drop idx uss)"
        by (simp only: filter_append) simp
      have "Seek Decode4 BytesUsed uid whence d =
        go_bind (UnpackBlock Decode4 BytesUsed (d\<lparr>dblockIdx := i\<rparr>)) (\<lambda>(us, d).
          let uidx = sort_Search (length us) (\<lambda>i. ?P (us ! i))
          in if uidx < length us then Ret (drop uidx us, d\<lparr>duids := drop uidx us\<rparr>)
             else Next Decode4 BytesUsed d)"
        using Seek pos prev by (simp only: if_False i_def)
      then have Seek': "Seek Decode4 BytesUsed uid whence d =
        (if uidx < length (uss ! i)
         then Ret (drop uidx (uss ! i), d\<lparr>dblockIdx := i, duids := drop uidx (uss ! i)\<rparr>)
         else Next Decode4 BytesUsed (d\<lparr>dblockIdx := i, duids := uss ! i\<rparr>))"
        using Unpack [OF d, of i] i by (simp add: Let_def uidx_def)
      show ?thesis
      proof (cases "uidx < length (uss ! i)")
        case True
        then have "seeks uss (filter ?P (concat uss)) (drop uidx (uss ! i))
            (d\<lparr>dblockIdx := i, duids := drop uidx (uss ! i)\<rparr>)"
          by (simp add: seeks_def want idx)
        with True Seek' d show ?thesis by simp
      next
        case False
        then have "filter ?P (concat uss) = concat (drop idx uss)" using want by simp
        moreover have "Next Decode4 BytesUsed (d\<lparr>dblockIdx := i, duids := uss ! i\<rparr>)
          = (let us = (if idx < length uss then uss ! idx else [])
             in Ret (us, d\<lparr>dblockIdx := idx, duids := us\<rparr>))"
          using Unpack [of "d\<lparr>duids := uss ! i\<rparr>" idx] d by (simp add: Next_def idx)
        ultimately show ?thesis
          using False Seek' d seeks_block [OF po, where i = idx and d = d] by (simp add: Let_def)
      qed
    qed
  qed
qed

end

end
