(* ===== verification/UidPackProps.thy ===== *)
theory UidPackProps
  imports UidSeek
begin

unbundle bit_operations_syntax

text \<open>
  The properties of the uid pack codec, for any group varint provider that meets the laws of
  \<open>group_varint\<close>. Witnesses use the provider of GroupVarint.thy.
\<close>

section \<open>Library lemmas\<close>

context group_varint
begin

lemma Encode_pack:
  assumes "sorted uids" and "bs \<le> 2 ^ 32 - 4"
  obtains uss where "concat uss = uids" "good_blocks bs uss"
    and "uids = [] \<Longrightarrow> Encode Encode4 ref uids bs = Ret None"
    and "uids \<noteq> [] \<Longrightarrow> \<exists>p. Encode Encode4 ref uids bs = Ret (Some p) \<and> pack_of Encode4 uss p
          \<and> p = \<lparr>BlockSize = word_of_int bs, Blocks = map (mk_block Encode4) uss, AllocRef = ref\<rparr>"
proof -
  obtain uss where "concat uss = uids" "good_blocks bs uss"
    "Encode Encode4 ref uids bs = Ret (if uids = [] then None
      else Some \<lparr>BlockSize = word_of_int bs, Blocks = map (mk_block Encode4) uss, AllocRef = ref\<rparr>)"
    using Encode_blocks [OF assms(1)] by blast
  then show ?thesis
    using pack_of_Encode [OF _ assms(2)] by (intro that [of uss]) auto
qed

lemma go_fold_append_concat: "go_fold (\<lambda>us out. Ret (out @ us)) uss acc = Ret (acc @ concat uss)"
  by (induction uss arbitrary: acc) auto

lemma go_fold_concat: "go_fold (go_fold f) uss s = go_fold f (concat uss) s"
  by (induction uss arbitrary: s) (simp_all add: go_fold_append cong: go_bind_cong)

text \<open>Reading on after a seek visits the uids that were sought.\<close>

lemma for_blocks_seeks:
  assumes "pack_of Encode4 uss p" and "dPack d = Some p" and "seeks uss want us d"
  shows "for_blocks Decode4 BytesUsed (\<lambda>us out. Ret (out @ us)) us d [] = Ret want"
    and "for_blocks Decode4 BytesUsed (go_fold f) us d s = go_fold f want s"
proof -
  have want: "want = concat (if us = [] then [] else us # drop (Suc (dblockIdx d)) uss)"
    using assms(3) by (auto simp: seeks_def)
  show "for_blocks Decode4 BytesUsed (\<lambda>us out. Ret (out @ us)) us d [] = Ret want"
    by (simp add: for_blocks_pack_of [OF assms(1,2)] go_fold_append_concat want)
  show "for_blocks Decode4 BytesUsed (go_fold f) us d s = go_fold f want s"
    by (simp add: for_blocks_pack_of [OF assms(1,2)] go_fold_append want flip: go_fold_concat)
qed

lemma Decode_None: "Decode Decode4 BytesUsed None seek = Ret []"
  by (simp add: Decode_def Seek_def for_blocks.simps ApproxLen_def wrap64_def make_fits_def)

lemma decode_pack_of:
  assumes "pack_of Encode4 uss p"
  shows "Decode Decode4 BytesUsed (Some p) 0
    = (if make_fits 8 (ApproxLen (Some p)) then Ret (concat uss) else Panic MakeSliceLen)"
proof -
  from Seek_0 [OF assms, of "\<lparr>dPack = Some p, dblockIdx = 0, duids = []\<rparr>" SeekStart]
  obtain us d' where "Seek Decode4 BytesUsed 0 SeekStart \<lparr>dPack = Some p, dblockIdx = 0, duids = []\<rparr> = Ret (us, d')"
    "dPack d' = Some p" "seeks uss (concat uss) us d'" by auto
  with for_blocks_seeks(1) [OF assms] show ?thesis by (simp add: Decode_def)
qed

text \<open>Room for the blocks: there is never more than one block a uid.\<close>

lemma run_blocks_le: "\<forall>us \<in> set uss. run us \<Longrightarrow> length uss \<le> length (concat uss)"
proof (induction uss)
  case (Cons us uss)
  then have "us \<noteq> []" by (auto simp: run_def)
  with Cons show ?case by (cases us) auto
qed simp

lemma ApproxLen_pack:
  assumes "Blocks p = map f uss" and "BlockSize p = word_of_int bs" and "1 \<le> bs" and "bs \<le> 2 ^ 32 - 4"
    and "int (length uss) * bs < 2 ^ 63"
  shows "ApproxLen (Some p) = int (length uss) * bs"
proof -
  have "uint (word_of_int bs :: u32) = bs" using assms(3,4) by (simp add: uint_word_of_int)
  moreover have "0 \<le> int (length uss) * bs" using assms(3) by simp
  then have "wrap64 (int (length uss) * bs) = int (length uss) * bs"
    using assms(5) by (intro wrap64_small) linarith+
  ultimately show ?thesis using assms(1,2) by (simp add: ApproxLen_def)
qed

lemma room_encode:
  assumes "\<forall>us \<in> set uss. run us" and "Blocks p = map f uss" and "BlockSize p = word_of_int bs"
    and "1 \<le> bs" and "bs \<le> 2 ^ 32 - 4" and "int (length (concat uss)) * bs \<le> 2 ^ 45"
  shows "make_fits 8 (ApproxLen (Some p))"
proof -
  have "int (length uss) * bs \<le> int (length (concat uss)) * bs"
    using run_blocks_le [OF assms(1)] assms(4) by (intro mult_right_mono) simp_all
  then have "int (length uss) * bs \<le> 2 ^ 45" using assms(6) by (rule order_trans)
  with ApproxLen_pack [OF assms(2,3,4,5)] assms(4) show ?thesis by (simp add: make_fits_def mult.commute)
qed

lemma decode_encode:
  assumes "sorted uids" and "bs \<le> 2 ^ 32 - 4"
  shows "\<exists>p. Encode Encode4 ref uids bs = Ret p
    \<and> Decode Decode4 BytesUsed p 0 = (if make_fits 8 (ApproxLen p) then Ret uids else Panic MakeSliceLen)
    \<and> (1 \<le> bs \<and> int (length uids) * bs \<le> 2 ^ 45 \<longrightarrow> make_fits 8 (ApproxLen p))"
proof -
  obtain uss where uss: "concat uss = uids" "good_blocks bs uss" and
    empty: "uids = [] \<Longrightarrow> Encode Encode4 ref uids bs = Ret None" and
    some: "uids \<noteq> [] \<Longrightarrow> \<exists>p. Encode Encode4 ref uids bs = Ret (Some p) \<and> pack_of Encode4 uss p
       \<and> p = \<lparr>BlockSize = word_of_int bs, Blocks = map (mk_block Encode4) uss, AllocRef = ref\<rparr>"
    by (rule Encode_pack [OF assms, of ref]) blast
  show ?thesis
  proof (cases "uids = []")
    case True
    have "make_fits 8 (ApproxLen None)" by (simp add: ApproxLen_def make_fits_def)
    with True empty Decode_None show ?thesis by auto
  next
    case False
    with some obtain p where p: "Encode Encode4 ref uids bs = Ret (Some p)" "pack_of Encode4 uss p"
      and "Blocks p = map (mk_block Encode4) uss" "BlockSize p = word_of_int bs" by auto
    with room_encode [of uss p "mk_block Encode4" bs] assms(2) uss
    have "1 \<le> bs \<and> int (length uids) * bs \<le> 2 ^ 45 \<longrightarrow> make_fits 8 (ApproxLen (Some p))"
      by (auto simp: good_blocks_def)
    with p(1) decode_pack_of [OF p(2)] uss(1) show ?thesis by auto
  qed
qed

lemma seek_encode:
  assumes "sorted_wrt (<) uids" and "bs \<le> 2 ^ 32 - 4" and "uid \<noteq> 0"
    and "Encode Encode4 ref uids bs = Ret (Some p)" and "dPack d = Some p"
  shows "\<exists>us d'. Seek Decode4 BytesUsed uid whence d = Ret (us, d')
     \<and> (us = [] \<longleftrightarrow> filter (seek_test whence uid) uids = [])
     \<and> for_blocks Decode4 BytesUsed (\<lambda>us out. Ret (out @ us)) us d' [] = Ret (filter (seek_test whence uid) uids)"
proof -
  have "sorted uids" using assms(1) by (rule strict_sorted_imp_sorted)
  then obtain uss where uss: "concat uss = uids" and
    empty: "uids = [] \<Longrightarrow> Encode Encode4 ref uids bs = Ret None" and
    some: "uids \<noteq> [] \<Longrightarrow> \<exists>p. Encode Encode4 ref uids bs = Ret (Some p) \<and> pack_of Encode4 uss p"
    using Encode_pack [OF _ assms(2), of uids ref] by blast
  then have po: "pack_of Encode4 uss p" using assms(4) by (cases "uids = []") auto
  from Seek_pack_of [OF po assms(5) _ assms(3), of whence] assms(1) uss
  obtain us d' where *: "Seek Decode4 BytesUsed uid whence d = Ret (us, d')" "dPack d' = Some p"
    "seeks uss (filter (seek_test whence uid) uids) us d'" by auto
  moreover have "us = [] \<longleftrightarrow> filter (seek_test whence uid) uids = []"
    using *(3) by (auto simp: seeks_def)
  ultimately show ?thesis using for_blocks_seeks(1) [OF po *(2,3)] by blast
qed

lemma decode_seek:
  assumes "sorted_wrt (<) uids" and "bs \<le> 2 ^ 32 - 4" and "1 \<le> bs" and "int (length uids) * bs \<le> 2 ^ 45"
  shows "\<exists>p. Encode Encode4 ref uids bs = Ret p
    \<and> Decode Decode4 BytesUsed p seek = Ret (filter (\<lambda>u. seek \<le> u) uids)"
proof -
  have s: "sorted uids" using assms(1) by (rule strict_sorted_imp_sorted)
  obtain p where p: "Encode Encode4 ref uids bs = Ret p" "Decode Decode4 BytesUsed p 0 = Ret uids"
    and fits: "make_fits 8 (ApproxLen p)"
    using decode_encode [OF s assms(2), of ref] assms(3,4) by auto
  show ?thesis
  proof (cases "seek = 0")
    case True
    with p show ?thesis by auto
  next
    case nz: False
    show ?thesis
    proof (cases p)
      case None
      with p Decode_None show ?thesis by fastforce
    next
      case (Some q)
      from seek_encode [OF assms(1,2) nz p(1) [unfolded Some], of "\<lparr>dPack = Some q, dblockIdx = 0, duids = []\<rparr>" SeekStart]
      obtain us d' where "Seek Decode4 BytesUsed seek SeekStart \<lparr>dPack = Some q, dblockIdx = 0, duids = []\<rparr> = Ret (us, d')"
        "for_blocks Decode4 BytesUsed (\<lambda>us out. Ret (out @ us)) us d' [] = Ret (filter (seek_test SeekStart seek) uids)"
        by auto
      moreover have "seek_test SeekStart seek = (\<lambda>u. seek \<le> u)" by auto
      ultimately have "Decode Decode4 BytesUsed p seek = Ret (filter (\<lambda>u. seek \<le> u) uids)"
        using fits by (simp add: Decode_def Some)
      with p(1) show ?thesis by blast
    qed
  qed
qed

end

section \<open>The linear seek\<close>

lemma PeekNextBase_Some:
  "dPack d = Some p \<Longrightarrow> PeekNextBase d =
     Ret (if Suc (dblockIdx d) < length (Blocks p) then Base (Blocks p ! Suc (dblockIdx d)) else - 1)"
  by (simp add: PeekNextBase_def)

lemma linear_seek_loop_Max:
  assumes "dPack d \<noteq> None"
  shows "linear_seek_loop (- 1) d = None"
proof (rule ccontr)
  assume "linear_seek_loop (- 1) d \<noteq> None"
  then obtain r where r: "linear_seek_loop (- 1) d = Some r" by auto
  have "(- 1 :: u64) = - 1 \<longrightarrow> dPack d \<noteq> None \<longrightarrow> False"
  proof (rule linear_seek_loop.raw_induct [where P = "\<lambda>seek d _. seek = - 1 \<longrightarrow> dPack d \<noteq> None \<longrightarrow> False", OF _ r])
    fix f :: "u64 \<Rightarrow> decoder \<Rightarrow> decoder go option" and seek d and r :: "decoder go"
    assume IH: "\<And>seek d r. f seek d = Some r \<Longrightarrow> seek = - 1 \<longrightarrow> dPack d \<noteq> None \<longrightarrow> False"
      and eq: "(case PeekNextBase d of Ret v \<Rightarrow> if seek < v then Some (Ret d)
           else f seek (d\<lparr>dblockIdx := dblockIdx d + 1\<rparr>)
         | Panic p \<Rightarrow> Some (Panic p) | Hang \<Rightarrow> Some Hang) = Some r"
    show "seek = - 1 \<longrightarrow> dPack d \<noteq> None \<longrightarrow> False"
    proof (intro impI)
      assume "seek = - 1" and "dPack d \<noteq> None"
      then obtain p where p: "dPack d = Some p" by auto
      have "\<not> seek < v" for v :: u64 using \<open>seek = - 1\<close> word_order.extremum [of v] by simp
      with eq p have "f seek (d\<lparr>dblockIdx := dblockIdx d + 1\<rparr>) = Some r"
        by (auto simp: PeekNextBase_Some split: if_splits)
      from IH [OF this] \<open>seek = - 1\<close> p show False by simp
    qed
  qed
  with assms show False by simp
qed

lemma linear_seek_loop_stops:
  assumes "dPack d = Some p" and "seek \<noteq> - 1"
  shows "\<exists>j. dblockIdx d \<le> j \<and> linear_seek_loop seek d = Some (Ret (d\<lparr>dblockIdx := j\<rparr>))
    \<and> (\<forall>k. dblockIdx d < k \<and> k \<le> j \<longrightarrow> k < length (Blocks p) \<and> Base (Blocks p ! k) \<le> seek)
    \<and> (Suc j < length (Blocks p) \<longrightarrow> seek < Base (Blocks p ! Suc j))"
  using assms
proof (induction "length (Blocks p) - dblockIdx d" arbitrary: d rule: less_induct)
  case less
  let ?i = "dblockIdx d"
  have max: "seek < - 1" using less.prems(2) by (simp add: word_order.not_eq_extremum)
  have unf: "linear_seek_loop seek d = (case PeekNextBase d of Ret v \<Rightarrow> if seek < v then Some (Ret d)
           else linear_seek_loop seek (d\<lparr>dblockIdx := dblockIdx d + 1\<rparr>)
         | Panic p \<Rightarrow> Some (Panic p) | Hang \<Rightarrow> Some Hang)"
    by (rule linear_seek_loop.simps)
  show ?case
  proof (cases "Suc ?i < length (Blocks p) \<and> Base (Blocks p ! Suc ?i) \<le> seek")
    case True
    let ?d = "d\<lparr>dblockIdx := Suc ?i\<rparr>"
    have "length (Blocks p) - dblockIdx ?d < length (Blocks p) - ?i" using True by (simp add: diff_less_mono2)
    from less.hyps [OF this] less.prems
    obtain j where j: "Suc ?i \<le> j" "linear_seek_loop seek ?d = Some (Ret (?d\<lparr>dblockIdx := j\<rparr>))"
      "\<forall>k. Suc ?i < k \<and> k \<le> j \<longrightarrow> k < length (Blocks p) \<and> Base (Blocks p ! k) \<le> seek"
      "Suc j < length (Blocks p) \<longrightarrow> seek < Base (Blocks p ! Suc j)"
      by auto
    have "k < length (Blocks p) \<and> Base (Blocks p ! k) \<le> seek" if "?i < k \<and> k \<le> j" for k
      using j(3) that True by (cases "k = Suc ?i") auto
    moreover have "linear_seek_loop seek d = Some (Ret (d\<lparr>dblockIdx := j\<rparr>))"
      using unf j(2) conjunct1 [OF True] conjunct2 [OF True] less.prems(1)
      by (simp add: PeekNextBase_Some not_less [symmetric])
    ultimately show ?thesis using j(1,4) by (intro exI [of _ j]) simp
  next
    case False
    then have "linear_seek_loop seek d = Some (Ret d)"
      using unf less.prems(1) max by (auto simp: PeekNextBase_Some not_le)
    with False show ?thesis by (intro exI [of _ ?i]) (auto simp: not_le)
  qed
qed

context group_varint
begin

lemma linear_seek_encode:
  assumes "sorted uids" and "bs \<le> 2 ^ 32 - 4" and "uid \<noteq> - 1"
    and "Encode Encode4 ref uids bs = Ret (Some p)"
    and "dPack d = Some p" and "dblockIdx d = 0"
  shows "\<exists>before us after d'. LinearSeek Decode4 BytesUsed uid d = Ret (us, d')
    \<and> uids = before @ us @ after \<and> us \<noteq> []
    \<and> (before \<noteq> [] \<longrightarrow> hd us \<le> uid) \<and> (\<forall>u \<in> set after. uid < u)"
proof -
  obtain uss where uss: "concat uss = uids" and
    empty: "uids = [] \<Longrightarrow> Encode Encode4 ref uids bs = Ret None" and
    some: "uids \<noteq> [] \<Longrightarrow> \<exists>p. Encode Encode4 ref uids bs = Ret (Some p) \<and> pack_of Encode4 uss p"
    by (rule Encode_pack [OF assms(1,2), of ref]) blast
  have ne: "uids \<noteq> []" and po: "pack_of Encode4 uss p"
    using empty some assms(4) by (cases "uids = []"; auto)+
  have blocks: "Blocks p = map (mk_block Encode4) uss" using po by (simp add: pack_of_def)
  obtain j where loop: "linear_seek_loop uid d = Some (Ret (d\<lparr>dblockIdx := j\<rparr>))"
    and below: "\<forall>k. dblockIdx d < k \<and> k \<le> j \<longrightarrow> k < length (Blocks p) \<and> Base (Blocks p ! k) \<le> uid"
    and above: "Suc j < length (Blocks p) \<longrightarrow> uid < Base (Blocks p ! Suc j)"
    using linear_seek_loop_stops [OF assms(5,3)] by blast
  have j: "k < length uss \<and> hd (uss ! k) \<le> uid" if "0 < k \<and> k \<le> j" for k
    using below that assms(6) by (metis Base_mk_block blocks length_map nth_map)
  have jl: "j < length uss" using j [of j] ne uss by (cases "j = 0") auto
  have split: "uids = concat (take j uss) @ uss ! j @ concat (drop (Suc j) uss)"
    using id_take_nth_drop [OF jl] uss by (metis concat.simps(2) concat_append)
  have after: "uid < u" if "u \<in> set (concat (drop (Suc j) uss))" for u
  proof -
    have i: "Suc j < length uss" using that by (cases "Suc j < length uss") auto
    have "u \<in> set (uss ! Suc j) \<union> set (concat (drop (Suc (Suc j)) uss))"
      using that i by (simp add: Cons_nth_drop_Suc [symmetric])
    then have "hd (uss ! Suc j) \<le> u"
      by (rule sorted_concat_blocks(2) [OF assms(1) [folded uss] i pack_of_nth [OF po i]])
    with above i show ?thesis by (simp add: blocks)
  qed
  have "LinearSeek Decode4 BytesUsed uid d = Ret (uss ! j, d\<lparr>dblockIdx := j, duids := uss ! j\<rparr>)"
    using loop UnpackBlock_pack_of [OF po, of "d\<lparr>dblockIdx := j\<rparr>"] assms(5) jl
    by (simp add: LinearSeek_def Let_def)
  moreover have "concat (take j uss) \<noteq> [] \<longrightarrow> hd (uss ! j) \<le> uid" using j [of j] by (cases "j = 0") auto
  ultimately show ?thesis using split pack_of_nth [OF po jl] after by blast
qed

end

section \<open>Delta buffers\<close>

text \<open>The bytes that \<open>DecodeToBuffer\<close> writes for a list of uids after \<open>prev\<close>.\<close>

fun delta_bytes :: "u64 \<Rightarrow> u64 list \<Rightarrow> byte list" where
  "delta_bytes prev [] = []"
| "delta_bytes prev (u # us) = put_uvarint (u - prev) @ delta_bytes u us"

lemma go_fold_write_delta:
  "\<forall>n \<le> length (buf @ delta_bytes prev us). fits n \<Longrightarrow>
   go_fold (write_delta fits) us (buf, prev) = Ret (buf @ delta_bytes prev us, last (prev # us))"
proof (induction us arbitrary: buf prev)
  case (Cons u us)
  then show ?case using Cons.IH [of "buf @ put_uvarint (u - prev)" u] by (simp add: write_delta_def)
qed simp

lemma length_delta_bytes: "length (delta_bytes prev us) \<le> 10 * length us"
proof (induction us arbitrary: prev)
  case (Cons u us)
  from Cons.IH [of u] length_put_uvarint [of "u - prev"] show ?case by simp
qed simp

lemma encode_buffer_loop_append:
  "may_hang (encode_buffer_loop Encode4 ref (delta_bytes prev us @ tail) prev enc) =
     go_bind (go_fold (Add Encode4 ref) us enc)
       (\<lambda>enc. may_hang (encode_buffer_loop Encode4 ref tail (last (prev # us)) enc))"
proof (induction us arbitrary: prev enc)
  case (Cons u us)
  show ?case
    by (subst encode_buffer_loop.simps, cases "Add Encode4 ref u enc")
      (simp_all add: uvarint_put_uvarint Let_def Cons.IH)
qed simp

lemma EncodeFromBuffer_delta_bytes:
  "EncodeFromBuffer Encode4 ref (delta_bytes 0 us) bs = Encode Encode4 ref us bs"
proof -
  have "may_hang (encode_buffer_loop Encode4 ref [] prev enc) = Ret enc" for prev enc
    by (simp add: encode_buffer_loop.simps)
  moreover have "go_bind m Ret = m" for m :: "encoder go" by (cases m) auto
  ultimately show ?thesis
    using encode_buffer_loop_append [of Encode4 ref 0 us "[]"]
    by (simp add: EncodeFromBuffer_def Encode_def)
qed

text \<open>\<open>Add\<close> never fails on an encoder whose buffer exists once its pack does.\<close>

definition has_buf :: "encoder \<Rightarrow> bool" where
  "has_buf e \<longleftrightarrow> epack e = None \<or> ebuf e \<noteq> None"

definition ready :: "encoder \<Rightarrow> bool" where
  "ready e \<longleftrightarrow> epack e \<noteq> None \<and> ebuf e \<noteq> None \<and> eAlloc e \<noteq> None"

lemma flush_total:
  assumes "ready e"
  shows "\<exists>e'. (if c then go_bind (packBlock Encode4 e) (\<lambda>e. Ret (e\<lparr>euids := []\<rparr>)) else Ret e) = Ret e'
    \<and> ready e'"
  using assms by (cases "euids e") (auto simp: packBlock_def Let_def ready_def)

lemma Add_total:
  assumes "has_buf e"
  shows "\<exists>e'. Add Encode4 ref u e = Ret e' \<and> has_buf e'"
proof -
  define e1 where "e1 = (if epack e = None
    then e\<lparr>epack := Some \<lparr>BlockSize = word_of_int (eBlockSize e), Blocks = [], AllocRef = 0\<rparr>, ebuf := Some []\<rparr>
    else e)"
  define e2 where "e2 = (if eAlloc e1 = None then e1\<lparr>eAlloc := Some ref\<rparr> else e1)"
  have "ready e2" using assms by (auto simp: ready_def has_buf_def e1_def e2_def)
  from flush_total [OF this, of "euids e2 \<noteq> [] \<and> \<not> match32MSB (last (euids e2)) u" Encode4]
  obtain e3 where e3: "(if euids e2 \<noteq> [] \<and> \<not> match32MSB (last (euids e2)) u
      then go_bind (packBlock Encode4 e2) (\<lambda>e. Ret (e\<lparr>euids := []\<rparr>)) else Ret e2) = Ret e3"
    and "ready e3" by blast
  define e4 where "e4 = e3\<lparr>euids := euids e3 @ [u]\<rparr>"
  have "ready e4" using \<open>ready e3\<close> by (simp add: ready_def e4_def)
  moreover have "Add Encode4 ref u e = (if eBlockSize e4 \<le> int (length (euids e4))
      then go_bind (packBlock Encode4 e4) (\<lambda>e. Ret (e\<lparr>euids := []\<rparr>)) else Ret e4)"
    by (simp only: Add_def Let_def e1_def [symmetric] e2_def [symmetric] e3 go_bind.simps e4_def)
  moreover have "has_buf e'" if "ready e'" for e' using that by (simp add: has_buf_def ready_def)
  ultimately show ?thesis using flush_total [of e4 "eBlockSize e4 \<le> int (length (euids e4))" Encode4] by metis
qed

lemma uvarint_loop_truncated:
  "\<lbrakk> \<forall>b \<in> set bs. 0x80 \<le> b; i + length bs \<le> 10 \<rbrakk> \<Longrightarrow> uvarint_loop i x s bs = (0, 0)"
  by (induction i x s bs rule: uvarint_loop.induct) (auto simp: not_less)

context group_varint
begin

lemma buffer_round_trip:
  assumes "sorted uids" and "bs \<le> 2 ^ 32 - 4" and "Encode Encode4 ref uids bs = Ret (Some p)"
    and "\<And>n. n \<le> 10 * length uids \<Longrightarrow> fits n"
  shows "DecodeToBuffer Decode4 BytesUsed fits (Some p) 0 = Ret (delta_bytes 0 uids)"
proof -
  obtain uss where uss: "concat uss = uids" and
    empty: "uids = [] \<Longrightarrow> Encode Encode4 ref uids bs = Ret None" and
    some: "uids \<noteq> [] \<Longrightarrow> \<exists>p. Encode Encode4 ref uids bs = Ret (Some p) \<and> pack_of Encode4 uss p"
    by (rule Encode_pack [OF assms(1,2), of ref]) blast
  have po: "pack_of Encode4 uss p" using empty some assms(3) by (cases "uids = []") auto
  from Seek_0 [OF po, of "\<lparr>dPack = Some p, dblockIdx = 0, duids = []\<rparr>" SeekStart]
  obtain us d' where *: "Seek Decode4 BytesUsed 0 SeekStart \<lparr>dPack = Some p, dblockIdx = 0, duids = []\<rparr> = Ret (us, d')"
    "dPack d' = Some p" "seeks uss (concat uss) us d'" by auto
  have "\<forall>n \<le> length ([] @ delta_bytes 0 uids). fits n"
    using assms(4) length_delta_bytes [of 0 uids] by simp
  from go_fold_write_delta [OF this] for_blocks_seeks(2) [OF po *(2,3), of "write_delta fits" "([], 0)"] *(1) uss
  show ?thesis by (simp add: DecodeToBuffer_def)
qed

end

text \<open>Bytes that all carry the continuation bit are read as 0 bytes, forever.\<close>

lemma encode_buffer_loop_stuck:
  assumes "uvarint tail = (0, 0)" and "tail \<noteq> []" and "has_buf enc"
  shows "encode_buffer_loop Encode4 ref tail prev enc = None"
proof (rule ccontr)
  assume "encode_buffer_loop Encode4 ref tail prev enc \<noteq> None"
  then obtain r where r: "encode_buffer_loop Encode4 ref tail prev enc = Some r" by auto
  have "tail = tail \<longrightarrow> has_buf enc \<longrightarrow> False"
  proof (rule encode_buffer_loop.raw_induct
      [where P = "\<lambda>_ _ buf _ enc _. buf = tail \<longrightarrow> has_buf enc \<longrightarrow> False", OF _ r], intro impI)
    fix f :: "(u32 list \<Rightarrow> byte list) \<Rightarrow> u64 \<Rightarrow> byte list \<Rightarrow> u64 \<Rightarrow> encoder \<Rightarrow> encoder go option"
      and Encode4 ref buf prev enc r
    assume IH: "\<And>Encode4 ref buf prev enc r.
        f Encode4 ref buf prev enc = Some r \<Longrightarrow> buf = tail \<longrightarrow> has_buf enc \<longrightarrow> False"
      and eq: "(if buf = [] then Some (Ret enc)
        else let uid = fst (uvarint buf); n = snd (uvarint buf)
           in if n < 0 then Some (Panic SliceBounds)
              else let next = prev + uid
                   in case Add Encode4 ref next enc of
                        Ret enc \<Rightarrow> f Encode4 ref (drop (nat n) buf) next enc
                      | Panic p \<Rightarrow> Some (Panic p)
                      | Hang \<Rightarrow> Some Hang) = Some r"
      and "buf = tail" and "has_buf enc"
    obtain e' where "Add Encode4 ref prev enc = Ret e'" "has_buf e'"
      using Add_total [OF \<open>has_buf enc\<close>] by blast
    with eq IH assms(1,2) \<open>buf = tail\<close> show False by (auto simp: Let_def)
  qed
  with assms(3) show False by simp
qed

lemma EncodeFromBuffer_truncated:
  assumes "tail \<noteq> []" and "length tail \<le> 10" and "\<forall>b \<in> set tail. 0x80 \<le> b"
  shows "EncodeFromBuffer Encode4 ref (delta_bytes 0 uids @ tail) bs = Hang"
proof -
  have "uvarint tail = (0, 0)"
    using uvarint_loop_truncated [of tail 0] assms(2,3) by (simp add: uvarint_def)
  moreover have "has_buf (new_encoder bs)" by (simp add: has_buf_def new_encoder_def)
  then obtain e where "go_fold (Add Encode4 ref) uids (new_encoder bs) = Ret e" "has_buf e"
    using go_fold_invariant [of "\<lambda>_. has_buf" "new_encoder bs" uids "Add Encode4 ref"] Add_total by blast
  ultimately show ?thesis
    using assms(1) by (simp add: EncodeFromBuffer_def encode_buffer_loop_append encode_buffer_loop_stuck)
qed

section \<open>Lengths and copies\<close>

lemma fold_NumUids:
  "\<forall>us \<in> set uss. length us < 2 ^ 32 \<Longrightarrow>
   fold (\<lambda>b num. num + uint (NumUids b)) (map (mk_block Encode4) uss) n = n + int (length (concat uss))"
proof (induction uss arbitrary: n)
  case (Cons us uss)
  have "uint (of_nat (length us) :: u32) = int (length us)"
    using Cons.prems by (simp add: unsigned_of_nat take_bit_nat_eq_self)
  with Cons show ?case by (simp add: mk_block_def)
qed simp

lemma length_concat_le:
  "\<forall>us \<in> set uss. int (length us) \<le> m \<Longrightarrow> int (length (concat uss)) \<le> int (length uss) * m"
  by (induction uss) (auto simp: algebra_simps)

context group_varint
begin

lemma lengths_encode:
  assumes "sorted uids" and "1 \<le> bs" and "bs \<le> 2 ^ 32 - 4" and "int (length uids) * bs < 2 ^ 63"
    and "Encode Encode4 ref uids bs = Ret pack"
  shows "ExactLen pack = int (length uids)" and "int (length uids) \<le> ApproxLen pack"
proof -
  obtain uss where uss: "concat uss = uids" "good_blocks bs uss" and
    empty: "uids = [] \<Longrightarrow> Encode Encode4 ref uids bs = Ret None" and
    some: "uids \<noteq> [] \<Longrightarrow> \<exists>p. Encode Encode4 ref uids bs = Ret (Some p) \<and> pack_of Encode4 uss p
       \<and> p = \<lparr>BlockSize = word_of_int bs, Blocks = map (mk_block Encode4) uss, AllocRef = ref\<rparr>"
    by (rule Encode_pack [OF assms(1,3), of ref]) blast
  have "ExactLen pack = int (length uids) \<and> int (length uids) \<le> ApproxLen pack"
  proof (cases "uids = []")
    case True
    with empty assms(5) show ?thesis by (simp add: ExactLen_def ApproxLen_def)
  next
    case False
    with some assms(5) have pack: "pack = Some \<lparr>BlockSize = word_of_int bs,
        Blocks = map (mk_block Encode4) uss, AllocRef = ref\<rparr>" by simp
    have short: "\<forall>us \<in> set uss. int (length us) \<le> bs" using uss(2) assms(2) by (auto simp: good_blocks_def)
    have "int (length uss) * bs \<le> int (length uids) * bs"
      using run_blocks_le [of uss] uss assms(2) by (intro mult_right_mono) (auto simp: good_blocks_def)
    then have "int (length uss) * bs < 2 ^ 63" using assms(4) by (rule le_less_trans)
    then have "ApproxLen pack = int (length uss) * bs"
      unfolding pack using assms(2,3) by (intro ApproxLen_pack [of _ "mk_block Encode4"]) simp_all
    moreover have "\<forall>us \<in> set uss. length us < 2 ^ 32" using short assms(3) by fastforce
    moreover have "uss \<noteq> []" using uss False by auto
    ultimately show ?thesis
      using fold_NumUids [of uss Encode4 0] length_concat_le [OF short] uss
      by (simp add: pack ExactLen_def)
  qed
  then show "ExactLen pack = int (length uids)" and "int (length uids) \<le> ApproxLen pack" by auto
qed

text \<open>With a block size of 0 or less each uid has a block of its own.\<close>

lemma singleton_blocks: "\<forall>us \<in> set uss. run us \<and> length us \<le> 1 \<Longrightarrow> length uss = length (concat uss)"
proof (induction uss)
  case (Cons us uss)
  then have "us \<noteq> []" "length us \<le> 1" by (auto simp: run_def)
  with Cons show ?case by (cases us) auto
qed simp

lemma negative_size_encode:
  assumes "sorted uids" and "8192 < length uids" and "length uids < 2 ^ 31"
  shows "\<exists>p. Encode Encode4 ref uids (- 1) = Ret (Some p) \<and> Decode Decode4 BytesUsed (Some p) 0 = Panic MakeSliceLen"
proof -
  obtain uss where uss: "concat uss = uids" "good_blocks (- 1) uss" and
    some: "uids \<noteq> [] \<Longrightarrow> \<exists>p. Encode Encode4 ref uids (- 1) = Ret (Some p) \<and> pack_of Encode4 uss p
       \<and> p = \<lparr>BlockSize = word_of_int (- 1), Blocks = map (mk_block Encode4) uss, AllocRef = ref\<rparr>"
    by (rule Encode_pack [OF assms(1), of "- 1" ref]) simp_all
  then obtain p where p: "Encode Encode4 ref uids (- 1) = Ret (Some p)" "pack_of Encode4 uss p"
    "p = \<lparr>BlockSize = word_of_int (- 1), Blocks = map (mk_block Encode4) uss, AllocRef = ref\<rparr>"
    using assms(2) by (cases "uids = []") auto
  have len: "length uss = length uids"
    using singleton_blocks [of uss] uss by (fastforce simp: good_blocks_def)
  have "uint (- 1 :: u32) = 2 ^ 32 - 1" by (simp add: unsigned_minus_1_eq_mask mask_eq_exp_minus_1)
  then have "ApproxLen (Some p) = wrap64 (int (length uids) * (2 ^ 32 - 1))" by (simp add: ApproxLen_def p(3) len)
  also have "\<dots> = int (length uids) * (2 ^ 32 - 1)" using assms(3) by (intro wrap64_small) simp_all
  finally have "\<not> make_fits 8 (ApproxLen (Some p))" using assms(2) by (simp add: make_fits_def)
  with p(1) decode_pack_of [OF p(2)] show ?thesis by auto
qed

end

lemma CopyUidPack_Some: "CopyUidPack (Some p) = Some (p\<lparr>AllocRef := 0\<rparr>)"
proof -
  have "(\<lambda>b. \<lparr>Base = Base b, Deltas = Deltas b, NumUids = NumUids b\<rparr>) = (\<lambda>b :: uid_block. b)"
    by (rule ext) simp
  then show ?thesis by (cases p) (simp add: CopyUidPack_def)
qed

context group_varint
begin

lemma seek_zero_encode:
  assumes "sorted uids" and "0 \<in> set uids" and "bs \<le> 2 ^ 32 - 4"
    and "Encode Encode4 ref uids bs = Ret (Some p)" and "dPack d = Some p"
  shows "\<exists>us d'. Seek Decode4 BytesUsed 0 SeekCurrent d = Ret (us, d') \<and> 0 \<in> set us"
proof -
  obtain uss where uss: "concat uss = uids" and
    some: "uids \<noteq> [] \<Longrightarrow> \<exists>p. Encode Encode4 ref uids bs = Ret (Some p) \<and> pack_of Encode4 uss p"
    by (rule Encode_pack [OF assms(1,3), of ref]) blast
  have po: "pack_of Encode4 uss p" using some assms(2,4) by (cases "uids = []") auto
  have ne: "uss \<noteq> []" using uss assms(2) by auto
  then have "uss ! 0 \<noteq> []" using pack_of_nth [OF po, of 0] by simp
  moreover obtain rest where "uids = uss ! 0 @ rest" using uss ne by (cases uss) auto
  moreover have "a = 0" if "a \<le> 0" for a :: u64 using that by simp
  ultimately have "0 \<in> set (uss ! 0)"
    using assms(1,2) by (cases "uss ! 0") (auto simp: sorted_append dest!: bspec)
  then show ?thesis
    using UnpackBlock_pack_of [OF po, of "d\<lparr>dblockIdx := 0\<rparr>"] assms(5) ne by (simp add: Seek_def Let_def)
qed

lemma copy_encode:
  assumes "sorted uids" and "bs \<le> 2 ^ 32 - 4" and "Encode Encode4 ref uids bs = Ret pack"
  shows "Decode Decode4 BytesUsed (CopyUidPack pack) 0 = Decode Decode4 BytesUsed pack 0"
proof -
  obtain uss where uss: "concat uss = uids" and
    empty: "uids = [] \<Longrightarrow> Encode Encode4 ref uids bs = Ret None" and
    some: "uids \<noteq> [] \<Longrightarrow> \<exists>p. Encode Encode4 ref uids bs = Ret (Some p) \<and> pack_of Encode4 uss p"
    by (rule Encode_pack [OF assms(1,2), of ref]) blast
  show ?thesis
  proof (cases "uids = []")
    case True
    with empty assms(3) show ?thesis by (simp add: CopyUidPack_def)
  next
    case False
    with some assms(3) obtain p where p: "pack = Some p" "pack_of Encode4 uss p" by auto
    then have "pack_of Encode4 uss (p\<lparr>AllocRef := 0\<rparr>)" by (simp add: pack_of_def)
    from decode_pack_of [OF this] decode_pack_of [OF p(2)] p(1) show ?thesis
      by (simp add: CopyUidPack_Some ApproxLen_def)
  qed
qed

end

section \<open>The allocator's reference\<close>

text \<open>The encoder uses the reference only at the end, where it puts it into the pack.\<close>

definition with_ref :: "u64 \<Rightarrow> encoder \<Rightarrow> encoder" where
  "with_ref ref e = e\<lparr>eAlloc := map_option (\<lambda>_. ref) (eAlloc e)\<rparr>"

primrec map_go :: "('a \<Rightarrow> 'b) \<Rightarrow> 'a go \<Rightarrow> 'b go" where
  "map_go f (Ret x) = Ret (f x)"
| "map_go f (Panic p) = Panic p"
| "map_go f Hang = Hang"

lemma map_go_bind:
  "(\<And>x. g (f x) = map_go h (g' x)) \<Longrightarrow> go_bind (map_go f m) g = map_go h (go_bind m g')"
  by (cases m) simp_all

lemma with_ref_sel [simp]:
  "eBlockSize (with_ref ref e) = eBlockSize e" "epack (with_ref ref e) = epack e" "euids (with_ref ref e) = euids e"
  "ebuf (with_ref ref e) = ebuf e" "eAlloc (with_ref ref e) = None \<longleftrightarrow> eAlloc e = None"
  by (simp_all add: with_ref_def)

lemma packBlock_with_ref: "packBlock Encode4 (with_ref ref e) = map_go (with_ref ref) (packBlock Encode4 e)"
  by (auto simp: packBlock_def with_ref_def Let_def split: list.split option.split)

lemma flush_with_ref:
  "go_bind (packBlock Encode4 (with_ref ref e)) (\<lambda>e. Ret (e\<lparr>euids := []\<rparr>))
     = map_go (with_ref ref) (go_bind (packBlock Encode4 e) (\<lambda>e. Ret (e\<lparr>euids := []\<rparr>)))"
  unfolding packBlock_with_ref by (rule map_go_bind) (simp add: with_ref_def)

lemma Add_with_ref: "Add Encode4 ref' u (with_ref ref' e) = map_go (with_ref ref') (Add Encode4 ref u e)"
proof -
  define start where "start ref e = (let e = (if epack e = None
      then e\<lparr>epack := Some \<lparr>BlockSize = word_of_int (eBlockSize e), Blocks = [], AllocRef = 0\<rparr>, ebuf := Some []\<rparr>
      else e) in if eAlloc e = None then e\<lparr>eAlloc := Some ref\<rparr> else e)" for ref and e :: encoder
  define first where "first e = (if euids e \<noteq> [] \<and> \<not> match32MSB (last (euids e)) u
      then go_bind (packBlock Encode4 e) (\<lambda>e. Ret (e\<lparr>euids := []\<rparr>)) else Ret e)" for e :: encoder
  define second where "second e = (let e = e\<lparr>euids := euids e @ [u]\<rparr> in if eBlockSize e \<le> int (length (euids e))
      then go_bind (packBlock Encode4 e) (\<lambda>e. Ret (e\<lparr>euids := []\<rparr>)) else Ret e)" for e :: encoder
  have Add: "Add Encode4 ref u e = go_bind (first (start ref e)) second" for ref e
    unfolding Add_def start_def first_def second_def Let_def by (rule refl)
  have "start ref' (with_ref ref' e) = with_ref ref' (start ref e)"
    by (cases "eAlloc e") (simp_all add: start_def with_ref_def Let_def)
  moreover have "first (with_ref ref' e) = map_go (with_ref ref') (first e)" for e
    by (simp add: first_def flush_with_ref)
  moreover have "second (with_ref ref' e) = map_go (with_ref ref') (second e)" for e
  proof -
    have "(with_ref ref' e)\<lparr>euids := xs\<rparr> = with_ref ref' (e\<lparr>euids := xs\<rparr>)" for xs by (simp add: with_ref_def)
    then show ?thesis by (simp add: second_def Let_def flush_with_ref)
  qed
  ultimately show ?thesis unfolding Add by (simp add: map_go_bind)
qed

lemma go_fold_Add_with_ref:
  "go_fold (Add Encode4 ref') us (with_ref ref' e) = map_go (with_ref ref') (go_fold (Add Encode4 ref) us e)"
proof (induction us arbitrary: e)
  case (Cons u us)
  show ?case unfolding go_fold.simps Add_with_ref [of _ ref' u e ref] by (rule map_go_bind) (rule Cons.IH)
qed simp

context group_varint
begin

lemma Encode_with_ref:
  assumes "sorted uids" and "Encode Encode4 ref uids bs = Ret (Some p)"
  shows "Encode Encode4 ref' uids bs = Ret (Some (p\<lparr>AllocRef := ref'\<rparr>))"
proof -
  obtain uss e where fold: "go_fold (Add Encode4 ref) uids (new_encoder bs) = Ret e"
    and inv: "enc_inv Encode4 bs ref uids uss e"
    using go_fold_Add_inv [OF enc_inv_new [of Encode4 bs ref], of uids] assms(1) by auto
  have "with_ref ref' (new_encoder bs) = new_encoder bs" by (simp add: with_ref_def new_encoder_def)
  with go_fold_Add_with_ref [of Encode4 ref' uids "new_encoder bs" ref] fold
  have fold': "go_fold (Add Encode4 ref') uids (new_encoder bs) = Ret (with_ref ref' e)" by simp
  from assms(2) obtain e1 where e1: "packBlock Encode4 e = Ret e1"
    "(case (epack e1, eAlloc e1) of (Some pack, Some ref) \<Rightarrow> Some (pack\<lparr>AllocRef := ref\<rparr>) | _ \<Rightarrow> epack e1) = Some p"
    by (auto simp: Encode_def fold Done_def go_simps)
  have "uids \<noteq> []"
  proof
    assume "uids = []"
    then have "Encode Encode4 ref uids bs = Ret None"
      using Encode_blocks [OF assms(1), of bs Encode4 ref] by auto
    with assms(2) show False by simp
  qed
  then have "eAlloc e = Some ref" using inv by (simp add: enc_inv_def)
  then have "eAlloc e1 = Some ref" using e1(1) by (auto simp: packBlock_def Let_def split: list.splits option.splits)
  moreover from this have "eAlloc (with_ref ref' e1) = Some ref'" by (simp add: with_ref_def)
  moreover have "packBlock Encode4 (with_ref ref' e) = Ret (with_ref ref' e1)" by (simp add: packBlock_with_ref e1(1))
  ultimately show ?thesis using e1(2) by (auto simp: Encode_def fold' Done_def split: option.splits)
qed

end

section \<open>Round trip and seeking\<close>

text \<open>
  C1: for a nondecreasing list of uids and a block size of at most \<open>2 ^ 32 - 4\<close> (also zero or
  negative), \<open>Encode\<close> returns without a panic. \<open>Decode\<close> of its result from uid 0 returns
  exactly the list, so that no uid is lost, added or changed at a block boundary or by the padding,
  provided that Go can make the slice that \<open>Decode\<close> reserves, of the number of blocks times the block
  size as a uint32; otherwise it panics there. For a block size of at least 1, the slice can be made
  when the number of uids times the block size is at most \<open>2 ^ 45\<close>. Memory is supposed to suffice,
  that of the allocator too.
\<close>

theorem Decode_Encode:
  assumes "group_varint Encode4 Decode4 BytesUsed"
    and "sorted uids" and "blockSize \<le> 2 ^ 32 - 4"
  shows "\<exists>pack. Encode Encode4 ref uids blockSize = Ret pack
    \<and> Decode Decode4 BytesUsed pack 0 = (if make_fits 8 (ApproxLen pack) then Ret uids else Panic MakeSliceLen)
    \<and> (1 \<le> blockSize \<and> int (length uids) * blockSize \<le> 2 ^ 45 \<longrightarrow> make_fits 8 (ApproxLen pack))"
  using group_varint.decode_encode [OF assms] .

theorem Decode_Encode_witness:
  "\<exists>pack. Encode gv_Encode4 7 [3, 5, 0x100000000] 2 = Ret pack
    \<and> Decode gv_Decode4 gv_BytesUsed pack 0 = Ret [3, 5, 0x100000000]"
  using Decode_Encode [OF gv.group_varint_axioms, of "[3, 5, 0x100000000]" 2 7] by auto

text \<open>
  With the block size -1, which becomes \<open>2 ^ 32 - 1\<close> in the pack, \<open>Encode\<close> puts every uid into a block of
  its own, and \<open>Decode\<close> panics on the pack of any list of more than 8192 uids.
\<close>

theorem Decode_negative_block_size:
  assumes "group_varint Encode4 Decode4 BytesUsed"
    and "sorted uids" and "8192 < length uids" and "length uids < 2 ^ 31"
  shows "\<exists>pack. Encode Encode4 ref uids (- 1) = Ret (Some pack)
    \<and> Decode Decode4 BytesUsed (Some pack) 0 = Panic MakeSliceLen"
  using group_varint.negative_size_encode [OF assms] .

theorem Decode_negative_block_size_witness:
  "\<exists>pack. Encode gv_Encode4 7 (replicate 8193 1) (- 1) = Ret (Some pack)
    \<and> Decode gv_Decode4 gv_BytesUsed (Some pack) 0 = Panic MakeSliceLen"
  by (rule Decode_negative_block_size [OF gv.group_varint_axioms]) (simp_all add: sorted_replicate)

text \<open>
  For a strictly increasing list of uids, decoding from \<open>seek\<close> returns exactly the uids that
  are at least \<open>seek\<close>, whichever block they are in and whether \<open>seek\<close> is present or not.
\<close>

theorem Decode_from_seek:
  assumes "group_varint Encode4 Decode4 BytesUsed"
    and "sorted_wrt (<) uids" and "1 \<le> blockSize" and "blockSize \<le> 2 ^ 32 - 4"
    and "int (length uids) * blockSize \<le> 2 ^ 45"
  shows "\<exists>pack. Encode Encode4 ref uids blockSize = Ret pack
    \<and> Decode Decode4 BytesUsed pack seek = Ret (filter (\<lambda>u. seek \<le> u) uids)"
  using group_varint.decode_seek [OF assms(1,2,4,3,5)] .

theorem Decode_from_seek_witness:
  "\<exists>pack. Encode gv_Encode4 7 [3, 5, 9] 2 = Ret pack
    \<and> Decode gv_Decode4 gv_BytesUsed pack 4 = Ret [5, 9]"
  using Decode_from_seek [OF gv.group_varint_axioms, of "[3, 5, 9]" 2 7 4] by simp

text \<open>
  \<open>Seek\<close> to a uid other than 0, on any decoder of a pack that \<open>Encode\<close> made from a strictly
  increasing list, returns uids from the first that passes the test (at least the uid for
  \<open>SeekStart\<close>, greater for \<open>SeekCurrent\<close>), returns the empty list just when there is none, and
  leaves the decoder so that \<open>Next\<close> goes through the rest of them.
\<close>

theorem Seek_then_Next:
  assumes "group_varint Encode4 Decode4 BytesUsed"
    and "sorted_wrt (<) uids" and "blockSize \<le> 2 ^ 32 - 4" and "uid \<noteq> 0"
    and "Encode Encode4 ref uids blockSize = Ret (Some pack)" and "dPack d = Some pack"
  shows "\<exists>us d'. Seek Decode4 BytesUsed uid whence d = Ret (us, d')
     \<and> (us = [] \<longleftrightarrow> filter (seek_test whence uid) uids = [])
     \<and> for_blocks Decode4 BytesUsed (\<lambda>us out. Ret (out @ us)) us d' []
         = Ret (filter (seek_test whence uid) uids)"
  using group_varint.seek_encode [OF assms] .

definition demo_pack :: uid_pack where
  "demo_pack = \<lparr>BlockSize = 2,
     Blocks = [mk_block gv_Encode4 [0, 5], mk_block gv_Encode4 [9]], AllocRef = 7\<rparr>"

lemma Encode_demo: "Encode gv_Encode4 7 [0, 5, 9] 2 = Ret (Some demo_pack)"
  by (simp add: Encode_def new_encoder_def Add_def packBlock_def Done_def mk_block_def demo_pack_def
      match32MSB_def bitMask_def Let_def)

theorem Seek_then_Next_witness:
  "\<exists>us d'. Seek gv_Decode4 gv_BytesUsed 5 SeekCurrent \<lparr>dPack = Some demo_pack, dblockIdx = 0, duids = []\<rparr>
      = Ret (us, d') \<and> us \<noteq> []
    \<and> for_blocks gv_Decode4 gv_BytesUsed (\<lambda>us out. Ret (out @ us)) us d' [] = Ret [9]"
  using Seek_then_Next [OF gv.group_varint_axioms _ _ _ Encode_demo,
      of 5 "\<lparr>dPack = Some demo_pack, dblockIdx = 0, duids = []\<rparr>" SeekCurrent]
  by auto

text \<open>
  The exception that the property of \<open>Seek\<close> for other uids leaves out. A \<open>Seek\<close> to uid 0 with \<open>SeekCurrent\<close> returns uid 0 itself
  when the list holds it, although \<open>SeekCurrent\<close> is documented to leave the uid out.
\<close>

theorem Seek_zero_includes_zero:
  assumes "group_varint Encode4 Decode4 BytesUsed"
    and "sorted uids" and "0 \<in> set uids" and "blockSize \<le> 2 ^ 32 - 4"
    and "Encode Encode4 ref uids blockSize = Ret (Some pack)" and "dPack d = Some pack"
  shows "\<exists>us d'. Seek Decode4 BytesUsed 0 SeekCurrent d = Ret (us, d') \<and> 0 \<in> set us"
  using group_varint.seek_zero_encode [OF assms] .

theorem Seek_zero_includes_zero_witness:
  "\<exists>us d'. Seek gv_Decode4 gv_BytesUsed 0 SeekCurrent \<lparr>dPack = Some demo_pack, dblockIdx = 1, duids = []\<rparr>
      = Ret (us, d') \<and> 0 \<in> set us"
  by (rule Seek_zero_includes_zero [OF gv.group_varint_axioms _ _ _ Encode_demo]) simp_all



text \<open>
  The comment on \<open>LinearSeek\<close>, "the last block whose base is less than seek", is not what the code does: with
  the uid 9 it returns the block with the base 9, and the last block with a smaller base is [0, 5].
\<close>

theorem LinearSeek_base_equal:
  "\<exists>d'. LinearSeek gv_Decode4 gv_BytesUsed 9 \<lparr>dPack = Some demo_pack, dblockIdx = 0, duids = []\<rparr> = Ret ([9], d')
    \<and> map Base (Blocks demo_pack) = [0, 9]"
proof -
  have "LinearSeek gv_Decode4 gv_BytesUsed 9
      \<lparr>dPack = Some demo_pack, dblockIdx = 0, duids = []\<rparr>
    = UnpackBlock gv_Decode4 gv_BytesUsed \<lparr>dPack = Some demo_pack, dblockIdx = 1, duids = []\<rparr>"
    by (simp add: LinearSeek_def linear_seek_loop.simps PeekNextBase_def demo_pack_def mk_block_def)
  moreover have "UnpackBlock gv_Decode4 gv_BytesUsed \<lparr>dPack = Some demo_pack, dblockIdx = 1, duids = []\<rparr>
    = Ret ([9], \<lparr>dPack = Some demo_pack, dblockIdx = 1, duids = [9]\<rparr>)"
    using gv.UnpackBlock_pack_of [of "[[0, 5], [9]]" demo_pack "\<lparr>dPack = Some demo_pack, dblockIdx = 1, duids = []\<rparr>"]
    by (simp add: pack_of_def demo_pack_def run_def match32MSB_def bitMask_def Let_def)
  ultimately show ?thesis by (simp add: demo_pack_def mk_block_def)
qed

text \<open>
  C5: \<open>LinearSeek\<close> to the largest uint64 never returns, on any pack without nil blocks: past the last block the
  peeked base is that same number, and the loop waits for it to exceed the uid sought. (The index
  of the model does not overflow; in Go it would after \<open>2 ^ 63\<close> rounds, and the index be out of range.)
\<close>

theorem LinearSeek_MaxUint64_hangs:
  assumes "dPack d \<noteq> None"
  shows "LinearSeek Decode4 BytesUsed (- 1) d = Hang"
  using linear_seek_loop_Max [OF assms] by (simp add: LinearSeek_def)

theorem LinearSeek_MaxUint64_hangs_witness:
  "LinearSeek gv_Decode4 gv_BytesUsed (- 1) \<lparr>dPack = Some demo_pack, dblockIdx = 0, duids = []\<rparr> = Hang"
  by (rule LinearSeek_MaxUint64_hangs) simp

text \<open>
  C3: for the packs that \<open>Encode\<close> makes from a nondecreasing list of uids with a block size of at most
  \<open>2 ^ 32 - 4\<close>: \<open>DecodeToBuffer\<close> returns a delta buffer, if the buffer can grow to 10 bytes a uid, and
  \<open>EncodeFromBuffer\<close> of it with the same block size gives the same pack again, block for block and
  byte for byte, but with the reference of its own allocator.
\<close>

theorem EncodeFromBuffer_DecodeToBuffer:
  assumes "group_varint Encode4 Decode4 BytesUsed"
    and "sorted uids" and "blockSize \<le> 2 ^ 32 - 4"
    and "Encode Encode4 ref uids blockSize = Ret (Some pack)"
    and "\<And>n. n \<le> 10 * length uids \<Longrightarrow> fits n"
  shows "\<exists>buf. DecodeToBuffer Decode4 BytesUsed fits (Some pack) 0 = Ret buf
    \<and> EncodeFromBuffer Encode4 ref' buf blockSize = Ret (Some (pack\<lparr>AllocRef := ref'\<rparr>))"
  using group_varint.buffer_round_trip [OF assms] group_varint.Encode_with_ref [OF assms(1,2,4)]
  by (simp add: EncodeFromBuffer_delta_bytes)

theorem EncodeFromBuffer_DecodeToBuffer_witness:
  "\<exists>buf. DecodeToBuffer gv_Decode4 gv_BytesUsed (\<lambda>n. n \<le> 32 * 2 ^ 30 - 8) (Some demo_pack) 0 = Ret buf
    \<and> EncodeFromBuffer gv_Encode4 8 buf 2 = Ret (Some (demo_pack\<lparr>AllocRef := 8\<rparr>))"
  by (rule EncodeFromBuffer_DecodeToBuffer [OF gv.group_varint_axioms _ _ Encode_demo]) simp_all

text \<open>
  A buffer that ends inside a varint (the deltas of some uids, then up to ten bytes that all
  have the continuation bit) makes \<open>EncodeFromBuffer\<close> loop forever: the read reports 0 bytes, so
  the buffer never gets shorter.
\<close>

theorem EncodeFromBuffer_truncated_hangs:
  assumes "tail \<noteq> []" and "length tail \<le> 10" and "\<forall>b \<in> set tail. 0x80 \<le> b"
  shows "EncodeFromBuffer Encode4 ref (delta_bytes 0 uids @ tail) blockSize = Hang"
  using EncodeFromBuffer_truncated [OF assms] .

theorem EncodeFromBuffer_truncated_hangs_witness:
  "EncodeFromBuffer gv_Encode4 7 (delta_bytes 0 [3, 5] @ [0x80]) 256 = Hang"
  by (rule EncodeFromBuffer_truncated_hangs) simp_all

text \<open>
  On a pack that \<open>Encode\<close> made with a positive block size, \<open>ExactLen\<close> is the number of uids and
  \<open>ApproxLen\<close>, the capacity \<open>Decode\<close> reserves, is at least that, unless it overflows.
\<close>

theorem ExactLen_Encode:
  assumes "group_varint Encode4 Decode4 BytesUsed"
    and "sorted uids" and "1 \<le> blockSize" and "blockSize \<le> 2 ^ 32 - 4" and "int (length uids) * blockSize < 2 ^ 63"
    and "Encode Encode4 ref uids blockSize = Ret pack"
  shows "ExactLen pack = int (length uids) \<and> int (length uids) \<le> ApproxLen pack"
  using group_varint.lengths_encode [OF assms] by simp

theorem ExactLen_Encode_witness:
  "ExactLen (Some demo_pack) = 3 \<and> 3 \<le> ApproxLen (Some demo_pack)"
  using ExactLen_Encode [OF gv.group_varint_axioms _ _ _ _ Encode_demo] by simp

text \<open>
  A copy made by \<open>CopyUidPack\<close> decodes as the original does and owns no allocator: \<open>FreePack\<close> on the
  copy releases nothing, so the original's memory is released once.
\<close>

theorem CopyUidPack_decodes:
  assumes "group_varint Encode4 Decode4 BytesUsed"
    and "sorted uids" and "blockSize \<le> 2 ^ 32 - 4"
    and "Encode Encode4 ref uids blockSize = Ret pack"
  shows "Decode Decode4 BytesUsed (CopyUidPack pack) 0 = Decode Decode4 BytesUsed pack 0
    \<and> FreePack (CopyUidPack pack) = None"
  using group_varint.copy_encode [OF assms]
  by (cases pack) (simp_all add: FreePack_def CopyUidPack_def)

theorem CopyUidPack_decodes_witness:
  "Decode gv_Decode4 gv_BytesUsed (CopyUidPack (Some demo_pack)) 0 = Decode gv_Decode4 gv_BytesUsed (Some demo_pack) 0
    \<and> FreePack (CopyUidPack (Some demo_pack)) = None"
  by (rule CopyUidPack_decodes [OF gv.group_varint_axioms _ _ Encode_demo]) simp_all

end
