(* ===== verification/PbProps.thy ===== *)
theory PbProps
  imports PbRead UidPackProps
begin

unbundle bit_operations_syntax

text \<open>
  What holds of the messages: reading back what was written gives the message, unknown fields
  are skipped, and no input makes the readers panic.
\<close>

section \<open>Arithmetic on int\<close>

lemma uint_of_nat_small: "n < 2 ^ 64 \<Longrightarrow> uint (of_nat n :: u64) = int n"
  by (simp add: unsigned_of_nat take_bit_nat_eq_self)

lemma sint_small: "n < 2 ^ 63 \<Longrightarrow> sint (of_nat n :: u64) = int n"
  by (simp add: signed_of_nat signed_take_bit_int_eq_self)

lemma add_int_wraps:
  assumes "i < 2 ^ 63" and "n < 2 ^ 63"
  shows "add_int i n = (let s = sint (of_nat i + of_nat n :: u64) in if s < 0 then None else Some (nat s))"
proof (cases "i + n < 2 ^ 63")
  case True
  then have "sint (of_nat (i + n) :: u64) = int (i + n)" by (rule sint_small)
  with True show ?thesis by (simp add: add_int_def Let_def)
next
  case False
  have sum: "(of_nat i + of_nat n :: u64) = of_nat (i + n)" by simp
  have "uint (of_nat (i + n) :: u64) = int (i + n)"
    by (rule uint_of_nat_small) (use assms in simp)
  moreover have "int (i + n) < 2 ^ 64" "2 ^ 63 \<le> int (i + n)" using assms False by simp_all
  moreover have "int (i + n) div 2 ^ 63 = 1"
    by (rule int_div_pos_eq [where r = "int (i + n) - 2 ^ 63"]) (use calculation in simp_all)
  ultimately have "sint (of_nat (i + n) :: u64) < 0"
    by (simp only: sint_uint) (simp add: signed_take_bit_eq_take_bit_minus take_bit_int_eq_self bit_iff_odd)
  with False show ?thesis by (simp add: add_int_def Let_def sum del: of_nat_add)
qed

section \<open>Reading a number back\<close>

lemma split7_ucast:
  "(z OR push_bit s (ucast (x :: u64) AND 0x7f)) OR push_bit (s + 7) (ucast (drop_bit 7 x))
     = z OR push_bit s (ucast x :: 'a::len word)"
proof -
  have idx: "7 + (n - (s + 7)) = n - s" if "\<not> n - s < 7" for n :: nat
    using that by arith
  show ?thesis
    unfolding mask7_numeral
    by (rule bit_word_eqI) (use idx in \<open>fastforce simp: bit_simps dest: bit_imp_le_length\<close>)
qed

lemma last_byte_payload:
  "\<not> 0x80 \<le> x \<Longrightarrow> (ucast ((ucast (x :: u64) :: byte) AND 0x7f) :: 'a::len word) = ucast x"
  unfolding mask7_numeral
  by (rule bit_word_eqI) (auto simp: bit_simps dest: small_bits)

lemma read_varint_put_loop:
  "\<lbrakk> drop i d = put_uvarint v @ rest; unat v * 2 ^ (7 * k) < 2 ^ 64; k \<le> 9 \<rbrakk> \<Longrightarrow>
   read_varint d i (7 * k) (x :: 'a::len word)
     = ok (x OR push_bit (7 * k) (ucast v), i + length (put_uvarint v))"
proof (induction v arbitrary: i k x rule: put_uvarint.induct)
  case (1 v)
  have i: "i < length d" using "1.prems"(1) by (metis drop_all append_is_Nil_conv not_le put_uvarint_nonempty)
  show ?case
  proof (cases "0x80 \<le> v")
    case True
    have "128 * 2 ^ (7 * k) \<le> unat v * 2 ^ (7 * k)" using True by (simp add: word_le_nat_alt)
    with "1.prems"(2) have "128 * 2 ^ (7 * k) < (2 :: nat) ^ 64" by (rule le_less_trans [rotated])
    then have "(2 :: nat) ^ (7 + 7 * k) < 2 ^ 64" by (simp add: power_add)
    then have k: "k \<le> 8" using power_less_imp_less_exp [of "2 :: nat" "7 + 7 * k" 64] by simp
    have "unat (drop_bit 7 v) * 2 ^ (7 * Suc k) = (unat v div 128 * 128) * 2 ^ (7 * k)"
      by (simp add: unat_drop7 power_add)
    also have "\<dots> \<le> unat v * 2 ^ (7 * k)" by simp
    finally have small: "unat (drop_bit 7 v) * 2 ^ (7 * Suc k) < 2 ^ 64"
      using "1.prems"(2) by linarith
    have byte: "d ! i = ucast v OR 0x80" and tail: "drop (Suc i) d = put_uvarint (drop_bit 7 v) @ rest"
      using "1.prems"(1) True i by (simp_all add: put_uvarint_more Cons_nth_drop_Suc [symmetric])
    show ?thesis
      using "1.IH" [OF True tail small, of "x OR push_bit (7 * k) (ucast v AND 0x7f)"] k i True
        split7_ucast [of x "7 * k" v]
      by (simp add: read_varint.simps [of d i] go_index_nat byte cont_byte_ge cont_byte_payload
          put_uvarint_more add.commute Let_def)
  next
    case False
    then have byte: "d ! i = ucast v"
      using "1.prems"(1) i by (simp add: put_uvarint_last Cons_nth_drop_Suc [symmetric])
    with False i "1.prems"(3) show ?thesis
      by (simp add: read_varint.simps [of d i] go_index_nat last_byte_less last_byte_payload
          put_uvarint_last Let_def)
  qed
qed

lemma read_varint_put:
  assumes "drop i d = put_uvarint v @ rest"
  shows "read_varint d i 0 (0 :: 'a::len word) = ok (ucast v, i + length (put_uvarint v))"
  using read_varint_put_loop [OF assms, of 0 0] unsigned_less [of v, where ?'a = nat] by simp

lemma read_tag_put:
  assumes "drop i d = put_uvarint t @ rest"
    and "unat (t AND 0x7) \<noteq> 4" and "0 < sint (ucast (drop_bit 3 t) :: u32)"
  shows "read_tag d i = ok (sint (ucast (drop_bit 3 t) :: u32), unat (t AND 0x7), i + length (put_uvarint t))"
  using assms by (simp add: read_tag_def read_varint_put [OF assms(1)] go_simps Let_def)

lemma read_length_put:
  assumes "drop i d = put_uvarint (of_nat (length bs)) @ bs @ rest" and "length d < 2 ^ 63"
  shows "read_length d i = ok (i + length (put_uvarint (of_nat (length bs) :: u64)),
     i + length (put_uvarint (of_nat (length bs) :: u64)) + length bs)"
proof -
  let ?n = "length (put_uvarint (of_nat (length bs) :: u64))"
  have "length d - i = ?n + length bs + length rest"
    using arg_cong [OF assms(1), of length] by simp
  moreover have "0 < ?n" by simp
  ultimately have le: "i + ?n + length bs \<le> length d" by linarith
  then have "sint (of_nat (length bs) :: u64) = int (length bs)"
    using assms(2) by (intro sint_small) simp
  with le assms(2) show ?thesis
    by (simp add: read_length_def read_varint_put [OF assms(1)] go_simps add_int_def Let_def)
qed

lemma put_uvarint_tags:
  "put_uvarint 0x8 = [0x8]" "put_uvarint 0x12 = [0x12]" "put_uvarint 0x18 = [0x18]"
  "put_uvarint 0xb8 = [0xb8, 0x1]"
  by (simp_all add: put_uvarint.simps word_le_nat_alt)

section \<open>Reading a field back\<close>

lemma drop_past: "drop i d = xs @ ys \<Longrightarrow> drop (i + length xs) d = ys"
  by (metis add.commute append_eq_conv_conj drop_drop)

lemma slice_at:
  assumes "drop i d = bs @ rest" and "i \<le> length d"
  shows "go_slice d (int i) (int (i + length bs)) = Ret bs"
proof -
  have "length d - i = length bs + length rest" using arg_cong [OF assms(1), of length] by simp
  then have "i + length bs \<le> length d" using assms(2) by linarith
  then show ?thesis using go_slice_nat [of i "i + length bs" d] assms(1) by simp
qed

lemma in_range: "drop i d = x # xs \<Longrightarrow> i < length d"
  by (metis drop_all list.distinct(1) not_le)

text \<open>The tags of the fields, which are single bytes but for \<open>AllocRef\<close>.\<close>

lemma read_tag_08: "drop i d = 0x8 # rest \<Longrightarrow> read_tag d i = ok (1, 0, Suc i)"
  using read_tag_put [of i d "0x8" rest] by (simp add: put_uvarint_tags)

lemma read_tag_12: "drop i d = 0x12 # rest \<Longrightarrow> read_tag d i = ok (2, 2, Suc i)"
  using read_tag_put [of i d "0x12" rest] by (simp add: put_uvarint_tags)

lemma read_tag_18: "drop i d = 0x18 # rest \<Longrightarrow> read_tag d i = ok (3, 0, Suc i)"
  using read_tag_put [of i d "0x18" rest] by (simp add: put_uvarint_tags)

lemma read_tag_b8: "drop i d = 0xb8 # 0x1 # rest \<Longrightarrow> read_tag d i = ok (23, 0, Suc (Suc i))"
  using read_tag_put [of i d "0xb8" rest] by (simp add: put_uvarint_tags)

lemma drop_Suc_tail: "drop i d = x # xs \<Longrightarrow> drop (Suc i) d = xs"
  by (metis drop_Suc list.sel(3) tl_drop)

lemma block_loop_step:
  "\<lbrakk> i < length d; UidBlock_field d i m = ok (j, m') \<rbrakk> \<Longrightarrow>
   UidBlock_unmarshal_loop d i m = UidBlock_unmarshal_loop d j m'"
  by (simp add: UidBlock_unmarshal_loop.simps [of d i] go_simps)

lemma block_loop_Base:
  assumes "drop i d = varint_field [0x8] v @ rest" and "Base m = 0"
  shows "UidBlock_unmarshal_loop d i m
    = UidBlock_unmarshal_loop d (i + length (varint_field [0x8] v)) (m\<lparr>Base := v\<rparr>)"
proof (cases "v = 0")
  case False
  then have d: "drop i d = 0x8 # put_uvarint v @ rest" using assms(1) by (simp add: varint_field_def)
  from False show ?thesis
    by (intro block_loop_step [OF in_range [OF d]])
      (simp add: UidBlock_field_def read_tag_08 [OF d] read_varint_put [OF drop_Suc_tail [OF d]]
        go_simps varint_field_def)
qed (use assms(2) in \<open>cases m; simp add: varint_field_def\<close>)

lemma ucast32_up_down [simp]: "ucast (ucast (v :: u32) :: u64) = v"
  by (rule bit_word_eqI) (auto simp: bit_simps)

lemma block_loop_NumUids:
  assumes "drop i d = varint_field [0x18] (ucast v) @ rest" and "NumUids m = 0"
  shows "UidBlock_unmarshal_loop d i m
    = UidBlock_unmarshal_loop d (i + length (varint_field [0x18] (ucast v))) (m\<lparr>NumUids := v\<rparr>)"
proof (cases "v = 0")
  case False
  then have d: "drop i d = 0x18 # put_uvarint (ucast v) @ rest" using assms(1) by (simp add: varint_field_def)
  from False show ?thesis
    by (intro block_loop_step [OF in_range [OF d]])
      (simp add: UidBlock_field_def read_tag_18 [OF d] read_varint_put [OF drop_Suc_tail [OF d]]
        go_simps varint_field_def)
qed (use assms(2) in \<open>cases m; simp add: varint_field_def\<close>)

lemma read_bytes_field:
  assumes "drop i d = bytes_field [t] bs @ rest" and "length d < 2 ^ 63"
  obtains j where "read_length d (Suc i) = ok (j, i + length (bytes_field [t] bs))"
    and "go_slice d (int j) (int (i + length (bytes_field [t] bs))) = Ret bs"
proof -
  let ?v = "of_nat (length bs) :: u64"
  have d: "drop i d = t # put_uvarint ?v @ bs @ rest" using assms(1) by (simp add: bytes_field_def)
  note t = drop_Suc_tail [OF d]
  have "drop (Suc i + length (put_uvarint ?v)) d = bs @ rest" by (rule drop_past [OF t])
  moreover have "length d - Suc i = length (put_uvarint ?v) + (length bs + length rest)"
    using arg_cong [OF t, of length] by simp
  then have "Suc i + length (put_uvarint ?v) \<le> length d"
    using in_range [OF d] by (cases "put_uvarint ?v") auto
  ultimately show ?thesis
    using that [of "Suc i + length (put_uvarint ?v)"] read_length_put [OF t assms(2)]
      slice_at [of "Suc i + length (put_uvarint ?v)" d bs rest]
    by (simp add: bytes_field_def add.assoc)
qed

lemma block_loop_Deltas:
  assumes "drop i d = (if bs = [] then [] else bytes_field [0x12] bs) @ rest" and "Deltas m = []"
    and "length d < 2 ^ 63"
  shows "UidBlock_unmarshal_loop d i m
    = UidBlock_unmarshal_loop d (i + length (if bs = [] then [] else bytes_field [0x12] bs)) (m\<lparr>Deltas := bs\<rparr>)"
proof (cases "bs = []")
  case False
  then have d: "drop i d = bytes_field [0x12] bs @ rest" using assms(1) by simp
  then have d': "drop i d = 0x12 # put_uvarint (of_nat (length bs)) @ bs @ rest"
    by (simp add: bytes_field_def)
  obtain j where "read_length d (Suc i) = ok (j, i + length (bytes_field [0x12] bs))"
    "go_slice d (int j) (int (i + length (bytes_field [0x12] bs))) = Ret bs"
    by (rule read_bytes_field [OF d assms(3)])
  with False show ?thesis
    by (intro block_loop_step [OF in_range [OF d']])
      (simp add: UidBlock_field_def read_tag_12 [OF d'] go_simps del: of_nat_add)
qed (use assms(2) in \<open>cases m; simp\<close>)

lemma UidBlock_Unmarshal_wire:
  assumes "length (block_wire b) < 2 ^ 63"
  shows "UidBlock_Unmarshal (block_wire b) zero_block = ok b"
proof -
  let ?d = "block_wire b"
  define f1 where "f1 = varint_field [0x8] (Base b)"
  define f2 where "f2 = (if Deltas b = [] then [] else bytes_field [0x12] (Deltas b))"
  define f3 where "f3 = varint_field [0x18] (ucast (NumUids b))"
  have d0: "drop 0 ?d = f1 @ f2 @ f3" by (simp add: block_wire_def f1_def f2_def f3_def)
  have d1: "drop (0 + length f1) ?d = f2 @ f3" by (rule drop_past [OF d0])
  have d2: "drop (0 + length f1 + length f2) ?d = f3 @ []" using drop_past [OF d1] by simp
  have end_of: "0 + length f1 + length f2 + length f3 = length ?d" using arg_cong [OF d0, of length] by simp
  have "UidBlock_unmarshal_loop ?d (length ?d) m = ok m" for m
    by (simp add: UidBlock_unmarshal_loop.simps)
  moreover have "zero_block\<lparr>Base := Base b, Deltas := Deltas b, NumUids := NumUids b\<rparr> = b"
    by (simp add: zero_block_def)
  ultimately show ?thesis
    unfolding UidBlock_Unmarshal_def
    using block_loop_Base [OF d0 [unfolded f1_def], of zero_block, folded f1_def]
      block_loop_Deltas [OF d1 [unfolded f2_def] _ assms, of "zero_block\<lparr>Base := Base b\<rparr>", folded f2_def]
      block_loop_NumUids [OF d2 [unfolded f3_def], of "zero_block\<lparr>Base := Base b, Deltas := Deltas b\<rparr>", folded f3_def]
    by (simp only: end_of) (simp add: zero_block_def)
qed

section \<open>Reading a pack back\<close>

lemma pack_loop_step:
  "\<lbrakk> i < length d; UidPack_field d i m = ok (j, m') \<rbrakk> \<Longrightarrow>
   UidPack_unmarshal_loop d i m = UidPack_unmarshal_loop d j m'"
  by (simp add: UidPack_unmarshal_loop.simps [of d i] go_simps)

lemma pack_loop_BlockSize:
  assumes "drop i d = varint_field [0x8] (ucast v) @ rest" and "BlockSize m = 0"
  shows "UidPack_unmarshal_loop d i m
    = UidPack_unmarshal_loop d (i + length (varint_field [0x8] (ucast v))) (m\<lparr>BlockSize := v\<rparr>)"
proof (cases "v = 0")
  case False
  then have d: "drop i d = 0x8 # put_uvarint (ucast v) @ rest" using assms(1) by (simp add: varint_field_def)
  from False show ?thesis
    by (intro pack_loop_step [OF in_range [OF d]])
      (simp add: UidPack_field_def read_tag_08 [OF d] read_varint_put [OF drop_Suc_tail [OF d]]
        go_simps varint_field_def)
qed (use assms(2) in \<open>cases m; simp add: varint_field_def\<close>)

lemma pack_loop_AllocRef:
  assumes "drop i d = varint_field [0xb8, 0x1] v @ rest" and "AllocRef m = 0"
  shows "UidPack_unmarshal_loop d i m
    = UidPack_unmarshal_loop d (i + length (varint_field [0xb8, 0x1] v)) (m\<lparr>AllocRef := v\<rparr>)"
proof (cases "v = 0")
  case False
  then have d: "drop i d = 0xb8 # 0x1 # put_uvarint v @ rest" using assms(1) by (simp add: varint_field_def)
  from False show ?thesis
    by (intro pack_loop_step [OF in_range [OF d]])
      (simp add: UidPack_field_def read_tag_b8 [OF d]
        read_varint_put [OF drop_Suc_tail [OF drop_Suc_tail [OF d]]] go_simps varint_field_def)
qed (use assms(2) in \<open>cases m; simp add: varint_field_def\<close>)

lemma pack_loop_block:
  assumes "drop i d = bytes_field [0x12] (block_wire b) @ rest" and "length d < 2 ^ 63"
  shows "UidPack_unmarshal_loop d i m
    = UidPack_unmarshal_loop d (i + length (bytes_field [0x12] (block_wire b))) (m\<lparr>Blocks := Blocks m @ [Some b]\<rparr>)"
proof -
  let ?w = "block_wire b"
  have d: "drop i d = 0x12 # put_uvarint (of_nat (length ?w)) @ ?w @ rest"
    using assms(1) by (simp add: bytes_field_def)
  have "length ?w \<le> length d - i" using arg_cong [OF d, of length] by simp
  then have "length ?w < 2 ^ 63" using assms(2) by linarith
  note b = UidBlock_Unmarshal_wire [OF this]
  obtain j where "read_length d (Suc i) = ok (j, i + length (bytes_field [0x12] ?w))"
    "go_slice d (int j) (int (i + length (bytes_field [0x12] ?w))) = Ret ?w"
    by (rule read_bytes_field [OF assms])
  with b show ?thesis
    by (intro pack_loop_step [OF in_range [OF d]])
      (simp add: UidPack_field_def read_tag_12 [OF d] go_simps del: of_nat_add)
qed

lemma pack_loop_blocks:
  "\<lbrakk> drop i d = blocks_wire bs @ rest; length d < 2 ^ 63 \<rbrakk> \<Longrightarrow>
   UidPack_unmarshal_loop d i m
     = UidPack_unmarshal_loop d (i + length (blocks_wire bs)) (m\<lparr>Blocks := Blocks m @ map Some bs\<rparr>)"
proof (induction bs arbitrary: i m)
  case Nil
  then show ?case by (cases m) (simp add: blocks_wire_def)
next
  case (Cons b bs)
  let ?f = "bytes_field [0x12] (block_wire b)"
  have d: "drop i d = ?f @ blocks_wire bs @ rest" using Cons.prems(1) by (simp add: blocks_wire_def)
  have "UidPack_unmarshal_loop d i m
      = UidPack_unmarshal_loop d (i + length ?f) (m\<lparr>Blocks := Blocks m @ [Some b]\<rparr>)"
    by (rule pack_loop_block [OF d Cons.prems(2)])
  also have "\<dots> = UidPack_unmarshal_loop d (i + length ?f + length (blocks_wire bs))
      (m\<lparr>Blocks := Blocks m @ [Some b], Blocks := Blocks (m\<lparr>Blocks := Blocks m @ [Some b]\<rparr>) @ map Some bs\<rparr>)"
    by (rule Cons.IH [OF drop_past [OF d] Cons.prems(2)])
  finally show ?case by (simp add: blocks_wire_def add.assoc)
qed

lemma pack_loop_wire:
  assumes "d = pack_wire p @ rest" and "length d < 2 ^ 63"
  shows "UidPack_unmarshal_loop d 0 zero_pack = UidPack_unmarshal_loop d (length (pack_wire p)) (pointers p)"
proof -
  define f1 where "f1 = varint_field [0x8] (ucast (BlockSize p))"
  define f2 where "f2 = blocks_wire (Blocks p)"
  define f3 where "f3 = varint_field [0xb8, 0x1] (AllocRef p)"
  have wire: "pack_wire p = f1 @ f2 @ f3" by (simp add: pack_wire_def f1_def f2_def f3_def blocks_wire_def)
  have d0: "drop 0 d = f1 @ f2 @ f3 @ rest" by (simp add: assms(1) wire)
  have d1: "drop (0 + length f1) d = f2 @ f3 @ rest" by (rule drop_past [OF d0])
  have d2: "drop (0 + length f1 + length f2) d = f3 @ rest" by (rule drop_past [OF d1])
  have end_of: "0 + length f1 + length f2 + length f3 = length (pack_wire p)" by (simp add: wire)
  have "zero_pack\<lparr>BlockSize := BlockSize p, Blocks := map Some (Blocks p), AllocRef := AllocRef p\<rparr> = pointers p"
    by (simp add: zero_pack_def pointers_def)
  then show ?thesis
    using pack_loop_BlockSize [OF d0 [unfolded f1_def], of zero_pack, folded f1_def]
      pack_loop_blocks [OF d1 [unfolded f2_def] assms(2), of "zero_pack\<lparr>BlockSize := BlockSize p\<rparr>", folded f2_def]
      pack_loop_AllocRef [OF d2 [unfolded f3_def], of "zero_pack\<lparr>BlockSize := BlockSize p, Blocks := map Some (Blocks p)\<rparr>", folded f3_def]
    by (simp only: end_of) (simp add: zero_pack_def)
qed

lemma UidPack_Unmarshal_wire:
  "UidPack_Size (Some (pointers p)) < 2 ^ 63 \<Longrightarrow> UidPack_Unmarshal (pack_wire p) zero_pack = ok (pointers p)"
  using pack_loop_wire [of "pack_wire p" p "[]"]
  by (simp add: UidPack_Unmarshal_def length_pack_wire UidPack_unmarshal_loop.simps [of _ "UidPack_Size (Some (pointers p))"])

section \<open>No panic\<close>

definition safe :: "'a go \<Rightarrow> bool" where
  "safe m \<longleftrightarrow> (\<exists>r. m = Ret r)"

named_theorems safe_intros "computations that do not panic"

lemma safe_Ret [safe_intros]: "safe (Ret r)"
  by (simp add: safe_def)

lemma safe_pb_bind: "\<lbrakk> safe m; \<And>x. m = ok x \<Longrightarrow> safe (f x) \<rbrakk> \<Longrightarrow> safe (pb_bind m f)"
  by (auto simp: safe_def pb_bind_def split: sum.splits)

lemma safe_read_varint [safe_intros]: "safe (read_varint d i s v)"
proof (induction d i s v rule: read_varint.induct)
  case (1 d i s v)
  then show ?case
    by (cases "length d \<le> i")
      (simp_all add: read_varint.simps [of d i] go_index_nat Let_def safe_Ret)
qed

lemma safe_read_length [safe_intros]: "safe (read_length d i)"
  by (auto simp: read_length_def Let_def intro!: safe_pb_bind safe_intros split: option.splits)

lemma safe_read_tag [safe_intros]: "safe (read_tag d i)"
  by (auto simp: read_tag_def Let_def intro!: safe_pb_bind safe_intros)

lemma safe_skip_field [safe_intros]: "safe (skip_field d i depth)"
  by (auto simp: skip_field_def Let_def intro!: safe_pb_bind safe_intros split: option.splits)

lemma safe_skip_loop [safe_intros]: "safe (skip_loop d i depth)"
proof (induction d i depth rule: skip_loop.induct)
  case (1 d i depth)
  then show ?case
    by (auto simp: skip_loop.simps [of d i] intro!: safe_pb_bind safe_intros)
qed

lemma safe_skip_unknown [safe_intros]: "i \<le> length d \<Longrightarrow> safe (skip_unknown d i)"
  by (auto simp: skip_unknown_def skipPb_def go_slice_nat intro!: safe_pb_bind safe_intros split: option.splits)

lemma safe_slice_bind: "\<lbrakk> i \<le> j; j \<le> length d; \<And>bs. safe (f bs) \<rbrakk> \<Longrightarrow> safe (go_bind (go_slice d (int i) (int j)) f)"
  by (simp add: go_slice_nat)

lemma safe_UidBlock_field [safe_intros]: "i < length d \<Longrightarrow> safe (UidBlock_field d i m)"
  by (auto simp: UidBlock_field_def intro!: safe_pb_bind safe_slice_bind safe_intros dest: read_length_forward)

lemma safe_UidBlock_loop [safe_intros]: "safe (UidBlock_unmarshal_loop d i m)"
proof (induction d i m rule: UidBlock_unmarshal_loop.induct)
  case (1 d i m)
  then show ?case
    by (auto simp: UidBlock_unmarshal_loop.simps [of d i] intro!: safe_pb_bind safe_intros)
qed

lemma safe_UidPack_field [safe_intros]: "i < length d \<Longrightarrow> safe (UidPack_field d i m)"
  by (auto simp: UidPack_field_def UidBlock_Unmarshal_def
      intro!: safe_pb_bind safe_slice_bind safe_intros dest: read_length_forward)

lemma safe_UidPack_loop: "safe (UidPack_unmarshal_loop d i m)"
proof (induction d i m rule: UidPack_unmarshal_loop.induct)
  case (1 d i m)
  then show ?case
    by (auto simp: UidPack_unmarshal_loop.simps [of d i] intro!: safe_pb_bind safe_intros)
qed

section \<open>Unknown fields\<close>

lemma skipPb_varint_field:
  assumes "unat (t AND 0x7) = 0"
  shows "skipPb (put_uvarint t @ put_uvarint v) = ok (length (put_uvarint t @ put_uvarint v))"
proof -
  let ?d = "put_uvarint t @ put_uvarint v"
  have t: "read_varint ?d 0 0 (0 :: u64) = ok (t, length (put_uvarint t))"
    using read_varint_put [where 'a = 64, of 0 ?d t "put_uvarint v"] by simp
  have v: "read_varint ?d (length (put_uvarint t)) 0 (0 :: u64)
      = ok (v, length (put_uvarint t) + length (put_uvarint v))"
    using read_varint_put [where 'a = 64, of "length (put_uvarint t)" ?d v "[]"] by simp
  have "0 < length ?d" by simp
  then show ?thesis
    using t v assms
    by (simp add: skipPb_def skip_loop.simps [of ?d 0] skip_field_def go_simps Let_def)
qed

lemma pack_loop_unknown:
  assumes "d = w @ put_uvarint t @ put_uvarint v" and "length d < 2 ^ 63" and "unat (t AND 0x7) = 0"
    and "0 < sint (ucast (drop_bit 3 t) :: u32)"
    and "sint (ucast (drop_bit 3 t) :: u32) \<notin> {1, 2, 23}"
  shows "UidPack_unmarshal_loop d (length w) m = ok m"
proof -
  let ?rest = "put_uvarint t @ put_uvarint v"
  have rest: "drop (length w) d = ?rest" using assms(1) by simp
  have len: "length d = length w + length ?rest" using assms(1) by simp
  have "0 < length (put_uvarint t)" by simp
  then have less: "length w < length d" using len by simp
  have tag: "read_tag d (length w) = ok (sint (ucast (drop_bit 3 t) :: u32), 0, length w + length (put_uvarint t))"
    using read_tag_put [OF rest] assms(3,4) by simp
  have "go_slice d (int (length w)) (int (length d)) = Ret ?rest"
    using go_slice_nat [of "length w" "length d" d] rest less len by simp
  then have "skip_unknown d (length w) = ok (length d)"
    using len assms(2) by (simp add: skip_unknown_def skipPb_varint_field [OF assms(3)] go_simps add_int_def)
  then have "UidPack_field d (length w) m = ok (length d, m)"
    using assms(5) by (simp add: UidPack_field_def tag go_simps)
  from pack_loop_step [OF less this] show ?thesis
    by (simp add: UidPack_unmarshal_loop.simps [of d "length d"])
qed

section \<open>Properties of the messages\<close>

lemma pointers_ex: "None \<notin> set (Blocks m) \<Longrightarrow> \<exists>p. m = pointers p"
proof -
  assume "None \<notin> set (Blocks m)"
  then obtain bs where "Blocks m = map Some bs" by (metis ex_map_conv not_None_eq)
  then have "m = pointers \<lparr>BlockSize = BlockSize m, Blocks = bs, AllocRef = AllocRef m\<rparr>" by (simp add: pointers_def)
  then show ?thesis by blast
qed

text \<open>
  C6: \<open>Marshal\<close> of a pack whose size is within the address space of 48 bits: if a pointer among its
  blocks is nil, which \<open>Size\<close> counts as an empty block, it panics; otherwise it returns, its result
  has exactly the length that \<open>Size\<close> announces, and \<open>Unmarshal\<close> of the result into a zero message
  gives the pack back.
\<close>

theorem UidPack_Marshal_Unmarshal:
  assumes "UidPack_Size (Some m) \<le> 2 ^ 48"
  shows "if None \<in> set (Blocks m) then UidPack_Marshal (Some m) = Panic NilDeref
    else \<exists>bs. UidPack_Marshal (Some m) = Ret bs \<and> length bs = UidPack_Size (Some m)
      \<and> UidPack_Unmarshal bs zero_pack = ok m"
proof (cases "None \<in> set (Blocks m)")
  case True
  with marshal_pack_nil [OF True] UidPack_Marshal_sized [OF assms] show ?thesis by simp
next
  case False
  from pointers_ex [OF this] obtain p where m: "m = pointers p" ..
  have "UidPack_Size (Some (pointers p)) < 2 ^ 63" using assms m by simp
  from UidPack_Unmarshal_wire [OF this] UidPack_Marshal_wire [of p] assms length_pack_wire [of p] False
  show ?thesis by (simp add: m)
qed

definition small_pack :: uid_pack where
  "small_pack = \<lparr>BlockSize = 2, Blocks = [\<lparr>Base = 300, Deltas = [5, 6], NumUids = 2\<rparr>], AllocRef = 1\<rparr>"

lemma small_pack_Size: "UidPack_Size (Some (pointers small_pack)) = 16"
  by (simp add: small_pack_def pointers_def UidPack_Size_def UidBlock_Size_def sovPb_put_uvarint put_uvarint.simps
      word_le_nat_alt Let_def)

theorem UidPack_Marshal_Unmarshal_witness:
  "\<exists>bs. UidPack_Marshal (Some (pointers small_pack)) = Ret bs \<and> length bs = 16
    \<and> UidPack_Unmarshal bs zero_pack = ok (pointers small_pack)"
  using UidPack_Marshal_Unmarshal [of "pointers small_pack"] by (auto simp: small_pack_Size)

text \<open>
  C7: \<open>MarshalToSizedBuffer\<close>, which writes from the end of the buffer backwards, refines the
  forward description of the wire format, for a pack without nil pointers: in a buffer at least
  \<open>Size\<close> long it never writes out of range, leaves the bytes before the message as they were, and
  puts exactly the message's fields, in the order of their numbers, at the end.
\<close>

theorem UidPack_MarshalToSizedBuffer_refines:
  assumes "UidPack_Size (Some (pointers p)) \<le> length d"
  shows "UidPack_MarshalToSizedBuffer (Some (pointers p)) d
    = Ret (take (length d - UidPack_Size (Some (pointers p))) d @ pack_wire p, int (UidPack_Size (Some (pointers p))))"
  using marshal_pack_sized [OF assms] by (simp add: put_before_def length_pack_wire)

theorem UidPack_MarshalToSizedBuffer_refines_witness:
  "UidPack_MarshalToSizedBuffer (Some (pointers small_pack)) (replicate 18 7) = Ret ([7, 7] @ pack_wire small_pack, 16)"
  using UidPack_MarshalToSizedBuffer_refines [of small_pack "replicate 18 7"]
  by (simp add: small_pack_Size numeral_2_eq_2)

text \<open>
  C8: whatever the bytes and the message they are read into, \<open>Unmarshal\<close> ends, with an error or
  a value: no index or slice is out of range, also when lengths overflow an int.
\<close>

theorem UidPack_Unmarshal_never_panics: "\<exists>r. UidPack_Unmarshal dAtA m = Ret r"
  using safe_UidPack_loop [of dAtA 0 m] by (simp add: UidPack_Unmarshal_def safe_def)

text \<open>
  \<open>Unmarshal\<close> skips a field that it does not know: with a varint field of any other field
  number after the message, it still reads the message.
\<close>

theorem UidPack_Unmarshal_skips_unknown:
  assumes "UidPack_Marshal (Some (pointers p)) = Ret bs" and "UidPack_Size (Some (pointers p)) \<le> 2 ^ 48"
    and "length (bs @ put_uvarint t @ put_uvarint v) < 2 ^ 63"
    and "unat (t AND 0x7) = 0" and "0 < sint (ucast (drop_bit 3 t) :: u32)"
    and "sint (ucast (drop_bit 3 t) :: u32) \<notin> {1, 2, 23}"
  shows "UidPack_Unmarshal (bs @ put_uvarint t @ put_uvarint v) zero_pack = ok (pointers p)"
proof -
  have bs: "bs = pack_wire p" using assms(1) by (simp add: UidPack_Marshal_wire [OF assms(2)])
  show ?thesis
    using pack_loop_wire [OF _ assms(3), of p "put_uvarint t @ put_uvarint v"]
      pack_loop_unknown [OF refl assms(3-6)]
    by (simp add: UidPack_Unmarshal_def bs)
qed

theorem UidPack_Unmarshal_skips_unknown_witness:
  "UidPack_Unmarshal (pack_wire small_pack @ put_uvarint 0x28 @ put_uvarint 9) zero_pack = ok (pointers small_pack)"
  by (rule UidPack_Unmarshal_skips_unknown)
    (simp_all add: UidPack_Marshal_wire length_pack_wire small_pack_Size put_uvarint.simps word_le_nat_alt)

end
