(* ===== verification/GoHeap.thy ===== *)
theory GoHeap
  imports Prelude "HOL-Library.Multiset"
begin

text \<open>
  The binary heap of the standard library's \<open>container/heap\<close> over a slice ordered by a key, as
  cachebench/ristretto/cache.go uses it (\<open>Less\<close> compares the keys, \<open>Push\<close> and \<open>Pop\<close> work at
  the end of the slice), and the interface that a client of such a heap relies on.
\<close>

section \<open>Operations\<close>

definition swap :: "'a list \<Rightarrow> nat \<Rightarrow> nat \<Rightarrow> 'a list" where
  "swap h i j = h[i := h ! j, j := h ! i]"

text \<open>\<open>up\<close>: the parent of 0 is 0, because Go's division truncates towards 0.\<close>

fun heap_up :: "('a \<Rightarrow> nat) \<Rightarrow> 'a list \<Rightarrow> nat \<Rightarrow> 'a list" where
  "heap_up key h j =
     (let i = (j - 1) div 2
      in if i = j \<or> \<not> key (h ! j) < key (h ! i) then h
         else heap_up key (swap h i j) i)"

function heap_down :: "('a \<Rightarrow> nat) \<Rightarrow> 'a list \<Rightarrow> nat \<Rightarrow> nat \<Rightarrow> 'a list" where
  "heap_down key h i n =
     (let j1 = 2 * i + 1
      in if n \<le> j1 then h
         else let j = (if j1 + 1 < n \<and> key (h ! (j1 + 1)) < key (h ! j1) then j1 + 1 else j1)
              in if \<not> key (h ! j) < key (h ! i) then h
                 else heap_down key (swap h i j) j n)"
  by pat_completeness auto
termination
  by (relation "measure (\<lambda>(key, h, i, n). n - i)") (auto simp: Let_def split: if_splits)

declare heap_up.simps [simp del] heap_down.simps [simp del]

definition heap_Push :: "('a \<Rightarrow> nat) \<Rightarrow> 'a \<Rightarrow> 'a list \<Rightarrow> 'a list" where
  "heap_Push key x h = heap_up key (h @ [x]) (length h)"

text \<open>\<open>heap.Pop\<close> on an empty slice swaps the elements 0 and \<open>-1\<close>, which panics.\<close>

definition heap_Pop :: "('a \<Rightarrow> nat) \<Rightarrow> 'a list \<Rightarrow> ('a \<times> 'a list) go" where
  "heap_Pop key h =
     (if h = [] then Panic IndexOutOfRange
      else let n = length h - 1;
               h = heap_down key (swap h 0 n) 0 n
           in Ret (h ! n, take n h))"

section \<open>Swaps\<close>

lemma length_swap [simp]: "length (swap h i j) = length h"
  by (simp add: swap_def)

lemma nth_swap:
  "\<lbrakk> i < length h; j < length h; k < length h \<rbrakk> \<Longrightarrow>
   swap h i j ! k = (if k = i then h ! j else if k = j then h ! i else h ! k)"
  by (auto simp: swap_def nth_list_update)

lemma mset_swap_eq: "\<lbrakk> i < length h; j < length h \<rbrakk> \<Longrightarrow> mset (swap h i j) = mset h"
  unfolding swap_def by (rule mset_swap)

section \<open>The heap order\<close>

definition parent :: "nat \<Rightarrow> nat" where
  "parent k = (k - 1) div 2"

lemma parent_less: "0 < k \<Longrightarrow> parent k < k"
  by (auto simp: parent_def)

lemma parent_0 [simp]: "parent 0 = 0"
  by (simp add: parent_def)

lemma parent_eq: "0 < k \<Longrightarrow> parent k = i \<longleftrightarrow> k = 2 * i + 1 \<or> k = 2 * i + 2"
  by (auto simp: parent_def)

definition heap_ordered :: "('a \<Rightarrow> nat) \<Rightarrow> 'a list \<Rightarrow> bool" where
  "heap_ordered key h \<longleftrightarrow> (\<forall>k. 0 < k \<longrightarrow> k < length h \<longrightarrow> key (h ! parent k) \<le> key (h ! k))"

lemma heap_root_least:
  "\<lbrakk> heap_ordered key h; k < length h \<rbrakk> \<Longrightarrow> key (h ! 0) \<le> key (h ! k)"
proof (induction k rule: less_induct)
  case (less k)
  show ?case
  proof (cases "k = 0")
    case False
    then have p: "parent k < k" by (simp add: parent_less)
    have "key (h ! 0) \<le> key (h ! parent k)" using less p by simp
    also have "\<dots> \<le> key (h ! k)" using less.prems False by (simp add: heap_ordered_def)
    finally show ?thesis .
  qed simp
qed

text \<open>Ordered but for the element at \<open>j\<close>, which may be too small for its parent.\<close>

definition up_ordered :: "('a \<Rightarrow> nat) \<Rightarrow> 'a list \<Rightarrow> nat \<Rightarrow> bool" where
  "up_ordered key h j \<longleftrightarrow>
     (\<forall>k. 0 < k \<longrightarrow> k < length h \<longrightarrow> k \<noteq> j \<longrightarrow> key (h ! parent k) \<le> key (h ! k))
     \<and> (\<forall>k. 0 < k \<longrightarrow> k < length h \<longrightarrow> parent k = j \<longrightarrow> 0 < j \<longrightarrow> key (h ! parent j) \<le> key (h ! k))"

lemma up_ordered_done:
  "\<lbrakk> up_ordered key h j; parent j = j \<or> \<not> key (h ! j) < key (h ! parent j) \<rbrakk> \<Longrightarrow> heap_ordered key h"
proof -
  assume u: "up_ordered key h j" and stop: "parent j = j \<or> \<not> key (h ! j) < key (h ! parent j)"
  have "key (h ! parent k) \<le> key (h ! k)" if "0 < k" "k < length h" for k
    using u stop that parent_less [of k] by (cases "k = j") (auto simp: up_ordered_def)
  then show "heap_ordered key h" by (simp add: heap_ordered_def)
qed

lemma up_ordered_swap:
  assumes "up_ordered key h j" and "j < length h" and "parent j \<noteq> j" and "key (h ! j) < key (h ! parent j)"
  shows "up_ordered key (swap h (parent j) j) (parent j)"
proof -
  let ?i = "parent j" and ?h = "swap h (parent j) j"
  have ij: "?i < j" "0 < j" using assms(3) parent_less [of j] by (cases j; simp)+
  then have il: "?i < length h" using assms(2) by simp
  have ord: "key (h ! parent k) \<le> key (h ! k)" if "0 < k" "k < length h" "k \<noteq> j" for k
    using assms(1) that by (simp add: up_ordered_def)
  have child: "key (h ! ?i) \<le> key (h ! k)" if "0 < k" "k < length h" "parent k = j" for k
    using assms(1) that ij by (simp add: up_ordered_def)
  have nth: "?h ! k = (if k = ?i then h ! j else if k = j then h ! ?i else h ! k)" if "k < length h" for k
    using nth_swap [OF il assms(2) that] .
  have "key (?h ! parent k) \<le> key (?h ! k)" if k: "0 < k" "k < length h" "k \<noteq> ?i" for k
  proof -
    have p: "parent k < length h" "parent k < k" using parent_less [OF k(1)] k(2) by simp_all
    consider "k = j" | "k \<noteq> j" "parent k = j" | "k \<noteq> j" "parent k = ?i" | "k \<noteq> j" "parent k \<noteq> j" "parent k \<noteq> ?i"
      by blast
    then show ?thesis
    proof cases
      case 1
      then show ?thesis using assms(4) il assms(2) ij by (simp add: nth)
    next
      case 2
      then show ?thesis using child [OF k(1,2)] k p ij by (simp add: nth)
    next
      case 3
      then show ?thesis using ord [OF k(1,2)] assms(4) k p ij by (simp add: nth)
    next
      case 4
      then show ?thesis using ord [OF k(1,2)] k p by (simp add: nth)
    qed
  qed
  moreover have "key (?h ! parent ?i) \<le> key (?h ! k)" if k: "0 < k" "k < length h" "parent k = ?i" "0 < ?i" for k
  proof -
    have pi: "parent ?i < ?i" "parent ?i < length h" using parent_less [OF k(4)] il by simp_all
    have top: "key (h ! parent ?i) \<le> key (h ! ?i)" using ord [of ?i] k(4) il ij by simp
    have kp: "?i < k" using parent_less [OF k(1)] k(3) by simp
    show ?thesis
    proof (cases "k = j")
      case True
      then show ?thesis using top pi ij k by (simp add: nth)
    next
      case False
      then show ?thesis using top ord [OF k(1,2)] pi ij k kp by (simp add: nth)
    qed
  qed
  ultimately show ?thesis by (simp add: up_ordered_def)
qed

lemma heap_up_ordered:
  "\<lbrakk> up_ordered key h j; j < length h \<rbrakk> \<Longrightarrow>
   heap_ordered key (heap_up key h j) \<and> mset (heap_up key h j) = mset h"
proof (induction key h j rule: heap_up.induct)
  case (1 key h j)
  have p: "(j - Suc 0) div 2 = parent j" by (simp add: parent_def)
  show ?case
  proof (cases "parent j = j \<or> \<not> key (h ! j) < key (h ! parent j)")
    case True
    then show ?thesis
      using up_ordered_done [OF "1.prems"(1) True] by (simp add: heap_up.simps [of key h] Let_def p)
  next
    case False
    then have "parent j < length h" using parent_less [of j] "1.prems"(2) by (cases j) auto
    then show ?thesis
      using False "1.IH" [OF refl] up_ordered_swap [OF "1.prems"] "1.prems"(2)
      by (simp add: heap_up.simps [of key h] Let_def p mset_swap_eq)
  qed
qed

text \<open>The first \<open>n\<close> elements ordered but for those below \<open>i\<close>, where a large one may sit.\<close>

definition down_ordered :: "('a \<Rightarrow> nat) \<Rightarrow> 'a list \<Rightarrow> nat \<Rightarrow> nat \<Rightarrow> bool" where
  "down_ordered key h i n \<longleftrightarrow>
     (\<forall>k. 0 < k \<longrightarrow> k < n \<longrightarrow> parent k \<noteq> i \<longrightarrow> key (h ! parent k) \<le> key (h ! k))
     \<and> (\<forall>k. 0 < k \<longrightarrow> k < n \<longrightarrow> parent k = i \<longrightarrow> 0 < i \<longrightarrow> key (h ! parent i) \<le> key (h ! k))"

definition ordered_upto :: "('a \<Rightarrow> nat) \<Rightarrow> 'a list \<Rightarrow> nat \<Rightarrow> bool" where
  "ordered_upto key h n \<longleftrightarrow> (\<forall>k. 0 < k \<longrightarrow> k < n \<longrightarrow> key (h ! parent k) \<le> key (h ! k))"

text \<open>The child that \<open>down\<close> compares with the parent is a least one.\<close>

definition least_child :: "('a \<Rightarrow> nat) \<Rightarrow> 'a list \<Rightarrow> nat \<Rightarrow> nat \<Rightarrow> nat" where
  "least_child key h i n =
     (if 2 * i + 2 < n \<and> key (h ! (2 * i + 2)) < key (h ! (2 * i + 1)) then 2 * i + 2 else 2 * i + 1)"

lemma least_child_bounds:
  assumes "2 * i + 1 < n"
  shows "least_child key h i n < n" "parent (least_child key h i n) = i" "i < least_child key h i n"
  using assms by (auto simp: least_child_def parent_def)

lemma least_child_least:
  assumes "0 < k" and "k < n" and "parent k = i"
  shows "key (h ! least_child key h i n) \<le> key (h ! k)"
proof -
  from assms(1,3) have "k = 2 * i + 1 \<or> k = 2 * i + 2" by (simp add: parent_eq)
  with assms(2) show ?thesis by (auto simp: least_child_def)
qed

lemma heap_down_unfold:
  "heap_down key h i n =
     (if n \<le> 2 * i + 1 \<or> \<not> key (h ! least_child key h i n) < key (h ! i) then h
      else heap_down key (swap h i (least_child key h i n)) (least_child key h i n) n)"
  by (subst heap_down.simps) (simp add: Let_def least_child_def)

lemma down_ordered_done:
  assumes "down_ordered key h i n" and "n \<le> 2 * i + 1 \<or> \<not> key (h ! least_child key h i n) < key (h ! i)"
  shows "ordered_upto key h n"
proof -
  have "key (h ! parent k) \<le> key (h ! k)" if k: "0 < k" "k < n" for k
  proof (cases "parent k = i")
    case True
    then have "2 * i + 1 < n" using k parent_eq [OF k(1), of i] by auto
    then show ?thesis using assms(2) least_child_least [OF k True, of key h] True by auto
  next
    case False
    then show ?thesis using assms(1) k by (simp add: down_ordered_def)
  qed
  then show ?thesis by (simp add: ordered_upto_def)
qed

lemma down_ordered_swap:
  assumes "down_ordered key h i n" and "n \<le> length h" and "2 * i + 1 < n"
    and "key (h ! least_child key h i n) < key (h ! i)"
  shows "down_ordered key (swap h i (least_child key h i n)) (least_child key h i n) n"
proof -
  let ?j = "least_child key h i n"
  let ?h = "swap h i ?j"
  note lc = least_child_bounds [OF assms(3), of key h]
  have ij: "i < length h" "?j < length h" using lc assms(2) by simp_all
  have ord: "key (h ! parent k) \<le> key (h ! k)" if "0 < k" "k < n" "parent k \<noteq> i" for k
    using assms(1) that by (simp add: down_ordered_def)
  have above: "key (h ! parent i) \<le> key (h ! k)" if "0 < k" "k < n" "parent k = i" "0 < i" for k
    using assms(1) that by (simp add: down_ordered_def)
  have nth: "?h ! k = (if k = i then h ! ?j else if k = ?j then h ! i else h ! k)" if "k < n" for k
    using nth_swap [OF ij] that assms(2) by simp
  have first: "key (?h ! parent k) \<le> key (?h ! k)" if k: "0 < k" "k < n" "parent k \<noteq> ?j" for k
  proof -
    have p: "parent k < n" "parent k < k" using parent_less [OF k(1)] k(2) by simp_all
    consider "k = ?j" | "k \<noteq> ?j" "parent k = i" | "k = i" "parent k \<noteq> i" | "k \<noteq> ?j" "parent k \<noteq> i" "k \<noteq> i" by blast
    then show ?thesis
    proof cases
      case 1
      then show ?thesis using assms(4) lc p k by (simp add: nth)
    next
      case 2
      then show ?thesis using least_child_least [OF k(1,2), of i key h] lc p k by (simp add: nth)
    next
      case 3
      then have "key (h ! parent i) \<le> key (h ! ?j)" using above [of ?j] lc k by simp
      then show ?thesis using 3 p k lc by (simp add: nth)
    next
      case 4
      then show ?thesis using ord [OF k(1,2)] p k by (simp add: nth)
    qed
  qed
  have second: "key (?h ! parent ?j) \<le> key (?h ! k)" if k: "0 < k" "k < n" "parent k = ?j" for k
  proof -
    have "?j < k" using parent_less [OF k(1)] k(3) by simp
    moreover have "key (h ! ?j) \<le> key (h ! k)" using ord [OF k(1,2)] k(3) lc by simp
    ultimately show ?thesis using lc k by (simp add: nth)
  qed
  from first second show ?thesis by (auto simp: down_ordered_def)
qed

lemma heap_down_ordered:
  "\<lbrakk> down_ordered key h i n; n \<le> length h \<rbrakk> \<Longrightarrow>
   ordered_upto key (heap_down key h i n) n \<and> mset (heap_down key h i n) = mset h
   \<and> drop n (heap_down key h i n) = drop n h"
proof (induction "n - i" arbitrary: h i rule: less_induct)
  case less
  let ?j = "least_child key h i n"
  show ?case
  proof (cases "n \<le> 2 * i + 1 \<or> \<not> key (h ! ?j) < key (h ! i)")
    case True
    then show ?thesis
      using down_ordered_done [OF less.prems(1) True] by (subst (1 2 3) heap_down_unfold) simp
  next
    case False
    then have i: "2 * i + 1 < n" and lt: "key (h ! ?j) < key (h ! i)" by auto
    note lc = least_child_bounds [OF i, of key h]
    have "ordered_upto key (heap_down key (swap h i ?j) ?j n) n
      \<and> mset (heap_down key (swap h i ?j) ?j n) = mset (swap h i ?j)
      \<and> drop n (heap_down key (swap h i ?j) ?j n) = drop n (swap h i ?j)"
      by (rule less.hyps) (use i lc less.prems down_ordered_swap [OF less.prems i lt] in \<open>simp_all add: diff_less_mono2\<close>)
    moreover have "mset (swap h i ?j) = mset h" using lc i less.prems(2) by (intro mset_swap_eq) simp_all
    moreover have "drop n (swap h i ?j) = drop n h" using lc i by (simp add: swap_def)
    ultimately show ?thesis using False by (subst (1 2 3) heap_down_unfold) simp
  qed
qed

section \<open>The priority queue\<close>

lemma heap_Push_ordered:
  assumes "heap_ordered key h"
  shows "heap_ordered key (heap_Push key x h)" and "mset (heap_Push key x h) = add_mset x (mset h)"
proof -
  have "up_ordered key (h @ [x]) (length h)"
    unfolding up_ordered_def
  proof (intro conjI allI impI)
    fix k assume k: "0 < k" "k < length (h @ [x])" "k \<noteq> length h"
    then have "k < length h" "parent k < length h" using parent_less [of k] by simp_all
    with k assms show "key ((h @ [x]) ! parent k) \<le> key ((h @ [x]) ! k)"
      by (simp add: heap_ordered_def nth_append)
  next
    fix k assume "0 < k" "k < length (h @ [x])" "parent k = length h"
    then show "key ((h @ [x]) ! parent (length h)) \<le> key ((h @ [x]) ! k)" using parent_less [of k] by simp
  qed
  from heap_up_ordered [OF this]
  show "heap_ordered key (heap_Push key x h)" "mset (heap_Push key x h) = add_mset x (mset h)"
    by (simp_all add: heap_Push_def)
qed

lemma heap_Pop_least:
  assumes "heap_ordered key h" and "h \<noteq> []"
  obtains h' where "heap_Pop key h = Ret (h ! 0, h')" and "heap_ordered key h'"
    and "mset h = add_mset (h ! 0) (mset h')" and "\<And>y. y \<in> set h \<Longrightarrow> key (h ! 0) \<le> key y"
proof -
  define n where "n = length h - 1"
  define d where "d = heap_down key (swap h 0 n) 0 n"
  have n: "n < length h" "0 < length h" "length h = Suc n" using assms(2) by (auto simp: n_def)
  have sw: "swap h 0 n ! k = h ! k" if "0 < k" "k < n" for k
    using nth_swap [OF n(2,1)] that n by simp
  have "down_ordered key (swap h 0 n) 0 n"
    unfolding down_ordered_def
  proof (intro conjI allI impI)
    fix k assume k: "0 < k" "k < n" "parent k \<noteq> 0"
    then show "key (swap h 0 n ! parent k) \<le> key (swap h 0 n ! k)"
      using assms(1) parent_less [of k] n by (simp add: sw heap_ordered_def)
  qed simp
  from heap_down_ordered [OF this] n have d: "ordered_upto key d n" "mset d = mset h" "drop n d = drop n (swap h 0 n)"
    by (simp_all add: d_def mset_swap_eq)
  have ld: "length d = Suc n" using d(2) n(3) by (metis size_mset)
  have "drop n (swap h 0 n) = [h ! 0]"
    using n nth_swap [OF n(2,1) n(1)] Cons_nth_drop_Suc [of n "swap h 0 n"] by (cases "n = 0") simp_all
  then have dn: "d = take n d @ [h ! 0]" using d(3) append_take_drop_id [of n d] by simp
  have last: "d ! n = h ! 0" using ld by (subst dn) (simp add: nth_append)
  have "heap_Pop key h = Ret (h ! 0, take n d)"
    unfolding heap_Pop_def n_def [symmetric] Let_def d_def [symmetric] using assms(2) last by simp
  moreover have "heap_ordered key (take n d)"
    unfolding heap_ordered_def
  proof (intro allI impI)
    fix k assume k: "0 < k" "k < length (take n d)"
    then have "parent k < n" using parent_less [of k] by simp
    then show "key (take n d ! parent k) \<le> key (take n d ! k)"
      using d(1) k by (simp add: ordered_upto_def)
  qed
  moreover have "mset h = add_mset (h ! 0) (mset (take n d))"
    using arg_cong [OF dn, of mset] d(2) by simp
  moreover have "key (h ! 0) \<le> key y" if "y \<in> set h" for y
    using that heap_root_least [OF assms(1)] by (metis in_set_conv_nth)
  ultimately show ?thesis by (rule that)
qed

text \<open>
  The contract of a priority queue over any representation: a multiset of items from which
  \<open>pop\<close> takes one with a least key.
\<close>

locale min_queue =
  fixes key :: "'a \<Rightarrow> nat" and queue_ok :: "'q \<Rightarrow> bool" and items :: "'q \<Rightarrow> 'a multiset"
    and len :: "'q \<Rightarrow> nat" and push :: "'a \<Rightarrow> 'q \<Rightarrow> 'q" and pop :: "'q \<Rightarrow> ('a \<times> 'q) go"
  assumes len_items: "queue_ok q \<Longrightarrow> len q = size (items q)"
    and push_ok: "queue_ok q \<Longrightarrow> queue_ok (push x q)"
    and items_push: "queue_ok q \<Longrightarrow> items (push x q) = add_mset x (items q)"
    and pop_least: "\<lbrakk> queue_ok q; items q \<noteq> {#} \<rbrakk> \<Longrightarrow>
      \<exists>x q'. pop q = Ret (x, q') \<and> queue_ok q' \<and> items q = add_mset x (items q')
        \<and> (\<forall>y \<in># items q. key x \<le> key y)"

interpretation heap: min_queue key "heap_ordered key" mset length "heap_Push key" "heap_Pop key"
  for key :: "'a \<Rightarrow> nat"
proof unfold_locales
  fix q :: "'a list" assume "heap_ordered key q" and "mset q \<noteq> {#}"
  then obtain h' where "heap_Pop key q = Ret (q ! 0, h')" "heap_ordered key h'"
    "mset q = add_mset (q ! 0) (mset h')" and least: "\<And>y. y \<in> set q \<Longrightarrow> key (q ! 0) \<le> key y"
    using heap_Pop_least [of key q] by auto
  moreover from least have "\<forall>y \<in># mset q. key (q ! 0) \<le> key y" by simp
  ultimately show "\<exists>x q'. heap_Pop key q = Ret (x, q') \<and> heap_ordered key q' \<and> mset q = add_mset x (mset q')
      \<and> (\<forall>y \<in># mset q. key x \<le> key y)" by blast
qed (simp_all add: heap_Push_ordered)

lemma heap_ordered_Nil [simp]: "heap_ordered key []"
  by (simp add: heap_ordered_def)

lemma heap_Pop_Nil: "heap_Pop key [] = Panic IndexOutOfRange"
  by (simp add: heap_Pop_def)

end
