(* ===== verification/CacheOptimal.thy ===== *)
theory CacheOptimal
  imports GoHeap GoStrings
begin

text \<open>
  The hit ratio benchmarks of cachebench/ristretto: the policy logs and their collection
  (bench.go), the clairvoyant cache \<open>BenchOptimal\<close> (cache.go), which records the accesses and
  afterwards replays them with a heap of the keys by their total number of accesses, and the
  loops that feed a cache from a simulator (generate.go).
\<close>

section \<open>Policy logs\<close>

text \<open>The counters are int64 and count list elements, so they are numbers without wrap-around.\<close>

record policy_log =
  pl_hits :: int
  pl_misses :: int
  pl_evictions :: int

definition new_log :: policy_log where
  "new_log = \<lparr>pl_hits = 0, pl_misses = 0, pl_evictions = 0\<rparr>"

definition Hit :: "policy_log \<Rightarrow> policy_log" where
  "Hit p = p\<lparr>pl_hits := pl_hits p + 1\<rparr>"

definition Miss :: "policy_log \<Rightarrow> policy_log" where
  "Miss p = p\<lparr>pl_misses := pl_misses p + 1\<rparr>"

definition Evict :: "policy_log \<Rightarrow> policy_log" where
  "Evict p = p\<lparr>pl_evictions := pl_evictions p + 1\<rparr>"

type_synonym log_collection = "policy_log list"

definition Append :: "policy_log \<Rightarrow> log_collection \<Rightarrow> log_collection" where
  "Append plog c = c @ [plog]"

definition coll_Hits :: "log_collection \<Rightarrow> int" where
  "coll_Hits c = foldl (\<lambda>sum p. sum + pl_hits p) 0 c"

definition coll_Misses :: "log_collection \<Rightarrow> int" where
  "coll_Misses c = foldl (\<lambda>sum p. sum + pl_misses p) 0 c"

section \<open>The optimal cache\<close>

text \<open>A missing entry of the Go map \<open>hits\<close> reads 0, so the map is a total function.\<close>

record bench_optimal =
  capacity :: u64
  hits :: "string \<Rightarrow> nat"
  access :: "string list"

definition NewBenchOptimal :: "int \<Rightarrow> bench_optimal" where
  "NewBenchOptimal cap = \<lparr>capacity = word_of_int cap, hits = (\<lambda>_. 0), access = []\<rparr>"

definition Optimal_Get :: "string \<Rightarrow> bench_optimal \<Rightarrow> (string option \<times> bool) \<times> bench_optimal" where
  "Optimal_Get key c =
     ((None, False), c\<lparr>hits := (hits c)(key := hits c key + 1), access := access c @ [key]\<rparr>)"

definition Optimal_Set :: "string \<Rightarrow> string \<Rightarrow> bench_optimal \<Rightarrow> bench_optimal" where
  "Optimal_Set key value c = c\<lparr>hits := (hits c)(key := hits c key + 1), access := access c @ [key]\<rparr>"

text \<open>
  The state of the loop in \<open>Log\<close>: the cached keys, the heap of cached items (key and total
  hits) and the counters; \<open>len\<close>, \<open>push\<close> and \<open>pop\<close> are the heap's operations.
\<close>

record 'q replay =
  look :: "string set"
  data :: 'q
  counts :: policy_log

definition replay_key ::
  "('q \<Rightarrow> nat) \<Rightarrow> (string \<times> nat \<Rightarrow> 'q \<Rightarrow> 'q) \<Rightarrow> ('q \<Rightarrow> ((string \<times> nat) \<times> 'q) go) \<Rightarrow>
     u64 \<Rightarrow> (string \<Rightarrow> nat) \<Rightarrow> string \<Rightarrow> 'q replay \<Rightarrow> 'q replay go" where
  "replay_key len push pop cap weight k s =
     (if k \<in> look s then Ret (s\<lparr>counts := Hit (counts s)\<rparr>)
      else go_bind
        (if cap \<le> of_nat (len (data s)) then
           go_bind (pop (data s)) (\<lambda>(victim, q).
             Ret (s\<lparr>look := look s - {fst victim}, data := q, counts := Evict (counts s)\<rparr>))
         else Ret s)
        (\<lambda>s. Ret (s\<lparr>look := insert k (look s), data := push (k, weight k) (data s),
                    counts := Miss (counts s)\<rparr>)))"

definition Optimal_Log :: "bench_optimal \<Rightarrow> policy_log go" where
  "Optimal_Log c =
     go_bind (go_fold (replay_key length (heap_Push snd) (heap_Pop snd) (capacity c) (hits c))
                (access c) \<lparr>look = {}, data = [], counts = new_log\<rparr>)
       (\<lambda>s. Ret (counts s))"

section \<open>Feeding a cache\<close>

text \<open>
  A simulator of \<open>ristretto/sim\<close> gives keys until it reports an error; \<open>ErrDone\<close> ends the loop
  and any other error is a panic. It is modelled as the keys it will give and how it ends.
  \<open>set_key\<close> is \<open>Cache.Set\<close> of the cache under test.
\<close>

datatype sim_end = ErrDone | SimError

record simulator =
  sim_keys :: "u64 list"
  sim_end :: sim_end

definition feed :: "(string \<Rightarrow> string \<Rightarrow> 'c \<Rightarrow> 'c go) \<Rightarrow> u64 list \<Rightarrow> 'c \<Rightarrow> 'c go" where
  "feed set_key keys = go_fold (\<lambda>k. set_key (decimal (unat k)) ''*'') keys"

definition NewHits ::
  "'c \<Rightarrow> (string \<Rightarrow> string \<Rightarrow> 'c \<Rightarrow> 'c go) \<Rightarrow> ('c \<Rightarrow> policy_log option go) \<Rightarrow> simulator \<Rightarrow>
     log_collection \<Rightarrow> log_collection go" where
  "NewHits cache set_key log keys coll =
     go_bind (feed set_key (sim_keys keys) cache) (\<lambda>cache.
       case sim_end keys of
         SimError \<Rightarrow> Panic AssertFailed
       | ErrDone \<Rightarrow> go_bind (log cache) (\<lambda>stats.
           Ret (case stats of None \<Rightarrow> coll | Some p \<Rightarrow> Append p coll)))"

definition sample_size :: nat where
  "sample_size = 100000 * 16"

definition HitsZipf ::
  "'c \<Rightarrow> (string \<Rightarrow> string \<Rightarrow> 'c \<Rightarrow> 'c go) \<Rightarrow> ('c \<Rightarrow> policy_log option go) \<Rightarrow> simulator \<Rightarrow>
     log_collection \<Rightarrow> log_collection go" where
  "HitsZipf cache set_key log keys coll =
     go_bind (feed set_key (take sample_size (sim_keys keys)) cache) (\<lambda>cache.
       if length (sim_keys keys) < sample_size \<and> sim_end keys = SimError then Panic AssertFailed
       else go_bind (log cache) (\<lambda>stats.
           Ret (case stats of None \<Rightarrow> coll | Some p \<Rightarrow> Append p coll)))"

end
