(* ===== verification/CacheOptimalProps.thy ===== *)
theory CacheOptimalProps
  imports CacheOptimal
begin

text \<open>
  What \<open>BenchOptimal\<close> promises: its replay is a run of a cache that on a full miss evicts a key
  with the fewest accesses overall, whatever the order in which the heap keeps equal keys; the
  counters that follow; and the accesses that a benchmark records.
\<close>

section \<open>Specification of the replay\<close>

text \<open>The cached keys with the numbers of hits, misses and evictions so far.\<close>

inductive optimal_step ::
  "nat \<Rightarrow> (string \<Rightarrow> nat) \<Rightarrow> string \<Rightarrow> string set \<times> policy_log \<Rightarrow> string set \<times> policy_log \<Rightarrow> bool"
  for cap weight k where
  hit: "k \<in> S \<Longrightarrow> optimal_step cap weight k (S, p) (S, Hit p)"
| room: "\<lbrakk> k \<notin> S; card S < cap \<rbrakk> \<Longrightarrow> optimal_step cap weight k (S, p) (insert k S, Miss p)"
| full: "\<lbrakk> k \<notin> S; card S = cap; v \<in> S; \<forall>u \<in> S. weight v \<le> weight u \<rbrakk> \<Longrightarrow>
    optimal_step cap weight k (S, p) (insert k (S - {v}), Miss (Evict p))"

inductive optimal_run ::
  "nat \<Rightarrow> (string \<Rightarrow> nat) \<Rightarrow> string list \<Rightarrow> string set \<times> policy_log \<Rightarrow> bool"
  for cap weight where
  start: "optimal_run cap weight [] ({}, new_log)"
| snoc: "\<lbrakk> optimal_run cap weight ks s; optimal_step cap weight k s s' \<rbrakk> \<Longrightarrow>
    optimal_run cap weight (ks @ [k]) s'"

lemmas policy_log_defs = Hit_def Miss_def Evict_def new_log_def

text \<open>The counters of any run.\<close>

definition counts_ok :: "nat \<Rightarrow> string list \<Rightarrow> string set \<Rightarrow> policy_log \<Rightarrow> bool" where
  "counts_ok cap ks S p \<longleftrightarrow>
     finite S \<and> S \<subseteq> set ks \<and> card S \<le> cap
     \<and> pl_hits p + pl_misses p = int (length ks)
     \<and> pl_evictions p = pl_misses p - int (card S)
     \<and> (pl_evictions p = 0 \<and> S = set ks \<or> card S = cap \<and> cap < card (set ks))
     \<and> int (card (set ks)) \<le> pl_misses p \<and> 0 \<le> pl_hits p"

lemma counts_ok_step:
  assumes "counts_ok cap ks S p" and "optimal_step cap weight k (S, p) (S', p')"
  shows "counts_ok cap (ks @ [k]) S' p'"
  using assms(2)
proof cases
  case hit
  then have "k \<in> set ks" using assms(1) by (auto simp: counts_ok_def)
  with hit assms(1) show ?thesis by (auto simp: counts_ok_def policy_log_defs insert_absorb)
next
  case room
  have new: "card (set (ks @ [k])) \<le> card (set ks) + 1" by (simp add: card_insert_if)
  show ?thesis using room assms(1) new by (auto simp: counts_ok_def policy_log_defs)
next
  case (full v)
  have fin: "finite S" and "0 < card S" using full assms(1) by (auto simp: counts_ok_def card_gt_0_iff)
  then have "card S' = card S" using full by (simp add: card_Diff_singleton)
  moreover have "card (set (ks @ [k])) \<le> card (set ks) + 1" by (simp add: card_insert_if)
  moreover have "cap < card (set (ks @ [k]))"
  proof -
    have "insert k S \<subseteq> set (ks @ [k])" using assms(1) by (auto simp: counts_ok_def)
    then have "card (insert k S) \<le> card (set (ks @ [k]))" by (intro card_mono) auto
    then show ?thesis using full fin by simp
  qed
  ultimately show ?thesis using full assms(1) fin by (auto simp: counts_ok_def policy_log_defs)
qed

lemma optimal_run_counts: "optimal_run cap weight ks (S, p) \<Longrightarrow> counts_ok cap ks S p"
proof (induction ks "(S, p)" arbitrary: S p rule: optimal_run.induct)
  case start
  then show ?case by (simp add: counts_ok_def policy_log_defs)
next
  case (snoc ks s k)
  then show ?case by (cases s) (auto intro: counts_ok_step)
qed

section \<open>The heap implements the specification\<close>

locale optimal_client = min_queue "snd :: string \<times> nat \<Rightarrow> nat" queue_ok items len push pop
  for queue_ok :: "'q \<Rightarrow> bool" and items :: "'q \<Rightarrow> (string \<times> nat) multiset"
    and len :: "'q \<Rightarrow> nat" and push :: "string \<times> nat \<Rightarrow> 'q \<Rightarrow> 'q"
    and pop :: "'q \<Rightarrow> ((string \<times> nat) \<times> 'q) go"
begin

lemma replay_step:
  assumes ok: "queue_ok (data s)"
    and items: "items (data s) = image_mset (\<lambda>k. (k, weight k)) (mset_set (look s))"
    and run: "optimal_run (unat cap) weight ks (look s, counts s)" and cap: "cap \<noteq> 0"
  shows "\<exists>s'. replay_key len push pop cap weight k s = Ret s' \<and> queue_ok (data s')
    \<and> items (data s') = image_mset (\<lambda>k. (k, weight k)) (mset_set (look s'))
    \<and> optimal_run (unat cap) weight (ks @ [k]) (look s', counts s')"
proof -
  have counts: "counts_ok (unat cap) ks (look s) (counts s)" by (rule optimal_run_counts [OF run])
  then have fin: "finite (look s)" and le: "card (look s) \<le> unat cap" by (simp_all add: counts_ok_def)
  have len: "len (data s) = card (look s)" using len_items [OF ok] items by simp
  have "card (look s) < 2 ^ LENGTH(64)"
    using le unsigned_less [of cap, where ?'a = nat] by simp
  then have full: "cap \<le> of_nat (len (data s)) \<longleftrightarrow> unat cap \<le> card (look s)"
    using len by (simp add: word_le_nat_alt unat_of_nat take_bit_nat_eq_self)
  consider "k \<in> look s" | "k \<notin> look s" "card (look s) < unat cap" | "k \<notin> look s" "card (look s) = unat cap"
    using le by linarith
  then show ?thesis
  proof cases
    case 1
    then show ?thesis
      using ok items optimal_run.snoc [OF run optimal_step.hit] by (simp add: replay_key_def)
  next
    case 2
    then show ?thesis
      using push_ok [OF ok] items_push [OF ok] items full fin optimal_run.snoc [OF run optimal_step.room]
      by (simp add: replay_key_def)
  next
    case 3
    have "0 < card (look s)" using 3 cap by (simp add: unat_gt_0)
    then have "items (data s) \<noteq> {#}" using items fin by (auto simp: mset_set_empty_iff)
    from pop_least [OF ok this] obtain x q' where
      pop: "pop (data s) = Ret (x, q')" "queue_ok q'" "items (data s) = add_mset x (items q')"
        "\<forall>y \<in># items (data s). snd x \<le> snd y" by blast
    have "x \<in># items (data s)" using pop(3) by simp
    then obtain v where v: "v \<in> look s" "x = (v, weight v)" using items fin by auto
    have least: "\<forall>u \<in> look s. weight v \<le> weight u" using pop(4) v(2) items fin by auto
    have "image_mset (\<lambda>k. (k, weight k)) (mset_set (look s))
      = add_mset x (image_mset (\<lambda>k. (k, weight k)) (mset_set (look s - {v})))"
      using v fin by (simp add: mset_set.remove [of "look s" v])
    then have q': "items q' = image_mset (\<lambda>k. (k, weight k)) (mset_set (look s - {v}))"
      using pop(3) items by simp
    from optimal_run.snoc [OF run optimal_step.full [OF 3 v(1) least]]
    show ?thesis
      using 3 full pop(1) push_ok [OF pop(2)] items_push [OF pop(2)] q' v fin
      by (simp add: replay_key_def)
  qed
qed

lemma replay_run:
  assumes "queue_ok q" and "items q = {#}" and "cap \<noteq> 0"
  shows "\<exists>s. go_fold (replay_key len push pop cap weight) ks \<lparr>look = {}, data = q, counts = new_log\<rparr> = Ret s
    \<and> optimal_run (unat cap) weight ks (look s, counts s)"
proof -
  let ?I = "\<lambda>ks s. queue_ok (data s)
    \<and> items (data s) = image_mset (\<lambda>k. (k, weight k)) (mset_set (look s))
    \<and> optimal_run (unat cap) weight ks (look s, counts s)"
  have "\<exists>s. go_fold (replay_key len push pop cap weight) ks \<lparr>look = {}, data = q, counts = new_log\<rparr> = Ret s
    \<and> ?I ks s"
    by (rule go_fold_invariant [where I = ?I])
      (use assms optimal_run.start replay_step in \<open>auto\<close>)
  then show ?thesis by blast
qed

end

interpretation ho: optimal_client "heap_ordered snd" mset length "heap_Push snd" "heap_Pop snd" ..

section \<open>What a benchmark records\<close>

definition recorded :: "string list \<Rightarrow> bench_optimal \<Rightarrow> bool" where
  "recorded ks c \<longleftrightarrow> access c = ks \<and> hits c = count (mset ks)"

lemma recorded_new: "recorded [] (NewBenchOptimal cap)"
  by (auto simp: recorded_def NewBenchOptimal_def)

lemma recorded_Set: "recorded ks c \<Longrightarrow> recorded (ks @ [k]) (Optimal_Set k v c)"
  by (auto simp: recorded_def Optimal_Set_def)

lemma recorded_Get: "recorded ks c \<Longrightarrow> recorded (ks @ [k]) (snd (Optimal_Get k c))"
  by (auto simp: recorded_def Optimal_Get_def)

lemma capacity_Set: "capacity (Optimal_Set k v c) = capacity c"
  by (simp add: Optimal_Set_def)

lemma feed_optimal:
  "\<exists>c. feed (\<lambda>k v c. Ret (Optimal_Set k v c)) keys (NewBenchOptimal cap) = Ret c
    \<and> recorded (map (\<lambda>k. decimal (unat k)) keys) c \<and> capacity c = word_of_int cap"
proof -
  have "\<exists>c'. feed (\<lambda>k v c. Ret (Optimal_Set k v c)) keys c = Ret c'
    \<and> recorded (ks @ map (\<lambda>k. decimal (unat k)) keys) c' \<and> capacity c' = capacity c"
    if "recorded ks c" for ks c
    using that
  proof (induction keys arbitrary: ks c)
    case (Cons k keys)
    from Cons.IH [OF recorded_Set [OF Cons.prems]] show ?case
      by (simp add: feed_def capacity_Set)
  qed (simp add: feed_def)
  from this [OF recorded_new [of cap]] show ?thesis by (simp add: NewBenchOptimal_def)
qed

lemma Optimal_Log_run:
  assumes "capacity c \<noteq> 0"
  shows "\<exists>S p. Optimal_Log c = Ret p \<and> optimal_run (unat (capacity c)) (hits c) (access c) (S, p)"
proof -
  obtain s where "go_fold (replay_key length (heap_Push snd) (heap_Pop snd) (capacity c) (hits c)) (access c)
      \<lparr>look = {}, data = [], counts = new_log\<rparr> = Ret s"
    "optimal_run (unat (capacity c)) (hits c) (access c) (look s, counts s)"
    using ho.replay_run [of "[]" "capacity c" "hits c" "access c"] assms by auto
  then show ?thesis by (auto simp: Optimal_Log_def)
qed

section \<open>Properties of the hit ratio benchmark\<close>

definition hits_optimal :: "int \<Rightarrow> simulator \<Rightarrow> log_collection \<Rightarrow> log_collection go" where
  "hits_optimal cap =
     NewHits (NewBenchOptimal cap) (\<lambda>k v c. Ret (Optimal_Set k v c))
       (\<lambda>c. go_bind (Optimal_Log c) (\<lambda>p. Ret (Some p)))"

lemma hits_optimal_run:
  assumes "(word_of_int cap :: u64) \<noteq> 0" and "sim_end sim = ErrDone"
  shows "\<exists>S p. hits_optimal cap sim coll = Ret (coll @ [p])
    \<and> optimal_run (unat (word_of_int cap :: u64)) (count (mset (map (\<lambda>k. decimal (unat k)) (sim_keys sim))))
        (map (\<lambda>k. decimal (unat k)) (sim_keys sim)) (S, p)"
proof -
  obtain c where c: "feed (\<lambda>k v c. Ret (Optimal_Set k v c)) (sim_keys sim) (NewBenchOptimal cap) = Ret c"
    "recorded (map (\<lambda>k. decimal (unat k)) (sim_keys sim)) c" "capacity c = word_of_int cap"
    using feed_optimal [of "sim_keys sim" cap] by blast
  then show ?thesis
    using Optimal_Log_run [of c] assms
    by (auto simp: hits_optimal_def NewHits_def Append_def recorded_def)
qed

text \<open>
  C9: a hit ratio benchmark of the optimal cache with a non-zero capacity appends one log to the
  collection, and that log is the outcome of a run of the specified cache over the keys of the
  simulator: a miss in a full cache evicts a cached key that is accessed least often in the
  whole trace.
\<close>

theorem NewHits_optimal_refines:
  assumes "(word_of_int cap :: u64) \<noteq> 0" and "sim_end sim = ErrDone"
  shows "\<exists>S p. NewHits (NewBenchOptimal cap) (\<lambda>k v c. Ret (Optimal_Set k v c))
       (\<lambda>c. go_bind (Optimal_Log c) (\<lambda>p. Ret (Some p))) sim coll = Ret (coll @ [p])
    \<and> optimal_run (unat (word_of_int cap :: u64))
        (count (mset (map (\<lambda>k. decimal (unat k)) (sim_keys sim))))
        (map (\<lambda>k. decimal (unat k)) (sim_keys sim)) (S, p)"
  using hits_optimal_run [OF assms] by (simp add: hits_optimal_def)

theorem NewHits_optimal_refines_witness:
  "\<exists>S p. NewHits (NewBenchOptimal 2) (\<lambda>k v c. Ret (Optimal_Set k v c))
       (\<lambda>c. go_bind (Optimal_Log c) (\<lambda>p. Ret (Some p))) \<lparr>sim_keys = [7, 8, 7, 9], sim_end = ErrDone\<rparr> []
       = Ret [p]
    \<and> optimal_run 2 (count (mset [''7'', ''8'', ''7'', ''9''])) [''7'', ''8'', ''7'', ''9''] (S, p)"
  using NewHits_optimal_refines [of 2 "\<lparr>sim_keys = [7, 8, 7, 9], sim_end = ErrDone\<rparr>" "[]"]
  by (simp add: decimal.simps digit_def char_of_def bit_0)

text \<open>
  C10: the counters of that log: hits and misses add up to the keys given, every distinct key
  misses at least once, a miss beyond the capacity evicts exactly one key, and a cache that has
  room for all the distinct keys misses once for each and never evicts.
\<close>

theorem NewHits_optimal_counts:
  assumes "(word_of_int cap :: u64) \<noteq> 0" and "sim_end sim = ErrDone"
  shows "\<exists>p. NewHits (NewBenchOptimal cap) (\<lambda>k v c. Ret (Optimal_Set k v c))
       (\<lambda>c. go_bind (Optimal_Log c) (\<lambda>p. Ret (Some p))) sim coll = Ret (coll @ [p])
    \<and> pl_hits p + pl_misses p = int (length (sim_keys sim)) \<and> 0 \<le> pl_hits p
    \<and> int (card (set (sim_keys sim))) \<le> pl_misses p
    \<and> pl_evictions p = max 0 (pl_misses p - uint (word_of_int cap :: u64))
    \<and> (card (set (sim_keys sim)) \<le> unat (word_of_int cap :: u64)
          \<longrightarrow> pl_misses p = int (card (set (sim_keys sim))) \<and> pl_evictions p = 0)"
proof -
  let ?cap = "word_of_int cap :: u64" and ?ks = "map (\<lambda>k. decimal (unat k)) (sim_keys sim)"
  obtain S p where run: "hits_optimal cap sim coll = Ret (coll @ [p])"
    and ok: "counts_ok (unat ?cap) ?ks S p"
    using hits_optimal_run [OF assms, of coll] optimal_run_counts by blast
  have "inj (\<lambda>k :: u64. decimal (unat k))" by (rule injI) (metis decimal_inj unsigned_word_eqI)
  then have "inj_on (\<lambda>k :: u64. decimal (unat k)) (set (sim_keys sim))" by (rule inj_on_subset) simp
  then have card: "card (set ?ks) = card (set (sim_keys sim))"
    unfolding set_map by (rule card_image)
  have cap: "uint ?cap = int (unat ?cap)" by simp
  have full: "unat ?cap < card (set (sim_keys sim)) \<and> card S = unat ?cap
      \<or> pl_evictions p = 0 \<and> card S = card (set (sim_keys sim))"
    using ok by (auto simp: counts_ok_def card [symmetric])
  have facts: "pl_hits p + pl_misses p = int (length (sim_keys sim))" "0 \<le> pl_hits p"
    "int (card (set (sim_keys sim))) \<le> pl_misses p" "pl_evictions p = pl_misses p - int (card S)"
    "card S \<le> unat ?cap"
    using ok unfolding counts_ok_def card by simp_all
  from full facts have "pl_evictions p = max 0 (pl_misses p - uint ?cap)" unfolding cap by linarith
  moreover from full facts have "card (set (sim_keys sim)) \<le> unat ?cap
      \<longrightarrow> pl_misses p = int (card (set (sim_keys sim))) \<and> pl_evictions p = 0" by linarith
  ultimately show ?thesis using run [unfolded hits_optimal_def] facts(1-3) by blast
qed

theorem NewHits_optimal_counts_witness:
  "\<exists>p. NewHits (NewBenchOptimal 2) (\<lambda>k v c. Ret (Optimal_Set k v c))
       (\<lambda>c. go_bind (Optimal_Log c) (\<lambda>p. Ret (Some p))) \<lparr>sim_keys = [7, 8, 7], sim_end = ErrDone\<rparr> []
       = Ret [p] \<and> pl_misses p = 2 \<and> pl_hits p = 1 \<and> pl_evictions p = 0"
  using NewHits_optimal_counts [of 2 "\<lparr>sim_keys = [7, 8, 7], sim_end = ErrDone\<rparr>" "[]"]
  by (auto simp: card_insert_if)

text \<open>
  With capacity 0 the first access makes \<open>Log\<close> pop the empty heap, which panics.
\<close>

theorem Optimal_Log_capacity_0:
  assumes "capacity c = 0" and "access c \<noteq> []"
  shows "Optimal_Log c = Panic IndexOutOfRange"
  using assms by (cases "access c") (simp_all add: Optimal_Log_def replay_key_def heap_Pop_Nil)

theorem Optimal_Log_capacity_0_witness:
  "Optimal_Log (Optimal_Set ''a'' ''*'' (NewBenchOptimal 0)) = Panic IndexOutOfRange"
  by (rule Optimal_Log_capacity_0) (simp_all add: Optimal_Set_def NewBenchOptimal_def)

end
