(* ===== verification/CacheBench.thy ===== *)
theory CacheBench
  imports CacheOptimal
begin

unbundle bit_operations_syntax

text \<open>
  The adapters of cachebench/ristretto/cache.go around the cache libraries, the throughput loops
  of generate.go, and the selection of benchmarks and the CSV file of bench.go. The libraries
  are parameters: \<open>get\<close>, \<open>put\<close> and \<open>del\<close> on a state of their own (a lookup may change the
  state, as in an LRU list). Values are byte strings; a nil value is \<open>None\<close>.
\<close>

section \<open>Padding\<close>

definition padString :: "string \<Rightarrow> nat \<Rightarrow> string" where
  "padString s len = (if len \<le> length s then take len s else replicate (len - length s) CHR ''0'' @ s)"

section \<open>The adapters\<close>

record 's adapter =
  cache :: 's
  log :: policy_log
  track :: bool

definition new_adapter :: "'s \<Rightarrow> bool \<Rightarrow> 's adapter" where
  "new_adapter c t = \<lparr>cache = c, log = new_log, track = t\<rparr>"

text \<open>Counting a set: a hit if the key was there.\<close>

definition count_set :: "bool \<Rightarrow> 's adapter \<Rightarrow> 's adapter" where
  "count_set present c = c\<lparr>log := (if present then Hit (log c) else Miss (log c))\<rparr>"

text \<open>\<open>BenchRistretto\<close>: the library's \<open>Get\<close> says with a flag whether the key is there.\<close>

definition Ristretto_Get ::
  "(string \<Rightarrow> 's \<Rightarrow> (string option \<times> bool) \<times> 's) \<Rightarrow> string \<Rightarrow> 's adapter \<Rightarrow>
     (string option \<times> bool) \<times> 's adapter" where
  "Ristretto_Get get k c = (let (r, s) = get k (cache c) in (r, c\<lparr>cache := s\<rparr>))"

definition Ristretto_Set ::
  "(string \<Rightarrow> 's \<Rightarrow> (string option \<times> bool) \<times> 's) \<Rightarrow> (string \<Rightarrow> string \<Rightarrow> 's \<Rightarrow> 's) \<Rightarrow>
     string \<Rightarrow> string \<Rightarrow> 's adapter \<Rightarrow> 's adapter" where
  "Ristretto_Set get put k v c =
     (let c = (if track c then let ((_, there), s) = get k (cache c) in count_set there (c\<lparr>cache := s\<rparr>)
               else c)
      in c\<lparr>cache := put k v (cache c)\<rparr>)"

definition Ristretto_Del :: "(string \<Rightarrow> 's \<Rightarrow> 's) \<Rightarrow> string \<Rightarrow> 's adapter \<Rightarrow> 's adapter" where
  "Ristretto_Del del k c = c\<lparr>cache := del k (cache c)\<rparr>"

text \<open>
  \<open>BenchBaseMutex\<close> (groupcache's \<open>lru\<close>) and \<open>BenchGoburrow\<close>: a set counts as a hit if the
  library returns a value that is not nil. Each operation holds the mutex from start to end, so
  it is a single step.
\<close>

definition BaseMutex_Get ::
  "(string \<Rightarrow> 's \<Rightarrow> (string option \<times> bool) \<times> 's) \<Rightarrow> string \<Rightarrow> 's adapter \<Rightarrow>
     (string option \<times> bool) \<times> 's adapter" where
  "BaseMutex_Get get k c = (let (r, s) = get k (cache c) in (r, c\<lparr>cache := s\<rparr>))"

definition BaseMutex_Set ::
  "(string \<Rightarrow> 's \<Rightarrow> (string option \<times> bool) \<times> 's) \<Rightarrow> (string \<Rightarrow> string \<Rightarrow> 's \<Rightarrow> 's) \<Rightarrow>
     string \<Rightarrow> string \<Rightarrow> 's adapter \<Rightarrow> 's adapter" where
  "BaseMutex_Set get put k v c =
     (let c = (if track c
               then let ((value, _), s) = get k (cache c) in count_set (value \<noteq> None) (c\<lparr>cache := s\<rparr>)
               else c)
      in c\<lparr>cache := put k v (cache c)\<rparr>)"

definition BaseMutex_Del :: "(string \<Rightarrow> 's \<Rightarrow> 's) \<Rightarrow> string \<Rightarrow> 's adapter \<Rightarrow> 's adapter" where
  "BaseMutex_Del del k c = c\<lparr>cache := del k (cache c)\<rparr>"

definition Goburrow_Get ::
  "(string \<Rightarrow> 's \<Rightarrow> (string option \<times> bool) \<times> 's) \<Rightarrow> string \<Rightarrow> 's adapter \<Rightarrow>
     (string option \<times> bool) \<times> 's adapter" where
  "Goburrow_Get get k c = (let (r, s) = get k (cache c) in (r, c\<lparr>cache := s\<rparr>))"

definition Goburrow_Set ::
  "(string \<Rightarrow> 's \<Rightarrow> (string option \<times> bool) \<times> 's) \<Rightarrow> (string \<Rightarrow> string \<Rightarrow> 's \<Rightarrow> 's) \<Rightarrow>
     string \<Rightarrow> string \<Rightarrow> 's adapter \<Rightarrow> 's adapter" where
  "Goburrow_Set get put k v c =
     (let c = (if track c
               then let ((value, _), s) = get k (cache c) in count_set (value \<noteq> None) (c\<lparr>cache := s\<rparr>)
               else c)
      in c\<lparr>cache := put k v (cache c)\<rparr>)"

definition Goburrow_Del :: "(string \<Rightarrow> 's \<Rightarrow> 's) \<Rightarrow> string \<Rightarrow> 's adapter \<Rightarrow> 's adapter" where
  "Goburrow_Del del k c = c\<lparr>cache := del k (cache c)\<rparr>"

text \<open>
  \<open>BenchBigCache\<close>, \<open>BenchFreeCache\<close> and \<open>BenchFastCache\<close> store under the padded key, while
  their \<open>Get\<close> and \<open>Del\<close> use the key as it is. The libraries' lookups give a value or nothing
  (an error, or a nil slice); \<open>put\<close> and \<open>del\<close> of the first two may fail, \<open>None\<close>, which \<open>Set\<close>
  and BigCache's \<open>Del\<close> turn into a panic.
\<close>

definition BigCache_Get ::
  "(string \<Rightarrow> 's \<Rightarrow> string option \<times> 's) \<Rightarrow> string \<Rightarrow> 's adapter \<Rightarrow>
     (string option \<times> bool) \<times> 's adapter" where
  "BigCache_Get get k c =
     (let (value, s) = get k (cache c) in ((value, value \<noteq> None), c\<lparr>cache := s\<rparr>))"

definition BigCache_Set ::
  "(string \<Rightarrow> 's \<Rightarrow> string option \<times> 's) \<Rightarrow> (string \<Rightarrow> string \<Rightarrow> 's \<Rightarrow> 's option) \<Rightarrow>
     string \<Rightarrow> string \<Rightarrow> 's adapter \<Rightarrow> 's adapter go" where
  "BigCache_Set get put k v c =
     (let longKey = padString k 64; longVal = padString v 1400;
          store = (\<lambda>c. case put longKey longVal (cache c) of
                         None \<Rightarrow> Panic AssertFailed | Some s \<Rightarrow> Ret (c\<lparr>cache := s\<rparr>))
      in if track c then
           let (value, s) = get longKey (cache c);
               c = count_set (value \<noteq> None) (c\<lparr>cache := s\<rparr>)
           in if value \<noteq> None then Ret c else store c
         else store c)"

definition BigCache_Del :: "(string \<Rightarrow> 's \<Rightarrow> 's option) \<Rightarrow> string \<Rightarrow> 's adapter \<Rightarrow> 's adapter go" where
  "BigCache_Del del k c =
     (case del k (cache c) of None \<Rightarrow> Panic AssertFailed | Some s \<Rightarrow> Ret (c\<lparr>cache := s\<rparr>))"

definition FreeCache_Get ::
  "(string \<Rightarrow> 's \<Rightarrow> string option \<times> 's) \<Rightarrow> string \<Rightarrow> 's adapter \<Rightarrow>
     (string option \<times> bool) \<times> 's adapter" where
  "FreeCache_Get get k c =
     (let (value, s) = get k (cache c) in ((value, value \<noteq> None), c\<lparr>cache := s\<rparr>))"

definition FreeCache_Set ::
  "(string \<Rightarrow> 's \<Rightarrow> string option \<times> 's) \<Rightarrow> (string \<Rightarrow> string \<Rightarrow> 's \<Rightarrow> 's option) \<Rightarrow>
     string \<Rightarrow> string \<Rightarrow> 's adapter \<Rightarrow> 's adapter go" where
  "FreeCache_Set get put k v c =
     (let longKey = padString k 64; longVal = padString v 1400;
          store = (\<lambda>c. case put longKey longVal (cache c) of
                         None \<Rightarrow> Panic AssertFailed | Some s \<Rightarrow> Ret (c\<lparr>cache := s\<rparr>))
      in if track c then
           let (value, s) = get longKey (cache c);
               c = count_set (value \<noteq> None) (c\<lparr>cache := s\<rparr>)
           in if value \<noteq> None then Ret c else store c
         else store c)"

definition FreeCache_Del :: "(string \<Rightarrow> 's \<Rightarrow> 's) \<Rightarrow> string \<Rightarrow> 's adapter \<Rightarrow> 's adapter" where
  "FreeCache_Del del k c = c\<lparr>cache := del k (cache c)\<rparr>"

text \<open>\<open>BenchFastCache\<close> takes an empty value for an absent one in \<open>Get\<close> and \<open>Set\<close> never fails.\<close>

definition FastCache_Get ::
  "(string \<Rightarrow> 's \<Rightarrow> string option \<times> 's) \<Rightarrow> string \<Rightarrow> 's adapter \<Rightarrow>
     (string option \<times> bool) \<times> 's adapter" where
  "FastCache_Get get k c =
     (let (value, s) = get k (cache c)
      in ((value, (case value of None \<Rightarrow> False | Some v \<Rightarrow> 0 < length v)), c\<lparr>cache := s\<rparr>))"

definition FastCache_Set ::
  "(string \<Rightarrow> 's \<Rightarrow> string option \<times> 's) \<Rightarrow> (string \<Rightarrow> string \<Rightarrow> 's \<Rightarrow> 's) \<Rightarrow>
     string \<Rightarrow> string \<Rightarrow> 's adapter \<Rightarrow> 's adapter" where
  "FastCache_Set get put k v c =
     (let longKey = padString k 64; longVal = padString v 1400;
          store = (\<lambda>c. c\<lparr>cache := put longKey longVal (cache c)\<rparr>)
      in if track c then
           let (value, s) = get longKey (cache c);
               c = count_set (value \<noteq> None) (c\<lparr>cache := s\<rparr>)
           in if value \<noteq> None then c else store c
         else store c)"

definition FastCache_Del :: "(string \<Rightarrow> 's \<Rightarrow> 's) \<Rightarrow> string \<Rightarrow> 's adapter \<Rightarrow> 's adapter" where
  "FastCache_Del del k c = c\<lparr>cache := del k (cache c)\<rparr>"

section \<open>The throughput loops\<close>

text \<open>
  The index of the key that iteration \<open>i\<close> uses, \<open>i & (capacity - 1)\<close>, out of the \<open>capacity\<close>
  keys made before; each loop is run by several goroutines, and each function below is what one
  goroutine does in \<open>n\<close> iterations of its own.
\<close>

definition bench_capacity :: nat where
  "bench_capacity = 100000"

definition bench_index :: "'a::len word \<Rightarrow> 'a word" where
  "bench_index i = i AND (of_nat bench_capacity - 1)"

definition bench_key :: "string list \<Rightarrow> 'a::len word \<Rightarrow> string go" where
  "bench_key keys i = go_index keys (uint (bench_index i))"

fun GetZipf_loop :: "(string \<Rightarrow> 'c \<Rightarrow> 'c) \<Rightarrow> string list \<Rightarrow> u64 \<Rightarrow> nat \<Rightarrow> 'c \<Rightarrow> 'c go" where
  "GetZipf_loop get_key keys i 0 c = Ret c"
| "GetZipf_loop get_key keys i (Suc n) c =
     go_bind (bench_key keys i) (\<lambda>k. GetZipf_loop get_key keys (i + 1) n (get_key k c))"

fun SetZipf_loop :: "(string \<Rightarrow> string \<Rightarrow> 'c \<Rightarrow> 'c go) \<Rightarrow> string list \<Rightarrow> u64 \<Rightarrow> nat \<Rightarrow> 'c \<Rightarrow> 'c go" where
  "SetZipf_loop set_key keys i 0 c = Ret c"
| "SetZipf_loop set_key keys i (Suc n) c =
     go_bind (bench_key keys i) (\<lambda>k.
     go_bind (set_key k ''*'' c) (\<lambda>c. SetZipf_loop set_key keys (i + 1) n c))"

text \<open>\<open>SetGetZipf\<close> counts with a shared int32, from 1, and sets what it does not find.\<close>

fun SetGetZipf_loop ::
  "(string \<Rightarrow> 'c \<Rightarrow> (string option \<times> bool) \<times> 'c) \<Rightarrow> (string \<Rightarrow> string \<Rightarrow> 'c \<Rightarrow> 'c go) \<Rightarrow>
     string list \<Rightarrow> u32 \<Rightarrow> nat \<Rightarrow> 'c \<Rightarrow> 'c go" where
  "SetGetZipf_loop get_key set_key keys i 0 c = Ret c"
| "SetGetZipf_loop get_key set_key keys i (Suc n) c =
     (let ti = i + 1
      in go_bind (bench_key keys ti) (\<lambda>k.
         let ((_, there), c) = get_key k c
         in go_bind (if there then Ret c else go_bind (bench_key keys ti) (\<lambda>k. set_key k ''*'' c))
              (\<lambda>c. SetGetZipf_loop get_key set_key keys ti n c)))"

fun SetGet_loop ::
  "(string \<Rightarrow> 'c \<Rightarrow> 'c) \<Rightarrow> (string \<Rightarrow> string \<Rightarrow> 'c \<Rightarrow> 'c go) \<Rightarrow> u64 \<Rightarrow> nat \<Rightarrow> 'c \<Rightarrow> 'c go" where
  "SetGet_loop get_key set_key i 0 c = Ret c"
| "SetGet_loop get_key set_key i (Suc n) c =
     go_bind (if i AND 1 = 0 then set_key ''*'' ''*'' c else Ret (get_key ''*'' c))
       (\<lambda>c. SetGet_loop get_key set_key (i + 1) n c)"

text \<open>
  The benchmark functions, with the cache that \<open>Create(false)\<close> made, the keys that the simulator
  gave, and the iterations of the goroutine.
\<close>

definition GetSame ::
  "(string \<Rightarrow> string \<Rightarrow> 'c \<Rightarrow> 'c go) \<Rightarrow> (string \<Rightarrow> 'c \<Rightarrow> 'c) \<Rightarrow> nat \<Rightarrow> 'c \<Rightarrow> 'c go" where
  "GetSame set_key get_key n c = go_bind (set_key ''*'' ''*'' c) (\<lambda>c. Ret ((get_key ''*'' ^^ n) c))"

definition GetZipf ::
  "(string \<Rightarrow> string \<Rightarrow> 'c \<Rightarrow> 'c go) \<Rightarrow> (string \<Rightarrow> 'c \<Rightarrow> 'c) \<Rightarrow> string list \<Rightarrow> nat \<Rightarrow> 'c \<Rightarrow> 'c go" where
  "GetZipf set_key get_key keys n c =
     go_bind (go_fold (\<lambda>k. set_key k ''*'') keys c) (GetZipf_loop get_key keys 0 n)"

definition SetSame :: "(string \<Rightarrow> string \<Rightarrow> 'c \<Rightarrow> 'c go) \<Rightarrow> nat \<Rightarrow> 'c \<Rightarrow> 'c go" where
  "SetSame set_key n c = go_fold (\<lambda>k. set_key k ''*'') (replicate n ''*'') c"

definition SetZipf :: "(string \<Rightarrow> string \<Rightarrow> 'c \<Rightarrow> 'c go) \<Rightarrow> string list \<Rightarrow> nat \<Rightarrow> 'c \<Rightarrow> 'c go" where
  "SetZipf set_key keys n c = SetZipf_loop set_key keys 0 n c"

definition SetGetZipf ::
  "(string \<Rightarrow> string \<Rightarrow> 'c \<Rightarrow> 'c go) \<Rightarrow> (string \<Rightarrow> 'c \<Rightarrow> (string option \<times> bool) \<times> 'c) \<Rightarrow>
     string list \<Rightarrow> nat \<Rightarrow> 'c \<Rightarrow> 'c go" where
  "SetGetZipf set_key get_key keys n c = SetGetZipf_loop get_key set_key keys 0 n c"

definition SetGet ::
  "(string \<Rightarrow> string \<Rightarrow> 'c \<Rightarrow> 'c go) \<Rightarrow> (string \<Rightarrow> 'c \<Rightarrow> 'c) \<Rightarrow> nat \<Rightarrow> 'c \<Rightarrow> 'c go" where
  "SetGet set_key get_key n c = SetGet_loop get_key set_key 0 n c"

section \<open>The selection of benchmarks\<close>

datatype cache_kind = KRistretto | KOptimal | KBaseMutex | KGoburrow | KBigCache | KFastCache | KFreeCache

datatype bench_fun = BHitsZipf | BHitsARC string | BHitsLIRS string
  | BGetSame | BGetZipf | BSetGet | BSetSame | BSetZipf | BSetGetZipf

record bench_cache =
  bc_name :: string
  bc_create :: cache_kind

record bench_suite =
  bs_label :: string
  bs_hits :: "bench_fun option"
  bs_speed :: "bench_fun option"

text \<open>\<open>Create\<close> is the closure that calls \<open>cache.create(capa, hits)\<close>: its cache and capacity.\<close>

record benchmark =
  Name :: string
  Label :: string
  HitsBencher :: "bench_fun option"
  SpeedBencher :: "bench_fun option"
  Para :: int
  Create :: "cache_kind \<times> int"

definition hits_suite :: "bench_suite list" where
  "hits_suite = map (\<lambda>(l, f). \<lparr>bs_label = l, bs_hits = Some f, bs_speed = None\<rparr>)
     [(''hits-zipf     '', BHitsZipf), (''hits-arc-p3   '', BHitsARC ''p3''),
      (''hits-arc-p8   '', BHitsARC ''p8''), (''hits-arc-s3   '', BHitsARC ''s3''),
      (''hits-arc-ds1  '', BHitsARC ''ds1''), (''hits-arc-oltp '', BHitsARC ''oltp''),
      (''hits-lirs-loop'', BHitsLIRS ''loop'')]"

definition speed_suite :: "bench_suite list" where
  "speed_suite = map (\<lambda>(l, f). \<lparr>bs_label = l, bs_hits = None, bs_speed = Some f\<rparr>)
     [(''get-same      '', BGetSame), (''get-zipf      '', BGetZipf), (''set-get       '', BSetGet),
      (''set-same      '', BSetSame), (''set-zipf      '', BSetZipf), (''set-get-zipf  '', BSetGetZipf)]"

definition NewBenchmarks :: "string \<Rightarrow> int \<Rightarrow> int \<Rightarrow> bench_cache \<Rightarrow> benchmark list" where
  "NewBenchmarks kind para capa c =
     (let suite = (if kind = ''hits'' \<or> kind = ''all'' then hits_suite else [])
                  @ (if kind = ''speed'' \<or> kind = ''all'' then speed_suite else [])
      in map (\<lambda>s. \<lparr>Name = bc_name c, Label = bs_label s,
                    HitsBencher = bs_hits s,
                    SpeedBencher = (if bs_hits s \<noteq> None then None else bs_speed s),
                    Para = para, Create = (bc_create c, capa)\<rparr>) suite)"

definition getBenchCaches :: "string \<Rightarrow> string \<Rightarrow> bench_cache list" where
  "getBenchCaches include suite =
     (let caches = [\<lparr>bc_name = ''ristretto  '', bc_create = KRistretto\<rparr>]
      in if include = ''ristretto'' then caches
         else if include = ''all'' then
           caches
           @ (if suite = ''hits'' then [\<lparr>bc_name = ''optimal    '', bc_create = KOptimal\<rparr>] else [])
           @ [\<lparr>bc_name = ''base-mutex '', bc_create = KBaseMutex\<rparr>,
              \<lparr>bc_name = ''goburrow   '', bc_create = KGoburrow\<rparr>,
              \<lparr>bc_name = ''bigcache   '', bc_create = KBigCache\<rparr>,
              \<lparr>bc_name = ''fastcache  '', bc_create = KFastCache\<rparr>,
              \<lparr>bc_name = ''freecache  '', bc_create = KFreeCache\<rparr>]
         else caches)"

text \<open>The benchmarks that \<open>main\<close> runs for its flags \<open>cache\<close>, \<open>suite\<close> and \<open>parallel\<close>.\<close>

definition main_benchmarks :: "string \<Rightarrow> string \<Rightarrow> int \<Rightarrow> benchmark list" where
  "main_benchmarks flagCache flagSuite flagParallel =
     concat (map (NewBenchmarks flagSuite flagParallel (int bench_capacity))
                 (getBenchCaches flagCache flagSuite))"

section \<open>The CSV file\<close>

definition Labels :: "string list" where
  "Labels = [''name       '', ''label         '', ''go'', '' mop/s'', '' ns/op'', ''ac'', ''byt'',
             ''hits    '', ''misses  '', ''  ratio '']"

text \<open>
  The text that \<open>save\<close> writes for the records of the logs, when the file accepts it: for each
  field a segment ending in a comma, led by a blank but for the first, and cut by its last byte
  for the last.
\<close>

definition save_segment :: "string list \<Rightarrow> nat \<Rightarrow> string" where
  "save_segment rec j =
     (let seg = rec ! j @ '','';
          seg = (if j \<noteq> 0 then '' '' @ seg else seg)
      in if j = length rec - 1 then take (length seg - 1) seg else seg)"

definition save_line :: "string list \<Rightarrow> string" where
  "save_line rec = concat (map (save_segment rec) [0..<length rec]) @ [CHR 0x0A]"

definition save :: "string list list \<Rightarrow> string" where
  "save records = concat (map save_line (Labels # records))"

end
