(* ===== verification/CacheBenchProps.thy ===== *)
theory CacheBenchProps
  imports CacheBench
begin

unbundle bit_operations_syntax

text \<open>
  What holds of the adapters, the throughput loops, the selection of benchmarks and the CSV
  lines of cachebench/ristretto.
\<close>

section \<open>Padding\<close>

lemma length_padString: "length (padString s n) = n"
  by (simp add: padString_def)

lemma zero_char: "CHR ''0'' = digit 0"
  by (simp add: digit_def char_of_def bit_0)

lemma padString_decimal: "length (decimal m) \<le> n \<Longrightarrow> digits_val (padString (decimal m) n) = m"
  by (cases "length (decimal m) = n") (simp_all add: padString_def zero_char digits_val_zeros)

lemma length_decimal_u64: "length (decimal (unat (k :: u64))) \<le> 20"
  by (rule length_decimal) (use unsigned_less [of k, where ?'a = nat] in simp_all)

section \<open>Libraries\<close>

text \<open>
  What the adapters rely on: a lookup or a store of one key does not bring another key into the
  cache (it may evict any).
\<close>

definition no_ghosts ::
  "(string \<Rightarrow> 's \<Rightarrow> string option \<times> 's) \<Rightarrow> (string \<Rightarrow> string \<Rightarrow> 's \<Rightarrow> 's option) \<Rightarrow> bool" where
  "no_ghosts get put \<longleftrightarrow>
     (\<forall>s k k'. fst (get k s) = None \<longrightarrow> fst (get k (snd (get k' s))) = None)
     \<and> (\<forall>s s' k k' v. put k' v s = Some s' \<longrightarrow> k \<noteq> k' \<longrightarrow> fst (get k s) = None \<longrightarrow> fst (get k s') = None)"

lemma no_ghosts_get: "no_ghosts get put \<Longrightarrow> fst (get k s) = None \<Longrightarrow> fst (get k (snd (get k' s))) = None"
  by (simp add: no_ghosts_def)

lemma no_ghosts_put:
  "\<lbrakk> no_ghosts get put; put k' v s = Some s'; k \<noteq> k'; fst (get k s) = None \<rbrakk> \<Longrightarrow> fst (get k s') = None"
  unfolding no_ghosts_def by blast

lemma BigCache_Set_absent:
  assumes "no_ghosts get put" and "length k \<noteq> 64" and "fst (get k (cache c)) = None"
    and "BigCache_Set get put k' v c = Ret c'"
  shows "fst (get k (cache c')) = None"
proof -
  have ne: "k \<noteq> padString k' 64" using assms(2) length_padString by metis
  have looked: "fst (get k (snd (get k'' (cache c)))) = None" for k''
    by (rule no_ghosts_get [OF assms(1,3)])
  show ?thesis
    using assms(3,4) looked [of "padString k' 64"] no_ghosts_put [OF assms(1) _ ne]
    by (auto simp: BigCache_Set_def count_set_def Let_def split: if_splits prod.splits option.splits)
qed

lemma FreeCache_eq_BigCache: "FreeCache_Set = BigCache_Set" "FreeCache_Get = BigCache_Get"
  by (intro ext, simp add: FreeCache_Set_def BigCache_Set_def FreeCache_Get_def BigCache_Get_def)+

lemma FastCache_eq_BigCache:
  "BigCache_Set get (\<lambda>k v s. Some (put k v s)) k v c = Ret (FastCache_Set get put k v c)"
  by (simp add: FastCache_Set_def BigCache_Set_def Let_def split: prod.splits)

lemma BigCache_Sets_absent:
  assumes "no_ghosts get put" and "length k \<noteq> 64" and "fst (get k (cache c)) = None"
    and "go_fold (\<lambda>(k, v). BigCache_Set get put k v) kvs c = Ret c'"
  shows "fst (get k (cache c')) = None"
  using assms(3,4)
proof (induction kvs arbitrary: c)
  case (Cons kv kvs)
  obtain k' v where kv: "kv = (k', v)" by (cases kv)
  with Cons.prems(2) obtain c1 where c1: "BigCache_Set get put k' v c = Ret c1"
    "go_fold (\<lambda>(k, v). BigCache_Set get put k v) kvs c1 = Ret c'"
    by (auto simp: go_simps)
  show ?case by (rule Cons.IH [OF BigCache_Set_absent [OF assms(1,2) Cons.prems(1) c1(1)] c1(2)])
qed simp

lemma FastCache_Sets:
  "go_fold (\<lambda>(k, v). BigCache_Set get (\<lambda>k v s. Some (put k v s)) k v) kvs c
     = Ret (fold (\<lambda>(k, v). FastCache_Set get put k v) kvs c)"
  by (induction kvs arbitrary: c) (auto simp: FastCache_eq_BigCache)

section \<open>Counting\<close>

definition counted :: "'s adapter \<Rightarrow> int" where
  "counted c = pl_hits (log c) + pl_misses (log c)"

lemma counted_count_set [simp]:
  "counted (count_set b c) = counted c + 1" "track (count_set b c) = track c"
  by (simp_all add: counted_def count_set_def Hit_def Miss_def)

lemma counted_cache [simp]: "counted (c\<lparr>cache := s\<rparr>) = counted c"
  by (simp add: counted_def)

lemma counted_Set:
  "track c \<Longrightarrow> counted (Ristretto_Set rget rput k v c) = counted c + 1 \<and> track (Ristretto_Set rget rput k v c)"
  "track c \<Longrightarrow> counted (BaseMutex_Set rget rput k v c) = counted c + 1 \<and> track (BaseMutex_Set rget rput k v c)"
  "track c \<Longrightarrow> counted (Goburrow_Set rget rput k v c) = counted c + 1 \<and> track (Goburrow_Set rget rput k v c)"
  "track c \<Longrightarrow> counted (FastCache_Set get fput k v c) = counted c + 1 \<and> track (FastCache_Set get fput k v c)"
  "\<lbrakk> track c; BigCache_Set get put k v c = Ret c' \<rbrakk> \<Longrightarrow> counted c' = counted c + 1 \<and> track c'"
  by (auto simp: Ristretto_Set_def BaseMutex_Set_def Goburrow_Set_def FastCache_Set_def BigCache_Set_def
      Let_def split: prod.splits if_splits option.splits)

lemma counted_fold:
  assumes "\<And>k v c. track c \<Longrightarrow> counted (set_key k v c) = counted c + 1 \<and> track (set_key k v c)"
  shows "track c \<Longrightarrow> counted (fold (\<lambda>(k, v). set_key k v) kvs c) = counted c + int (length kvs)"
  by (induction kvs arbitrary: c) (auto simp: assms)

lemma counted_go_fold:
  assumes "\<And>k v c c'. \<lbrakk> track c; set_key k v c = Ret c' \<rbrakk> \<Longrightarrow> counted c' = counted c + 1 \<and> track c'"
  shows "\<lbrakk> track c; go_fold (\<lambda>(k, v). set_key k v) kvs c = Ret c' \<rbrakk> \<Longrightarrow>
    counted c' = counted c + int (length kvs)"
proof (induction kvs arbitrary: c)
  case (Cons kv kvs)
  obtain k v where kv: "kv = (k, v)" by (cases kv)
  with Cons.prems obtain c1 where "set_key k v c = Ret c1" "go_fold (\<lambda>(k, v). set_key k v) kvs c1 = Ret c'"
    by (auto simp: go_simps)
  with assms [OF Cons.prems(1)] Cons.IH show ?case by fastforce
qed simp

lemma counted_new: "counted (new_adapter s t) = 0" "track (new_adapter s t) = t" "cache (new_adapter s t) = s"
  by (simp_all add: counted_def new_adapter_def new_log_def)

section \<open>Throughput loops\<close>

lemma bench_index_reach: "(\<exists>i. bench_index i = j) \<longleftrightarrow> j AND (of_nat bench_capacity - 1) = j"
  by (metis and.assoc and.idem bench_index_def)

lemma bench_index_range64: "uint (bench_index (i :: u64)) < int bench_capacity"
proof -
  have "bench_index i \<le> 99999" by (simp add: bench_index_def bench_capacity_def word_and_le1)
  then have "uint (bench_index i) \<le> uint (99999 :: u64)" by (simp only: word_le_def)
  then show ?thesis by (simp add: bench_capacity_def)
qed

lemma bench_index_range32: "uint (bench_index (i :: u32)) < int bench_capacity"
proof -
  have "bench_index i \<le> 99999" by (simp add: bench_index_def bench_capacity_def word_and_le1)
  then have "uint (bench_index i) \<le> uint (99999 :: u32)" by (simp only: word_le_def)
  then show ?thesis by (simp add: bench_capacity_def)
qed

section \<open>Lines\<close>

lemma save_segments_prefix:
  "m < length rec \<Longrightarrow> concat (map (save_segment rec) [0..<m])
     = (if m = 0 then [] else str_join '', '' (take m rec) @ '','')"
proof (induction m)
  case (Suc m)
  then have seg: "save_segment rec m = (if m \<noteq> 0 then '' '' else []) @ rec ! m @ '',''"
  proof -
    have "m \<noteq> length rec - 1" using Suc.prems by simp
    then show ?thesis by (simp only: save_segment_def Let_def if_False) simp
  qed
  have take: "take (Suc m) rec = take m rec @ [rec ! m]" using Suc.prems by (simp add: take_Suc_conv_app_nth)
  show ?case
  proof (cases "m = 0")
    case True
    then show ?thesis using seg take by simp
  next
    case False
    then have "take m rec \<noteq> []" using Suc.prems by auto
    with Suc False seg take show ?thesis by (simp add: str_join_snoc)
  qed
qed simp

lemma save_line_join: "save_line rec = str_join '', '' rec @ [CHR 0x0A]"
proof (cases rec rule: rev_cases)
  case Nil
  then show ?thesis by (simp add: save_line_def)
next
  case (snoc ys y)
  let ?m = "length ys"
  have m: "length rec = Suc ?m" "rec ! ?m = y" "take ?m rec = ys" using snoc by auto
  have last: "save_segment rec ?m = (if ?m \<noteq> 0 then '' '' else []) @ y"
    by (simp add: save_segment_def m Let_def)
  have "concat (map (save_segment rec) [0..<length rec]) = str_join '', '' rec"
    using save_segments_prefix [of ?m rec] last m snoc str_join_snoc [of ys "'', ''" y]
    by (cases "ys = []") auto
  then show ?thesis by (simp add: save_line_def)
qed

section \<open>Selection\<close>

lemma suites: "\<forall>s \<in> set hits_suite. bs_hits s \<noteq> None \<and> bs_speed s = None"
  "\<forall>s \<in> set speed_suite. bs_hits s = None \<and> bs_speed s \<noteq> None"
  by (simp_all add: hits_suite_def speed_suite_def)

lemma NewBenchmarks_bencher:
  assumes "b \<in> set (NewBenchmarks kind para capa c)"
  shows "HitsBencher b = None \<longleftrightarrow> SpeedBencher b \<noteq> None" and "fst (Create b) = bc_create c"
    and "kind = ''hits'' \<Longrightarrow> SpeedBencher b = None"
  using assms suites unfolding NewBenchmarks_def Let_def by (auto split: if_splits)

lemma optimal_only_hits:
  "c \<in> set (getBenchCaches include suite) \<Longrightarrow> bc_create c = KOptimal \<Longrightarrow> suite = ''hits''"
  by (auto simp: getBenchCaches_def Let_def split: if_splits)

section \<open>Properties of the cache benchmarks\<close>

text \<open>
  After any sets on a fresh BigCache, FreeCache or FastCache adapter, \<open>Get\<close> of any key that
  is not 64 bytes long reports a miss, the keys just set included: \<open>Set\<close> stores under the
  padded key and \<open>Get\<close> looks up the key itself.
\<close>

theorem padded_Get_never_hits:
  assumes "no_ghosts get put" and "no_ghosts get (\<lambda>k v s. Some (fput k v s))"
    and "\<forall>k. fst (get k s) = None" and "length k \<noteq> 64"
    and "go_fold (\<lambda>(k, v). BigCache_Set get put k v) kvs (new_adapter s t) = Ret c"
    and "go_fold (\<lambda>(k, v). FreeCache_Set get put k v) kvs (new_adapter s t) = Ret c'"
  shows "fst (BigCache_Get get k c) = (None, False)
    \<and> fst (FreeCache_Get get k c') = (None, False)
    \<and> fst (FastCache_Get get k (fold (\<lambda>(k, v). FastCache_Set get fput k v) kvs (new_adapter s t))) = (None, False)"
proof -
  have fresh: "fst (get k (cache (new_adapter s t))) = None" using assms(3) by (simp add: counted_new)
  have "fst (get k (cache c)) = None"
    by (rule BigCache_Sets_absent [OF assms(1,4) fresh assms(5)])
  moreover have "fst (get k (cache c')) = None"
    by (rule BigCache_Sets_absent [OF assms(1,4) fresh assms(6) [unfolded FreeCache_eq_BigCache]])
  moreover have "fst (get k (cache (fold (\<lambda>(k, v). FastCache_Set get fput k v) kvs (new_adapter s t)))) = None"
    by (rule BigCache_Sets_absent [OF assms(2,4) fresh FastCache_Sets])
  ultimately show ?thesis
    by (auto simp: BigCache_Get_def FreeCache_Get_def FastCache_Get_def split: prod.splits)
qed

text \<open>A library for the witnesses: a map that never evicts.\<close>

definition map_get :: "string \<Rightarrow> (string \<Rightarrow> string option) \<Rightarrow> string option \<times> (string \<Rightarrow> string option)" where
  "map_get k s = (s k, s)"

definition map_put :: "string \<Rightarrow> string \<Rightarrow> (string \<Rightarrow> string option) \<Rightarrow> string \<Rightarrow> string option" where
  "map_put k v s = s(k \<mapsto> v)"

lemma map_no_ghosts: "no_ghosts map_get (\<lambda>k v s. Some (map_put k v s))"
  by (auto simp: no_ghosts_def map_get_def map_put_def)

theorem padded_Get_never_hits_witness:
  "\<exists>c. BigCache_Set map_get (\<lambda>k v s. Some (map_put k v s)) ''a'' ''*'' (new_adapter Map.empty True) = Ret c
    \<and> fst (BigCache_Get map_get ''a'' c) = (None, False)"
proof -
  let ?put = "\<lambda>k v s. Some (map_put k v s)"
  obtain c where c: "BigCache_Set map_get ?put ''a'' ''*'' (new_adapter Map.empty True) = Ret c"
    by (simp add: BigCache_Set_def new_adapter_def map_get_def count_set_def Let_def)
  then have "go_fold (\<lambda>(k, v). BigCache_Set map_get ?put k v) [(''a'', ''*'')] (new_adapter Map.empty True) = Ret c"
    by simp
  from padded_Get_never_hits [OF map_no_ghosts map_no_ghosts, of Map.empty "''a''" "[(''a'', ''*'')]" True c c] this c
  show ?thesis by (auto simp: map_get_def FreeCache_eq_BigCache)
qed

text \<open>
  With tracking on, every set is counted once, as a hit or as a miss, by each of the six
  adapters, so the hit ratio is a ratio of the sets.
\<close>

theorem adapters_count_every_set:
  "\<forall>kvs. counted (fold (\<lambda>(k, v). Ristretto_Set rget rput k v) kvs (new_adapter s True)) = int (length kvs)
    \<and> counted (fold (\<lambda>(k, v). BaseMutex_Set rget rput k v) kvs (new_adapter s True)) = int (length kvs)
    \<and> counted (fold (\<lambda>(k, v). Goburrow_Set rget rput k v) kvs (new_adapter s True)) = int (length kvs)
    \<and> counted (fold (\<lambda>(k, v). FastCache_Set get fput k v) kvs (new_adapter s True)) = int (length kvs)
    \<and> (\<forall>c. go_fold (\<lambda>(k, v). BigCache_Set get put k v) kvs (new_adapter s True) = Ret c
          \<longrightarrow> counted c = int (length kvs))
    \<and> (\<forall>c. go_fold (\<lambda>(k, v). FreeCache_Set get put k v) kvs (new_adapter s True) = Ret c
          \<longrightarrow> counted c = int (length kvs))"
proof (intro allI conjI impI)
  have new: "track (new_adapter s True)" by (simp add: counted_new)
  fix kvs
  show "counted (fold (\<lambda>(k, v). Ristretto_Set rget rput k v) kvs (new_adapter s True)) = int (length kvs)"
    using counted_fold [of "Ristretto_Set rget rput", OF counted_Set(1)] new by (simp add: counted_new)
  show "counted (fold (\<lambda>(k, v). BaseMutex_Set rget rput k v) kvs (new_adapter s True)) = int (length kvs)"
    using counted_fold [of "BaseMutex_Set rget rput", OF counted_Set(2)] new by (simp add: counted_new)
  show "counted (fold (\<lambda>(k, v). Goburrow_Set rget rput k v) kvs (new_adapter s True)) = int (length kvs)"
    using counted_fold [of "Goburrow_Set rget rput", OF counted_Set(3)] new by (simp add: counted_new)
  show "counted (fold (\<lambda>(k, v). FastCache_Set get fput k v) kvs (new_adapter s True)) = int (length kvs)"
    using counted_fold [of "FastCache_Set get fput", OF counted_Set(4)] new by (simp add: counted_new)
  fix c
  show "counted c = int (length kvs)"
    if "go_fold (\<lambda>(k, v). BigCache_Set get put k v) kvs (new_adapter s True) = Ret c"
    using counted_go_fold [of "BigCache_Set get put", OF counted_Set(5) new that] by (simp add: counted_new)
  show "counted c = int (length kvs)"
    if "go_fold (\<lambda>(k, v). FreeCache_Set get put k v) kvs (new_adapter s True) = Ret c"
    using counted_go_fold [of "BigCache_Set get put", OF counted_Set(5) new] that
    by (simp add: counted_new FreeCache_eq_BigCache)
qed

theorem adapters_count_every_set_witness:
  "counted (fold (\<lambda>(k, v). FastCache_Set map_get map_put k v) [(''a'', ''*''), (''b'', ''*'')]
     (new_adapter Map.empty True)) = 2"
  using adapters_count_every_set
    [of "\<lambda>k s. ((s k, s k \<noteq> None), s)" map_put Map.empty map_get map_put "\<lambda>k v s. Some (map_put k v s)"]
  by (metis One_nat_def Suc_1 length_0_conv length_Cons of_nat_numeral)

text \<open>
  Padding a key to 64 bytes gives 64 bytes, and the padded decimal keys of two different
  uint64 values stay different, so the padding makes no two benchmark keys share an entry.
\<close>

theorem padString_keys:
  "length (padString (decimal (unat (k :: u64))) 64) = 64
    \<and> (padString (decimal (unat k)) 64 = padString (decimal (unat (k' :: u64))) 64 \<longleftrightarrow> k = k')"
proof -
  have "length (decimal (unat j)) \<le> 64" for j :: u64 using length_decimal_u64 [of j] by linarith
  then have "unat k = unat k'" if "padString (decimal (unat k)) 64 = padString (decimal (unat k')) 64"
    using padString_decimal that by metis
  then show ?thesis by (metis length_padString unsigned_word_eqI)
qed

text \<open>
  The Zipf loops never index outside their \<open>capacity\<close> keys, at any iteration and also when
  the shared int32 counter has become negative; but because \<open>capacity\<close> is not a power of two
  the mask reaches only the indices whose bits are all set in 99999, so for example none of the
  keys 32 to 127.
\<close>

theorem bench_key_reach:
  assumes "length keys = bench_capacity"
  shows "(\<exists>k \<in> set keys. bench_key keys (i :: u64) = Ret k)
    \<and> (\<exists>k \<in> set keys. bench_key keys (ti :: u32) = Ret k)
    \<and> ((\<exists>i :: u64. bench_index i = j) \<longleftrightarrow> j AND 99999 = j)
    \<and> (\<forall>i :: u64. bench_index i \<noteq> 32)"
proof -
  have i: "\<exists>k \<in> set keys. bench_key keys i = Ret k"
    unfolding bench_key_def by (rule go_index_member) (simp_all add: assms bench_index_range64)
  have ti: "\<exists>k \<in> set keys. bench_key keys ti = Ret k"
    unfolding bench_key_def by (rule go_index_member) (simp_all add: assms bench_index_range32)
  have reach: "(\<exists>i :: u64. bench_index i = j) \<longleftrightarrow> j AND 99999 = j" for j
    using bench_index_reach [of j] by (simp add: bench_capacity_def)
  have no: "\<forall>i :: u64. bench_index i \<noteq> 32" using reach [of 32] by simp
  show ?thesis by (intro conjI i ti reach no)
qed

theorem bench_key_reach_witness:
  "\<exists>k \<in> set (replicate bench_capacity ''7''). bench_key (replicate bench_capacity ''7'') (5 :: u64) = Ret k"
  by (rule conjunct1 [OF bench_key_reach]) (rule length_replicate)

text \<open>
  Which benchmarks run. With the default flags, whose suite is \<open>full\<close>, there are none,
  although the suites documented are \<open>all\<close>, \<open>hits\<close> and \<open>speed\<close>; and for any flags the optimal
  cache, which is not safe for concurrent access, is in no throughput benchmark.
\<close>

theorem main_benchmarks_selection:
  "main_benchmarks ''ristretto'' ''full'' 1 = []
    \<and> (\<forall>b \<in> set (main_benchmarks flagCache flagSuite para).
         (HitsBencher b = None \<longleftrightarrow> SpeedBencher b \<noteq> None)
         \<and> (fst (Create b) = KOptimal \<longrightarrow> SpeedBencher b = None))"
proof (intro conjI ballI impI)
  show "main_benchmarks ''ristretto'' ''full'' 1 = []"
    by (simp add: main_benchmarks_def NewBenchmarks_def getBenchCaches_def)
  fix b assume "b \<in> set (main_benchmarks flagCache flagSuite para)"
  then obtain c where c: "c \<in> set (getBenchCaches flagCache flagSuite)"
    "b \<in> set (NewBenchmarks flagSuite para (int bench_capacity) c)"
    by (auto simp: main_benchmarks_def)
  show "HitsBencher b = None \<longleftrightarrow> SpeedBencher b \<noteq> None"
    by (rule NewBenchmarks_bencher(1) [OF c(2)])
  assume "fst (Create b) = KOptimal"
  then show "SpeedBencher b = None"
    using NewBenchmarks_bencher(2,3) [OF c(2)] optimal_only_hits [OF c(1)] by simp
qed

theorem main_benchmarks_selection_witness:
  "list_all (\<lambda>b. fst (Create b) = KOptimal \<longrightarrow> SpeedBencher b = None) (main_benchmarks ''all'' ''hits'' 1)"
  using main_benchmarks_selection [of "''all''" "''hits''" 1] by (simp add: list_all_iff)

text \<open>
  \<open>save\<close> writes the labels and then every record as its fields joined by a comma and a blank,
  each ended by a newline; the cutting of the last comma never cuts into a field.
\<close>

theorem save_lines:
  "save records = concat (map (\<lambda>r. str_join '', '' r @ [CHR 0x0A]) (Labels # records))"
proof -
  have "save_line = (\<lambda>r. str_join '', '' r @ [CHR 0x0A])" by (rule ext) (rule save_line_join)
  then show ?thesis by (simp add: save_def)
qed

end
