(* ===== verification/GoFloat.thy ===== *)
theory GoFloat
  imports Complex_Main Prelude
begin

text \<open>
  Go's float64: the values of IEEE 754 binary64 (finite ones as rational numbers, so that the
  two zeros are one), rounding to nearest with ties to even, the arithmetic that rounds its
  exact result, and the comparisons, which are false on NaN.
\<close>

section \<open>Rounding\<close>

datatype float64 = NaN | PInf | NInf | Fin rat

text \<open>The nearest integer, the even one if two are equally near.\<close>

definition round_even :: "rat \<Rightarrow> int" where
  "round_even x =
     (let f = \<lfloor>x\<rfloor>; r = x - of_int f
      in if r < 1 / 2 then f else if 1 / 2 < r then f + 1 else if even f then f else f + 1)"

fun log2_nat :: "nat \<Rightarrow> nat" where
  "log2_nat n = (if n < 2 then 0 else Suc (log2_nat (n div 2)))"

declare log2_nat.simps [simp del]

definition pow2 :: "int \<Rightarrow> rat" where
  "pow2 k = (if 0 \<le> k then 2 ^ nat k else 1 / 2 ^ nat (- k))"

text \<open>The exponent of the binade of a positive rational: \<open>2 ^ e \<le> x < 2 ^ (e + 1)\<close>.\<close>

definition binade :: "rat \<Rightarrow> int" where
  "binade x =
     (let (n, d) = quotient_of x;
          k = int (log2_nat (nat n)) - int (log2_nat (nat d))
      in if pow2 k \<le> x then k else k - 1)"

definition ulp_exp :: "rat \<Rightarrow> int" where
  "ulp_exp x = max (binade x - 52) (- 1074)"

definition round_pos :: "rat \<Rightarrow> rat" where
  "round_pos x = of_int (round_even (x / pow2 (ulp_exp x))) * pow2 (ulp_exp x)"

definition fround :: "rat \<Rightarrow> float64" where
  "fround x =
     (if x = 0 then Fin 0
      else let v = round_pos \<bar>x\<bar>
           in if pow2 1024 \<le> v then (if 0 < x then PInf else NInf)
              else Fin (if 0 < x then v else - v))"

section \<open>Comparison and arithmetic\<close>

fun feq :: "float64 \<Rightarrow> float64 \<Rightarrow> bool" where
  "feq (Fin x) (Fin y) \<longleftrightarrow> x = y"
| "feq PInf PInf \<longleftrightarrow> True"
| "feq NInf NInf \<longleftrightarrow> True"
| "feq _ _ \<longleftrightarrow> False"

fun flt :: "float64 \<Rightarrow> float64 \<Rightarrow> bool" where
  "flt (Fin x) (Fin y) \<longleftrightarrow> x < y"
| "flt (Fin x) PInf \<longleftrightarrow> True"
| "flt NInf (Fin y) \<longleftrightarrow> True"
| "flt NInf PInf \<longleftrightarrow> True"
| "flt _ _ \<longleftrightarrow> False"

definition fle :: "float64 \<Rightarrow> float64 \<Rightarrow> bool" where
  "fle a b \<longleftrightarrow> flt a b \<or> feq a b"

fun fneg :: "float64 \<Rightarrow> float64" where
  "fneg (Fin x) = Fin (- x)"
| "fneg PInf = NInf"
| "fneg NInf = PInf"
| "fneg NaN = NaN"

fun fadd :: "float64 \<Rightarrow> float64 \<Rightarrow> float64" where
  "fadd (Fin x) (Fin y) = fround (x + y)"
| "fadd (Fin x) PInf = PInf"
| "fadd (Fin x) NInf = NInf"
| "fadd PInf (Fin y) = PInf"
| "fadd NInf (Fin y) = NInf"
| "fadd PInf PInf = PInf"
| "fadd NInf NInf = NInf"
| "fadd _ _ = NaN"

definition fsub :: "float64 \<Rightarrow> float64 \<Rightarrow> float64" where
  "fsub a b = fadd a (fneg b)"

definition sign_inf :: "bool \<Rightarrow> float64" where
  "sign_inf pos = (if pos then PInf else NInf)"

fun fmul :: "float64 \<Rightarrow> float64 \<Rightarrow> float64" where
  "fmul (Fin x) (Fin y) = fround (x * y)"
| "fmul NaN _ = NaN"
| "fmul _ NaN = NaN"
| "fmul (Fin x) PInf = (if x = 0 then NaN else sign_inf (0 < x))"
| "fmul (Fin x) NInf = (if x = 0 then NaN else sign_inf (x < 0))"
| "fmul PInf (Fin y) = (if y = 0 then NaN else sign_inf (0 < y))"
| "fmul NInf (Fin y) = (if y = 0 then NaN else sign_inf (y < 0))"
| "fmul PInf PInf = PInf"
| "fmul NInf NInf = PInf"
| "fmul _ _ = NInf"

text \<open>Division; the zero divisor is taken as positive.\<close>

fun fdiv :: "float64 \<Rightarrow> float64 \<Rightarrow> float64" where
  "fdiv (Fin x) (Fin y) =
     (if y = 0 then (if x = 0 then NaN else sign_inf (0 < x)) else fround (x / y))"
| "fdiv NaN _ = NaN"
| "fdiv _ NaN = NaN"
| "fdiv (Fin x) _ = Fin 0"
| "fdiv PInf (Fin y) = sign_inf (0 \<le> y)"
| "fdiv NInf (Fin y) = sign_inf (y < 0)"
| "fdiv _ _ = NaN"

fun fabs :: "float64 \<Rightarrow> float64" where
  "fabs (Fin x) = Fin \<bar>x\<bar>"
| "fabs PInf = PInf"
| "fabs NInf = PInf"
| "fabs NaN = NaN"

fun is_inf :: "float64 \<Rightarrow> int \<Rightarrow> bool" where
  "is_inf PInf s \<longleftrightarrow> 0 \<le> s"
| "is_inf NInf s \<longleftrightarrow> s \<le> 0"
| "is_inf _ s \<longleftrightarrow> False"

definition float_of_int :: "int \<Rightarrow> float64" where
  "float_of_int n = fround (of_int n)"

section \<open>The order of sorting\<close>

text \<open>
  \<open>sort.Float64s\<close> puts NaNs first and otherwise sorts by \<open><\<close>: a linear order, with which the
  library's \<open>sort\<close> is that function.
\<close>

instantiation float64 :: linorder
begin

definition less_eq_float64 :: "float64 \<Rightarrow> float64 \<Rightarrow> bool" where
  "a \<le> b \<longleftrightarrow> a = NaN \<or> flt a b \<or> feq a b"

definition less_float64 :: "float64 \<Rightarrow> float64 \<Rightarrow> bool" where
  "a < b \<longleftrightarrow> a = NaN \<and> b \<noteq> NaN \<or> flt a b"

instance
proof
  fix a b c :: float64
  show "a < b \<longleftrightarrow> a \<le> b \<and> \<not> b \<le> a"
    by (cases a; cases b) (auto simp: less_float64_def less_eq_float64_def)
  show "a \<le> a" by (cases a) (auto simp: less_eq_float64_def)
  show "a \<le> c" if "a \<le> b" "b \<le> c" using that by (cases a; cases b; cases c) (auto simp: less_eq_float64_def)
  show "a = b" if "a \<le> b" "b \<le> a" using that by (cases a; cases b) (auto simp: less_eq_float64_def)
  show "a \<le> b \<or> b \<le> a" by (cases a; cases b) (auto simp: less_eq_float64_def)
qed

end

section \<open>Facts about rounding\<close>

lemma round_even_of_int [simp]: "round_even (of_int n) = n"
  by (simp add: round_even_def)

lemma round_even_bounds: "\<lfloor>x\<rfloor> \<le> round_even x \<and> round_even x \<le> \<lfloor>x\<rfloor> + 1"
  by (simp add: round_even_def Let_def)

lemma round_even_mono: "x \<le> y \<Longrightarrow> round_even x \<le> round_even y"
proof -
  assume le: "x \<le> y"
  then have "\<lfloor>x\<rfloor> \<le> \<lfloor>y\<rfloor>" by (rule floor_mono)
  then consider "\<lfloor>x\<rfloor> = \<lfloor>y\<rfloor>" | "\<lfloor>x\<rfloor> + 1 \<le> \<lfloor>y\<rfloor>" by linarith
  then show ?thesis
  proof cases
    case 1
    then show ?thesis using le by (auto simp: round_even_def Let_def)
  next
    case 2
    then show ?thesis using round_even_bounds [of x] round_even_bounds [of y] by linarith
  qed
qed

lemma pow2_pos [simp]: "0 < pow2 k"
  by (simp add: pow2_def)

lemma pow2_nonzero [simp]: "pow2 k \<noteq> 0"
  using pow2_pos [of k] by linarith

lemma pow2_add: "pow2 (i + j) = pow2 i * pow2 j"
proof -
  have eq: "pow2 k = 2 powi k" for k by (simp add: pow2_def power_int_def field_simps)
  show ?thesis by (simp add: eq power_int_add)
qed

lemma pow2_nat [simp]: "pow2 (int n) = 2 ^ n"
  by (simp add: pow2_def)

lemma pow2_mono: "i \<le> j \<Longrightarrow> pow2 i \<le> pow2 j"
proof -
  assume "i \<le> j"
  then obtain n where "j = i + int n" using zle_iff_zadd by blast
  then have "pow2 j = pow2 i * 2 ^ n" by (simp add: pow2_add)
  moreover have "pow2 i * 1 \<le> pow2 i * 2 ^ n" by (intro mult_left_mono less_imp_le [OF pow2_pos]) simp
  ultimately show ?thesis by simp
qed

lemma pow2_Suc: "pow2 (i + 1) = 2 * pow2 i"
proof -
  have "pow2 1 = 2" by (simp add: pow2_def)
  then show ?thesis by (simp add: pow2_add)
qed

lemma pow2_less_iff: "pow2 i < pow2 j \<longleftrightarrow> i < j"
proof
  show "i < j" if "pow2 i < pow2 j" using pow2_mono [of j i] that by linarith
  assume "i < j"
  then have "pow2 (i + 1) \<le> pow2 j" by (intro pow2_mono) simp
  moreover have "pow2 (i + 1) = 2 * pow2 i" by (rule pow2_Suc)
  ultimately show "pow2 i < pow2 j" using pow2_pos [of i] by linarith
qed

lemma log2_nat_bounds: "0 < n \<Longrightarrow> 2 ^ log2_nat n \<le> n \<and> n < 2 ^ Suc (log2_nat n)"
proof (induction n rule: log2_nat.induct)
  case (1 n)
  show ?case
  proof (cases "n < 2")
    case True
    with "1.prems" have "n = 1" by simp
    then show ?thesis by (simp add: log2_nat.simps)
  next
    case False
    then have IH: "2 ^ log2_nat (n div 2) \<le> n div 2 \<and> n div 2 < 2 ^ Suc (log2_nat (n div 2))"
      using "1.IH" by simp
    then have "2 * 2 ^ log2_nat (n div 2) \<le> n" by linarith
    moreover from IH have "n < 2 * 2 ^ Suc (log2_nat (n div 2))" by linarith
    ultimately show ?thesis using False by (simp add: log2_nat.simps [of n])
  qed
qed

lemma binade_bounds:
  assumes "0 < x"
  shows "pow2 (binade x) \<le> x" and "x < pow2 (binade x + 1)"
proof -
  obtain n d where q: "quotient_of x = (n, d)" by (cases "quotient_of x")
  then have d: "0 < d" and x: "x = of_int n / of_int d"
    by (simp_all add: quotient_of_denom_pos quotient_of_div)
  then have n: "0 < n" using assms by (simp add: zero_less_divide_iff)
  define a b where "a = log2_nat (nat n)" and "b = log2_nat (nat d)"
  have na: "2 ^ a \<le> nat n" "nat n < 2 ^ Suc a" and db: "2 ^ b \<le> nat d" "nat d < 2 ^ Suc b"
    using log2_nat_bounds [of "nat n"] log2_nat_bounds [of "nat d"] n d by (auto simp: a_def b_def)
  have "of_nat (2 ^ a) \<le> (of_nat (nat n) :: rat)" "of_nat (nat n) < (of_nat (2 ^ Suc a) :: rat)"
    "of_nat (2 ^ b) \<le> (of_nat (nat d) :: rat)" "of_nat (nat d) < (of_nat (2 ^ Suc b) :: rat)"
    using na db by (simp_all only: of_nat_le_iff of_nat_less_iff)
  then have n2: "2 ^ a \<le> (of_int n :: rat)" "of_int n < (2 ^ Suc a :: rat)"
    and d2: "2 ^ b \<le> (of_int d :: rat)" "of_int d < (2 ^ Suc b :: rat)"
    using n d by simp_all
  define k where "k = int a - int b"
  have pk: "pow2 k * 2 ^ b = 2 ^ a"
    using pow2_add [of k "int b"] by (simp add: k_def)
  have dpos: "0 < (of_int d :: rat)" using d by simp
  have up: "x < pow2 (k + 1)"
  proof -
    have "of_int n < pow2 k * 2 ^ b * (2 :: rat)" using n2(2) by (simp add: pk)
    also have "\<dots> \<le> pow2 k * of_int d * 2" using d2(1) by simp
    finally have "of_int n / of_int d < pow2 k * (2 :: rat)" using dpos by (simp add: divide_less_eq mult.commute mult.left_commute)
    then show ?thesis by (simp add: x pow2_add) (simp add: pow2_def)
  qed
  have low: "pow2 (k - 1) \<le> x"
  proof -
    have "pow2 k * of_int d \<le> pow2 k * (2 ^ b * 2)" using d2(2) by simp
    also have "\<dots> \<le> of_int n * 2" using n2(1) pk by (simp add: mult.assoc [symmetric])
    finally have "pow2 k / 2 \<le> x" using dpos by (simp add: x le_divide_eq)
    moreover have "pow2 (k - 1) = pow2 k / 2" using pow2_add [of "k - 1" 1] by (simp add: pow2_def)
    ultimately show ?thesis by simp
  qed
  have b: "binade x = (if pow2 k \<le> x then k else k - 1)"
    by (simp add: binade_def q k_def a_def b_def Let_def)
  show "pow2 (binade x) \<le> x" using low by (simp add: b)
  show "x < pow2 (binade x + 1)" using up by (auto simp: b not_le)
qed

lemma binade_mono: "\<lbrakk> 0 < x; x \<le> y \<rbrakk> \<Longrightarrow> binade x \<le> binade y"
proof -
  assume "0 < x" "x \<le> y"
  then have "pow2 (binade x) < pow2 (binade y + 1)"
    using binade_bounds(1) [of x] binade_bounds(2) [of y] by linarith
  then show ?thesis by (simp add: pow2_less_iff)
qed

lemma round_pos_nonneg: "0 < x \<Longrightarrow> 0 \<le> round_pos x"
proof -
  assume "0 < x"
  then have "round_even 0 \<le> round_even (x / pow2 (ulp_exp x))"
    by (intro round_even_mono) (simp add: less_imp_le)
  moreover have "round_even 0 = 0" using round_even_of_int [of 0] by simp
  ultimately show ?thesis by (simp add: round_pos_def less_imp_le)
qed

text \<open>A value of one binade rounds to at most the start of the next.\<close>

lemma round_pos_le_next:
  assumes "0 < x" and "binade x < k"
  shows "round_pos x \<le> pow2 (max k (- 1022))"
proof -
  let ?u = "ulp_exp x" and ?k = "max k (- 1022)"
  have "?u \<le> ?k" using assms(2) by (auto simp: ulp_exp_def)
  then obtain n where n: "?k = ?u + int n" using zle_iff_zadd by blast
  have "x < pow2 (binade x + 1)" by (rule binade_bounds(2) [OF assms(1)])
  also have "\<dots> \<le> pow2 ?k" using assms(2) by (intro pow2_mono) simp
  finally have "x / pow2 ?u \<le> of_int (2 ^ n)"
    unfolding n pow2_add by (simp add: divide_le_eq mult.commute)
  then have "round_even (x / pow2 ?u) \<le> 2 ^ n"
    using round_even_mono [of "x / pow2 ?u" "of_int (2 ^ n)"] by (simp only: round_even_of_int)
  then have "(of_int (round_even (x / pow2 ?u)) :: rat) \<le> of_int (2 ^ n)"
    by (simp only: of_int_le_iff)
  then have "round_pos x \<le> of_int (2 ^ n) * pow2 ?u"
    unfolding round_pos_def by (rule mult_right_mono) (simp add: less_imp_le)
  also have "\<dots> = pow2 ?k" unfolding n pow2_add by simp
  finally show ?thesis .
qed

lemma round_pos_ge_start:
  assumes "0 < x" and "- 1022 \<le> binade x"
  shows "pow2 (binade x) \<le> round_pos x"
proof -
  have u: "binade x = ulp_exp x + int 52" using assms(2) by (simp add: ulp_exp_def)
  have "of_int (2 ^ 52) \<le> x / pow2 (ulp_exp x)"
    using binade_bounds(1) [OF assms(1)] unfolding u pow2_add pow2_nat by (simp add: le_divide_eq mult.commute)
  then have "2 ^ 52 \<le> round_even (x / pow2 (ulp_exp x))"
    using round_even_mono [of "of_int (2 ^ 52)" "x / pow2 (ulp_exp x)"] by (simp only: round_even_of_int)
  then have "(of_int (2 ^ 52) :: rat) \<le> of_int (round_even (x / pow2 (ulp_exp x)))"
    by (simp only: of_int_le_iff)
  then have "of_int (2 ^ 52) * pow2 (ulp_exp x) \<le> round_pos x"
    unfolding round_pos_def by (rule mult_right_mono) (simp add: less_imp_le)
  moreover have "pow2 (binade x) = of_int (2 ^ 52) * pow2 (ulp_exp x)"
    unfolding arg_cong [OF u, of pow2] pow2_add pow2_nat by simp
  ultimately show ?thesis by simp
qed

lemma round_pos_mono:
  assumes "0 < x" and "x \<le> y"
  shows "round_pos x \<le> round_pos y"
proof (cases "ulp_exp x = ulp_exp y")
  case True
  have "x / pow2 (ulp_exp x) \<le> y / pow2 (ulp_exp x)" using assms(2) by (simp add: divide_right_mono less_imp_le)
  then have "round_even (x / pow2 (ulp_exp x)) \<le> round_even (y / pow2 (ulp_exp x))" by (rule round_even_mono)
  then show ?thesis unfolding round_pos_def True by (intro mult_right_mono) (simp_all add: less_imp_le)
next
  case False
  then have b: "binade x < binade y" "- 1022 \<le> binade y"
    using binade_mono [OF assms] by (auto simp: ulp_exp_def max_def split: if_splits)
  have "round_pos x \<le> pow2 (max (binade y) (- 1022))" by (rule round_pos_le_next [OF assms(1) b(1)])
  also have "\<dots> = pow2 (binade y)" using b(2) by (simp add: max_def)
  also have "\<dots> \<le> round_pos y" by (rule round_pos_ge_start) (use assms b in simp_all)
  finally show ?thesis .
qed

text \<open>Rounding is monotone for the order of float64.\<close>

lemma fle_simps [simp]:
  "fle (Fin x) (Fin y) \<longleftrightarrow> x \<le> y" "fle (Fin x) PInf" "fle NInf (Fin x)" "fle NInf PInf"
  "fle PInf PInf" "fle NInf NInf" "\<not> fle PInf (Fin x)" "\<not> fle (Fin x) NInf" "\<not> fle PInf NInf"
  "\<not> fle NaN a" "\<not> fle a NaN"
  by (auto simp: fle_def elim: flt.elims feq.elims)

lemma fle_refl: "a \<noteq> NaN \<Longrightarrow> fle a a"
  by (cases a) simp_all

lemma fle_trans: "\<lbrakk> fle a b; fle b c \<rbrakk> \<Longrightarrow> fle a c"
  by (cases a; cases b; cases c) simp_all

lemma fle_linear: "\<lbrakk> a \<noteq> NaN; b \<noteq> NaN \<rbrakk> \<Longrightarrow> fle a b \<or> fle b a"
  by (cases a; cases b) auto

lemma not_flt_fle: "\<lbrakk> a \<noteq> NaN; b \<noteq> NaN \<rbrakk> \<Longrightarrow> \<not> flt a b \<longleftrightarrow> fle b a"
  by (cases a; cases b) auto

lemma fround_not_NaN [simp]: "fround x \<noteq> NaN"
  by (simp add: fround_def Let_def)

lemma fround_0 [simp]: "fround 0 = Fin 0"
  by (simp add: fround_def)

lemma fround_nonneg: "0 \<le> x \<Longrightarrow> fle (Fin 0) (fround x)"
  using round_pos_nonneg [of x] by (auto simp: fround_def Let_def)

lemma fround_nonpos: "x \<le> 0 \<Longrightarrow> fle (fround x) (Fin 0)"
  using round_pos_nonneg [of "- x"] by (auto simp: fround_def Let_def)

lemma fround_mono: "x \<le> y \<Longrightarrow> fle (fround x) (fround y)"
proof -
  assume le: "x \<le> y"
  consider "x \<le> 0" "0 \<le> y" | "0 < x" | "y < 0" by linarith
  then show ?thesis
  proof cases
    case 1
    then show ?thesis using fle_trans fround_nonneg fround_nonpos by blast
  next
    case 2
    then show ?thesis using round_pos_mono [OF 2 le] le by (auto simp: fround_def Let_def)
  next
    case 3
    then have "round_pos (- y) \<le> round_pos (- x)" using le by (intro round_pos_mono) simp_all
    then show ?thesis using 3 le by (auto simp: fround_def Let_def)
  qed
qed

text \<open>Integers of up to 53 bits are exact.\<close>

lemma binade_less: "\<lbrakk> 0 < x; x < 2 ^ n \<rbrakk> \<Longrightarrow> binade x < int n"
proof -
  assume "0 < x" "x < 2 ^ n"
  then have "pow2 (binade x) < pow2 (int n)" using binade_bounds(1) [of x] by simp
  then show ?thesis by (simp only: pow2_less_iff)
qed

lemma round_pos_exact: "x / pow2 (ulp_exp x) = of_int k \<Longrightarrow> round_pos x = x"
proof -
  assume k: "x / pow2 (ulp_exp x) = of_int k"
  then have "round_pos x = of_int k * pow2 (ulp_exp x)" by (simp add: round_pos_def)
  also have "\<dots> = x" by (simp add: k [symmetric])
  finally show ?thesis .
qed

lemma round_pos_int:
  assumes "0 < n" and "n < 2 ^ 53"
  shows "round_pos (of_int n) = of_int n"
proof -
  let ?x = "of_int n :: rat"
  have "?x < of_int (2 ^ 53)" using assms(2) by (simp only: of_int_less_iff)
  then have b: "binade ?x < 53" using binade_less [of ?x 53] assms(1) by simp
  have "pow2 0 < pow2 (binade ?x + 1)"
    using binade_bounds(2) [of ?x] assms(1) by (simp add: pow2_def [of 0])
  then have "0 \<le> binade ?x" by (simp add: pow2_less_iff)
  with b obtain m where m: "ulp_exp ?x = - int m"
    by (intro that [of "nat (52 - binade ?x)"]) (simp add: ulp_exp_def)
  have p: "pow2 (- int m) = 1 / 2 ^ m" by (cases "m = 0") (simp_all add: pow2_def)
  have "?x / pow2 (ulp_exp ?x) = of_int (n * 2 ^ m)" by (simp add: m p)
  then show ?thesis by (rule round_pos_exact)
qed

lemma float_of_int_exact: "\<lbrakk> 0 \<le> n; n < 2 ^ 53 \<rbrakk> \<Longrightarrow> float_of_int n = Fin (of_int n)"
proof (cases "n = 0")
  case False
  assume n: "0 \<le> n" "n < 2 ^ 53"
  have "pow2 53 < pow2 1024" by (simp add: pow2_less_iff)
  moreover have "(of_int n :: rat) < of_int (2 ^ 53)" using n(2) by (simp only: of_int_less_iff)
  then have "(of_int n :: rat) < pow2 53" by (simp add: pow2_def)
  ultimately have "\<not> pow2 1024 \<le> (of_int n :: rat)" by linarith
  with False n show ?thesis by (simp add: float_of_int_def fround_def round_pos_int Let_def)
qed (simp add: float_of_int_def)

lemma le_iff_fle: "\<lbrakk> a \<noteq> NaN; b \<noteq> NaN \<rbrakk> \<Longrightarrow> a \<le> b \<longleftrightarrow> fle a b"
  by (simp add: less_eq_float64_def fle_def)

end
