(* ===== verification/GoText.thy ===== *)
theory GoText
  imports GoStrings GoFloat
begin

text \<open>
  Lines, fields and numbers of text: \<open>bufio.Scanner\<close>, \<open>strings.TrimSpace\<close>, \<open>Fields\<close>, \<open>Split\<close>,
  \<open>Cut\<close> and their like, \<open>strconv.ParseInt\<close>, \<open>ParseFloat\<close> and \<open>FormatFloat\<close>. White space is
  that of Unicode; folding of case is that of ASCII, which is all of it for the words without k
  and s that the programs compare.
\<close>

section \<open>Lines\<close>

text \<open>
  \<open>sc.Scan\<close> with a buffer of at most \<open>m\<close> bytes: the lines, each without its newline and without
  one carriage return before it, and whether the scan stops early because a line with its
  newline does not fit the buffer. A last line without a newline counts if it is not empty.
\<close>

definition drop_cr :: "string \<Rightarrow> string" where
  "drop_cr s = (if s \<noteq> [] \<and> last s = CHR 0x0D then butlast s else s)"

function scan_lines :: "nat \<Rightarrow> string \<Rightarrow> string list \<times> bool" where
  "scan_lines m s =
     (if s = [] then ([], False)
      else let raw = takeWhile (\<lambda>c. c \<noteq> CHR 0x0A) s;
               rest = drop (Suc (length raw)) s
           in if m \<le> length raw then ([], True)
              else let (ls, e) = scan_lines m rest in (drop_cr raw # ls, e))"
  by pat_completeness auto
termination
  by (relation "measure (\<lambda>(m, s). length s)") auto

declare scan_lines.simps [simp del]

text \<open>
  An open file: its bytes, and whether reading fails after them. The scanner hands out what was
  read before a failure, the last piece included, and reports the failure at the end.
\<close>

type_synonym reader = "string \<times> bool"

definition Scan :: "nat \<Rightarrow> reader \<Rightarrow> string list \<times> bool" where
  "Scan m r = (let (ls, tooLong) = scan_lines m (fst r) in (ls, tooLong \<or> snd r))"

text \<open>A loop over the lines of a scanner, then the scanner's own error \<open>e\<close>.\<close>

definition scan_fold ::
  "nat \<Rightarrow> 'e \<Rightarrow> (string \<Rightarrow> 's \<Rightarrow> 'e + 's) \<Rightarrow> reader \<Rightarrow> 's \<Rightarrow> 'e + 's" where
  "scan_fold m e f r s =
     (let (ls, err) = Scan m r
      in err_bind (err_fold f ls s) (\<lambda>s. if err then Inl e else Inr s))"

text \<open>The limits of a scanner: the default, and the buffer of \<open>1 << 20\<close> bytes.\<close>

definition MaxScanTokenSize :: nat where
  "MaxScanTokenSize = 64 * 1024"

definition buffer_1M :: nat where
  "buffer_1M = 1048576"

section \<open>White space and fields\<close>

text \<open>
  \<open>unicode.IsSpace\<close>: the white space of ASCII, and the encodings in UTF-8 of the rest, from
  U+0085 and U+00A0 to U+3000. The bytes of an encoding after its first begin no rune, so that
  looking for an encoding at every byte finds the runes that Go's decoding finds, in text that is
  not UTF-8 too.
\<close>

definition is_space :: "char \<Rightarrow> bool" where
  "is_space c \<longleftrightarrow> c \<in> {CHR 0x09, CHR 0x0A, CHR 0x0B, CHR 0x0C, CHR 0x0D, CHR 0x20}"

definition wide_spaces :: "string list" where
  "wide_spaces =
     [[CHR 0xC2, CHR 0x85], [CHR 0xC2, CHR 0xA0], [CHR 0xE1, CHR 0x9A, CHR 0x80]] @
     map (\<lambda>c. [CHR 0xE2, CHR 0x80, c])
       [CHR 0x80, CHR 0x81, CHR 0x82, CHR 0x83, CHR 0x84, CHR 0x85, CHR 0x86, CHR 0x87, CHR 0x88,
        CHR 0x89, CHR 0x8A, CHR 0xA8, CHR 0xA9, CHR 0xAF] @
     [[CHR 0xE2, CHR 0x81, CHR 0x9F], [CHR 0xE3, CHR 0x80, CHR 0x80]]"

text \<open>The length of the white space at the front of a text, 0 without one.\<close>

definition space_len :: "string list \<Rightarrow> string \<Rightarrow> nat" where
  "space_len es s =
     (if s = [] then 0 else if is_space (hd s) then 1
      else case find (\<lambda>e. prefix e s) es of None \<Rightarrow> 0 | Some e \<Rightarrow> length e)"

function skip_spaces :: "string list \<Rightarrow> string \<Rightarrow> string" where
  "skip_spaces es s = (let n = space_len es s in if n = 0 then s else skip_spaces es (drop n s))"
  by pat_completeness auto
termination
  by (relation "measure (\<lambda>(es, s). length s)") (auto simp: space_len_def split: if_splits)

declare skip_spaces.simps [simp del]

lemma length_skip_spaces: "length (skip_spaces es s) \<le> length s"
proof (induction es s rule: skip_spaces.induct)
  case (1 es s)
  then show ?case by (cases "space_len es s = 0") (simp_all add: skip_spaces.simps [of es s] Let_def)
qed

lemma skip_spaces_stops: "space_len es (skip_spaces es s) = 0"
proof (induction es s rule: skip_spaces.induct)
  case (1 es s)
  then show ?case by (cases "space_len es s = 0") (simp_all add: skip_spaces.simps [of es s] Let_def)
qed

text \<open>At the end of a text the encodings are met backwards.\<close>

definition TrimSpace :: "string \<Rightarrow> string" where
  "TrimSpace s = rev (skip_spaces (map rev wide_spaces) (rev (skip_spaces wide_spaces s)))"

fun word_len :: "string \<Rightarrow> nat" where
  "word_len [] = 0"
| "word_len (c # s) = (if space_len wide_spaces (c # s) = 0 then Suc (word_len s) else 0)"

function Fields :: "string \<Rightarrow> string list" where
  "Fields s =
     (let s = skip_spaces wide_spaces s; n = word_len s
      in if s = [] then [] else take n s # Fields (drop n s))"
  by pat_completeness auto
termination
proof (relation "measure length")
  fix s t :: string and n assume t: "t = skip_spaces wide_spaces s" "n = word_len t" "t \<noteq> []"
  obtain c t' where c: "t = c # t'" using t(3) by (cases t) auto
  have "space_len wide_spaces (c # t') = 0" using skip_spaces_stops [of wide_spaces s] t(1) c by metis
  then have "0 < n" by (simp add: t(2) c)
  then have "length (drop n t) < length t" using t(3) by simp
  also have "length t \<le> length s" by (simp add: t(1) length_skip_spaces)
  finally show "(drop n t, s) \<in> measure length" by simp
qed simp

declare Fields.simps [simp del]

text \<open>\<open>strings.Split\<close> by a single byte, and \<open>strings.Cut\<close> and \<open>IndexByte\<close>.\<close>

function Split :: "char \<Rightarrow> string \<Rightarrow> string list" where
  "Split c s =
     (let a = takeWhile (\<lambda>x. x \<noteq> c) s
      in if length a = length s then [s] else a # Split c (drop (Suc (length a)) s))"
  by pat_completeness auto
termination
  by (relation "measure (\<lambda>(c, s). length s)")
    (auto, metis diff_less length_0_conv length_greater_0_conv list.size(3) takeWhile.simps(1) zero_less_Suc)

declare Split.simps [simp del]

definition Cut :: "string \<Rightarrow> char \<Rightarrow> (string \<times> string) option" where
  "Cut s c =
     (let a = takeWhile (\<lambda>x. x \<noteq> c) s
      in if length a = length s then None else Some (a, drop (Suc (length a)) s))"

definition HasPrefix :: "string \<Rightarrow> string \<Rightarrow> bool" where
  "HasPrefix s p \<longleftrightarrow> prefix p s"

definition HasSuffix :: "string \<Rightarrow> string \<Rightarrow> bool" where
  "HasSuffix s p \<longleftrightarrow> suffix p s"

definition Contains :: "string \<Rightarrow> string \<Rightarrow> bool" where
  "Contains s t \<longleftrightarrow> sublist t s"

definition to_lower :: "char \<Rightarrow> char" where
  "to_lower c = (if 65 \<le> (of_char c :: nat) \<and> (of_char c :: nat) \<le> 90 then char_of (of_char c + 32 :: nat) else c)"

definition ToLower :: "string \<Rightarrow> string" where
  "ToLower s = map to_lower s"

definition EqualFold :: "string \<Rightarrow> string \<Rightarrow> bool" where
  "EqualFold s t \<longleftrightarrow> ToLower s = ToLower t"

section \<open>Paths\<close>

text \<open>\<open>filepath.Clean\<close>, \<open>Join\<close> and \<open>Base\<close> with the separator of Unix.\<close>

definition clean_step :: "bool \<Rightarrow> string \<Rightarrow> string list \<Rightarrow> string list" where
  "clean_step rooted c stack =
     (if c = [] \<or> c = ''.'' then stack
      else if c = ''..'' then
        (if stack \<noteq> [] \<and> last stack \<noteq> ''..'' then butlast stack
         else if rooted then stack else stack @ [c])
      else stack @ [c])"

definition Clean :: "string \<Rightarrow> string" where
  "Clean s =
     (let rooted = (s \<noteq> [] \<and> hd s = CHR ''/'');
          body = str_join ''/'' (fold (clean_step rooted) (Split (CHR ''/'') s) [])
      in if rooted then CHR ''/'' # body else if body = [] then ''.'' else body)"

definition path_Join :: "string list \<Rightarrow> string" where
  "path_Join es = (case dropWhile (\<lambda>e. e = []) es of [] \<Rightarrow> [] | es' \<Rightarrow> Clean (str_join ''/'' es'))"

definition trim_right :: "char \<Rightarrow> string \<Rightarrow> string" where
  "trim_right c s = rev (dropWhile (\<lambda>x. x = c) (rev s))"

definition path_Base :: "string \<Rightarrow> string" where
  "path_Base s =
     (if s = [] then ''.''
      else let b = rev (takeWhile (\<lambda>x. x \<noteq> CHR ''/'') (rev (trim_right (CHR ''/'') s)))
           in if b = [] then ''/'' else b)"

section \<open>Integers\<close>

definition show_int :: "int \<Rightarrow> string" where
  "show_int n = (if n < 0 then CHR ''-'' # decimal (nat (- n)) else decimal (nat n))"

definition in_int64 :: "int \<Rightarrow> bool" where
  "in_int64 n \<longleftrightarrow> - (2 ^ 63) \<le> n \<and> n < 2 ^ 63"

text \<open>\<open>strconv.ParseInt(s, 10, 64)\<close> and \<open>Atoi\<close>; an error is \<open>None\<close>.\<close>

definition parse_digits :: "string \<Rightarrow> nat option" where
  "parse_digits s = (if s \<noteq> [] \<and> list_all is_digit s then Some (digits_val s) else None)"

definition ParseInt :: "string \<Rightarrow> int option" where
  "ParseInt s =
     (case s of
        [] \<Rightarrow> None
      | c # cs \<Rightarrow>
          (let neg = (c = CHR ''-''); body = (if c = CHR ''-'' \<or> c = CHR ''+'' then cs else s)
           in case parse_digits body of
                None \<Rightarrow> None
              | Some n \<Rightarrow> (let v = (if neg then - int n else int n) in if in_int64 v then Some v else None)))"

section \<open>Floats\<close>

definition hex_val :: "char \<Rightarrow> nat option" where
  "hex_val c =
     (let d = of_char (to_lower c) :: nat
      in if 48 \<le> d \<and> d \<le> 57 then Some (d - 48) else if 97 \<le> d \<and> d \<le> 102 then Some (d - 87) else None)"

definition digit_in :: "bool \<Rightarrow> char \<Rightarrow> nat option" where
  "digit_in hex c = (if hex then hex_val c else if is_digit c then Some (digit_val c) else None)"

text \<open>The mantissa: its digits as a number, the digits after the point, and the rest.\<close>

fun mantissa :: "bool \<Rightarrow> string \<Rightarrow> nat \<Rightarrow> nat \<Rightarrow> bool \<Rightarrow> bool \<Rightarrow> nat \<times> nat \<times> bool \<times> string" where
  "mantissa hex [] m fd dot seen = (m, fd, seen, [])"
| "mantissa hex (c # cs) m fd dot seen =
     (if c = CHR ''_'' then mantissa hex cs m fd dot seen
      else if c = CHR ''.'' then
        (if dot then (m, fd, seen, c # cs) else mantissa hex cs m fd True seen)
      else case digit_in hex c of
        Some d \<Rightarrow> mantissa hex cs ((if hex then 16 else 10) * m + d) (if dot then Suc fd else fd) dot True
      | None \<Rightarrow> (m, fd, seen, c # cs))"

text \<open>The exponent's digits; Go stops adding digits at 10000.\<close>

fun exponent_digits :: "string \<Rightarrow> nat \<Rightarrow> nat \<times> string" where
  "exponent_digits [] e = (e, [])"
| "exponent_digits (c # cs) e =
     (if c = CHR ''_'' then exponent_digits cs e
      else if is_digit c then exponent_digits cs (if e < 10000 then 10 * e + digit_val c else e)
      else (e, c # cs))"

definition exponent :: "string \<Rightarrow> (int \<times> string) option" where
  "exponent s =
     (let (neg, s) = (case s of c # cs \<Rightarrow> if c = CHR ''+'' \<or> c = CHR ''-'' then (c = CHR ''-'', cs) else (False, s)
                              | [] \<Rightarrow> (False, s))
      in if s = [] \<or> \<not> is_digit (hd s) then None
         else let (e, rest) = exponent_digits s 0 in Some (if neg then - int e else int e, rest))"

text \<open>Underscores only between digits, or between the base prefix and a digit.\<close>

fun underscores_from :: "bool \<Rightarrow> char \<Rightarrow> string \<Rightarrow> bool" where
  "underscores_from hex saw [] \<longleftrightarrow> saw \<noteq> CHR ''_''"
| "underscores_from hex saw (c # cs) \<longleftrightarrow>
     (if is_digit c \<or> hex \<and> hex_val c \<noteq> None then underscores_from hex CHR ''0'' cs
      else if c = CHR ''_'' then saw = CHR ''0'' \<and> underscores_from hex CHR ''_'' cs
      else saw \<noteq> CHR ''_'' \<and> underscores_from hex CHR ''!'' cs)"

definition strip_sign :: "string \<Rightarrow> bool \<times> string" where
  "strip_sign s =
     (case s of c # cs \<Rightarrow> if c = CHR ''+'' \<or> c = CHR ''-'' then (c = CHR ''-'', cs) else (False, s)
              | [] \<Rightarrow> (False, s))"

definition hex_prefix :: "string \<Rightarrow> bool" where
  "hex_prefix s \<longleftrightarrow> 2 \<le> length s \<and> s ! 0 = CHR ''0'' \<and> to_lower (s ! 1) = CHR ''x''"

definition underscores_ok :: "string \<Rightarrow> bool" where
  "underscores_ok s =
     (let s = snd (strip_sign s)
      in if 2 \<le> length s \<and> s ! 0 = CHR ''0'' \<and> to_lower (s ! 1) \<in> {CHR ''b'', CHR ''o'', CHR ''x''}
         then underscores_from (hex_prefix s) CHR ''0'' (drop 2 s)
         else underscores_from False CHR ''^'' s)"

text \<open>The exact value of a decimal or hexadecimal literal without its sign.\<close>

definition literal :: "string \<Rightarrow> rat option" where
  "literal s =
     (let hex = hex_prefix s;
          (m, fd, seen, rest) = mantissa hex (if hex then drop 2 s else s) 0 0 False False;
          scale = (\<lambda>e. of_nat m / (if hex then 16 ^ fd else 10 ^ fd) *
                        (if 0 \<le> e then (if hex then 2 else 10) ^ nat e
                         else 1 / (if hex then 2 else 10) ^ nat (- e)))
      in if \<not> seen then None
         else case rest of
                [] \<Rightarrow> if hex then None else Some (scale 0)
              | c # cs \<Rightarrow>
                  if to_lower c = (if hex then CHR ''p'' else CHR ''e'') then
                    (case exponent cs of Some (e, []) \<Rightarrow> Some (scale e) | _ \<Rightarrow> None)
                  else None)"

text \<open>\<open>strconv.ParseFloat(s, 64)\<close>; a syntax error or an overflow is \<open>None\<close>.\<close>

definition ParseFloat :: "string \<Rightarrow> float64 option" where
  "ParseFloat s =
     (let (neg, body) = strip_sign s
      in if ToLower body \<in> {''inf'', ''infinity''} then Some (if neg then NInf else PInf)
         else if ToLower s = ''nan'' then Some NaN
         else if CHR ''_'' \<in> set s \<and> \<not> underscores_ok s then None
         else case literal body of
                None \<Rightarrow> None
              | Some x \<Rightarrow> (case fround (if neg then - x else x) of Fin y \<Rightarrow> Some (Fin y) | _ \<Rightarrow> None))"

text \<open>\<open>strconv.FormatFloat(x, 'f', 6, 64)\<close>, with the exact decimal expansion rounded to even.\<close>

definition pad6 :: "nat \<Rightarrow> string" where
  "pad6 n = (let s = decimal n in replicate (6 - length s) CHR ''0'' @ s)"

fun format_f6 :: "float64 \<Rightarrow> string" where
  "format_f6 (Fin x) =
     (let k = nat (round_even (\<bar>x\<bar> * 1000000))
      in (if x < 0 then ''-'' else []) @ decimal (k div 1000000) @ ''.'' @ pad6 (k mod 1000000))"
| "format_f6 PInf = ''+Inf''"
| "format_f6 NInf = ''-Inf''"
| "format_f6 NaN = ''NaN''"

text \<open>
  \<open>strconv.FormatFloat(x, 'f', -1, 64)\<close>: the fewest significant digits that read back as \<open>x\<close>, the
  nearest number of so many digits; at most 17 are needed.
\<close>

text \<open>The exponent \<open>e\<close> with \<open>10 ^ (e - 1) \<le> x < 10 ^ e\<close> of a positive number.\<close>

definition dec_exp :: "rat \<Rightarrow> int" where
  "dec_exp x =
     (if 1 \<le> x then int (length (decimal (nat \<lfloor>x\<rfloor>)))
      else let l = length (decimal (nat \<lfloor>1 / x\<rfloor>))
           in 1 - int l + (if x * 10 ^ (l - 1) = 1 then 1 else 0))"

definition pow10 :: "int \<Rightarrow> rat" where
  "pow10 k = (if 0 \<le> k then 10 ^ nat k else 1 / 10 ^ nat (- k))"

definition digits_of :: "rat \<Rightarrow> int \<Rightarrow> int option" where
  "digits_of x n =
     (let s = pow10 (n - dec_exp x); y = x * s;
          fits = (\<lambda>d. fround (of_int d / s) = Fin x)
      in if fits \<lfloor>y\<rfloor> \<and> (y - of_int \<lfloor>y\<rfloor> \<le> 1 / 2 \<or> \<not> fits \<lceil>y\<rceil>) then Some \<lfloor>y\<rfloor>
         else if fits \<lceil>y\<rceil> then Some \<lceil>y\<rceil> else None)"

fun shortest_digits :: "rat \<Rightarrow> nat \<Rightarrow> int \<Rightarrow> int \<times> int" where
  "shortest_digits x 0 n = (\<lfloor>x * pow10 (n - dec_exp x)\<rfloor>, n)"
| "shortest_digits x (Suc k) n =
     (case digits_of x n of Some d \<Rightarrow> (d, n) | None \<Rightarrow> shortest_digits x k (n + 1))"

definition show_digits :: "nat \<Rightarrow> int \<Rightarrow> string" where
  "show_digits d f =
     (if f \<le> 0 then decimal (d * 10 ^ nat (- f))
      else let p = 10 ^ nat f; s = decimal (d mod p)
           in decimal (d div p) @ ''.'' @ replicate (nat f - length s) CHR ''0'' @ s)"

fun format_shortest :: "float64 \<Rightarrow> string" where
  "format_shortest (Fin x) =
     (if x = 0 then ''0''
      else let (d, n) = shortest_digits \<bar>x\<bar> 17 1; f = n - dec_exp \<bar>x\<bar>;
               (d, f) = (if 0 < f \<and> d mod 10 = 0 then (d div 10, f - 1) else (d, f))
           in (if x < 0 then ''-'' else []) @ show_digits (nat d) f)"
| "format_shortest PInf = ''+Inf''"
| "format_shortest NInf = ''-Inf''"
| "format_shortest NaN = ''NaN''"

end
