(* ===== verification/GoTextFacts.thy ===== *)
theory GoTextFacts
  imports GoText
begin

text \<open>
  Facts about the text functions that the file formats rely on: what is printed is read back,
  fields joined by blanks are split again, and lines are scanned one by one.
\<close>

section \<open>Lines\<close>

definition plain_line :: "nat \<Rightarrow> string \<Rightarrow> bool" where
  "plain_line m l \<longleftrightarrow> CHR 0x0A \<notin> set l \<and> CHR 0x0D \<notin> set l \<and> length l < m"

lemma takeWhile_line: "c \<notin> set l \<Longrightarrow> takeWhile (\<lambda>x. x \<noteq> c) (l @ c # s) = l"
  by (induction l) auto

lemma scan_line:
  assumes "plain_line m l"
  shows "scan_lines m (l @ CHR 0x0A # s) = (l # fst (scan_lines m s), snd (scan_lines m s))"
proof -
  have raw: "takeWhile (\<lambda>c. c \<noteq> CHR 0x0A) (l @ CHR 0x0A # s) = l"
    using assms by (intro takeWhile_line) (simp add: plain_line_def)
  have "drop_cr l = l" using assms last_in_set [of l] unfolding drop_cr_def plain_line_def by metis
  then show ?thesis
    using assms by (subst scan_lines.simps) (simp add: raw Let_def plain_line_def split: prod.splits)
qed

lemma scan_lines_unlines:
  "\<forall>l \<in> set ls. plain_line m l \<Longrightarrow> scan_lines m (concat (map (\<lambda>l. l @ [CHR 0x0A]) ls)) = (ls, False)"
proof (induction ls)
  case Nil
  then show ?case by (simp add: scan_lines.simps)
next
  case (Cons l ls)
  then show ?case using scan_line [of m l "concat (map (\<lambda>l. l @ [CHR 0x0A]) ls)"] by simp
qed

section \<open>Fields\<close>

lemma wide_bytes: "list_all (\<lambda>e. list_all (\<lambda>c. 128 \<le> (of_char c :: nat)) e) wide_spaces"
  by (simp add: wide_spaces_def)

lemma wide_nonempty: "[] \<notin> set wide_spaces"
  by (simp add: wide_spaces_def)

text \<open>A character of ASCII that is no white space begins none and ends none.\<close>

definition visible :: "char \<Rightarrow> bool" where
  "visible c \<longleftrightarrow> \<not> is_space c \<and> (of_char c :: nat) < 128"

lemma space_len_Nil [simp]: "space_len es [] = 0"
  by (simp add: space_len_def)

lemma space_len_space [simp]: "is_space c \<Longrightarrow> space_len es (c # s) = 1"
  by (simp add: space_len_def)

lemma space_len_visible: "visible c \<Longrightarrow> es \<in> {wide_spaces, map rev wide_spaces} \<Longrightarrow> space_len es (c # s) = 0"
proof -
  assume c: "visible c" and es: "es \<in> {wide_spaces, map rev wide_spaces}"
  have "\<not> prefix e (c # s)" if "e \<in> set es" for e
  proof
    assume e: "prefix e (c # s)"
    from that es wide_nonempty have "e \<noteq> []" by auto
    with e have "c \<in> set e" by (cases e) auto
    moreover have "\<forall>c \<in> set e. 128 \<le> (of_char c :: nat)"
      using that es wide_bytes by (auto simp: list_all_iff)
    ultimately show False using c by (auto simp: visible_def)
  qed
  then have "find (\<lambda>e. prefix e (c # s)) es = None" by (simp add: find_None_iff)
  then show ?thesis using c by (simp add: space_len_def visible_def)
qed

lemma skip_spaces_none: "space_len es s = 0 \<Longrightarrow> skip_spaces es s = s"
  by (simp add: skip_spaces.simps)

lemma skip_spaces_Nil [simp]: "skip_spaces es [] = []"
  by (simp add: skip_spaces_none)

lemma skip_spaces_cons: "is_space c \<Longrightarrow> skip_spaces es (c # s) = skip_spaces es s"
  by (subst skip_spaces.simps) simp

text \<open>A word: no white space begins at any of its bytes.\<close>

fun no_space :: "string \<Rightarrow> bool" where
  "no_space [] \<longleftrightarrow> True"
| "no_space (c # s) \<longleftrightarrow> space_len wide_spaces (c # s) = 0 \<and> no_space s"

definition word_chars :: "string \<Rightarrow> bool" where
  "word_chars s \<longleftrightarrow> s \<noteq> [] \<and> no_space s"

lemma no_space_not_space: "no_space s \<Longrightarrow> c \<in> set s \<Longrightarrow> \<not> is_space c"
  by (induction s) auto

lemma no_space_visible: "\<forall>c \<in> set s. visible c \<Longrightarrow> no_space s"
  by (induction s) (simp_all add: space_len_visible)

lemma word_chars_not_space: "word_chars s \<Longrightarrow> c \<in> set s \<Longrightarrow> \<not> is_space c"
  unfolding word_chars_def by (blast dest: no_space_not_space)

lemma word_chars_visible: "s \<noteq> [] \<Longrightarrow> \<forall>c \<in> set s. visible c \<Longrightarrow> word_chars s"
  by (simp add: word_chars_def no_space_visible)

text \<open>A character of ASCII after a word makes no white space together with the word's end.\<close>

lemma prefix_ascii_end:
  assumes "e \<in> set wide_spaces" and "(of_char c :: nat) < 128" and "prefix e (w @ c # s)"
  shows "prefix e w"
proof (rule ccontr)
  assume "\<not> prefix e w"
  with assms(3) obtain r where r: "e = w @ r" "prefix r (c # s)" "r \<noteq> []"
    by (auto simp: prefix_append)
  then have "c \<in> set e" by (cases r) auto
  then show False using wide_bytes assms(1,2) by (fastforce simp: list_all_iff)
qed

lemma space_len_word_end:
  assumes "space_len wide_spaces w = 0" and "w \<noteq> []" and "(of_char c :: nat) < 128"
  shows "space_len wide_spaces (w @ c # s) = 0"
proof -
  have find: "find (\<lambda>e. prefix e w) wide_spaces = None" and hd: "\<not> is_space (hd w)"
    using assms(1,2) wide_nonempty
    by (auto simp: space_len_def split: if_splits option.splits) (metis find_Some_iff nth_mem)
  have "\<not> prefix e (w @ c # s)" if "e \<in> set wide_spaces" for e
    using find that prefix_ascii_end [OF that assms(3)] by (auto simp: find_None_iff)
  then have "find (\<lambda>e. prefix e (w @ c # s)) wide_spaces = None" by (simp add: find_None_iff)
  then show ?thesis using hd assms(2) by (simp add: space_len_def)
qed

lemma space_ascii: "is_space c \<Longrightarrow> (of_char c :: nat) < 128"
  by (auto simp: is_space_def)

lemma word_len_no_space: "no_space w \<Longrightarrow> word_len w = length w"
  by (induction w) simp_all

lemma word_len_cons_space: "no_space w \<Longrightarrow> is_space c \<Longrightarrow> word_len (w @ c # s) = length w"
proof (induction w)
  case (Cons a w)
  then show ?case using space_len_word_end [of "a # w" c s] space_ascii [of c] by simp
qed simp

lemma space_len_word: "no_space w \<Longrightarrow> space_len wide_spaces w = 0"
  by (cases w) simp_all

lemma Fields_word: "word_chars w \<Longrightarrow> Fields w = [w]"
proof -
  assume w: "word_chars w"
  have "Fields [] = []" by (simp add: Fields.simps)
  then show ?thesis
    using w by (subst Fields.simps)
      (simp add: Let_def word_chars_def skip_spaces_none space_len_word word_len_no_space)
qed

lemma Fields_space: "is_space c \<Longrightarrow> Fields (c # s) = Fields s"
  by (subst (1 2) Fields.simps) (simp add: skip_spaces_cons)

lemma Fields_cons_space: "\<lbrakk> word_chars w; is_space c \<rbrakk> \<Longrightarrow> Fields (w @ c # s) = w # Fields s"
proof -
  assume w: "word_chars w" and c: "is_space c"
  then have "space_len wide_spaces (w @ c # s) = 0"
    by (intro space_len_word_end) (simp_all add: word_chars_def space_len_word space_ascii)
  then show ?thesis
    using w c by (subst Fields.simps)
      (simp add: Let_def word_chars_def skip_spaces_none word_len_cons_space Fields_space)
qed

lemma Fields_cons_word: "word_chars w \<Longrightarrow> Fields (w @ CHR '' '' # s) = w # Fields s"
  by (rule Fields_cons_space) (simp_all add: is_space_def)

lemma TrimSpace_id:
  assumes "s \<noteq> []" and "visible (hd s)" and "visible (last s)"
  shows "TrimSpace s = s"
proof -
  have "skip_spaces wide_spaces s = s"
    using assms(1,2) by (cases s) (simp_all add: skip_spaces_none space_len_visible)
  moreover have "skip_spaces (map rev wide_spaces) (rev s) = rev s"
    using assms(1,3) by (cases s rule: rev_cases) (simp_all add: skip_spaces_none space_len_visible)
  ultimately show ?thesis by (simp add: TrimSpace_def)
qed

section \<open>Integers\<close>

lemma digit_not_space: "is_digit c \<Longrightarrow> \<not> is_space c"
  by (auto simp: is_digit_def is_space_def)

lemma digit_visible: "is_digit c \<Longrightarrow> visible c"
  by (auto simp: visible_def digit_not_space) (auto simp: is_digit_def)

lemma digit_not_sign: "is_digit c \<Longrightarrow> c \<noteq> CHR ''-'' \<and> c \<noteq> CHR ''+'' \<and> c \<noteq> CHR ''_'' \<and> c \<noteq> CHR ''.''"
  by (auto simp: is_digit_def)

lemma digit_not_newline: "is_digit c \<Longrightarrow> c \<noteq> CHR 0x0A \<and> c \<noteq> CHR 0x0D"
  by (auto simp: is_digit_def)

lemma hd_decimal_digit: "is_digit (hd (decimal n))"
  using decimal_digits [of "hd (decimal n)" n] by simp

lemma parse_digits_decimal [simp]: "parse_digits (decimal n) = Some n"
  by (auto simp: parse_digits_def list_all_iff decimal_digits)

lemma ParseInt_show_int: "in_int64 n \<Longrightarrow> ParseInt (show_int n) = Some n"
proof (cases "n < 0")
  case True
  assume "in_int64 n"
  then show ?thesis using True by (simp add: show_int_def ParseInt_def)
next
  case False
  assume "in_int64 n"
  moreover obtain c cs where d: "decimal (nat n) = c # cs" using decimal_nonempty by (cases "decimal (nat n)") blast+
  moreover have "c \<noteq> CHR ''-''" "c \<noteq> CHR ''+''" using digit_not_sign [OF hd_decimal_digit [of "nat n"]] d by auto
  moreover have "parse_digits (c # cs) = Some (nat n)" using d parse_digits_decimal by metis
  ultimately show ?thesis using False by (simp add: show_int_def ParseInt_def)
qed

lemma show_int_chars: "c \<in> set (show_int n) \<Longrightarrow> is_digit c \<or> c = CHR ''-''"
  using decimal_digits by (auto simp: show_int_def split: if_splits)

lemma word_show_int: "word_chars (show_int n)"
proof (rule word_chars_visible)
  have "visible (CHR ''-'')" by (simp add: visible_def is_space_def)
  then show "\<forall>c \<in> set (show_int n). visible c" using show_int_chars [of _ n] digit_visible by blast
qed (simp add: show_int_def)

lemma show_int_visible: "c \<in> set (show_int n) \<Longrightarrow> visible c"
  using show_int_chars [of c n] digit_visible [of c] by (auto simp: visible_def is_space_def)

lemma show_int_plain: "CHR 0x0A \<notin> set (show_int n)" "CHR 0x0D \<notin> set (show_int n)"
  using show_int_chars [of _ n] digit_not_newline by fastforce+

lemma length_show_int: "in_int64 n \<Longrightarrow> length (show_int n) \<le> 20"
proof -
  assume "in_int64 n"
  then have "nat \<bar>n\<bar> < 10 ^ 19" by (simp add: in_int64_def nat_less_iff) linarith
  then have "length (decimal (nat \<bar>n\<bar>)) \<le> 19" by (rule length_decimal) simp
  then show ?thesis by (auto simp: show_int_def)
qed

section \<open>Floats\<close>

lemma mantissa_digits:
  "\<forall>c \<in> set s. is_digit c \<Longrightarrow>
   mantissa False (s @ rest) m fd dot seen
     = mantissa False rest (foldl (\<lambda>n c. 10 * n + digit_val c) m s)
         (if dot then fd + length s else fd) dot (seen \<or> s \<noteq> [])"
proof (induction s arbitrary: m fd seen)
  case (Cons c s)
  then show ?case using digit_not_sign [of c] by (simp add: digit_in_def)
qed simp

lemma foldl_digits: "foldl (\<lambda>n c. 10 * n + digit_val c) m s = m * 10 ^ length s + digits_val s"
proof (induction s rule: rev_induct)
  case (snoc c s)
  then show ?case by (simp add: digits_val_snoc algebra_simps)
qed (simp add: digits_val_def)

lemma pad6: "n < 1000000 \<Longrightarrow> length (pad6 n) = 6 \<and> digits_val (pad6 n) = n \<and> (\<forall>c \<in> set (pad6 n). is_digit c)"
proof -
  assume "n < 1000000"
  then have "length (decimal n) \<le> 6" by (intro length_decimal) simp_all
  moreover have "CHR ''0'' = digit 0" by (simp add: digit_def char_of_def bit_0)
  moreover have "is_digit (digit 0)" by simp
  ultimately show ?thesis by (auto simp: pad6_def Let_def digits_val_zeros decimal_digits)
qed

lemma to_lower_digit: "is_digit c \<Longrightarrow> to_lower c = c"
  by (auto simp: is_digit_def to_lower_def)

lemma literal_f6:
  fixes k :: nat
  defines "s \<equiv> decimal (k div 1000000) @ ''.'' @ pad6 (k mod 1000000)"
  shows "literal s = Some (of_nat k / 1000000)"
proof -
  have p: "length (pad6 (k mod 1000000)) = 6" "digits_val (pad6 (k mod 1000000)) = k mod 1000000"
    "\<forall>c \<in> set (pad6 (k mod 1000000)). is_digit c"
    using pad6 [of "k mod 1000000"] by simp_all
  have d: "\<forall>c \<in> set (decimal (k div 1000000)). is_digit c" using decimal_digits by blast
  have ne: "pad6 (k mod 1000000) \<noteq> []" using p(1) by auto
  have "\<not> hex_prefix s"
  proof -
    have "is_digit (s ! 1) \<or> s ! 1 = CHR ''.''" if "2 \<le> length s"
    proof (cases "length (decimal (k div 1000000)) = 1")
      case True
      then show ?thesis by (simp add: s_def nth_append)
    next
      case False
      then have "1 < length (decimal (k div 1000000))"
        using decimal_nonempty [of "k div 1000000"] by (cases "decimal (k div 1000000)") auto
      then show ?thesis using d by (simp add: s_def nth_append)
    qed
    moreover have "to_lower (CHR ''.'') \<noteq> CHR ''x''" by (simp add: to_lower_def)
    moreover have "\<not> is_digit (CHR ''x'')" by (simp add: is_digit_def)
    ultimately show ?thesis using to_lower_digit by (metis hex_prefix_def)
  qed
  moreover have "mantissa False s 0 0 False False = (k, 6, True, [])"
    using mantissa_digits [OF d, of "''.'' @ pad6 (k mod 1000000)" 0 0 False False]
      mantissa_digits [OF p(3), of "[]" "k div 1000000" 0 True True] ne p(1,2)
    by (simp add: s_def foldl_digits [of 0] foldl_digits [of "k div 1000000"])
  ultimately show ?thesis by (simp add: literal_def Let_def)
qed

section \<open>Lines of a file\<close>

text \<open>A text of lines that end in a newline, as the writers make it.\<close>

definition text_of :: "string list \<Rightarrow> string" where
  "text_of ls = concat (map (\<lambda>l. l @ [CHR 0x0A]) ls)"

lemma text_of_simps [simp]: "text_of [] = []" "text_of (l # ls) = l @ CHR 0x0A # text_of ls"
  "text_of (ls @ ls') = text_of ls @ text_of ls'"
  by (simp_all add: text_of_def)

lemma scan_fold_text:
  "\<forall>l \<in> set ls. plain_line m l \<Longrightarrow> scan_fold m e f (text_of ls, False) s = err_fold f ls s"
  by (simp add: scan_fold_def Scan_def text_of_def scan_lines_unlines err_bind_def split: sum.splits)

lemma err_fold_Inr: "(\<And>x s. x \<in> set xs \<Longrightarrow> f x s = Inr (g x s)) \<Longrightarrow> err_fold f xs s = Inr (fold g xs s)"
  by (induction xs arbitrary: s) simp_all

end
