(* ===== verification/KOracle.thy ===== *)
theory KOracle
  imports GoFloat "HOL-Library.Multiset"
begin

text \<open>
  k-shortest-path/internal/oracle: the reference graph. \<open>gonum\<close>'s weighted directed graph and its
  path algorithms are parameters: the operations of the record \<open>graph_ops\<close>, with the laws of the
  locale \<open>weighted_graph\<close> (at most one edge per ordered pair; setting an edge adds its ends), and
  the functions \<open>yen\<close> and \<open>dijkstra\<close>.
\<close>

section \<open>The graph library\<close>

record 'g graph_ops =
  g_empty :: 'g
  g_edge :: "'g \<Rightarrow> int \<Rightarrow> int \<Rightarrow> float64 option"
  g_weight :: "'g \<Rightarrow> int \<Rightarrow> int \<Rightarrow> float64 \<times> bool"
  g_set :: "int \<Rightarrow> int \<Rightarrow> float64 \<Rightarrow> 'g \<Rightarrow> 'g"
  g_remove :: "int \<Rightarrow> int \<Rightarrow> 'g \<Rightarrow> 'g"
  g_has :: "'g \<Rightarrow> int \<Rightarrow> bool"
  g_add :: "int \<Rightarrow> 'g \<Rightarrow> 'g"
  g_nodes :: "'g \<Rightarrow> int list"

locale weighted_graph =
  fixes ops :: "'g graph_ops"
  assumes edge_empty: "g_edge ops (g_empty ops) s t = None"
    and has_empty: "\<not> g_has ops (g_empty ops) n"
    and edge_set: "s \<noteq> t \<Longrightarrow> g_edge ops (g_set ops s t w g) s' t'
      = (if s' = s \<and> t' = t then Some w else g_edge ops g s' t')"
    and edge_remove: "g_edge ops (g_remove ops s t g) s' t'
      = (if s' = s \<and> t' = t then None else g_edge ops g s' t')"
    and edge_add: "g_edge ops (g_add ops n g) s t = g_edge ops g s t"
    and has_set: "s \<noteq> t \<Longrightarrow> g_has ops (g_set ops s t w g) n \<longleftrightarrow> n = s \<or> n = t \<or> g_has ops g n"
    and has_remove: "g_has ops (g_remove ops s t g) n \<longleftrightarrow> g_has ops g n"
    and has_add: "g_has ops (g_add ops m g) n \<longleftrightarrow> n = m \<or> g_has ops g n"
    and nodes: "set (g_nodes ops g) = {n. g_has ops g n}"
    and weight_edge: "s \<noteq> t \<Longrightarrow> g_weight ops g s t
      = (case g_edge ops g s t of Some w \<Rightarrow> (w, True) | None \<Rightarrow> (PInf, False))"

section \<open>Operations\<close>

datatype oracle_error = NegativeWeight float64 int int | NotInGraph int | MissingEdge int int

definition AddEdge :: "'g graph_ops \<Rightarrow> int \<Rightarrow> int \<Rightarrow> float64 \<Rightarrow> 'g \<Rightarrow> oracle_error + 'g" where
  "AddEdge ops src dst weight g =
     (if flt weight (Fin 0) then Inl (NegativeWeight weight src dst)
      else if src = dst then Inr g
      else case g_edge ops g src dst of
             Some e \<Rightarrow> if fle e weight then Inr g
                       else Inr (g_set ops src dst weight (g_remove ops src dst g))
           | None \<Rightarrow> Inr (g_set ops src dst weight g))"

definition AddNode :: "'g graph_ops \<Rightarrow> int \<Rightarrow> 'g \<Rightarrow> 'g" where
  "AddNode ops n g = (if g_has ops g n then g else g_add ops n g)"

definition Nodes :: "'g graph_ops \<Rightarrow> 'g \<Rightarrow> nat" where
  "Nodes ops g = length (g_nodes ops g)"

fun path_weight_from :: "'g graph_ops \<Rightarrow> 'g \<Rightarrow> float64 \<Rightarrow> int list \<Rightarrow> oracle_error + float64" where
  "path_weight_from ops g acc (a # b # ns) =
     (let (w, ok) = g_weight ops g a b
      in if \<not> ok \<or> is_inf w 1 then Inl (MissingEdge a b)
         else path_weight_from ops g (fadd acc w) (b # ns))"
| "path_weight_from ops g acc ns = Inr acc"

definition pathWeight :: "'g graph_ops \<Rightarrow> 'g \<Rightarrow> int list \<Rightarrow> oracle_error + float64" where
  "pathWeight ops g nodes = path_weight_from ops g (Fin 0) nodes"

text \<open>\<open>yen g k s t\<close> are the node sequences that \<open>path.YenKShortestPaths\<close> returns.\<close>

definition TopK ::
  "'g graph_ops \<Rightarrow> ('g \<Rightarrow> int \<Rightarrow> int \<Rightarrow> int \<Rightarrow> int list list) \<Rightarrow> 'g \<Rightarrow> int \<Rightarrow> int \<Rightarrow> int \<Rightarrow>
     oracle_error + float64 list" where
  "TopK ops yen g src dst k =
     (if \<not> g_has ops g src then Inl (NotInGraph src)
      else if \<not> g_has ops g dst then Inl (NotInGraph dst)
      else err_bind
             (err_fold (\<lambda>p weights. err_bind (pathWeight ops g p) (\<lambda>w. Inr (weights @ [w])))
                (yen g k src dst) [])
             (\<lambda>weights. Inr (sort weights)))"

text \<open>\<open>dijkstra g s n\<close> is \<open>WeightTo(n)\<close> of the tree of \<open>path.DijkstraFrom\<close>.\<close>

definition SSSP ::
  "'g graph_ops \<Rightarrow> ('g \<Rightarrow> int \<Rightarrow> int \<Rightarrow> float64) \<Rightarrow> 'g \<Rightarrow> int \<Rightarrow> oracle_error + (int \<Rightarrow> float64 option)" where
  "SSSP ops dijkstra g src =
     (if \<not> g_has ops g src then Inl (NotInGraph src)
      else Inr (fold (\<lambda>n out. out(n \<mapsto> dijkstra g src n)) (g_nodes ops g) Map.empty))"

section \<open>A provider: finite maps\<close>

text \<open>The graph as a map of edges and a list of nodes, in the order of their insertion.\<close>

type_synonym map_graph = "(int \<times> int \<Rightarrow> float64 option) \<times> int list"

definition ins :: "int \<Rightarrow> int list \<Rightarrow> int list" where
  "ins n ns = (if n \<in> set ns then ns else ns @ [n])"

definition map_ops :: "map_graph graph_ops" where
  "map_ops =
     \<lparr>g_empty = (Map.empty, []),
      g_edge = (\<lambda>(e, ns) s t. e (s, t)),
      g_weight = (\<lambda>(e, ns) s t. if s = t then (Fin 0, True)
                    else case e (s, t) of Some w \<Rightarrow> (w, True) | None \<Rightarrow> (PInf, False)),
      g_set = (\<lambda>s t w (e, ns). (e((s, t) \<mapsto> w), ins t (ins s ns))),
      g_remove = (\<lambda>s t (e, ns). (e((s, t) := None), ns)),
      g_has = (\<lambda>(e, ns) n. n \<in> set ns),
      g_add = (\<lambda>n (e, ns). (e, ins n ns)),
      g_nodes = (\<lambda>(e, ns). ns)\<rparr>"

interpretation mg: weighted_graph map_ops
  by unfold_locales (auto simp: map_ops_def ins_def split: prod.splits option.splits)

section \<open>Graphs built from edge lists\<close>

type_synonym edge = "int \<times> int \<times> float64"

definition add_edges :: "'g graph_ops \<Rightarrow> edge list \<Rightarrow> 'g \<Rightarrow> oracle_error + 'g" where
  "add_edges ops = err_fold (\<lambda>(s, t, w). AddEdge ops s t w)"

definition good_edge :: "edge \<Rightarrow> bool" where
  "good_edge = (\<lambda>(s, t, w). fle (Fin 0) w)"

text \<open>The weight that the graph should have: the least of the parallel edges, none for a loop.\<close>

definition least_weight :: "edge set \<Rightarrow> int \<Rightarrow> int \<Rightarrow> float64 option \<Rightarrow> bool" where
  "least_weight es s t r \<longleftrightarrow>
     (case r of
        None \<Rightarrow> s = t \<or> (\<forall>w. (s, t, w) \<notin> es)
      | Some w \<Rightarrow> s \<noteq> t \<and> (s, t, w) \<in> es \<and> (\<forall>w'. (s, t, w') \<in> es \<longrightarrow> fle w w'))"

lemma fle_antisym: "\<lbrakk> fle a b; fle b a \<rbrakk> \<Longrightarrow> a = b"
  by (cases a; cases b) auto

lemma least_weight_unique: "\<lbrakk> least_weight es s t r; least_weight es s t r' \<rbrakk> \<Longrightarrow> r = r'"
  by (auto simp: least_weight_def intro: fle_antisym split: option.splits)

lemma good_edge_weight: "good_edge (s, t, w) \<Longrightarrow> w \<noteq> NaN \<and> \<not> flt w (Fin 0)"
  by (cases w) (auto simp: good_edge_def)

definition ends_of :: "edge set \<Rightarrow> int set" where
  "ends_of es = {n. \<exists>s t w. (s, t, w) \<in> es \<and> s \<noteq> t \<and> (n = s \<or> n = t)}"

context weighted_graph
begin

lemma AddEdge_least:
  assumes "\<forall>s t. least_weight es s t (g_edge ops g s t)" and "\<forall>n. g_has ops g n \<longleftrightarrow> n \<in> ends_of es \<union> ns"
    and "\<forall>e \<in> es. good_edge e" and "good_edge (a, b, w)"
  shows "\<exists>g'. AddEdge ops a b w g = Inr g'
    \<and> (\<forall>s t. least_weight (insert (a, b, w) es) s t (g_edge ops g' s t))
    \<and> (\<forall>n. g_has ops g' n \<longleftrightarrow> n \<in> ends_of (insert (a, b, w) es) \<union> ns)"
proof -
  have w: "w \<noteq> NaN" "\<not> flt w (Fin 0)" using good_edge_weight [OF assms(4)] by auto
  have other: "least_weight (insert (a, b, w) es) s t r" if "(s, t) \<noteq> (a, b)" "least_weight es s t r" for s t r
    using that by (auto simp: least_weight_def split: option.splits)
  have ab: "least_weight es a b (g_edge ops g a b)" using assms(1) by blast
  show ?thesis
  proof (cases "a = b")
    case True
    have "ends_of (insert (a, b, w) es) = ends_of es" using True by (auto simp: ends_of_def)
    moreover have none: "g_edge ops g a b = None"
      using ab True by (cases "g_edge ops g a b") (auto simp: least_weight_def)
    have "least_weight (insert (a, b, w) es) s t (g_edge ops g s t)" for s t
    proof (cases "(s, t) = (a, b)")
      case True
      with none \<open>a = b\<close> show ?thesis by (simp add: least_weight_def)
    next
      case False
      then show ?thesis using assms(1) other by blast
    qed
    ultimately show ?thesis using True w assms(2) by (simp add: AddEdge_def)
  next
    case False
    have ends: "ends_of (insert (a, b, w) es) = insert a (insert b (ends_of es))"
      using False by (auto simp: ends_of_def)
    show ?thesis
    proof (cases "g_edge ops g a b")
      case None
      then have "least_weight (insert (a, b, w) es) a b (Some w)"
        using ab False w fle_refl by (auto simp: least_weight_def)
      then have "\<forall>s t. least_weight (insert (a, b, w) es) s t (g_edge ops (g_set ops a b w g) s t)"
        using assms(1) other by (simp add: edge_set [OF False])
      then show ?thesis using None False w(2) assms(2) ends by (simp add: AddEdge_def has_set [OF False])
    next
      case (Some e)
      then have e: "(a, b, e) \<in> es" "\<forall>w'. (a, b, w') \<in> es \<longrightarrow> fle e w'" using ab by (auto simp: least_weight_def)
      then have en: "e \<noteq> NaN" using assms(3) good_edge_weight by blast
      show ?thesis
      proof (cases "fle e w")
        case True
        then have "least_weight (insert (a, b, w) es) a b (Some e)" using e False by (auto simp: least_weight_def)
        then have "\<forall>s t. least_weight (insert (a, b, w) es) s t (g_edge ops g s t)"
          using assms(1) other Some by (metis prod.inject)
        moreover have "a \<in> ends_of es" "b \<in> ends_of es" using e(1) False unfolding ends_of_def by blast+
        then have same: "ends_of (insert (a, b, w) es) = ends_of es" using ends by (metis insert_absorb)
        have "\<forall>n. g_has ops g n \<longleftrightarrow> n \<in> ends_of (insert (a, b, w) es) \<union> ns"
          using assms(2) unfolding same .
        moreover have "AddEdge ops a b w g = Inr g" using Some True False w(2) by (simp add: AddEdge_def)
        ultimately show ?thesis by blast
      next
        case f: False
        then have we: "fle w e" using fle_linear [OF w(1) en] by blast
        have "fle w w'" if "(a, b, w') \<in> insert (a, b, w) es" for w'
          using that e(2) we fle_trans fle_refl [OF w(1)] by blast
        then have "least_weight (insert (a, b, w) es) a b (Some w)" using f by (simp add: least_weight_def False)
        then have "\<forall>s t. least_weight (insert (a, b, w) es) s t (g_edge ops (g_set ops a b w (g_remove ops a b g)) s t)"
          using assms(1) other by (simp add: edge_set [OF False] edge_remove)
        then show ?thesis using Some f False w(2) assms(2) ends by (simp add: AddEdge_def has_set [OF False] has_remove)
      qed
    qed
  qed
qed

lemma add_edges_least:
  assumes "\<forall>e \<in> set es. good_edge e" and "\<forall>s t. g_edge ops g s t = None"
  shows "\<exists>g'. add_edges ops es g = Inr g'
    \<and> (\<forall>s t. least_weight (set es) s t (g_edge ops g' s t))
    \<and> (\<forall>n. g_has ops g' n \<longleftrightarrow> n \<in> ends_of (set es) \<union> {n. g_has ops g n})"
proof -
  let ?I = "\<lambda>es' g'. (\<forall>e \<in> set es'. good_edge e)
    \<and> (\<forall>s t. least_weight (set es') s t (g_edge ops g' s t))
    \<and> (\<forall>n. g_has ops g' n \<longleftrightarrow> n \<in> ends_of (set es') \<union> {n. g_has ops g n})"
  have "\<exists>g'. err_fold (\<lambda>(s, t, w). AddEdge ops s t w) es g = Inr g' \<and> ?I es g'"
  proof (rule err_fold_invariant [where I = ?I])
    show "?I [] g" using assms(2) by (simp add: least_weight_def ends_of_def)
    fix es' and e :: edge and g' assume I: "?I es' g'" and e: "e \<in> set es"
    obtain a b w where abw: "e = (a, b, w)" by (cases e)
    from AddEdge_least [of "set es'" g' "{n. g_has ops g n}" a b w] I e assms(1) abw
    show "\<exists>g''. (case e of (s, t, w) \<Rightarrow> AddEdge ops s t w) g' = Inr g'' \<and> ?I (es' @ [e]) g''" by auto
  qed
  then show ?thesis by (auto simp: add_edges_def)
qed

lemma AddNode_node: "g_has ops (AddNode ops m g) n \<longleftrightarrow> n = m \<or> g_has ops g n"
  "g_edge ops (AddNode ops m g) s t = g_edge ops g s t"
  by (auto simp: AddNode_def has_add edge_add)

text \<open>Two edge lists with the same edges give graphs with the same weights.\<close>

lemma add_edges_same:
  assumes "set es = set es'" and "\<forall>e \<in> set es. good_edge e"
    and "\<forall>s t. g_edge ops g s t = None" and "\<forall>s t. g_edge ops h s t = None"
  shows "\<exists>g' h'. add_edges ops es g = Inr g' \<and> add_edges ops es' h = Inr h'
    \<and> (\<forall>s t. g_edge ops g' s t = g_edge ops h' s t)"
proof -
  obtain g' where g': "add_edges ops es g = Inr g'" "\<forall>s t. least_weight (set es) s t (g_edge ops g' s t)"
    using add_edges_least [OF assms(2,3)] by blast
  obtain h' where h': "add_edges ops es' h = Inr h'" "\<forall>s t. least_weight (set es) s t (g_edge ops h' s t)"
    using add_edges_least [of es' h] assms by auto
  show ?thesis using g' h' least_weight_unique by blast
qed

lemma SSSP_nodes:
  "g_has ops g src \<Longrightarrow>
   \<exists>d. SSSP ops dijkstra g src = Inr d \<and> d = (\<lambda>n. if g_has ops g n then Some (dijkstra g src n) else None)"
proof -
  have "fold (\<lambda>n out. out(n \<mapsto> dijkstra g src n)) ns m
    = (\<lambda>n. if n \<in> set ns then Some (dijkstra g src n) else m n)" for ns m
    by (induction ns arbitrary: m) (auto simp: fun_eq_iff)
  then show "g_has ops g src \<Longrightarrow> ?thesis" by (simp add: SSSP_def nodes)
qed

end

section \<open>Paths\<close>

text \<open>A node sequence along edges of finite weight, and the sum that \<open>pathWeight\<close> forms.\<close>

fun edge_path :: "'g graph_ops \<Rightarrow> 'g \<Rightarrow> int list \<Rightarrow> bool" where
  "edge_path ops g (a # b # ns) \<longleftrightarrow>
     snd (g_weight ops g a b) \<and> fst (g_weight ops g a b) \<noteq> PInf \<and> edge_path ops g (b # ns)"
| "edge_path ops g ns \<longleftrightarrow> True"

fun path_sum :: "'g graph_ops \<Rightarrow> 'g \<Rightarrow> float64 \<Rightarrow> int list \<Rightarrow> float64" where
  "path_sum ops g acc (a # b # ns) = path_sum ops g (fadd acc (fst (g_weight ops g a b))) (b # ns)"
| "path_sum ops g acc ns = acc"

lemma is_inf_pos: "is_inf w 1 \<longleftrightarrow> w = PInf"
  by (cases w) auto

lemma pathWeight_edge_path: "edge_path ops g ns \<Longrightarrow> path_weight_from ops g acc ns = Inr (path_sum ops g acc ns)"
  by (induction ops g acc ns rule: path_sum.induct) (auto simp: is_inf_pos split: prod.splits)

lemma pathWeight_broken: "\<not> edge_path ops g ns \<Longrightarrow> \<exists>a b. path_weight_from ops g acc ns = Inl (MissingEdge a b)"
  by (induction ops g acc ns rule: path_sum.induct) (auto simp: is_inf_pos split: prod.splits)

lemma TopK_weights:
  assumes "\<forall>p \<in> set ps. edge_path ops g p"
  shows "err_fold (\<lambda>p ws. err_bind (pathWeight ops g p) (\<lambda>w. Inr (ws @ [w]))) ps ws
    = Inr (ws @ map (path_sum ops g (Fin 0)) ps)"
  using assms by (induction ps arbitrary: ws) (simp_all add: pathWeight_def pathWeight_edge_path)

lemma TopK_broken:
  "\<exists>p \<in> set ps. \<not> edge_path ops g p \<Longrightarrow>
   \<exists>a b. err_fold (\<lambda>p ws. err_bind (pathWeight ops g p) (\<lambda>w. Inr (ws @ [w]))) ps ws = Inl (MissingEdge a b)"
proof (induction ps arbitrary: ws)
  case (Cons p ps)
  show ?case
  proof (cases "edge_path ops g p")
    case True
    then show ?thesis using Cons by (simp add: pathWeight_def pathWeight_edge_path)
  next
    case False
    then show ?thesis using pathWeight_broken [of ops g p "Fin 0"] by (auto simp: pathWeight_def)
  qed
qed simp

section \<open>Properties\<close>

text \<open>
  C12: a graph built from edges with weights that are not negative has the least weight of the
  parallel edges for every ordered pair, no loops, and no nodes but the ends of its edges.
\<close>

theorem add_edges_least_weight:
  assumes "weighted_graph ops" and "\<forall>e \<in> set es. good_edge e"
  shows "\<exists>g. add_edges ops es (g_empty ops) = Inr g
    \<and> (\<forall>s t. least_weight (set es) s t (g_edge ops g s t))
    \<and> (\<forall>n. g_has ops g n \<longleftrightarrow> n \<in> ends_of (set es))"
  using weighted_graph.add_edges_least [OF assms, of "g_empty ops"]
  by (simp add: weighted_graph.edge_empty [OF assms(1)] weighted_graph.has_empty [OF assms(1)])

theorem add_edges_least_weight_witness:
  "\<exists>g. add_edges map_ops [(1, 2, Fin 5), (1, 2, Fin 3), (2, 2, Fin 1)] (g_empty map_ops) = Inr g
    \<and> (\<forall>s t. least_weight (set [(1, 2, Fin 5), (1, 2, Fin 3), (2, 2, Fin 1)]) s t (g_edge map_ops g s t))
    \<and> (\<forall>n. g_has map_ops g n \<longleftrightarrow> n \<in> ends_of (set [(1, 2, Fin 5), (1, 2, Fin 3), (2, 2, Fin 1)]))"
  by (rule add_edges_least_weight [OF mg.weighted_graph_axioms]) (simp add: good_edge_def fle_def)

text \<open>
  The order and the repetition of edges do not matter: two lists of the same edges give
  graphs with the same weights, however the edge file lists them.
\<close>

theorem add_edges_order:
  assumes "weighted_graph ops" and "set es = set es'" and "\<forall>e \<in> set es. good_edge e"
  shows "\<exists>g g'. add_edges ops es (g_empty ops) = Inr g \<and> add_edges ops es' (g_empty ops) = Inr g'
    \<and> (\<forall>s t. g_edge ops g s t = g_edge ops g' s t)"
  using weighted_graph.add_edges_same [OF assms] weighted_graph.edge_empty [OF assms(1)] by blast

theorem add_edges_order_witness:
  "\<exists>g g'. add_edges map_ops [(1, 2, Fin 5), (1, 2, Fin 3)] (g_empty map_ops) = Inr g
    \<and> add_edges map_ops [(1, 2, Fin 3), (1, 2, Fin 5), (1, 2, Fin 3)] (g_empty map_ops) = Inr g'
    \<and> (\<forall>s t. g_edge map_ops g s t = g_edge map_ops g' s t)"
  by (rule add_edges_order [OF mg.weighted_graph_axioms]) (auto simp: good_edge_def fle_def)

text \<open>
  The costs of \<open>TopK\<close> do not depend on how ties are broken: two enumerations of paths along
  edges of the graph whose costs agree up to order give the same vector, sorted, of as many
  costs as there are paths.
\<close>

theorem TopK_ties:
  assumes "g_has ops g src" and "g_has ops g dst"
    and "\<forall>p \<in> set (yen g k src dst) \<union> set (yen' g k src dst). edge_path ops g p"
    and "image_mset (path_sum ops g (Fin 0)) (mset (yen g k src dst))
       = image_mset (path_sum ops g (Fin 0)) (mset (yen' g k src dst))"
  shows "\<exists>ws. TopK ops yen g src dst k = Inr ws \<and> TopK ops yen' g src dst k = Inr ws \<and> sorted ws
    \<and> mset ws = image_mset (path_sum ops g (Fin 0)) (mset (yen g k src dst))
    \<and> length ws = length (yen g k src dst)"
proof -
  have "TopK ops y g src dst k = Inr (sort (map (path_sum ops g (Fin 0)) (y g k src dst)))"
    if "\<forall>p \<in> set (y g k src dst). edge_path ops g p" for y
    using that assms(1,2) TopK_weights [of "y g k src dst" ops g "[]"] by (simp add: TopK_def)
  moreover have "sort (map (path_sum ops g (Fin 0)) (yen g k src dst))
      = sort (map (path_sum ops g (Fin 0)) (yen' g k src dst))"
    using assms(4) by (metis mset_map mset_sort properties_for_sort sorted_sort)
  moreover have "length (yen' g k src dst) = length (yen g k src dst)"
    using assms(4) by (metis size_image_mset size_mset)
  ultimately show ?thesis using assms(3,4) by simp
qed

definition demo_graph :: map_graph where
  "demo_graph = ([(1, 2) \<mapsto> Fin 1, (2, 4) \<mapsto> Fin 2, (1, 3) \<mapsto> Fin 1, (3, 4) \<mapsto> Fin 2], [1, 2, 3, 4])"

theorem TopK_ties_witness:
  "\<exists>ws. TopK map_ops (\<lambda>g k s t. [[1, 2, 4], [1, 3, 4]]) demo_graph 1 4 2 = Inr ws
    \<and> TopK map_ops (\<lambda>g k s t. [[1, 3, 4], [1, 2, 4]]) demo_graph 1 4 2 = Inr ws \<and> sorted ws
    \<and> mset ws = image_mset (path_sum map_ops demo_graph (Fin 0)) (mset [[1, 2, 4], [1, 3, 4]])
    \<and> length ws = length [[1 :: int, 2, 4], [1, 3, 4]]"
  by (rule TopK_ties) (auto simp: demo_graph_def map_ops_def)

text \<open>
  A path that leaves the graph, or uses an edge of infinite weight, makes \<open>TopK\<close> fail with
  the missing edge, and an end that is not in the graph with that node; no vector is returned.
\<close>

theorem TopK_errors:
  "(\<not> g_has ops g src \<longrightarrow> TopK ops yen g src dst k = Inl (NotInGraph src))
   \<and> (g_has ops g src \<and> \<not> g_has ops g dst \<longrightarrow> TopK ops yen g src dst k = Inl (NotInGraph dst))
   \<and> (g_has ops g src \<and> g_has ops g dst \<and> (\<exists>p \<in> set (yen g k src dst). \<not> edge_path ops g p)
      \<longrightarrow> (\<exists>a b. TopK ops yen g src dst k = Inl (MissingEdge a b)))"
  using TopK_broken [of "yen g k src dst" ops g "[]"] by (fastforce simp: TopK_def)

theorem TopK_errors_witness:
  "TopK map_ops (\<lambda>g k s t. []) demo_graph 9 4 2 = Inl (NotInGraph 9)
   \<and> TopK map_ops (\<lambda>g k s t. []) demo_graph 1 9 2 = Inl (NotInGraph 9)
   \<and> (\<exists>a b. TopK map_ops (\<lambda>g k s t. [[1, 4]]) demo_graph 1 4 2 = Inl (MissingEdge a b))"
  using TopK_errors [of map_ops demo_graph 9 "\<lambda>g k s t. []" 4 2]
    TopK_errors [of map_ops demo_graph 1 "\<lambda>g k s t. []" 9 2]
    TopK_errors [of map_ops demo_graph 1 "\<lambda>g k s t. [[1, 4]]" 4 2]
  by (simp add: demo_graph_def map_ops_def)

end
