(* ===== verification/KLdbc.thy ===== *)
theory KLdbc
  imports GoTextFacts KOracle
begin

text \<open>
  k-shortest-path/internal/ldbc: the readers of the files of a data set. A file is what a reader
  of it returns, the values that a function returns beside an error are left out (every caller
  looks at the error first), and an error keeps the text that it quotes.
\<close>

section \<open>Properties\<close>

record Properties =
  Directed :: bool
  WeightedSSSP :: bool
  SourceVertex :: int

datatype 'e ldbc_error =
    OpenFailed | ScanFailed | ParseSSSPSource string | ParseBFSSource string
  | VertexParse string | MalformedEdge string | EdgeSrcParse string | EdgeDstParse string
  | EdgeWeightParse string | MalformedSSSP string | DistanceParse string | MissingFile | Callback 'e

definition zero_properties :: Properties where
  "zero_properties = \<lparr>Directed = False, WeightedSSSP = False, SourceVertex = 0\<rparr>"

definition set_property :: "string \<Rightarrow> string \<Rightarrow> Properties \<Rightarrow> 'e ldbc_error + Properties" where
  "set_property key val p =
     (if key = ''graph.directed'' \<or> HasSuffix key ''.directed''
      then Inr (p\<lparr>Directed := EqualFold val ''true''\<rparr>)
      else if key = ''graph.weights'' \<or> HasSuffix key ''.sssp.weight-property''
      then Inr (p\<lparr>WeightedSSSP := True\<rparr>)
      else if key = ''algorithms.sssp.source-vertex'' \<or> HasSuffix key ''.sssp.source-vertex''
      then (case ParseInt val of None \<Rightarrow> Inl (ParseSSSPSource val) | Some n \<Rightarrow> Inr (p\<lparr>SourceVertex := n\<rparr>))
      else if SourceVertex p = 0
        \<and> (key = ''algorithms.bfs.source-vertex'' \<or> HasSuffix key ''.bfs.source-vertex'')
      then (case ParseInt val of None \<Rightarrow> Inl (ParseBFSSource val) | Some n \<Rightarrow> Inr (p\<lparr>SourceVertex := n\<rparr>))
      else Inr p)"

definition property_line :: "string \<Rightarrow> Properties \<Rightarrow> 'e ldbc_error + Properties" where
  "property_line text p =
     (let line = TrimSpace text
      in if line = [] \<or> HasPrefix line ''#'' then Inr p
         else case Cut line (CHR ''='') of
                None \<Rightarrow> Inr p
              | Some (key, val) \<Rightarrow> set_property (TrimSpace key) (TrimSpace val) p)"

definition ReadProperties :: "reader option \<Rightarrow> 'e ldbc_error + Properties" where
  "ReadProperties file =
     (case file of
        None \<Rightarrow> Inl OpenFailed
      | Some r \<Rightarrow> scan_fold MaxScanTokenSize ScanFailed property_line r zero_properties)"

section \<open>Vertices and edges\<close>

definition vertex_line :: "string \<Rightarrow> int list \<Rightarrow> 'e ldbc_error + int list" where
  "vertex_line text out =
     (let s = TrimSpace text
      in if s = [] then Inr out
         else case ParseInt s of None \<Rightarrow> Inl (VertexParse s) | Some n \<Rightarrow> Inr (out @ [n]))"

definition ReadVertices :: "reader option \<Rightarrow> 'e ldbc_error + int list" where
  "ReadVertices file =
     (case file of None \<Rightarrow> Inl OpenFailed | Some r \<Rightarrow> scan_fold buffer_1M ScanFailed vertex_line r [])"

definition parse_edge :: "string \<Rightarrow> 'e ldbc_error + edge" where
  "parse_edge line =
     (let fs = Fields line
      in if length fs < 2 then Inl (MalformedEdge line)
         else case ParseInt (fs ! 0) of
                None \<Rightarrow> Inl (EdgeSrcParse (fs ! 0))
              | Some src \<Rightarrow>
                  (case ParseInt (fs ! 1) of
                     None \<Rightarrow> Inl (EdgeDstParse (fs ! 1))
                   | Some dst \<Rightarrow>
                       if 3 \<le> length fs
                       then (case ParseFloat (fs ! 2) of
                               None \<Rightarrow> Inl (EdgeWeightParse (fs ! 2))
                             | Some w \<Rightarrow> Inr (src, dst, w))
                       else Inr (src, dst, Fin 1)))"

definition edge_line :: "(edge \<Rightarrow> 's \<Rightarrow> 'e + 's) \<Rightarrow> string \<Rightarrow> 's \<Rightarrow> 'e ldbc_error + 's" where
  "edge_line fn text s =
     (let line = TrimSpace text
      in if line = [] then Inr s
         else err_bind (parse_edge line)
                (\<lambda>e. case fn e s of Inl err \<Rightarrow> Inl (Callback err) | Inr s' \<Rightarrow> Inr s'))"

definition ScanEdges :: "reader option \<Rightarrow> (edge \<Rightarrow> 's \<Rightarrow> 'e + 's) \<Rightarrow> 's \<Rightarrow> 'e ldbc_error + 's" where
  "ScanEdges file fn s =
     (case file of None \<Rightarrow> Inl OpenFailed | Some r \<Rightarrow> scan_fold buffer_1M ScanFailed (edge_line fn) r s)"

section \<open>Reference distances\<close>

definition parse_distance :: "string \<Rightarrow> float64 option" where
  "parse_distance f =
     (if EqualFold f ''Infinity'' then Some PInf
      else if f = ''9223372036854775807'' then Some PInf
      else ParseFloat f)"

definition sssp_line :: "string \<Rightarrow> (int \<Rightarrow> float64 option) \<Rightarrow> 'e ldbc_error + (int \<Rightarrow> float64 option)" where
  "sssp_line text out =
     (let line = TrimSpace text
      in if line = [] then Inr out
         else let fs = Fields line
              in if length fs \<noteq> 2 then Inl (MalformedSSSP line)
                 else case ParseInt (fs ! 0) of
                        None \<Rightarrow> Inl (VertexParse (fs ! 0))
                      | Some vid \<Rightarrow>
                          (case parse_distance (fs ! 1) of
                             None \<Rightarrow> Inl (DistanceParse (fs ! 1))
                           | Some d \<Rightarrow> Inr (out(vid \<mapsto> d))))"

definition ReadSSSP :: "reader option \<Rightarrow> 'e ldbc_error + (int \<Rightarrow> float64 option)" where
  "ReadSSSP file =
     (case file of None \<Rightarrow> Inl OpenFailed | Some r \<Rightarrow> scan_fold buffer_1M ScanFailed sssp_line r Map.empty)"

section \<open>Data sets\<close>

record Dataset =
  ds_Name :: string
  ds_Root :: string
  VertexFile :: string
  EdgeFile :: string
  PropsFile :: string
  SSSPRefFile :: string
  ds_Properties :: Properties

text \<open>The file system gives a reader for each path that can be opened.\<close>

definition LoadDataset :: "(string \<Rightarrow> reader option) \<Rightarrow> string \<Rightarrow> 'e ldbc_error + Dataset" where
  "LoadDataset fs dir =
     (let name = path_Base (trim_right (CHR ''/'') dir);
          d = \<lparr>ds_Name = name, ds_Root = dir, VertexFile = path_Join [dir, name @ ''.v''],
               EdgeFile = path_Join [dir, name @ ''.e''],
               PropsFile = path_Join [dir, name @ ''.properties''], SSSPRefFile = [],
               ds_Properties = zero_properties\<rparr>
      in if \<exists>p \<in> set [VertexFile d, EdgeFile d, PropsFile d]. fs p = None then Inl MissingFile
         else
           let candidate = (\<lambda>suffix. path_Join [dir, ''validation'', name @ suffix]);
               ref = (case [c \<leftarrow> map candidate [''-SSSP'', ''-BFS'']. fs c \<noteq> None] of
                        c # cs \<Rightarrow> c
                      | [] \<Rightarrow> candidate ''-SSSP'')
           in err_bind (ReadProperties (fs (PropsFile d)))
                (\<lambda>props. Inr (d\<lparr>SSSPRefFile := ref, ds_Properties := props\<rparr>)))"

end
