(* ===== verification/KPrepare.thy ===== *)
theory KPrepare
  imports KLdbc
begin

text \<open>
  k-shortest-path/cmd/prepare: the parsers of the two road network formats, the edges that a data
  set stands for, and the writers of its files. A written file is its text (the disk does not
  fail); downloading, decompressing gzip and opening zip archives are parameters.
\<close>

section \<open>Data sets\<close>

record road_dataset =
  vertices :: "int list"
  edges :: "edge list"
  directed_set :: bool

datatype prep_error =
    FlagsRequired | FetchFailed | UnknownFormat | OpenError | GzError | ReadError
  | ProblemLine string | ArcFields string | ArcParse string | NoProblemLine
  | ZipOpen | ZipMembers | NodesFile | EdgeParse string | BuildGraph oracle_error | SSSPError oracle_error

text \<open>\<open>make([]int64, n)\<close> panics on a negative length, and on one beyond the address space of 48 bits.\<close>

definition make_int64s :: "int \<Rightarrow> (int \<Rightarrow> int) \<Rightarrow> int list go" where
  "make_int64s n f = (if n < 0 \<or> 2 ^ 45 < n then Panic MakeSliceLen else Ret (map (f \<circ> int) [0..<nat n]))"

section \<open>DIMACS\<close>

text \<open>\<open>gunzip\<close> gives what reading the decompressed bytes returns, or none if the header is bad.\<close>

definition openMaybeGz ::
  "(string \<Rightarrow> reader option) \<Rightarrow> (reader \<Rightarrow> reader option) \<Rightarrow> string \<Rightarrow> prep_error + reader" where
  "openMaybeGz fs gunzip path =
     (case fs path of
        None \<Rightarrow> Inl OpenError
      | Some f \<Rightarrow> if HasSuffix path ''.gz''
                  then (case gunzip f of None \<Rightarrow> Inl GzError | Some r \<Rightarrow> Inr r)
                  else Inr f)"

definition dimacs_arc :: "string \<Rightarrow> edge list \<Rightarrow> prep_error + edge list" where
  "dimacs_arc line es =
     (let f = Fields line
      in if length f \<noteq> 4 then Inl (ArcFields line)
         else case (ParseInt (f ! 1), ParseInt (f ! 2), ParseFloat (f ! 3)) of
                (Some u, Some v, Some w) \<Rightarrow> if u = v then Inr es else Inr (es @ [(u, v, w)])
              | _ \<Rightarrow> Inl (ArcParse line))"

definition dimacs_line :: "string \<Rightarrow> int \<times> edge list \<Rightarrow> prep_error + int \<times> edge list" where
  "dimacs_line line = (\<lambda>(n, es).
     if line = [] then Inr (n, es)
     else if hd line = CHR ''c'' then Inr (n, es)
     else if hd line = CHR ''p'' then
       (let f = Fields line
        in if 3 \<le> length f
           then (case ParseInt (f ! 2) of None \<Rightarrow> Inl (ProblemLine line) | Some n' \<Rightarrow> Inr (n', es))
           else Inr (n, es))
     else if hd line = CHR ''a'' then err_bind (dimacs_arc line es) (\<lambda>es'. Inr (n, es'))
     else Inr (n, es))"

definition parseDIMACS ::
  "(string \<Rightarrow> reader option) \<Rightarrow> (reader \<Rightarrow> reader option) \<Rightarrow> string \<Rightarrow> (prep_error + road_dataset) go" where
  "parseDIMACS fs gunzip path =
     (case err_bind (openMaybeGz fs gunzip path) (\<lambda>r. scan_fold buffer_1M ReadError dimacs_line r (0, [])) of
        Inl e \<Rightarrow> Ret (Inl e)
      | Inr (n, es) \<Rightarrow>
          if n = 0 then Ret (Inl NoProblemLine)
          else go_bind (make_int64s n (\<lambda>i. i + 1))
                 (\<lambda>verts. Ret (Inr \<lparr>vertices = verts, edges = es, directed_set = True\<rparr>)))"

section \<open>CSV\<close>

definition csv_skipped :: "string \<Rightarrow> bool" where
  "csv_skipped line \<longleftrightarrow> line = [] \<or> HasPrefix line ''#''"

text \<open>A member of the archive, if it can be opened, is a reader.\<close>

definition countCSVRows :: "reader option \<Rightarrow> prep_error + int" where
  "countCSVRows f =
     (case f of
        None \<Rightarrow> Inl NodesFile
      | Some r \<Rightarrow>
          scan_fold buffer_1M NodesFile
            (\<lambda>text n. if csv_skipped (TrimSpace text) then Inr n else Inr (n + 1)) r 0)"

record csv_state =
  seen :: "(int \<times> int) set"
  csv_edges :: "edge list"
  skipSelf :: nat
  skipDup :: nat

definition csv_add :: "int \<Rightarrow> int \<Rightarrow> float64 \<Rightarrow> csv_state \<Rightarrow> csv_state" where
  "csv_add s t w c =
     (if s = t then c\<lparr>skipSelf := skipSelf c + 1\<rparr>
      else let key = (if t < s then (t, s) else (s, t))
           in if key \<in> seen c then c\<lparr>skipDup := skipDup c + 1\<rparr>
              else c\<lparr>seen := insert key (seen c), csv_edges := csv_edges c @ [(s, t, w)]\<rparr>)"

definition csv_line :: "string \<Rightarrow> csv_state \<Rightarrow> prep_error + csv_state" where
  "csv_line text c =
     (let line = TrimSpace text
      in if csv_skipped line then Inr c
         else let parts = Split (CHR '','') line
              in if length parts < 4 then Inr c
                 else case (ParseInt (TrimSpace (parts ! 0)), ParseInt (TrimSpace (parts ! 1)),
                            ParseFloat (TrimSpace (parts ! 3))) of
                        (Some s, Some t, Some w) \<Rightarrow> Inr (csv_add s t w c)
                      | _ \<Rightarrow> Inl (EdgeParse line))"

definition csv_start :: csv_state where
  "csv_start = \<lparr>seen = {}, csv_edges = [], skipSelf = 0, skipDup = 0\<rparr>"

text \<open>The last member whose base name is the one wanted.\<close>

definition zip_member :: "string \<Rightarrow> (string \<times> 'f) list \<Rightarrow> 'f option" where
  "zip_member name ms = fold (\<lambda>(n, f) found. if path_Base n = name then Some f else found) ms None"

definition parseCSVZip ::
  "(string \<Rightarrow> (string \<times> reader option) list option) \<Rightarrow> string \<Rightarrow> (prep_error + road_dataset) go" where
  "parseCSVZip archive path =
     (case archive path of
        None \<Rightarrow> Ret (Inl ZipOpen)
      | Some ms \<Rightarrow>
          (case (zip_member ''edges.csv'' ms, zip_member ''nodes.csv'' ms) of
             (Some edgesF, Some nodesF) \<Rightarrow>
               (case countCSVRows nodesF of
                  Inl e \<Rightarrow> Ret (Inl e)
                | Inr nNodes \<Rightarrow>
                    (case (case edgesF of
                             None \<Rightarrow> Inl OpenError
                           | Some r \<Rightarrow> scan_fold buffer_1M ReadError csv_line r csv_start) of
                       Inl e \<Rightarrow> Ret (Inl e)
                     | Inr c \<Rightarrow>
                         go_bind (make_int64s nNodes (\<lambda>i. i))
                           (\<lambda>verts. Ret (Inr \<lparr>vertices = verts, edges = csv_edges c, directed_set = False\<rparr>))))
           | _ \<Rightarrow> Ret (Inl ZipMembers)))"

section \<open>Effective edges\<close>

definition forEachEffectiveEdge ::
  "road_dataset \<Rightarrow> (int \<Rightarrow> int \<Rightarrow> float64 \<Rightarrow> 's \<Rightarrow> 'e + 's) \<Rightarrow> 's \<Rightarrow> 'e + 's" where
  "forEachEffectiveEdge ds fn =
     err_fold (\<lambda>(src, dst, w) s.
         err_bind (fn src dst w s) (\<lambda>s. if \<not> directed_set ds then fn dst src w s else Inr s))
       (edges ds)"

section \<open>Writers\<close>

definition writeVertices :: "int list \<Rightarrow> string" where
  "writeVertices verts = text_of (map show_int verts)"

definition edge_text :: "int \<Rightarrow> int \<Rightarrow> float64 \<Rightarrow> string" where
  "edge_text s t w = show_int s @ '' '' @ show_int t @ '' '' @ format_f6 w"

definition writeEdges :: "road_dataset \<Rightarrow> string \<times> nat" where
  "writeEdges ds =
     (case forEachEffectiveEdge ds
             (\<lambda>s t w (text, count). Inr (text @ text_of [edge_text s t w], count + 1)) ([], 0) of
        Inl (e :: unit) \<Rightarrow> ([], 0)
      | Inr r \<Rightarrow> r)"

definition show_bool :: "bool \<Rightarrow> string" where
  "show_bool b = (if b then ''true'' else ''false'')"

definition property_lines :: "string \<Rightarrow> road_dataset \<Rightarrow> nat \<Rightarrow> int \<Rightarrow> string list" where
  "property_lines name ds nEdges source =
       [''graph.'' @ name @ ''.vertex-file = '' @ name @ ''.v'',
        ''graph.'' @ name @ ''.edge-file = '' @ name @ ''.e'',
        [],
        ''graph.'' @ name @ ''.meta.vertices = '' @ decimal (length (vertices ds)),
        ''graph.'' @ name @ ''.meta.edges = '' @ decimal nEdges,
        [],
        ''graph.'' @ name @ ''.directed = '' @ show_bool (directed_set ds),
        [],
        ''graph.'' @ name @ ''.edge-properties.names = weight'',
        ''graph.'' @ name @ ''.edge-properties.types = real'',
        [],
        ''graph.'' @ name @ ''.algorithms = sssp'',
        [],
        ''graph.'' @ name @ ''.sssp.weight-property = weight'',
        ''graph.'' @ name @ ''.sssp.source-vertex = '' @ show_int source]"

definition writeProperties :: "string \<Rightarrow> road_dataset \<Rightarrow> nat \<Rightarrow> int \<Rightarrow> string" where
  "writeProperties name ds nEdges source = text_of (property_lines name ds nEdges source)"

definition sssp_text :: "(int \<Rightarrow> float64 option) \<Rightarrow> int \<Rightarrow> string" where
  "sssp_text dmap v =
     (case dmap v of
        None \<Rightarrow> show_int v @ '' infinity''
      | Some d \<Rightarrow> if is_inf d 1 then show_int v @ '' infinity'' else show_int v @ '' '' @ format_f6 d)"

definition writeSSSP :: "int list \<Rightarrow> (int \<Rightarrow> float64 option) \<Rightarrow> string" where
  "writeSSSP verts dmap = text_of (map (sssp_text dmap) (sort verts))"

section \<open>The command\<close>

definition build_graph :: "'g graph_ops \<Rightarrow> road_dataset \<Rightarrow> oracle_error + 'g" where
  "build_graph ops ds =
     forEachEffectiveEdge ds (AddEdge ops) (fold (AddNode ops) (vertices ds) (g_empty ops))"

text \<open>The files written, with their paths, and the error that ended the command, if any.\<close>

definition write_dataset ::
  "'g graph_ops \<Rightarrow> ('g \<Rightarrow> int \<Rightarrow> int \<Rightarrow> float64) \<Rightarrow> string \<Rightarrow> string \<Rightarrow> int \<Rightarrow> road_dataset \<Rightarrow>
     (string \<times> string) list \<times> prep_error option" where
  "write_dataset ops dijkstra outDir name source ds =
     (let dir = path_Join [outDir, name];
          (etext, nE) = writeEdges ds;
          files = [(path_Join [dir, name @ ''.v''], writeVertices (vertices ds)),
                   (path_Join [dir, name @ ''.e''], etext),
                   (path_Join [dir, name @ ''.properties''], writeProperties name ds nE source)]
      in case build_graph ops ds of
           Inl e \<Rightarrow> (files, Some (BuildGraph e))
         | Inr g \<Rightarrow>
             (case SSSP ops dijkstra g source of
                Inl e \<Rightarrow> (files, Some (SSSPError e))
              | Inr d \<Rightarrow>
                  (files @ [(path_Join [dir, ''validation'', name @ ''-SSSP''],
                             writeSSSP (vertices ds) d)], None)))"

definition prepare_main ::
  "'g graph_ops \<Rightarrow> ('g \<Rightarrow> int \<Rightarrow> int \<Rightarrow> float64) \<Rightarrow> (string \<Rightarrow> reader option) \<Rightarrow>
     (reader \<Rightarrow> reader option) \<Rightarrow> (string \<Rightarrow> (string \<times> reader option) list option) \<Rightarrow>
     (string \<Rightarrow> string option) \<Rightarrow> string \<Rightarrow> string \<Rightarrow> string \<Rightarrow> string \<Rightarrow> int \<Rightarrow>
     ((string \<times> string) list \<times> prep_error option) go" where
  "prepare_main ops dijkstra fs gunzip archive fetch url format name outDir source =
     (if url = [] \<or> format = [] \<or> name = [] then Ret ([], Some FlagsRequired)
      else case fetch url of
             None \<Rightarrow> Ret ([], Some FetchFailed)
           | Some path \<Rightarrow>
               go_bind (if format = ''dimacs'' then parseDIMACS fs gunzip path
                        else if format = ''csv'' then parseCSVZip archive path
                        else Ret (Inl UnknownFormat))
                 (\<lambda>r. case r of
                        Inl e \<Rightarrow> Ret ([], Some e)
                      | Inr ds \<Rightarrow> Ret (write_dataset ops dijkstra outDir name source ds)))"

end
