(* ===== verification/KFiles.thy ===== *)
theory KFiles
  imports KPrepare
begin

text \<open>
  The files that cmd/prepare writes are read back by internal/ldbc: numbers with six decimals,
  lines of edges, vertices and distances, and the properties.
\<close>

section \<open>Numbers with six decimals\<close>

text \<open>A weight after printing with six decimals and reading again.\<close>

fun round6 :: "float64 \<Rightarrow> float64" where
  "round6 (Fin x) = fround (of_int (round_even (x * 1000000)) / 1000000)"
| "round6 w = w"

definition road_weight :: "float64 \<Rightarrow> bool" where
  "road_weight w \<longleftrightarrow> (\<exists>x. w = Fin x \<and> 0 \<le> x \<and> x \<le> 2 ^ 52)"

lemma round_even_nonneg: "0 \<le> x \<Longrightarrow> 0 \<le> round_even x"
  using round_even_mono [of 0 x] round_even_of_int [of 0] by simp

lemma round_even_le_int: "x \<le> of_int n \<Longrightarrow> round_even x \<le> n"
  using round_even_mono [of x "of_int n"] by simp

lemma f6_chars:
  assumes "0 \<le> x"
  shows "format_f6 (Fin x) = decimal (nat (round_even (x * 1000000)) div 1000000) @ ''.'' @
    pad6 (nat (round_even (x * 1000000)) mod 1000000)"
  using assms by (simp add: Let_def)

lemma pad6_digits: "c \<in> set (pad6 (k mod 1000000)) \<Longrightarrow> is_digit c"
  using pad6 [of "k mod 1000000"] by simp

lemma f6_word: "0 \<le> x \<Longrightarrow> c \<in> set (format_f6 (Fin x)) \<Longrightarrow> is_digit c \<or> c = CHR ''.''"
  unfolding f6_chars by (auto intro: decimal_digits pad6_digits)

lemma f6_hd: "0 \<le> x \<Longrightarrow> is_digit (hd (format_f6 (Fin x)))"
  unfolding f6_chars by (simp add: hd_decimal_digit)

lemma f6_last: "0 \<le> x \<Longrightarrow> is_digit (last (format_f6 (Fin x)))"
proof -
  assume x: "0 \<le> x"
  let ?p = "pad6 (nat (round_even (x * 1000000)) mod 1000000)"
  have "?p \<noteq> []" "\<forall>c \<in> set ?p. is_digit c" using pad6 [of "nat (round_even (x * 1000000)) mod 1000000"] by auto
  then show ?thesis unfolding f6_chars [OF x] by (simp add: last_append)
qed

lemma word_chars_f6: "0 \<le> x \<Longrightarrow> word_chars (format_f6 (Fin x))"
proof (rule word_chars_visible)
  assume x: "0 \<le> x"
  show "format_f6 (Fin x) \<noteq> []" unfolding f6_chars [OF x] by simp
  have "visible (CHR ''.'')" by (simp add: visible_def is_space_def)
  then show "\<forall>c \<in> set (format_f6 (Fin x)). visible c" using f6_word [OF x] digit_visible by blast
qed

lemma f6_plain: "0 \<le> x \<Longrightarrow> CHR 0x0A \<notin> set (format_f6 (Fin x)) \<and> CHR 0x0D \<notin> set (format_f6 (Fin x))"
  using f6_word [of x] digit_not_newline by fastforce

lemma length_f6: "0 \<le> x \<Longrightarrow> x \<le> 2 ^ 52 \<Longrightarrow> length (format_f6 (Fin x)) \<le> 27"
proof -
  assume x: "0 \<le> x" "x \<le> 2 ^ 52"
  let ?k = "nat (round_even (x * 1000000))"
  have "round_even (x * 1000000) \<le> 2 ^ 52 * 1000000" using x(2) by (intro round_even_le_int) simp
  then have "?k div 1000000 < 10 ^ 20" by simp
  then have "length (decimal (?k div 1000000)) \<le> 20" by (rule length_decimal) simp
  moreover have "length (pad6 (?k mod 1000000)) = 6" using pad6 [of "?k mod 1000000"] by simp
  ultimately show ?thesis unfolding f6_chars [OF x(1)] by simp
qed

lemma hd_ToLower: "s \<noteq> [] \<Longrightarrow> hd (ToLower s) = to_lower (hd s)"
  by (cases s) (simp_all add: ToLower_def)

lemma digit_head_plain:
  assumes "s \<noteq> []" and "is_digit (hd s)"
  shows "strip_sign s = (False, s)" and "ToLower s \<notin> {''inf'', ''infinity'', ''nan''}"
proof -
  show "strip_sign s = (False, s)"
    using assms digit_not_sign [of "hd s"] by (cases s) (auto simp: strip_sign_def)
  have "is_digit (hd (ToLower s))" using assms by (simp add: hd_ToLower to_lower_digit)
  moreover have "\<not> is_digit (CHR ''i'')" "\<not> is_digit (CHR ''n'')" by (simp_all add: is_digit_def)
  ultimately show "ToLower s \<notin> {''inf'', ''infinity'', ''nan''}" by auto
qed

lemma round6_finite:
  assumes "0 \<le> x" and "x \<le> 2 ^ 52"
  obtains y where "round6 (Fin x) = Fin y" and "0 \<le> y" and "y \<le> 2 ^ 52"
proof -
  let ?r = "of_int (round_even (x * 1000000)) / 1000000 :: rat"
  have "round_even (x * 1000000) \<le> 2 ^ 52 * 1000000" using assms(2) by (intro round_even_le_int) simp
  then have "of_int (round_even (x * 1000000)) \<le> (of_int (2 ^ 52 * 1000000) :: rat)" by (simp only: of_int_le_iff)
  then have "?r \<le> of_int (2 ^ 52)" by simp
  then have "fle (fround ?r) (fround (of_int (2 ^ 52)))" by (rule fround_mono)
  moreover have "fround (of_int (2 ^ 52)) = Fin (2 ^ 52)"
    using float_of_int_exact [of "2 ^ 52"] by (simp add: float_of_int_def)
  moreover have "fle (Fin 0) (fround ?r)" using round_even_nonneg [of "x * 1000000"] assms(1) by (intro fround_nonneg) simp
  ultimately show ?thesis using that by (cases "fround ?r") auto
qed

lemma ParseFloat_f6:
  assumes "0 \<le> x" and "x \<le> 2 ^ 52"
  shows "ParseFloat (format_f6 (Fin x)) = Some (round6 (Fin x))"
proof -
  let ?s = "format_f6 (Fin x)" and ?k = "nat (round_even (x * 1000000))"
  have ne: "?s \<noteq> []" unfolding f6_chars [OF assms(1)] by simp
  have "CHR ''_'' \<notin> set ?s" using f6_word [OF assms(1)] digit_not_sign by fastforce
  moreover have "literal ?s = Some (of_nat ?k / 1000000)" unfolding f6_chars [OF assms(1)] by (rule literal_f6)
  moreover have "of_nat ?k = (of_int (round_even (x * 1000000)) :: rat)"
    using round_even_nonneg [of "x * 1000000"] assms(1) by simp
  moreover obtain y where "round6 (Fin x) = Fin y" using round6_finite [OF assms] by blast
  ultimately show ?thesis
    using digit_head_plain [OF ne f6_hd [OF assms(1)]] by (simp del: format_f6.simps add: ParseFloat_def)
qed

lemma round6_int:
  assumes "0 \<le> n" and "n < 2 ^ 53"
  shows "round6 (Fin (of_int n)) = Fin (of_int n)"
proof -
  have "round_even (of_int n * 1000000) = n * 1000000" using round_even_of_int [of "n * 1000000"] by simp
  then show ?thesis using float_of_int_exact [OF assms] by (simp add: float_of_int_def)
qed

section \<open>Lines of edges\<close>

text \<open>The directed edges that a data set stands for.\<close>

definition effective :: "road_dataset \<Rightarrow> edge list" where
  "effective ds =
     concat (map (\<lambda>(s, t, w). if directed_set ds then [(s, t, w)] else [(s, t, w), (t, s, w)]) (edges ds))"

definition road_edge :: "edge \<Rightarrow> bool" where
  "road_edge = (\<lambda>(s, t, w). in_int64 s \<and> in_int64 t \<and> road_weight w)"

definition round_edge :: "edge \<Rightarrow> edge" where
  "round_edge = (\<lambda>(s, t, w). (s, t, round6 w))"

lemma road_weightE:
  assumes "road_weight w"
  obtains x where "w = Fin x" and "0 \<le> x" and "x \<le> 2 ^ 52"
  using assms by (auto simp: road_weight_def)

lemma forEach_effective:
  "forEachEffectiveEdge ds fn s = err_fold (\<lambda>(s, t, w). fn s t w) (effective ds) s"
proof -
  have "err_fold (\<lambda>(src, dst, w) s.
            err_bind (fn src dst w s) (\<lambda>s. if \<not> directed_set ds then fn dst src w s else Inr s)) es s
      = err_fold (\<lambda>(s, t, w). fn s t w)
          (concat (map (\<lambda>(s, t, w). if directed_set ds then [(s, t, w)] else [(s, t, w), (t, s, w)]) es)) s"
    for es
  proof (induction es arbitrary: s)
    case (Cons e es)
    obtain a b w where "e = (a, b, w)" by (cases e)
    then show ?case
      using Cons.IH by (cases "directed_set ds") (auto simp: err_bind_def err_fold_append split: sum.splits)
  qed simp
  then show ?thesis by (simp add: forEachEffectiveEdge_def effective_def)
qed

lemma writeEdges_text:
  "writeEdges ds = (text_of (map (\<lambda>(s, t, w). edge_text s t w) (effective ds)), length (effective ds))"
proof -
  have "err_fold (\<lambda>(s, t, w) (text, count). Inr (text @ text_of [edge_text s t w], count + 1)) es (u, n)
      = (Inr (u @ text_of (map (\<lambda>(s, t, w). edge_text s t w) es), n + length es) :: unit + string \<times> nat)"
    for es u n
    by (induction es arbitrary: u n) auto
  then show ?thesis by (simp add: writeEdges_def forEach_effective case_prod_unfold)
qed

lemma edge_text_plain: "road_edge (s, t, w) \<Longrightarrow> plain_line buffer_1M (edge_text s t w)"
proof -
  assume "road_edge (s, t, w)"
  then obtain x where w: "w = Fin x" "0 \<le> x" "x \<le> 2 ^ 52" and st: "in_int64 s" "in_int64 t"
    by (auto simp: road_edge_def road_weight_def)
  show ?thesis
    using f6_plain [OF w(2)] length_f6 [OF w(2,3)] length_show_int [OF st(1)] length_show_int [OF st(2)]
      show_int_plain w(1)
    by (simp del: format_f6.simps add: plain_line_def edge_text_def buffer_1M_def)
qed

lemma show_int_nonempty: "show_int n \<noteq> []"
  using word_show_int [of n] by (simp add: word_chars_def)

lemma hd_show_int: "visible (hd (show_int n))" and last_show_int: "visible (last (show_int n))"
  using show_int_visible [of _ n] show_int_nonempty [of n] by simp_all

lemma edge_text_trim: "road_edge (s, t, w) \<Longrightarrow> edge_text s t w \<noteq> [] \<and> TrimSpace (edge_text s t w) = edge_text s t w"
proof -
  assume "road_edge (s, t, w)"
  then obtain x where w: "w = Fin x" "0 \<le> x" by (auto simp: road_edge_def road_weight_def)
  have ne: "show_int s \<noteq> []" "format_f6 w \<noteq> []"
    using word_show_int [of s] word_chars_f6 [OF w(2)] w(1) by (auto simp: word_chars_def)
  have "hd (edge_text s t w) = hd (show_int s)" using ne by (simp add: edge_text_def)
  moreover have "last (edge_text s t w) = last (format_f6 w)" using ne(2) by (simp add: edge_text_def)
  moreover have "visible (last (format_f6 w))" using f6_last [OF w(2)] digit_visible w(1) by blast
  moreover have "edge_text s t w \<noteq> []" by (simp add: edge_text_def)
  ultimately show ?thesis using TrimSpace_id hd_show_int by metis
qed

lemma parse_edge_text:
  assumes "road_edge (s, t, w)"
  shows "parse_edge (edge_text s t w) = Inr (s, t, round6 w)"
proof -
  obtain x where w: "w = Fin x" "0 \<le> x" "x \<le> 2 ^ 52" and st: "in_int64 s" "in_int64 t"
    using assms by (auto simp: road_edge_def road_weight_def)
  have "Fields (edge_text s t w) = [show_int s, show_int t, format_f6 w]"
    using word_chars_f6 [OF w(2)] w(1)
    by (simp del: format_f6.simps add: edge_text_def Fields_cons_word Fields_word word_show_int)
  then show ?thesis
    using ParseFloat_f6 [OF w(2,3)] w(1) st
    by (simp del: format_f6.simps round6.simps add: parse_edge_def ParseInt_show_int)
qed

lemma edge_line_text:
  "road_edge (s, t, w) \<Longrightarrow> edge_line fn (edge_text s t w) st
     = (case fn (s, t, round6 w) st of Inl e \<Rightarrow> Inl (Callback e) | Inr st' \<Rightarrow> Inr st')"
  using edge_text_trim [of s t w] by (simp add: edge_line_def parse_edge_text)

text \<open>Scanning a file of edges is a fold over the edges with their weights rounded.\<close>

lemma scan_edge_texts:
  assumes "\<forall>e \<in> set es. road_edge e"
  shows "ScanEdges (Some (text_of (map (\<lambda>(s, t, w). edge_text s t w) es), False)) fn st
    = (case err_fold fn (map round_edge es) st of Inl e \<Rightarrow> Inl (Callback e) | Inr st' \<Rightarrow> Inr st')"
proof -
  have plain: "\<forall>l \<in> set (map (\<lambda>(s, t, w). edge_text s t w) es). plain_line buffer_1M l"
    using assms edge_text_plain by auto
  have "err_fold (edge_line fn) (map (\<lambda>(s, t, w). edge_text s t w) es) st
    = (case err_fold fn (map round_edge es) st of Inl e \<Rightarrow> Inl (Callback e) | Inr st' \<Rightarrow> Inr st')"
    using assms
  proof (induction es arbitrary: st)
    case (Cons e es)
    obtain a b w where "e = (a, b, w)" by (cases e)
    then show ?case
      using Cons by (cases "fn (a, b, round6 w) st") (simp_all add: round_edge_def edge_line_text)
  qed simp
  then show ?thesis by (simp only: ScanEdges_def option.case scan_fold_text [OF plain])
qed

lemma effective_set:
  "set (effective ds) = set (edges ds) \<union> (if directed_set ds then {} else {(t, s, w) | s t w. (s, t, w) \<in> set (edges ds)})"
  by (force simp: effective_def split: if_splits)

lemma effective_road: "\<forall>e \<in> set (edges ds). road_edge e \<Longrightarrow> \<forall>e \<in> set (effective ds). road_edge e"
  by (auto simp: effective_set road_edge_def split: if_splits)

section \<open>Lines of vertices and distances\<close>

lemma show_int_line: "in_int64 n \<Longrightarrow> plain_line buffer_1M (show_int n) \<and> TrimSpace (show_int n) = show_int n"
proof -
  assume n: "in_int64 n"
  show ?thesis
    using n length_show_int [OF n] show_int_plain hd_show_int [of n] last_show_int [of n] show_int_nonempty [of n]
    by (simp add: plain_line_def buffer_1M_def TrimSpace_id)
qed

lemma vertex_line_text: "in_int64 n \<Longrightarrow> vertex_line (show_int n) out = Inr (out @ [n])"
  using word_show_int [of n] by (simp add: vertex_line_def show_int_line ParseInt_show_int word_chars_def)

lemma read_written_vertices:
  assumes "\<forall>v \<in> set vs. in_int64 v"
  shows "ReadVertices (Some (writeVertices vs, False)) = (Inr vs :: 'e ldbc_error + int list)"
proof -
  have "err_fold vertex_line (map show_int vs) out = (Inr (out @ vs) :: 'e ldbc_error + int list)" for out
    using assms by (induction vs arbitrary: out) (simp_all add: vertex_line_text)
  moreover have "\<forall>l \<in> set (map show_int vs). plain_line buffer_1M l" using assms show_int_line by auto
  ultimately show ?thesis by (simp add: ReadVertices_def writeVertices_def scan_fold_text)
qed

lemma lower_infinity: "ToLower ''Infinity'' = ''infinity''"
  by code_simp

text \<open>A distance as the reference file gives it back.\<close>

definition good_distance :: "float64 option \<Rightarrow> bool" where
  "good_distance d \<longleftrightarrow> d = None \<or> d = Some PInf \<or> (\<exists>w. d = Some w \<and> road_weight w)"

definition read_distance :: "float64 option \<Rightarrow> float64" where
  "read_distance d = (case d of None \<Rightarrow> PInf | Some w \<Rightarrow> round6 w)"

lemma sssp_line_text:
  assumes "in_int64 v" and "good_distance (d v)"
  shows "sssp_line (sssp_text d v) out = Inr (out(v \<mapsto> read_distance (d v)))"
    and "plain_line buffer_1M (sssp_text d v)"
proof -
  have inf: "word_chars ''infinity''" "visible (last ''infinity'')"
    by (rule word_chars_visible) (simp_all add: visible_def is_space_def)
  obtain f where f: "sssp_text d v = show_int v @ '' '' @ f" "word_chars f"
    "parse_distance f = Some (read_distance (d v))" "CHR 0x0A \<notin> set f" "CHR 0x0D \<notin> set f" "length f \<le> 27"
    "visible (last f)"
  proof -
    have pd: "parse_distance ''infinity'' = Some PInf"
      by code_simp
    consider "d v = None \<or> d v = Some PInf" | x where "d v = Some (Fin x)" "0 \<le> x" "x \<le> 2 ^ 52"
      using assms(2) by (auto simp: good_distance_def road_weight_def)
    then show thesis
    proof cases
      case 1
      then show thesis using that [of "''infinity''"] inf pd by (auto simp: sssp_text_def read_distance_def)
    next
      case 2
      let ?f = "format_f6 (Fin x)"
      have w: "word_chars ?f" by (rule word_chars_f6 [OF 2(2)])
      then have ne: "?f \<noteq> []" by (simp add: word_chars_def)
      have "\<not> EqualFold ?f ''Infinity''"
        using digit_head_plain(2) [OF ne f6_hd [OF 2(2)]]
          lower_infinity by (simp only: EqualFold_def) simp
      moreover have "?f \<noteq> ''9223372036854775807''"
      proof -
        have "CHR ''.'' \<in> set ?f" unfolding f6_chars [OF 2(2)] by simp
        then show ?thesis by auto
      qed
      ultimately have "parse_distance ?f = Some (round6 (Fin x))"
        using ParseFloat_f6 [OF 2(2,3)] by (simp del: format_f6.simps round6.simps add: parse_distance_def)
      then show thesis
        using that [of ?f] w f6_plain [OF 2(2)] length_f6 [OF 2(2,3)] 2(1) digit_visible [OF f6_last [OF 2(2)]]
        by (simp del: format_f6.simps round6.simps add: sssp_text_def read_distance_def)
    qed
  qed
  have ne: "f \<noteq> []" "show_int v \<noteq> []" using f(2) word_show_int [of v] by (auto simp: word_chars_def)
  have trim: "TrimSpace (sssp_text d v) = sssp_text d v"
    using ne hd_show_int [of v] f(1,7) by (intro TrimSpace_id) simp_all
  have "Fields (sssp_text d v) = [show_int v, f]"
    using f(1,2) by (simp add: Fields_cons_word Fields_word word_show_int)
  then show "sssp_line (sssp_text d v) out = Inr (out(v \<mapsto> read_distance (d v)))"
    using trim f(1,3) ne assms(1) by (simp add: sssp_line_def ParseInt_show_int)
  show "plain_line buffer_1M (sssp_text d v)"
    using f length_show_int [OF assms(1)] show_int_plain by (simp add: plain_line_def buffer_1M_def)
qed

lemma read_written_SSSP:
  assumes "\<forall>v \<in> set vs. in_int64 v \<and> good_distance (d v)"
  shows "ReadSSSP (Some (writeSSSP vs d, False))
    = (Inr (\<lambda>v. if v \<in> set vs then Some (read_distance (d v)) else None) :: 'e ldbc_error + (int \<Rightarrow> float64 option))"
proof -
  have "err_fold sssp_line (map (sssp_text d) ws) out
      = (Inr (\<lambda>v. if v \<in> set ws then Some (read_distance (d v)) else out v)
          :: 'e ldbc_error + (int \<Rightarrow> float64 option))"
    if "\<forall>v \<in> set ws. in_int64 v \<and> good_distance (d v)" for ws out
    using that
  proof (induction ws arbitrary: out)
    case (Cons w ws)
    then show ?case by (simp add: sssp_line_text fun_eq_iff)
  qed simp
  from this [of "sort vs" Map.empty] assms
  have "err_fold sssp_line (map (sssp_text d) (sort vs)) Map.empty
      = (Inr (\<lambda>v. if v \<in> set vs then Some (read_distance (d v)) else None)
          :: 'e ldbc_error + (int \<Rightarrow> float64 option))" by simp
  moreover have "\<forall>l \<in> set (map (sssp_text d) (sort vs)). plain_line buffer_1M l"
    using assms sssp_line_text(2) by auto
  ultimately show ?thesis by (simp add: ReadSSSP_def writeSSSP_def scan_fold_text)
qed

end
