(* ===== verification/KClient.thy ===== *)
theory KClient
  imports GoTextFacts "HOL-Library.Multiset"
begin

text \<open>
  k-shortest-path/internal/client: the map from vertex ids to uids with its cache file, and
  shortest path queries with the check of the paths that come back. The Dgraph client is a
  parameter: what the server answers to a query, already parsed from JSON.
\<close>

section \<open>JSON values\<close>

text \<open>What \<open>encoding/json\<close> decodes into \<open>any\<close>; of two members with one key the later counts.\<close>

datatype json =
    JNull | JBool bool | JFloat float64 | JNumber string | JString string | JArray "json list"
  | JObject "(string \<times> json) list"

type_synonym json_object = "(string \<times> json) list"

definition jget :: "json_object \<Rightarrow> string \<Rightarrow> json option" where
  "jget ms k = map_of (rev ms) k"

lemma jget_member: "jget ms k = Some j \<Longrightarrow> (k, j) \<in> set ms"
  using map_of_SomeD [of "rev ms" k j] by (simp add: jget_def)

section \<open>Vertices\<close>

definition Schema :: string where
  "Schema = [CHR 0x0A] @ ''graphalytics_id: int @index(int) .'' @ [CHR 0x0A]
     @ ''connected: [uid] @reverse .'' @ [CHR 0x0A]"

type_synonym uid_map = "int \<Rightarrow> string option"

datatype client_error =
  QueryFailed string | DeadlineExceeded string | DecodeFailed | UidOpen | UidParse string | UidScan

text \<open>
  \<open>serve first offset\<close> is the page that the query with these two numbers gives: vertices as
  (uid, graphalytics_id). A page size that is not positive can keep the loop going forever.
\<close>

partial_function (option) fetch_loop ::
  "(int \<Rightarrow> int \<Rightarrow> client_error + (string \<times> int) list) \<Rightarrow> int \<Rightarrow> int \<Rightarrow> uid_map \<Rightarrow>
     (client_error + uid_map) option" where
  "fetch_loop serve pageSize offset out =
     (case serve pageSize offset of
        Inl e \<Rightarrow> Some (Inl e)
      | Inr vs \<Rightarrow>
          if vs = [] then Some (Inr out)
          else let out = fold (\<lambda>(uid, gid) m. m(gid \<mapsto> uid)) vs out
               in if int (length vs) < pageSize then Some (Inr out)
                  else fetch_loop serve pageSize (wrap64 (offset + pageSize)) out)"

definition FetchUIDMap ::
  "(int \<Rightarrow> int \<Rightarrow> client_error + (string \<times> int) list) \<Rightarrow> int \<Rightarrow> (client_error + uid_map) option" where
  "FetchUIDMap serve pageSize = fetch_loop serve pageSize 0 Map.empty"

text \<open>The map is saved in the order \<open>m\<close> in which Go iterates over it.\<close>

definition uid_line :: "int \<times> string \<Rightarrow> string" where
  "uid_line = (\<lambda>(gid, uid). show_int gid @ CHR 0x09 # uid)"

definition SaveUIDMap :: "(int \<times> string) list \<Rightarrow> string" where
  "SaveUIDMap m = text_of (map uid_line m)"

definition load_line :: "string \<Rightarrow> uid_map \<Rightarrow> client_error + uid_map" where
  "load_line line out =
     (case Cut line (CHR 0x09) of
        None \<Rightarrow> Inr out
      | Some (a, b) \<Rightarrow>
          (case ParseInt a of None \<Rightarrow> Inl (UidParse a) | Some gid \<Rightarrow> Inr (out(gid \<mapsto> b))))"

definition LoadUIDMap :: "reader option \<Rightarrow> client_error + uid_map" where
  "LoadUIDMap file =
     (case file of None \<Rightarrow> Inl UidOpen | Some r \<Rightarrow> scan_fold buffer_1M UidScan load_line r Map.empty)"

section \<open>Shortest paths\<close>

record ShortestOptions =
  SrcUID :: string
  DstUID :: string
  EdgePred :: string
  NumPaths :: int
  MaxFrontier :: int
  Timeout :: int

record ShortestResult =
  Distance :: float64
  Weights :: "float64 list"
  Latency :: int
  PathCount :: nat
  SelfConsistent :: bool
  Loopless :: bool
  MaxWeightErr :: float64

definition toFloat :: "json option \<Rightarrow> float64 \<times> bool" where
  "toFloat v =
     (case v of
        Some (JFloat x) \<Rightarrow> (x, True)
      | Some (JNumber s) \<Rightarrow> (case ParseFloat s of Some x \<Rightarrow> (x, True) | None \<Rightarrow> (Fin 0, False))
      | _ \<Rightarrow> (Fin 0, False))"

text \<open>The child of a node: an object, or an array of one object.\<close>

fun child_of :: "json \<Rightarrow> json_object option" where
  "child_of (JObject o') = Some o'"
| "child_of (JArray [JObject o']) = Some o'"
| "child_of _ = None"

definition object_size :: "json_object \<Rightarrow> nat" where
  "object_size ms = size (JObject ms)"

lemma child_smaller: "child_of j = Some ms \<Longrightarrow> object_size ms \<le> size j"
  by (induction j rule: child_of.induct) (simp_all add: object_size_def)

lemma jget_smaller: "jget ms k = Some j \<Longrightarrow> size j < object_size ms"
proof -
  assume "jget ms k = Some j"
  then have "(k, j) \<in> set ms" by (rule jget_member)
  then have "size_prod (\<lambda>_. 0) size (k, j) \<le> size_list (size_prod (\<lambda>_. 0) size) ms"
    by (rule size_list_estimation') simp
  then show ?thesis by (simp add: object_size_def)
qed

function walk :: "string \<Rightarrow> float64 \<Rightarrow> string set \<Rightarrow> json_object \<Rightarrow> float64 \<times> bool \<times> bool" where
  "walk edge acc seen cur =
     (case jget cur edge of
        None \<Rightarrow> (acc, True, True)
      | Some childRaw \<Rightarrow>
          (case child_of childRaw of
             None \<Rightarrow> (acc, True, False)
           | Some child \<Rightarrow>
               let (w, wok) = toFloat (jget child (edge @ ''|weight''))
               in if \<not> wok then (acc, True, False)
                  else let acc = fadd acc w
                       in case jget child ''uid'' of
                            Some (JString u) \<Rightarrow>
                              if u \<in> seen then (acc, False, True)
                              else walk edge acc (insert u seen) child
                          | _ \<Rightarrow> walk edge acc seen child))"
  by pat_completeness auto
termination
  by (relation "measure (\<lambda>(edge, acc, seen, cur). object_size cur)")
    (auto dest!: child_smaller jget_smaller)

declare walk.simps [simp del]

definition walkPath :: "json_object \<Rightarrow> string \<Rightarrow> float64 \<times> bool \<times> bool" where
  "walkPath node edge =
     walk edge (Fin 0) (case jget node ''uid'' of Some (JString u) \<Rightarrow> {u} | _ \<Rightarrow> {}) node"

text \<open>The text of the query, with the defaults of the options.\<close>

definition edge_of :: "ShortestOptions \<Rightarrow> string" where
  "edge_of opts = (if EdgePred opts = [] then ''connected'' else EdgePred opts)"

definition shortest_query :: "ShortestOptions \<Rightarrow> string" where
  "shortest_query opts =
     (let numPaths = (if NumPaths opts < 1 then 1 else NumPaths opts);
          frontier = (if 0 < MaxFrontier opts then '', maxfrontiersize: '' @ show_int (MaxFrontier opts) else []);
          nl = (\<lambda>tabs s. CHR 0x0A # replicate tabs (CHR 0x09) @ s)
      in nl 1 ''{'' @
         nl 2 (''path as shortest(from: '' @ SrcUID opts @ '', to: '' @ DstUID opts @ '', numpaths: ''
               @ show_int numPaths @ frontier @ '') {'') @
         nl 3 (edge_of opts @ '' @facets(weight)'') @ nl 2 ''}'' @
         nl 2 ''result(func: uid(path)) {'' @ nl 3 ''uid'' @ nl 2 ''}'' @ nl 1 ''}'')"

text \<open>The member \<open>_path_\<close>: an array of objects; a null stands for nothing.\<close>

definition as_object :: "json \<Rightarrow> json_object option" where
  "as_object j = (case j of JObject ms \<Rightarrow> Some ms | JNull \<Rightarrow> Some [] | _ \<Rightarrow> None)"

definition decode_paths :: "json \<Rightarrow> json_object list option" where
  "decode_paths body =
     (case as_object body of
        None \<Rightarrow> None
      | Some ms \<Rightarrow>
          (case jget ms ''_path_'' of
             None \<Rightarrow> Some []
           | Some JNull \<Rightarrow> Some []
           | Some (JArray js) \<Rightarrow> those (map as_object js)
           | Some _ \<Rightarrow> None))"

record walk_state =
  ws_weights :: "float64 list"
  selfConsistent :: bool
  loopless :: bool
  maxErr :: float64

definition weight_differs :: "float64 \<Rightarrow> float64 \<Rightarrow> bool" where
  "weight_differs summed reported =
     flt (fadd (fround (1 / 1000000)) (fmul (fround (1 / 1000000000)) (fabs reported)))
       (fabs (fsub summed reported))"

definition check_path :: "string \<Rightarrow> json_object \<Rightarrow> walk_state \<Rightarrow> walk_state" where
  "check_path edge p st =
     (let (reported, hasReported) = toFloat (jget p ''_weight_'');
          st = (if hasReported then st\<lparr>ws_weights := ws_weights st @ [reported]\<rparr> else st);
          (summed, noLoop, ok) = walkPath p edge
      in if \<not> ok \<or> \<not> noLoop
         then st\<lparr>loopless := loopless st \<and> noLoop, selfConsistent := False\<rparr>
         else if hasReported then
           (let e = fabs (fsub summed reported);
                st = (if flt (maxErr st) e then st\<lparr>maxErr := e\<rparr> else st)
            in if weight_differs summed reported then st\<lparr>selfConsistent := False\<rparr> else st)
         else st)"

definition walk_start :: walk_state where
  "walk_start = \<lparr>ws_weights = [], selfConsistent = True, loopless = True, maxErr = Fin 0\<rparr>"

definition zero_result :: "int \<Rightarrow> ShortestResult" where
  "zero_result elapsed =
     \<lparr>Distance = Fin 0, Weights = [], Latency = elapsed, PathCount = 0, SelfConsistent = False,
      Loopless = False, MaxWeightErr = Fin 0\<rparr>"

text \<open>
  \<open>query q timeout\<close> is the error or the answer of the server (none if it is not JSON), with the
  time it took; a timeout that is not positive is no timeout.
\<close>

definition Shortest ::
  "(string \<Rightarrow> int option \<Rightarrow> (client_error + json option) \<times> int) \<Rightarrow> ShortestOptions \<Rightarrow>
     ShortestResult \<times> client_error option" where
  "Shortest query opts =
     (let edge = edge_of opts;
          (resp, elapsed) =
            query (shortest_query opts) (if 0 < Timeout opts then Some (Timeout opts) else None)
      in case resp of
           Inl e \<Rightarrow> ((zero_result elapsed)\<lparr>Distance := PInf\<rparr>, Some e)
         | Inr body \<Rightarrow>
             (case Option.bind body decode_paths of
                None \<Rightarrow> (zero_result elapsed, Some DecodeFailed)
              | Some paths \<Rightarrow>
                  if paths = [] then ((zero_result elapsed)\<lparr>Distance := PInf\<rparr>, None)
                  else let st = fold (check_path edge) paths walk_start;
                           ws = sort (ws_weights st)
                       in (\<lparr>Distance = (if ws = [] then PInf else ws ! 0), Weights = ws,
                            Latency = elapsed, PathCount = length paths,
                            SelfConsistent = selfConsistent st, Loopless = loopless st,
                            MaxWeightErr = maxErr st\<rparr>, None)))"

end
