(* ===== verification/KCompare.thy ===== *)
theory KCompare
  imports GoFloat
begin

text \<open>
  k-shortest-path/internal/compare: the verdict on a vector of path costs against the oracle's,
  by the largest relative error over the ranks that both have.
\<close>

section \<open>Model\<close>

datatype Verdict = OK | CountMismatch | WeightMismatch

fun Verdict_String :: "Verdict \<Rightarrow> string" where
  "Verdict_String OK = ''ok''"
| "Verdict_String CountMismatch = ''count_mismatch''"
| "Verdict_String WeightMismatch = ''weight_mismatch''"

record cmp_result =
  cr_Verdict :: Verdict
  OracleK :: nat
  DgraphK :: nat
  WorstRelErr :: float64

definition cmp_relErr :: "float64 \<Rightarrow> float64 \<Rightarrow> float64" where
  "cmp_relErr expected got =
     (if feq expected got then Fin 0
      else if is_inf expected 0 \<or> is_inf got 0 then PInf
      else let denom = fabs expected;
               denom = (if feq denom (Fin 0) then Fin 1 else denom)
           in fdiv (fabs (fsub expected got)) denom)"

text \<open>The loop over the ranks below the shorter length.\<close>

definition worstRelErr :: "float64 list \<Rightarrow> float64 list \<Rightarrow> float64" where
  "worstRelErr a b =
     fold (\<lambda>i worst. let e = cmp_relErr (a ! i) (b ! i) in if flt worst e then e else worst)
       [0..<min (length a) (length b)] (Fin 0)"

definition Vectors :: "float64 list \<Rightarrow> float64 list \<Rightarrow> float64 \<Rightarrow> cmp_result" where
  "Vectors oracle got tol =
     (let r = \<lparr>cr_Verdict = OK, OracleK = length oracle, DgraphK = length got, WorstRelErr = Fin 0\<rparr>
      in if length oracle \<noteq> length got
         then r\<lparr>WorstRelErr := worstRelErr oracle got, cr_Verdict := CountMismatch\<rparr>
         else let worst = worstRelErr oracle got; r = r\<lparr>WorstRelErr := worst\<rparr>
              in if flt tol worst then r\<lparr>cr_Verdict := WeightMismatch\<rparr> else r\<lparr>cr_Verdict := OK\<rparr>)"

definition Correct :: "cmp_result \<Rightarrow> bool" where
  "Correct r \<longleftrightarrow> cr_Verdict r = OK"

section \<open>Facts\<close>

lemma fabs_not_NaN: "a \<noteq> NaN \<Longrightarrow> fabs a \<noteq> NaN"
  by (cases a) auto

lemma cmp_relErr_not_NaN: "\<lbrakk> a \<noteq> NaN; b \<noteq> NaN \<rbrakk> \<Longrightarrow> cmp_relErr a b \<noteq> NaN"
proof (cases a; cases b)
  fix x y assume "a = Fin x" "b = Fin y"
  then show ?thesis
    by (cases "fround (x - y)") (auto simp: cmp_relErr_def fsub_def Let_def sign_inf_def)
qed (auto simp: cmp_relErr_def)

lemma cmp_relErr_refl: "a \<noteq> NaN \<Longrightarrow> cmp_relErr a a = Fin 0"
  by (cases a) (auto simp: cmp_relErr_def)

lemma flt_fle_trans: "\<lbrakk> flt a b; fle b c \<rbrakk> \<Longrightarrow> flt a c"
  by (cases a; cases b; cases c) auto

lemma flt_imp_fle: "flt a b \<Longrightarrow> fle a b"
  by (simp add: fle_def)

lemma NaN_flt [simp]: "\<not> flt NaN a" "\<not> flt a NaN"
  by (cases a; simp)+

text \<open>The running maximum of errors none of which is NaN.\<close>

lemma worst_loop:
  assumes "\<forall>i \<in> set is. f i \<noteq> NaN" and "w \<noteq> NaN"
  defines "r \<equiv> fold (\<lambda>i worst. let e = f i in if flt worst e then e else worst) is w"
  shows "fle w r \<and> (\<forall>i \<in> set is. fle (f i) r) \<and> (r = w \<or> (\<exists>i \<in> set is. r = f i))"
  using assms(1,2) unfolding r_def
proof (induction "is" arbitrary: w)
  case Nil
  then show ?case by (simp add: fle_refl)
next
  case (Cons i "is")
  let ?w = "if flt w (f i) then f i else w"
  have w: "?w \<noteq> NaN" "fle w ?w" "fle (f i) ?w"
    using Cons.prems not_flt_fle [of w "f i"] fle_refl [of "f i"] fle_refl [of w] by (auto simp: flt_imp_fle)
  have "\<forall>i \<in> set is. f i \<noteq> NaN" using Cons.prems by simp
  note IH = Cons.IH [OF this w(1)]
  have fold: "fold (\<lambda>i worst. let e = f i in if flt worst e then e else worst) (i # is) w
      = fold (\<lambda>i worst. let e = f i in if flt worst e then e else worst) is ?w"
    by (simp add: Let_def)
  have "?w = w \<or> ?w = f i" by simp
  moreover have "fle w (fold (\<lambda>i worst. let e = f i in if flt worst e then e else worst) is ?w)"
    by (rule fle_trans [OF w(2) conjunct1 [OF IH]])
  moreover have "fle (f i) (fold (\<lambda>i worst. let e = f i in if flt worst e then e else worst) is ?w)"
    by (rule fle_trans [OF w(3) conjunct1 [OF IH]])
  ultimately show ?case unfolding fold using conjunct2 [OF IH]
    by (auto simp only: list.set insert_iff split: if_splits)
qed

lemma worstRelErr_is_max:
  assumes "NaN \<notin> set a" and "NaN \<notin> set b"
  shows "worstRelErr a b \<noteq> NaN" and "fle (Fin 0) (worstRelErr a b)"
    and "\<lbrakk> i < length a; i < length b \<rbrakk> \<Longrightarrow> fle (cmp_relErr (a ! i) (b ! i)) (worstRelErr a b)"
    and "worstRelErr a b = Fin 0 \<or>
      (\<exists>i < min (length a) (length b). worstRelErr a b = cmp_relErr (a ! i) (b ! i))"
proof -
  have nn: "\<forall>i \<in> set [0..<min (length a) (length b)]. cmp_relErr (a ! i) (b ! i) \<noteq> NaN"
    using assms cmp_relErr_not_NaN by (metis atLeastLessThan_iff min_less_iff_conj nth_mem set_upt)
  note w = worst_loop [OF nn, of "Fin 0", folded worstRelErr_def]
  show "fle (Fin 0) (worstRelErr a b)" using w by simp
  then show "worstRelErr a b \<noteq> NaN" by auto
  show "fle (cmp_relErr (a ! i) (b ! i)) (worstRelErr a b)" if "i < length a" "i < length b"
    using w that by simp
  show "worstRelErr a b = Fin 0 \<or>
      (\<exists>i < min (length a) (length b). worstRelErr a b = cmp_relErr (a ! i) (b ! i))"
    using w by auto
qed

section \<open>Properties\<close>

text \<open>
  For cost vectors without NaN and a tolerance that is not negative, the comparison passes
  exactly when the counts agree and the relative error at every rank is within the tolerance; a
  different count is always reported as such; and a vector always agrees with itself.
\<close>

theorem Vectors_verdict:
  assumes "NaN \<notin> set oracle" and "NaN \<notin> set got" and "fle (Fin 0) tol"
  shows "(Correct (Vectors oracle got tol) \<longleftrightarrow> length oracle = length got \<and>
       (\<forall>i < length oracle. fle (cmp_relErr (oracle ! i) (got ! i)) tol))
    \<and> (cr_Verdict (Vectors oracle got tol) = CountMismatch \<longleftrightarrow> length oracle \<noteq> length got)
    \<and> Correct (Vectors oracle oracle tol)"
proof -
  have tol: "tol \<noteq> NaN" using assms(3) by auto
  note w = worstRelErr_is_max [OF assms(1,2)]
  have iff: "\<not> flt tol (worstRelErr oracle got) \<longleftrightarrow> (\<forall>i < length oracle. fle (cmp_relErr (oracle ! i) (got ! i)) tol)"
    if len: "length oracle = length got"
  proof -
    have "fle (worstRelErr oracle got) tol"
      if "\<forall>i < length oracle. fle (cmp_relErr (oracle ! i) (got ! i)) tol"
      using w(4) that assms(3) by auto
    moreover have "fle (cmp_relErr (oracle ! i) (got ! i)) tol"
      if "fle (worstRelErr oracle got) tol" "i < length oracle" for i
      using fle_trans [OF w(3) that(1)] that(2) len by simp
    ultimately show ?thesis unfolding not_flt_fle [OF tol w(1)] by blast
  qed
  have "worstRelErr oracle oracle = Fin 0"
    using worstRelErr_is_max(4) [OF assms(1,1)] assms(1) cmp_relErr_refl by (metis min.idem nth_mem)
  then have "\<not> flt tol (worstRelErr oracle oracle)" using assms(3) by (cases tol) auto
  with iff show ?thesis by (auto simp: Vectors_def Correct_def Let_def)
qed

theorem Vectors_verdict_witness:
  "Correct (Vectors [Fin 3, Fin 5] [Fin 3, Fin 5] (Fin (1 / 8192)))
    \<and> cr_Verdict (Vectors [Fin 3, Fin 5] [Fin 3] (Fin (1 / 8192))) = CountMismatch"
  using Vectors_verdict [of "[Fin 3, Fin 5]" "[Fin 3]" "Fin (1 / 8192)"]
    Vectors_verdict [of "[Fin 3, Fin 5]" "[Fin 3, Fin 5]" "Fin (1 / 8192)"] by simp

text \<open>
  A NaN is never an error: an answer of as many NaNs as the oracle has costs, all finite,
  passes the comparison with any tolerance that is not negative.
\<close>

theorem Vectors_NaN_passes:
  assumes "\<forall>c \<in> set oracle. \<not> is_inf c 0" and "fle (Fin 0) tol"
  shows "Correct (Vectors oracle (replicate (length oracle) NaN) tol)"
proof -
  have "cmp_relErr c NaN = NaN" if "c \<in> set oracle" for c
    using assms(1) that by (cases c) (auto simp: cmp_relErr_def fsub_def Let_def)
  then have "fold (\<lambda>i worst. let e = cmp_relErr (oracle ! i) (replicate (length oracle) NaN ! i)
       in if flt worst e then e else worst) is (Fin 0) = Fin 0" if "set is \<subseteq> {..<length oracle}" for "is"
    using that by (induction "is") auto
  from this [of "[0..<length oracle]"] have "worstRelErr oracle (replicate (length oracle) NaN) = Fin 0"
    by (simp add: worstRelErr_def atLeast0LessThan)
  moreover have "\<not> flt tol (Fin 0)" using assms(2) by (cases tol) auto
  ultimately show ?thesis by (simp add: Vectors_def Correct_def)
qed

theorem Vectors_NaN_passes_witness:
  "Correct (Vectors [Fin 3, Fin 5] [NaN, NaN] (Fin 0))"
  using Vectors_NaN_passes [of "[Fin 3, Fin 5]" "Fin 0"] by (simp add: numeral_2_eq_2)

end
