(* ===== verification/KStats.thy ===== *)
theory KStats
  imports GoFloat "HOL-Library.Multiset"
begin

text \<open>
  k-shortest-path/internal/stats: a recorder of latencies and the summary with its percentiles.
  Durations are int64 nanoseconds, as integers in that range; the recorder's methods hold its
  mutex, so each is one step.
\<close>

section \<open>Model\<close>

record recorder =
  samples :: "int list"
  errs :: int

definition stats_New :: recorder where
  "stats_New = \<lparr>samples = [], errs = 0\<rparr>"

definition Record :: "int \<Rightarrow> recorder \<Rightarrow> recorder" where
  "Record d r = r\<lparr>samples := samples r @ [d]\<rparr>"

definition RecordError :: "recorder \<Rightarrow> recorder" where
  "RecordError r = r\<lparr>errs := errs r + 1\<rparr>"

record summary =
  Count :: nat
  Errors :: int
  Min :: int
  Max :: int
  Mean :: int
  P50 :: int
  P95 :: int
  P99 :: int
  P999 :: int
  Duration :: int
  QPS :: float64

fun fceil :: "float64 \<Rightarrow> float64" where
  "fceil (Fin x) = Fin (of_int \<lceil>x\<rceil>)"
| "fceil a = a"

text \<open>Conversion to int of a float that is in range: the fraction is dropped.\<close>

fun int_of_float :: "float64 \<Rightarrow> int" where
  "int_of_float (Fin x) = (if 0 \<le> x then \<lfloor>x\<rfloor> else \<lceil>x\<rceil>)"
| "int_of_float _ = - (2 ^ 63)"

definition quantile_index :: "nat \<Rightarrow> float64 \<Rightarrow> int" where
  "quantile_index n q =
     (let idx = int_of_float (fceil (fmul q (float_of_int (int n)))) - 1;
          idx = (if idx < 0 then 0 else idx)
      in if int n \<le> idx then int n - 1 else idx)"

definition quantile :: "int list \<Rightarrow> float64 \<Rightarrow> int" where
  "quantile xs q = (if xs = [] then 0 else xs ! nat (quantile_index (length xs) q))"

text \<open>\<open>Duration.Seconds\<close>: whole seconds and the nanoseconds left, each as a float.\<close>

definition Seconds :: "int \<Rightarrow> float64" where
  "Seconds d =
     (let sec = go_quot d 1000000000; nsec = d - sec * 1000000000
      in fadd (float_of_int sec) (fdiv (float_of_int nsec) (fround 1000000000)))"

definition zero_summary :: "recorder \<Rightarrow> int \<Rightarrow> summary" where
  "zero_summary r wall =
     \<lparr>Count = length (samples r), Errors = errs r, Min = 0, Max = 0, Mean = 0, P50 = 0, P95 = 0,
      P99 = 0, P999 = 0, Duration = wall, QPS = Fin 0\<rparr>"

definition sum64 :: "int list \<Rightarrow> int" where
  "sum64 xs = foldl (\<lambda>sum v. wrap64 (sum + v)) 0 xs"

definition Summarize :: "int \<Rightarrow> recorder \<Rightarrow> summary \<times> recorder" where
  "Summarize wall r =
     (let s = zero_summary r wall
      in if samples r = [] then (s, r)
         else let xs = sort (samples r)
              in (s\<lparr>Min := xs ! 0, Max := xs ! (length xs - 1),
                    Mean := go_quot (sum64 xs) (int (length xs)),
                    P50 := quantile xs (fround (50 / 100)), P95 := quantile xs (fround (95 / 100)),
                    P99 := quantile xs (fround (99 / 100)), P999 := quantile xs (fround (999 / 1000)),
                    QPS := (if 0 < wall then fdiv (float_of_int (int (length xs))) (Seconds wall)
                            else Fin 0)\<rparr>,
                  r\<lparr>samples := xs\<rparr>))"

section \<open>Quantiles\<close>

lemma quantile_index_range: "0 < n \<Longrightarrow> 0 \<le> quantile_index n q \<and> quantile_index n q < int n"
  by (auto simp: quantile_index_def Let_def)

lemma fle_fmul_mono:
  assumes "fle (Fin a) (Fin b)" and "0 \<le> c"
  shows "fle (fmul (Fin a) (Fin c)) (fmul (Fin b) (Fin c))"
  using assms by (simp add: fround_mono mult_right_mono)

text \<open>Rounded constants between 0 and 1, and a count of at most 53 bits, give a finite product.\<close>

lemma fround_unit:
  assumes "0 \<le> q" and "q \<le> 1"
  obtains x where "fround q = Fin x" and "0 \<le> x" and "x \<le> 1"
proof -
  have "fle (Fin 0) (fround q)" using assms(1) by (rule fround_nonneg)
  moreover have one: "fround 1 = Fin 1" using float_of_int_exact [of 1] by (simp add: float_of_int_def)
  moreover have "fle (fround q) (fround 1)" using assms(2) by (rule fround_mono)
  ultimately show ?thesis using that by (cases "fround q") auto
qed

lemma product_unit:
  assumes "0 \<le> x" and "x \<le> 1" and "n < 2 ^ 53"
  obtains y where "fmul (Fin x) (float_of_int (int n)) = Fin y" and "0 \<le> y" and "y \<le> of_nat n"
proof -
  have n: "float_of_int (int n) = Fin (of_nat n)" using float_of_int_exact [of "int n"] assms(3) by simp
  have "fle (fround (x * of_nat n)) (fround (of_nat n))"
    using assms(2) by (intro fround_mono) (simp add: mult_left_le_one_le assms(1))
  moreover have "fround (of_nat n) = Fin (of_nat n)" using n by (simp add: float_of_int_def)
  moreover have "fle (Fin 0) (fround (x * of_nat n))" using assms(1) by (intro fround_nonneg) simp
  ultimately show ?thesis using that n by (cases "fround (x * of_nat n)") auto
qed

lemma quantile_index_mono:
  assumes "0 \<le> x" and "x \<le> y" and "y \<le> 1" and "n < 2 ^ 53"
  shows "quantile_index n (Fin x) \<le> quantile_index n (Fin y)"
proof -
  obtain a where a: "fmul (Fin x) (float_of_int (int n)) = Fin a" "0 \<le> a"
    using product_unit [of x n] assms by auto
  obtain b where b: "fmul (Fin y) (float_of_int (int n)) = Fin b" "0 \<le> b"
    using product_unit [of y n] assms by auto
  have n: "float_of_int (int n) = Fin (of_nat n)" using float_of_int_exact [of "int n"] assms(4) by simp
  have "fle (Fin a) (Fin b)"
    using fle_fmul_mono [of x y "of_nat n"] assms(2) a(1) b(1) n by simp
  then have "\<lceil>a\<rceil> \<le> \<lceil>b\<rceil>" by (simp add: ceiling_mono)
  with a b show ?thesis by (auto simp: quantile_index_def Let_def)
qed

lemma sorted_nth_le: "\<lbrakk> sorted xs; 0 \<le> i; i \<le> j; j < int (length xs) \<rbrakk> \<Longrightarrow> xs ! nat i \<le> xs ! nat j"
  by (intro sorted_nth_mono) auto

lemma quantile_mono:
  assumes "sorted xs" and "xs \<noteq> []" and "length xs < 2 ^ 53" and "0 \<le> p" "p \<le> q" "q \<le> 1"
  shows "quantile xs (fround p) \<le> quantile xs (fround q)"
proof -
  obtain x where x: "fround p = Fin x" "0 \<le> x" "x \<le> 1" using fround_unit [of p] assms by auto
  obtain y where y: "fround q = Fin y" "0 \<le> y" "y \<le> 1" using fround_unit [of q] assms by auto
  have "x \<le> y" using fround_mono [OF assms(5)] x(1) y(1) by simp
  then have "quantile_index (length xs) (Fin x) \<le> quantile_index (length xs) (Fin y)"
    using quantile_index_mono x y assms(3) by blast
  then show ?thesis
    using sorted_nth_le [OF assms(1)] quantile_index_range [of "length xs"] assms(2)
    by (simp add: quantile_def x y)
qed

lemma quantile_bounds:
  assumes "sorted xs" and "xs \<noteq> []"
  shows "xs ! 0 \<le> quantile xs q" and "quantile xs q \<le> xs ! (length xs - 1)" and "quantile xs q \<in> set xs"
proof -
  have r: "nat (quantile_index (length xs) q) < length xs" using quantile_index_range [of "length xs" q] assms(2) by auto
  then show "quantile xs q \<in> set xs" using assms(2) by (simp add: quantile_def)
  show "xs ! 0 \<le> quantile xs q" "quantile xs q \<le> xs ! (length xs - 1)"
    using r assms by (auto simp: quantile_def intro!: sorted_nth_mono)
qed

text \<open>The median: half is exact, so its rank is too.\<close>

lemma fround_half: "fround (1 / 2) = Fin (1 / 2)"
proof -
  have b: "binade (1 / 2) = - 1"
  proof -
    have "pow2 (- 1) = 1 / 2" "pow2 0 = 1" by (simp_all add: pow2_def)
    then have "pow2 (- 1) < pow2 (binade (1 / 2) + 1)" "pow2 (binade (1 / 2)) < pow2 0"
      using binade_bounds [of "1 / 2"] by simp_all
    then show ?thesis unfolding pow2_less_iff by simp
  qed
  have u: "ulp_exp (1 / 2) = - 53" by (simp add: ulp_exp_def b)
  have "(1 / 2) / pow2 (ulp_exp (1 / 2)) = of_int (2 ^ 52)" unfolding u by (simp add: pow2_def)
  then have "round_pos (1 / 2) = 1 / 2" by (rule round_pos_exact)
  moreover have "pow2 0 < pow2 1024" by (simp add: pow2_less_iff)
  then have "\<not> pow2 1024 \<le> (1 / 2)" using pow2_def [of 0] by simp
  ultimately show ?thesis by (simp add: fround_def Let_def)
qed

lemma half_count_exact:
  assumes "0 < n" and "n < 2 ^ 53"
  shows "fround (of_nat n / 2) = Fin (of_nat n / 2)"
proof -
  let ?x = "of_nat n / 2 :: rat"
  have x: "0 < ?x" using assms(1) by simp
  have "(of_nat n :: rat) < of_nat (2 ^ 53)" using assms(2) by (simp only: of_nat_less_iff)
  then have "?x < 2 ^ 52" by simp
  then have "binade ?x < 52" using binade_less [OF x, of 52] by simp
  moreover have "pow2 (- 1) \<le> ?x" using assms(1) by (simp add: pow2_def)
  then have "pow2 (- 1) < pow2 (binade ?x + 1)" using binade_bounds(2) [OF x] by linarith
  then have "- 1 \<le> binade ?x" by (simp add: pow2_less_iff)
  ultimately obtain m where m: "ulp_exp ?x = - int (Suc m)"
    by (intro that [of "nat (51 - binade ?x)"]) (simp add: ulp_exp_def)
  have "pow2 (- int (Suc m)) = 1 / 2 ^ Suc m" unfolding pow2_def by (simp add: nat_add_distrib)
  then have "?x / pow2 (ulp_exp ?x) = of_int (int n * 2 ^ m)" by (simp add: m)
  then have "round_pos ?x = ?x" by (rule round_pos_exact)
  moreover have "pow2 52 < pow2 1024" by (simp add: pow2_less_iff)
  then have "\<not> pow2 1024 \<le> ?x" using \<open>?x < 2 ^ 52\<close> pow2_nat [of 52] by simp
  ultimately show ?thesis using x by (simp add: fround_def Let_def)
qed

lemma median_index:
  assumes "0 < n" and "n < 2 ^ 53"
  shows "quantile_index n (Fin (1 / 2)) = int ((n - 1) div 2)"
proof -
  have n: "float_of_int (int n) = Fin (of_nat n)" using float_of_int_exact [of "int n"] assms(2) by simp
  have "\<lceil>of_nat n / (2 :: rat)\<rceil> = int ((n + 1) div 2)"
    by (cases "even n") (auto elim!: evenE oddE simp: ceiling_eq_iff field_simps)
  then have "quantile_index n (Fin (1 / 2)) = (let idx = int ((n + 1) div 2) - 1 in if int n \<le> idx then int n - 1 else idx)"
    using half_count_exact [OF assms] assms(1) by (auto simp: quantile_index_def n Let_def)
  then show ?thesis using assms(1) by (auto simp: Let_def)
qed

section \<open>The mean\<close>

lemma sum64_exact:
  assumes "\<forall>d \<in> set xs. 0 \<le> d" and "sum_list xs < 2 ^ 63"
  shows "sum64 xs = sum_list xs"
proof -
  have "foldl (\<lambda>sum v. wrap64 (sum + v)) a xs = a + sum_list xs"
    if "0 \<le> a" "a + sum_list xs < 2 ^ 63" "\<forall>d \<in> set xs. 0 \<le> d" for a xs
    using that
  proof (induction xs arbitrary: a)
    case (Cons x xs)
    have "0 \<le> sum_list xs" using Cons.prems(3) by (intro sum_list_nonneg) auto
    then have "wrap64 (a + x) = a + x" using Cons.prems by (intro wrap64_small) auto
    with Cons show ?case by (simp add: add.assoc)
  qed simp
  from this [of 0 xs] assms show ?thesis by (simp add: sum64_def)
qed

lemma mean_bounds:
  assumes "xs \<noteq> []" and "\<forall>d \<in> set xs. lo \<le> d \<and> d \<le> hi" and "0 \<le> lo" and "sum_list xs < 2 ^ 63"
  shows "lo \<le> go_quot (sum64 xs) (int (length xs)) \<and> go_quot (sum64 xs) (int (length xs)) \<le> hi"
proof -
  have bounds: "lo * int (length xs) \<le> sum_list xs \<and> sum_list xs \<le> hi * int (length xs)"
    using assms(2) by (induction xs) (auto simp: algebra_simps)
  have n: "0 < int (length xs)" using assms(1) by simp
  have nonneg: "0 \<le> sum_list xs" using assms(2,3) by (intro sum_list_nonneg) fastforce
  have "sum64 xs = sum_list xs" by (rule sum64_exact) (use assms in fastforce)+
  then have q: "go_quot (sum64 xs) (int (length xs)) = sum_list xs div int (length xs)"
    using nonneg n by (cases "sum_list xs = 0") (simp_all add: go_quot_def)
  have "lo \<le> sum_list xs div int (length xs)" using zdiv_mono1 [OF conjunct1 [OF bounds] n] n by simp
  moreover have "sum_list xs div int (length xs) \<le> hi"
    using zdiv_mono1 [OF conjunct2 [OF bounds] n] n by simp
  ultimately show ?thesis by (simp add: q)
qed

section \<open>Property\<close>

text \<open>
  The summary of at least one latency (fewer than \<open>2 ^ 53\<close>): minimum and maximum are those
  of the latencies, the percentiles are recorded latencies in nondecreasing order between them,
  although their ranks are computed in floating point, the 50th percentile has exactly the rank
  of the lower median, and the mean lies between minimum and maximum when the sum of the
  latencies does not overflow.
\<close>

theorem Summarize_ordered:
  assumes "samples r \<noteq> []" and "length (samples r) < 2 ^ 53"
  shows "\<exists>s r'. Summarize wall r = (s, r') \<and> Count s = length (samples r) \<and> Errors s = errs r
    \<and> Min s \<le> P50 s \<and> P50 s \<le> P95 s \<and> P95 s \<le> P99 s \<and> P99 s \<le> P999 s \<and> P999 s \<le> Max s
    \<and> {P50 s, P95 s, P99 s, P999 s} \<subseteq> set (samples r)
    \<and> (\<forall>d \<in> set (samples r). Min s \<le> d \<and> d \<le> Max s)
    \<and> P50 s = sort (samples r) ! ((length (samples r) - 1) div 2)
    \<and> ((\<forall>d \<in> set (samples r). 0 \<le> d) \<and> sum_list (samples r) < 2 ^ 63
        \<longrightarrow> Min s \<le> Mean s \<and> Mean s \<le> Max s)"
proof -
  define xs where "xs = sort (samples r)"
  define s where "s = fst (Summarize wall r)"
  have xs: "sorted xs" "xs \<noteq> []" "set xs = set (samples r)" "length xs = length (samples r)"
    "sum_list xs = sum_list (samples r)"
  proof -
    show "sorted xs" "set xs = set (samples r)" "length xs = length (samples r)" by (simp_all add: xs_def)
    show "xs \<noteq> []" using assms(1) by (metis length_0_conv length_sort xs_def)
    show "sum_list xs = sum_list (samples r)" by (metis mset_sort sum_mset_sum_list xs_def)
  qed
  have len: "length xs < 2 ^ 53" using assms(2) xs(4) by simp
  have s: "Min s = xs ! 0" "Max s = xs ! (length xs - 1)" "Mean s = go_quot (sum64 xs) (int (length xs))"
    "P50 s = quantile xs (fround (50 / 100))" "P95 s = quantile xs (fround (95 / 100))"
    "P99 s = quantile xs (fround (99 / 100))" "P999 s = quantile xs (fround (999 / 1000))"
    "Count s = length (samples r)" "Errors s = errs r"
    using assms(1) by (simp_all add: s_def Summarize_def zero_summary_def xs_def Let_def)
  have all: "xs ! 0 \<le> d \<and> d \<le> xs ! (length xs - 1)" if "d \<in> set xs" for d
    using that xs(1) by (auto simp: in_set_conv_nth intro!: sorted_nth_mono)
  have median: "quantile xs (fround (50 / 100)) = xs ! ((length xs - 1) div 2)"
    using median_index [of "length xs"] xs(2) len fround_half by (simp add: quantile_def)
  have mean: "xs ! 0 \<le> go_quot (sum64 xs) (int (length xs)) \<and> go_quot (sum64 xs) (int (length xs)) \<le> xs ! (length xs - 1)"
    if "\<forall>d \<in> set xs. 0 \<le> d" "sum_list xs < 2 ^ 63"
    by (rule mean_bounds [OF xs(2)]) (use that all xs(2) in auto)
  have "Min s \<le> P50 s" "P999 s \<le> Max s" "{P50 s, P95 s, P99 s, P999 s} \<subseteq> set (samples r)"
    using quantile_bounds [OF xs(1,2)] unfolding s xs(3) [symmetric] by simp_all
  moreover have "P50 s \<le> P95 s" "P95 s \<le> P99 s" "P99 s \<le> P999 s"
    unfolding s by (rule quantile_mono [OF xs(1,2) len]; simp)+
  moreover have "\<forall>d \<in> set (samples r). Min s \<le> d \<and> d \<le> Max s"
    using all unfolding s xs(3) [symmetric] by blast
  moreover have "P50 s = sort (samples r) ! ((length (samples r) - 1) div 2)"
    using median unfolding s xs_def [symmetric] xs(4) [symmetric] .
  moreover have "(\<forall>d \<in> set (samples r). 0 \<le> d) \<and> sum_list (samples r) < 2 ^ 63
      \<longrightarrow> Min s \<le> Mean s \<and> Mean s \<le> Max s"
    using mean unfolding s xs(3) [symmetric] xs(5) [symmetric] by blast
  moreover have "Summarize wall r = (s, snd (Summarize wall r))" by (simp add: s_def)
  ultimately show ?thesis using s(8,9) by blast
qed

theorem Summarize_ordered_witness:
  "P50 (fst (Summarize 1000 \<lparr>samples = [30, 10, 20], errs = 0\<rparr>)) = 20"
  using Summarize_ordered [of "\<lparr>samples = [30, 10, 20], errs = 0\<rparr>" 1000] by auto

end
