(* ===== verification/KShortestRun.thy ===== *)
theory KShortestRun
  imports KLdbc KClient KCompare KStats
begin

text \<open>
  k-shortest-path/cmd/bench/kshortest.go: the comparison of Dgraph's k shortest paths with the
  reference graph, per frontier size. Parameters: the graph library, the order in which Go
  iterates over a map, the shuffle of \<open>math/rand\<close> (the indices of a seed and a length), the
  server (what it answers to the k-th query of the run) and the clock.
\<close>

section \<open>Records\<close>

record kTarget =
  GID :: int
  SSSPDist :: float64
  kt_DstUID :: string
  OracleWeights :: "float64 list"
  DgraphWeights :: "float64 list"
  kt_PathCount :: nat
  kt_Verdict :: string
  kt_WorstRelErr :: float64
  kt_SelfConsistent :: bool
  kt_Loopless :: bool
  kt_MaxWeightErr :: float64
  LatencyMS :: float64
  kt_Err :: string

record kFrontierStat =
  ks_MaxFrontier :: int
  Targets :: nat
  Returned :: nat
  ks_Correct :: nat
  CorrectPct :: float64
  CorrectOfReturnedPct :: float64
  CountMismatches :: nat
  WeightMismatches :: nat
  SelfInconsistent :: nat
  Timeouts :: nat
  OtherErrors :: nat
  ks_Latency :: summary
  TargetResults :: "kTarget list"

record kResult =
  kr_Label :: string
  kr_Dataset :: string
  kr_Source :: int
  kr_NumPaths :: int
  kr_EdgePred :: string
  MaxFrontierSweep :: "int list"
  kr_Tolerance :: float64
  kr_Seed :: int
  kr_BandLo :: float64
  kr_BandHi :: float64
  GraphNodes :: nat
  kr_Directed :: bool
  CandidateTargets :: nat
  QualifiedTargets :: nat
  Frontiers :: "kFrontierStat list"

record kCand =
  c_gid :: int
  c_dist :: float64

record k_pair =
  p_gid :: int
  p_dist :: float64
  p_uid :: string
  p_oracle :: "float64 list"

datatype k_error =
    SourceMissing int | GraphFailed "oracle_error ldbc_error" | BadFrontier string | NoFrontiers
  | ReferenceFailed "oracle_error ldbc_error" | NoReachable | NoQualified | EncodeFailed

section \<open>Options and errors\<close>

definition parseFrontiers :: "string \<Rightarrow> k_error + int list" where
  "parseFrontiers s =
     err_bind
       (err_fold (\<lambda>part out.
            let tok = TrimSpace part
            in if tok = [] then Inr out
               else case ParseInt tok of None \<Rightarrow> Inl (BadFrontier tok) | Some n \<Rightarrow> Inr (out @ [n]))
          (Split (CHR '','') s) [])
       (\<lambda>out. if out = [] then Inl NoFrontiers else Inr out)"

definition frontierLabel :: "int \<Rightarrow> string" where
  "frontierLabel fr = (if fr \<le> 0 then ''unlimited'' else show_int fr)"

text \<open>The text of an error; what the JSON decoder says of a bad answer is left out.\<close>

fun error_text :: "client_error \<Rightarrow> string" where
  "error_text (QueryFailed s) = s"
| "error_text (DeadlineExceeded s) = s"
| "error_text (UidParse s) = ''parse graphalytics_id '' @ s"
| "error_text DecodeFailed = ''decode _path_''"
| "error_text _ = []"

definition classifyErr :: "client_error option \<Rightarrow> string" where
  "classifyErr err =
     (case err of
        None \<Rightarrow> []
      | Some (DeadlineExceeded _) \<Rightarrow> ''timeout''
      | Some e \<Rightarrow>
          let s = ToLower (error_text e)
          in if Contains s ''deadline'' \<or> Contains s ''timeout'' then ''timeout'' else ''error'')"

section \<open>The reference graph\<close>

definition add_read_edge :: "'g graph_ops \<Rightarrow> bool \<Rightarrow> edge \<Rightarrow> 'g \<Rightarrow> oracle_error + 'g" where
  "add_read_edge ops directed = (\<lambda>(src, dst, w) g.
     err_bind (AddEdge ops src dst w g) (\<lambda>g. if \<not> directed then AddEdge ops dst src w g else Inr g))"

definition load_graph :: "'g graph_ops \<Rightarrow> bool \<Rightarrow> reader option \<Rightarrow> oracle_error ldbc_error + 'g" where
  "load_graph ops directed file = ScanEdges file (add_read_edge ops directed) (g_empty ops)"

section \<open>Targets from a band of distances\<close>

text \<open>Conversion of a float to int on amd64: what does not fit becomes the least integer.\<close>

definition go_int :: "float64 \<Rightarrow> int" where
  "go_int x = (let n = int_of_float x in if in_int64 n then n else - (2 ^ 63))"

definition reachable :: "(int \<Rightarrow> float64 option) \<Rightarrow> uid_map \<Rightarrow> int \<Rightarrow> int list \<Rightarrow> kCand list" where
  "reachable ref uidMap source order =
     concat (map (\<lambda>gid. case ref gid of
                     None \<Rightarrow> []
                   | Some d \<Rightarrow>
                       if gid = source \<or> fle d (Fin 0) \<or> is_inf d 1 \<or> uidMap gid = None then []
                       else [\<lparr>c_gid = gid, c_dist = d\<rparr>]) order)"

text \<open>By distance and, for equal distances, by id; distances are numbers, which are ordered.\<close>

definition sort_cands :: "kCand list \<Rightarrow> kCand list" where
  "sort_cands cs = sort_key c_dist (sort_key c_gid cs)"

definition band_limits :: "nat \<Rightarrow> float64 \<Rightarrow> float64 \<Rightarrow> int \<times> int" where
  "band_limits len bandLo bandHi =
     (let lo = go_int (fmul bandLo (float_of_int (int len)));
          hi = go_int (fmul bandHi (float_of_int (int len)));
          lo = max lo 0; hi = min hi (int len)
      in if hi \<le> lo then (let lo = min lo (int len - 1) in (lo, lo + 1)) else (lo, hi))"

definition bandedTargets ::
  "(int \<Rightarrow> nat \<Rightarrow> nat list) \<Rightarrow> int list \<Rightarrow> reader option \<Rightarrow> uid_map \<Rightarrow> int \<Rightarrow> float64 \<Rightarrow> float64 \<Rightarrow>
     int \<Rightarrow> int \<Rightarrow> (k_error + kCand list) go" where
  "bandedTargets shuffle order ssspFile uidMap source bandLo bandHi n seed =
     (case ReadSSSP ssspFile of
        Inl e \<Rightarrow> Ret (Inl (ReferenceFailed e))
      | Inr ref \<Rightarrow>
          let reach = sort_cands (reachable ref uidMap source order)
          in if reach = [] then Ret (Inl NoReachable)
             else let (lo, hi) = band_limits (length reach) bandLo bandHi
                  in go_bind (go_slice reach lo hi)
                       (\<lambda>band.
                          let idx = shuffle seed (length band);
                              idx = (if 0 < n \<and> n < int (length idx) then take (nat n) idx else idx)
                          in go_bind
                               (go_fold (\<lambda>i out. go_bind (go_index band (int i)) (\<lambda>c. Ret (out @ [c]))) idx [])
                               (\<lambda>out. Ret (Inr out))))"

section \<open>One frontier\<close>

definition qualify ::
  "'g graph_ops \<Rightarrow> ('g \<Rightarrow> int \<Rightarrow> int \<Rightarrow> int \<Rightarrow> int list list) \<Rightarrow> 'g \<Rightarrow> uid_map \<Rightarrow> int \<Rightarrow> int \<Rightarrow>
     kCand list \<Rightarrow> k_pair list" where
  "qualify ops yen g uidMap source numPaths cands =
     concat (map (\<lambda>cand. case TopK ops yen g source (c_gid cand) numPaths of
                     Inl e \<Rightarrow> []
                   | Inr vec \<Rightarrow>
                       if length vec < 2 then []
                       else [\<lparr>p_gid = c_gid cand, p_dist = c_dist cand,
                              p_uid = (case uidMap (c_gid cand) of Some u \<Rightarrow> u | None \<Rightarrow> []),
                              p_oracle = vec\<rparr>]) cands)"

definition new_stat :: "int \<Rightarrow> nat \<Rightarrow> kFrontierStat" where
  "new_stat fr n =
     \<lparr>ks_MaxFrontier = fr, Targets = n, Returned = 0, ks_Correct = 0, CorrectPct = Fin 0,
      CorrectOfReturnedPct = Fin 0, CountMismatches = 0, WeightMismatches = 0, SelfInconsistent = 0,
      Timeouts = 0, OtherErrors = 0, ks_Latency = zero_summary stats_New 0, TargetResults = []\<rparr>"

definition new_target :: "k_pair \<Rightarrow> ShortestResult \<Rightarrow> kTarget" where
  "new_target p sr =
     \<lparr>GID = p_gid p, SSSPDist = p_dist p, kt_DstUID = p_uid p, OracleWeights = p_oracle p,
      DgraphWeights = [], kt_PathCount = 0, kt_Verdict = [], kt_WorstRelErr = Fin 0,
      kt_SelfConsistent = False, kt_Loopless = False, kt_MaxWeightErr = Fin 0,
      LatencyMS = fdiv (float_of_int (go_quot (Latency sr) 1000)) (Fin 1000), kt_Err = []\<rparr>"

text \<open>The part of the loop for a query that failed, and for one that came back.\<close>

definition count_error :: "client_error \<Rightarrow> kTarget \<Rightarrow> kFrontierStat \<Rightarrow> kFrontierStat" where
  "count_error err tr stat =
     (let kind = classifyErr (Some err);
          tr = tr\<lparr>kt_Verdict := kind, kt_Err := error_text err\<rparr>;
          stat = (if kind = ''timeout'' then stat\<lparr>Timeouts := Timeouts stat + 1\<rparr>
                  else stat\<lparr>OtherErrors := OtherErrors stat + 1\<rparr>)
      in stat\<lparr>TargetResults := TargetResults stat @ [tr]\<rparr>)"

fun count_verdict :: "Verdict \<Rightarrow> kFrontierStat \<Rightarrow> kFrontierStat" where
  "count_verdict OK stat = stat\<lparr>ks_Correct := ks_Correct stat + 1\<rparr>"
| "count_verdict CountMismatch stat = stat\<lparr>CountMismatches := CountMismatches stat + 1\<rparr>"
| "count_verdict WeightMismatch stat = stat\<lparr>WeightMismatches := WeightMismatches stat + 1\<rparr>"

definition count_result ::
  "float64 \<Rightarrow> k_pair \<Rightarrow> ShortestResult \<Rightarrow> kTarget \<Rightarrow> kFrontierStat \<Rightarrow> kFrontierStat" where
  "count_result tol p sr tr stat =
     (let stat = stat\<lparr>Returned := Returned stat + 1\<rparr>;
          tr = tr\<lparr>DgraphWeights := Weights sr, kt_PathCount := PathCount sr,
                  kt_SelfConsistent := SelfConsistent sr, kt_Loopless := Loopless sr,
                  kt_MaxWeightErr := MaxWeightErr sr\<rparr>;
          stat = (if \<not> SelfConsistent sr \<or> \<not> Loopless sr
                  then stat\<lparr>SelfInconsistent := SelfInconsistent stat + 1\<rparr> else stat);
          r = Vectors (p_oracle p) (Weights sr) tol;
          stat = count_verdict (cr_Verdict r) stat;
          tr = tr\<lparr>kt_WorstRelErr := WorstRelErr r, kt_Verdict := Verdict_String (cr_Verdict r)\<rparr>
      in stat\<lparr>TargetResults := TargetResults stat @ [tr]\<rparr>)"

definition k_options :: "string \<Rightarrow> string \<Rightarrow> int \<Rightarrow> int \<Rightarrow> int \<Rightarrow> k_pair \<Rightarrow> ShortestOptions" where
  "k_options srcUID edgePred numPaths fr timeout p =
     \<lparr>SrcUID = srcUID, DstUID = p_uid p, EdgePred = edgePred, NumPaths = numPaths, MaxFrontier = fr,
      Timeout = timeout\<rparr>"

type_synonym server = "nat \<Rightarrow> string \<Rightarrow> int option \<Rightarrow> (client_error + json option) \<times> int"

definition target_step ::
  "server \<Rightarrow> (k_pair \<Rightarrow> ShortestOptions) \<Rightarrow> float64 \<Rightarrow> k_pair \<Rightarrow>
     kFrontierStat \<times> recorder \<times> nat \<Rightarrow> kFrontierStat \<times> recorder \<times> nat" where
  "target_step srv opts tol p = (\<lambda>(stat, rec, k).
     let (sr, err) = Shortest (srv k) (opts p); tr = new_target p sr
     in case err of
          Some e \<Rightarrow> (count_error e tr stat, RecordError rec, k + 1)
        | None \<Rightarrow> (count_result tol p sr tr stat, Record (Latency sr) rec, k + 1))"

definition pct :: "nat \<Rightarrow> nat \<Rightarrow> float64" where
  "pct c n = fdiv (fmul (Fin 100) (float_of_int (int c))) (float_of_int (int n))"

definition finish_stat :: "int \<Rightarrow> recorder \<Rightarrow> kFrontierStat \<Rightarrow> kFrontierStat" where
  "finish_stat wall rec stat =
     (let stat = stat\<lparr>ks_Latency := fst (Summarize wall rec)\<rparr>;
          stat = (if 0 < Targets stat then stat\<lparr>CorrectPct := pct (ks_Correct stat) (Targets stat)\<rparr> else stat)
      in if 0 < Returned stat then stat\<lparr>CorrectOfReturnedPct := pct (ks_Correct stat) (Returned stat)\<rparr>
         else stat)"

definition run_frontier ::
  "server \<Rightarrow> (nat \<Rightarrow> int) \<Rightarrow> (k_pair \<Rightarrow> ShortestOptions) \<Rightarrow> float64 \<Rightarrow> k_pair list \<Rightarrow> int \<Rightarrow> nat \<Rightarrow>
     kFrontierStat \<times> nat" where
  "run_frontier srv clock opts tol qualified fr k =
     (let (stat, rec, k) =
        fold (target_step srv opts tol) qualified (new_stat fr (length qualified), stats_New, k)
      in (finish_stat (clock k) rec stat, k))"

section \<open>The run\<close>

text \<open>\<open>encoding/json\<close> refuses infinities and NaN.\<close>

fun finite_float :: "float64 \<Rightarrow> bool" where
  "finite_float (Fin x) \<longleftrightarrow> True"
| "finite_float _ \<longleftrightarrow> False"

definition target_floats :: "kTarget \<Rightarrow> float64 list" where
  "target_floats t = SSSPDist t # OracleWeights t @ DgraphWeights t @ [kt_WorstRelErr t, kt_MaxWeightErr t, LatencyMS t]"

definition encodable :: "kResult \<Rightarrow> bool" where
  "encodable r \<longleftrightarrow>
     list_all finite_float [kr_Tolerance r, kr_BandLo r, kr_BandHi r]
     \<and> list_all (\<lambda>s. list_all finite_float [CorrectPct s, CorrectOfReturnedPct s, QPS (ks_Latency s)]
           \<and> list_all (\<lambda>t. list_all finite_float (target_floats t)) (TargetResults s)) (Frontiers r)"

record k_config =
  cfg_numPaths :: int
  cfg_frontiers :: string
  cfg_bandLo :: float64
  cfg_bandHi :: float64
  cfg_targets :: int
  cfg_seed :: int
  cfg_edgePred :: string
  cfg_timeout :: int
  cfg_tol :: float64
  cfg_label :: string

text \<open>The results written so far, one after each frontier, in the order of the flag.\<close>

fun sweep ::
  "(int \<Rightarrow> nat \<Rightarrow> kFrontierStat \<times> nat) \<Rightarrow> int list \<Rightarrow> kResult \<Rightarrow> nat \<Rightarrow> kResult list \<Rightarrow>
     kResult list \<times> k_error option" where
  "sweep run [] res k written = (written, None)"
| "sweep run (fr # frs) res k written =
     (let (stat, k) = run fr k; res = res\<lparr>Frontiers := Frontiers res @ [stat]\<rparr>
      in if encodable res then sweep run frs res k (written @ [res]) else (written, Some EncodeFailed))"

definition new_result ::
  "k_config \<Rightarrow> Dataset \<Rightarrow> int list \<Rightarrow> nat \<Rightarrow> nat \<Rightarrow> nat \<Rightarrow> kResult" where
  "new_result cfg ds frontiers graphNodes candidates qualified =
     \<lparr>kr_Label = cfg_label cfg, kr_Dataset = ds_Name ds, kr_Source = SourceVertex (ds_Properties ds),
      kr_NumPaths = cfg_numPaths cfg, kr_EdgePred = cfg_edgePred cfg, MaxFrontierSweep = frontiers,
      kr_Tolerance = cfg_tol cfg, kr_Seed = cfg_seed cfg, kr_BandLo = cfg_bandLo cfg,
      kr_BandHi = cfg_bandHi cfg, GraphNodes = graphNodes, kr_Directed = Directed (ds_Properties ds),
      CandidateTargets = candidates, QualifiedTargets = qualified, Frontiers = []\<rparr>"

definition runKShortest ::
  "'g graph_ops \<Rightarrow> ('g \<Rightarrow> int \<Rightarrow> int \<Rightarrow> int \<Rightarrow> int list list) \<Rightarrow> (int \<Rightarrow> nat \<Rightarrow> nat list) \<Rightarrow> int list \<Rightarrow>
     server \<Rightarrow> (nat \<Rightarrow> int) \<Rightarrow> (string \<Rightarrow> reader option) \<Rightarrow> k_config \<Rightarrow> Dataset \<Rightarrow> uid_map \<Rightarrow>
     (kResult list \<times> k_error option) go" where
  "runKShortest ops yen shuffle order srv clock fs cfg ds uidMap =
     (case parseFrontiers (cfg_frontiers cfg) of
        Inl e \<Rightarrow> Ret ([], Some e)
      | Inr frontiers \<Rightarrow>
          let source = SourceVertex (ds_Properties ds)
          in case uidMap source of
               None \<Rightarrow> Ret ([], Some (SourceMissing source))
             | Some srcUID \<Rightarrow>
                 (case load_graph ops (Directed (ds_Properties ds)) (fs (EdgeFile ds)) of
                    Inl e \<Rightarrow> Ret ([], Some (GraphFailed e))
                  | Inr g \<Rightarrow>
                      go_bind (bandedTargets shuffle order (fs (SSSPRefFile ds)) uidMap source
                                 (cfg_bandLo cfg) (cfg_bandHi cfg) (cfg_targets cfg) (cfg_seed cfg))
                        (\<lambda>r. case r of
                           Inl e \<Rightarrow> Ret ([], Some e)
                         | Inr candidates \<Rightarrow>
                             let qualified = qualify ops yen g uidMap source (cfg_numPaths cfg) candidates
                             in if qualified = [] then Ret ([], Some NoQualified)
                                else Ret (sweep
                                       (\<lambda>fr. run_frontier srv clock
                                          (k_options srcUID (cfg_edgePred cfg) (cfg_numPaths cfg) fr (cfg_timeout cfg))
                                          (cfg_tol cfg) qualified fr)
                                       frontiers
                                       (new_result cfg ds frontiers (Nodes ops g) (length candidates) (length qualified))
                                       0 []))))"

end
