(* ===== verification/KPrepareProps.thy ===== *)
theory KPrepareProps
  imports KFiles KShortestRun
begin

text \<open>
  What cmd/prepare writes and what cmd/bench reads: the files come back, the graphs agree if the
  weights are whole numbers, and need not agree otherwise.
\<close>

section \<open>Lines of properties\<close>

lemma TrimSpace_snoc_space: "s \<noteq> [] \<Longrightarrow> visible (hd s) \<Longrightarrow> is_space c \<Longrightarrow> TrimSpace (s @ [c]) = TrimSpace s"
  by (cases s) (simp_all add: TrimSpace_def skip_spaces_none space_len_visible skip_spaces_cons)

lemma TrimSpace_cons_space: "is_space c \<Longrightarrow> TrimSpace (c # s) = TrimSpace s"
  by (simp add: TrimSpace_def skip_spaces_cons)

lemma blank_space: "is_space CHR '' ''"
  by (simp add: is_space_def)

lemma property_line_key:
  assumes "k \<noteq> []" and "visible (hd k)" and "visible (last k)" and "hd k \<noteq> CHR ''#''"
    and "CHR ''='' \<notin> set k" and "v \<noteq> []" and "visible (last v)"
  shows "property_line (k @ '' = '' @ v) p = set_property k (TrimSpace v) p"
proof -
  have trim: "TrimSpace (k @ '' = '' @ v) = k @ '' = '' @ v" using assms by (intro TrimSpace_id) simp_all
  have "takeWhile (\<lambda>x. x \<noteq> CHR ''='') ((k @ '' '') @ CHR ''='' # ('' '' @ v)) = k @ '' ''"
    using assms(5) by (intro takeWhile_line) simp
  then have "Cut (k @ '' = '' @ v) (CHR ''='') = Some (k @ '' '', '' '' @ v)" by (simp add: Cut_def Let_def)
  moreover have "TrimSpace (k @ '' '') = k" "TrimSpace ('' '' @ v) = TrimSpace v"
    using TrimSpace_snoc_space [of k "CHR '' ''"] TrimSpace_cons_space [of "CHR '' ''" v] assms blank_space
    by (simp_all add: TrimSpace_id)
  moreover have "\<not> HasPrefix (k @ '' = '' @ v) ''#''" using assms(1,4) by (cases k) (simp_all add: HasPrefix_def)
  ultimately show ?thesis using assms(1) trim by (simp add: property_line_def)
qed

lemma HasSuffix_last: "HasSuffix s p \<Longrightarrow> p \<noteq> [] \<Longrightarrow> last s = last p"
  by (auto simp: HasSuffix_def suffix_def)

lemma HasSuffix_append: "HasSuffix (s @ p) p"
  unfolding HasSuffix_def suffix_def by blast

lemma last_ne: "last s \<noteq> last t \<Longrightarrow> s \<noteq> t"
  by blast

lemma key_other:
  assumes "last k \<notin> {CHR ''d'', CHR ''y'', CHR ''x''}" and "k \<noteq> ''graph.weights''"
  shows "set_property k v p = Inr p"
proof -
  have "k \<noteq> ''graph.directed''" "k \<noteq> ''algorithms.sssp.source-vertex''" "k \<noteq> ''algorithms.bfs.source-vertex''"
    using assms(1) by auto
  moreover have "\<not> HasSuffix k ''.directed''" "\<not> HasSuffix k ''.sssp.weight-property''"
    "\<not> HasSuffix k ''.sssp.source-vertex''" "\<not> HasSuffix k ''.bfs.source-vertex''"
    using assms(1) HasSuffix_last [of k] by fastforce+
  ultimately show ?thesis using assms(2) by (simp add: set_property_def)
qed

lemma key_directed: "set_property (k @ ''.directed'') v p = Inr (p\<lparr>Directed := EqualFold v ''true''\<rparr>)"
  by (simp add: set_property_def HasSuffix_append)

lemma key_weight: "set_property (k @ ''.sssp.weight-property'') v p = Inr (p\<lparr>WeightedSSSP := True\<rparr>)"
proof -
  have "k @ ''.sssp.weight-property'' \<noteq> ''graph.directed''"
    by (rule last_ne) simp
  moreover have "\<not> HasSuffix (k @ ''.sssp.weight-property'') ''.directed''"
    using HasSuffix_last [of "k @ ''.sssp.weight-property''" "''.directed''"] by auto
  ultimately show ?thesis by (simp add: set_property_def HasSuffix_append)
qed

lemma key_source:
  "ParseInt v = Some n \<Longrightarrow> set_property (k @ ''.sssp.source-vertex'') v p = Inr (p\<lparr>SourceVertex := n\<rparr>)"
proof -
  let ?k = "k @ ''.sssp.source-vertex''"
  have last: "last ?k = CHR ''x''" by simp
  have "?k \<noteq> ''graph.directed''" "?k \<noteq> ''graph.weights''" by (rule last_ne, simp)+
  moreover have "\<not> HasSuffix ?k ''.directed''" "\<not> HasSuffix ?k ''.sssp.weight-property''"
    using HasSuffix_last [of ?k] last by fastforce+
  ultimately show "ParseInt v = Some n \<Longrightarrow> ?thesis" by (simp add: set_property_def HasSuffix_append)
qed

section \<open>Reading the files of a data set\<close>

definition plain_name :: "string \<Rightarrow> bool" where
  "plain_name name \<longleftrightarrow> (\<forall>c \<in> set name. c \<notin> {CHR ''='', CHR 0x0A, CHR 0x0D}) \<and> length name < 30000"

lemma graph_line:
  assumes "plain_name name" and "suf \<noteq> []" and "visible (last suf)" and "CHR ''='' \<notin> set suf"
    and "v \<noteq> []" and "visible (last v)"
  shows "property_line (''graph.'' @ name @ suf @ '' = '' @ v) p = set_property (''graph.'' @ name @ suf) (TrimSpace v) p"
proof -
  have "property_line ((''graph.'' @ name @ suf) @ '' = '' @ v) p = set_property (''graph.'' @ name @ suf) (TrimSpace v) p"
    using assms by (intro property_line_key) (auto simp: plain_name_def visible_def is_space_def)
  then show ?thesis by simp
qed

lemma graph_line_other:
  assumes "plain_name name" and "visible (last suf)" and "CHR ''='' \<notin> set suf"
    and "v \<noteq> []" and "visible (last v)" and "last suf \<notin> {CHR ''d'', CHR ''y'', CHR ''x''}" and "7 < length suf"
  shows "property_line (''graph.'' @ name @ suf @ '' = '' @ v) p = Inr p"
proof -
  have ne: "suf \<noteq> []" using assms(7) by auto
  have "length (''graph.'' @ name @ suf) \<noteq> length ''graph.weights''" using assms(7) by simp
  then have "''graph.'' @ name @ suf \<noteq> ''graph.weights''" by metis
  moreover have "last (''graph.'' @ name @ suf) = last suf" using ne by simp
  ultimately show ?thesis
    using graph_line [OF assms(1) ne assms(2-5)] key_other [of "''graph.'' @ name @ suf"] assms(6) by metis
qed

lemma last_decimal: "visible (last (decimal n))"
  using decimal_digits [of "last (decimal n)" n] digit_visible by simp

lemma TrimSpace_show_int: "TrimSpace (show_int n) = show_int n"
  by (intro TrimSpace_id show_int_nonempty hd_show_int last_show_int)

lemma TrimSpace_show_bool: "TrimSpace (show_bool b) = show_bool b"
  by (intro TrimSpace_id) (auto simp: show_bool_def visible_def is_space_def)

lemma EqualFold_show_bool: "EqualFold (show_bool b) ''true'' \<longleftrightarrow> b"
  by (cases b) (simp_all add: show_bool_def EqualFold_def, code_simp)

lemma read_written_properties:
  assumes "plain_name name" and "in_int64 source" and "length (vertices ds) < 10 ^ 20" and "nE < 10 ^ 20"
  shows "ReadProperties (Some (writeProperties name ds nE source, False))
    = (Inr \<lparr>Directed = directed_set ds, WeightedSSSP = True, SourceVertex = source\<rparr> :: 'e ldbc_error + Properties)"
proof -
  note other = graph_line_other [where ?'a = 'e, OF assms(1)] and line = graph_line [where ?'a = 'e, OF assms(1)]
    and keys = key_source [where ?'a = 'e] key_weight [where ?'a = 'e] key_directed [where ?'a = 'e]
  have src: "visible (last (show_int source))" "show_int source \<noteq> []"
    by (rule last_show_int, rule show_int_nonempty)
  have key: "property_line (''graph.'' @ name @ ''.sssp.source-vertex = '' @ show_int source) p
      = (Inr (p\<lparr>SourceVertex := source\<rparr>) :: 'e ldbc_error + Properties)" for p
    using line [of "''.sssp.source-vertex''" "show_int source" p] src assms(2)
      keys(1) [of "show_int source" source "''graph.'' @ name"]
    by (simp add: visible_def is_space_def TrimSpace_show_int ParseInt_show_int)
  have weight: "property_line (''graph.'' @ name @ ''.sssp.weight-property = weight'') p
      = (Inr (p\<lparr>WeightedSSSP := True\<rparr>) :: 'e ldbc_error + Properties)" for p
    using line [of "''.sssp.weight-property''" "''weight''" p] keys(2) [of "''graph.'' @ name"]
    by (simp add: visible_def is_space_def)
  have bool: "show_bool b \<noteq> []" "visible (last (show_bool b))" for b by (simp_all add: show_bool_def visible_def is_space_def)
  have dir: "property_line (''graph.'' @ name @ ''.directed = '' @ show_bool b) p
      = (Inr (p\<lparr>Directed := b\<rparr>) :: 'e ldbc_error + Properties)" for b p
    using line [of "''.directed''" "show_bool b" p] keys(3) [of "''graph.'' @ name"] bool [of b]
    by (simp add: visible_def is_space_def TrimSpace_show_bool EqualFold_show_bool)
  have vf: "property_line (''graph.'' @ name @ ''.vertex-file = '' @ name @ ''.v'') p = (Inr p :: 'e ldbc_error + Properties)" for p
    using other [of "''.vertex-file''" "name @ ''.v''" p] by (simp add: visible_def is_space_def)
  have ef: "property_line (''graph.'' @ name @ ''.edge-file = '' @ name @ ''.e'') p = (Inr p :: 'e ldbc_error + Properties)" for p
    using other [of "''.edge-file''" "name @ ''.e''" p] by (simp add: visible_def is_space_def)
  have mv: "property_line (''graph.'' @ name @ ''.meta.vertices = '' @ decimal n) p = (Inr p :: 'e ldbc_error + Properties)" for n p
    using other [of "''.meta.vertices''" "decimal n" p] last_decimal [of n] by (simp add: visible_def is_space_def)
  have me: "property_line (''graph.'' @ name @ ''.meta.edges = '' @ decimal n) p = (Inr p :: 'e ldbc_error + Properties)" for n p
    using other [of "''.meta.edges''" "decimal n" p] last_decimal [of n] by (simp add: visible_def is_space_def)
  have en: "property_line (''graph.'' @ name @ ''.edge-properties.names = weight'') p = (Inr p :: 'e ldbc_error + Properties)" for p
    using other [of "''.edge-properties.names''" "''weight''" p] by (simp add: visible_def is_space_def)
  have et: "property_line (''graph.'' @ name @ ''.edge-properties.types = real'') p = (Inr p :: 'e ldbc_error + Properties)" for p
    using other [of "''.edge-properties.types''" "''real''" p] by (simp add: visible_def is_space_def)
  have al: "property_line (''graph.'' @ name @ ''.algorithms = sssp'') p = (Inr p :: 'e ldbc_error + Properties)" for p
    using other [of "''.algorithms''" "''sssp''" p] by (simp add: visible_def is_space_def)
  have nil: "property_line [] p = (Inr p :: 'e ldbc_error + Properties)" for p
    by (simp add: property_line_def TrimSpace_def)
  have name: "CHR 0x0A \<notin> set name" "CHR 0x0D \<notin> set name" "length name < 30000"
    using assms(1) by (auto simp: plain_name_def)
  have plain: "CHR 0x0A \<notin> set (decimal n)" "CHR 0x0D \<notin> set (decimal n)" for n
    using decimal_digits [of _ n] digit_not_newline by blast+
  have len: "length (decimal nE) \<le> 20" "length (decimal (length (vertices ds))) \<le> 20"
    using assms(3,4) by (auto intro: length_decimal)
  have bl: "length (show_bool b) \<le> 5" "CHR 0x0A \<notin> set (show_bool b)" "CHR 0x0D \<notin> set (show_bool b)" for b
    by (simp_all add: show_bool_def)
  have "\<forall>l \<in> set (property_lines name ds nE source). plain_line MaxScanTokenSize l"
    using name(3) len length_show_int [OF assms(2)] bl(1) [of "directed_set ds"]
    by (simp add: property_lines_def plain_line_def MaxScanTokenSize_def name(1,2) plain bl(2,3) show_int_plain)
  moreover have "err_fold property_line (property_lines name ds nE source) zero_properties
      = (Inr \<lparr>Directed = directed_set ds, WeightedSSSP = True, SourceVertex = source\<rparr> :: 'e ldbc_error + Properties)"
    unfolding property_lines_def
    by (simp only: err_fold.simps err_bind_simps nil vf ef mv me en et al weight dir key)
      (simp add: zero_properties_def)
  ultimately show ?thesis by (simp add: ReadProperties_def writeProperties_def scan_fold_text)
qed

section \<open>Graphs\<close>

lemma road_weight_Fin: "road_weight (Fin x) \<longleftrightarrow> 0 \<le> x \<and> x \<le> 2 ^ 52"
  by (simp add: road_weight_def)

lemma build_graph_edges: "build_graph ops ds = add_edges ops (effective ds) (fold (AddNode ops) (vertices ds) (g_empty ops))"
  by (simp add: build_graph_def forEach_effective add_edges_def)

definition both_ways :: "bool \<Rightarrow> edge list \<Rightarrow> edge list" where
  "both_ways directed es = concat (map (\<lambda>(s, t, w). if directed then [(s, t, w)] else [(s, t, w), (t, s, w)]) es)"

lemma add_read_edges: "err_fold (add_read_edge ops directed) es g = add_edges ops (both_ways directed es) g"
proof (induction es arbitrary: g)
  case Nil
  then show ?case by (simp add: add_edges_def both_ways_def)
next
  case (Cons e es)
  obtain a b w where "e = (a, b, w)" by (cases e)
  then show ?case
    using Cons.IH
    by (cases directed)
      (auto simp: add_edges_def both_ways_def add_read_edge_def err_bind_def err_fold_append split: sum.splits)
qed

lemma load_graph_edges:
  assumes "\<forall>e \<in> set (edges ds). road_edge e"
  shows "load_graph ops (directed_set ds) (Some (fst (writeEdges ds), False))
    = (case add_edges ops (both_ways (directed_set ds) (map round_edge (effective ds))) (g_empty ops) of
         Inl e \<Rightarrow> Inl (Callback e) | Inr g \<Rightarrow> Inr g)"
  by (simp add: load_graph_def writeEdges_text scan_edge_texts [OF effective_road [OF assms]] add_read_edges)

text \<open>Reading both directions of edges that come in both directions adds nothing.\<close>

lemma both_ways_set:
  "set (both_ways directed es) = set es \<union> (if directed then {} else {(t, s, w) | s t w. (s, t, w) \<in> set es})"
  by (force simp: both_ways_def split: if_splits)

lemma both_ways_effective:
  "set (both_ways (directed_set ds) (map round_edge (effective ds))) = set (map round_edge (effective ds))"
proof (cases "directed_set ds")
  case False
  have "(t, s, w) \<in> set (effective ds)" if "(s, t, w) \<in> set (effective ds)" for s t w
    using that False by (auto simp: effective_set)
  then have "(t, s, w) \<in> round_edge ` set (effective ds)" if "(s, t, w) \<in> round_edge ` set (effective ds)" for s t w
    using that by (force simp: round_edge_def)
  then show ?thesis unfolding both_ways_set set_map by auto
qed (simp add: both_ways_set)

lemma good_rounded: "road_edge e \<Longrightarrow> good_edge (round_edge e)"
proof -
  assume "road_edge e"
  then obtain s t x where e: "e = (s, t, Fin x)" "0 \<le> x" "x \<le> 2 ^ 52" by (auto simp: road_edge_def road_weight_def)
  then obtain y where "round6 (Fin x) = Fin y" "0 \<le> y" using round6_finite by blast
  then show ?thesis using e(1) by (simp add: good_edge_def round_edge_def fle_def le_less)
qed

lemma empty_nodes_graph:
  assumes "weighted_graph ops"
  shows "g_edge ops (fold (AddNode ops) vs g) s t = g_edge ops g s t"
  using weighted_graph.AddNode_node(2) [OF assms] by (induction vs arbitrary: g) simp_all

text \<open>
  C13: the graph that the benchmark loads from the written edge file has, for every ordered pair,
  the least of the weights of the data set's effective edges after rounding to six decimals; the
  weights are supposed to be finite, from 0 to 2 ^ 52.
\<close>

theorem load_written_graph:
  assumes "weighted_graph ops" and "\<forall>e \<in> set (edges ds). road_edge e"
  shows "\<exists>g. load_graph ops (directed_set ds) (Some (fst (writeEdges ds), False)) = Inr g
    \<and> (\<forall>s t. least_weight (set (map round_edge (effective ds))) s t (g_edge ops g s t))"
proof -
  have "\<forall>e \<in> set (both_ways (directed_set ds) (map round_edge (effective ds))). good_edge e"
    using effective_road [OF assms(2)] good_rounded unfolding both_ways_effective by auto
  from weighted_graph.add_edges_least [OF assms(1) this, of "g_empty ops"]
  show ?thesis
    unfolding load_graph_edges [OF assms(2)] both_ways_effective
    by (auto simp: weighted_graph.edge_empty [OF assms(1)])
qed

definition demo_roads :: road_dataset where
  "demo_roads = \<lparr>vertices = [0, 1, 2], edges = [(0, 1, Fin 7), (2, 1, Fin 5)], directed_set = False\<rparr>"

lemma demo_roads_edges: "\<forall>e \<in> set (edges demo_roads). road_edge e"
  by (simp add: demo_roads_def road_edge_def road_weight_def in_int64_def)

theorem load_written_graph_witness:
  "\<exists>g. load_graph map_ops (directed_set demo_roads) (Some (fst (writeEdges demo_roads), False)) = Inr g
    \<and> (\<forall>s t. least_weight (set (map round_edge (effective demo_roads))) s t (g_edge map_ops g s t))"
  by (rule load_written_graph [OF mg.weighted_graph_axioms demo_roads_edges])

text \<open>
  C15: if all weights are whole numbers (below \<open>2 ^ 52\<close>), the graph on which the reference
  distances were computed and the graph that the benchmark loads from the edge file have the
  same weights.
\<close>

theorem graphs_agree_whole_weights:
  assumes "weighted_graph ops" and "\<forall>e \<in> set (edges ds). road_edge e"
    and "\<forall>(s, t, w) \<in> set (edges ds). \<exists>n. w = Fin (of_int n)"
  shows "\<exists>g g'. build_graph ops ds = Inr g
    \<and> load_graph ops (directed_set ds) (Some (fst (writeEdges ds), False)) = Inr g'
    \<and> (\<forall>s t. g_edge ops g s t = g_edge ops g' s t)"
proof -
  have whole: "round6 w = w" if mem: "(s, t, w) \<in> set (edges ds)" for s t w
  proof -
    obtain n where n: "w = Fin (of_int n)" using bspec [OF assms(3) mem] by auto
    have "road_weight w" using bspec [OF assms(2) mem] by (simp add: road_edge_def)
    with n have "0 \<le> n" "of_int n \<le> (of_int (2 ^ 52) :: rat)" by (simp_all add: road_weight_Fin)
    then have "n \<le> 2 ^ 52" by (simp only: of_int_le_iff)
    with \<open>0 \<le> n\<close> n round6_int show ?thesis by simp
  qed
  then have "round_edge e = e" if "e \<in> set (effective ds)" for e
    using that by (cases e) (auto simp: effective_set round_edge_def split: if_splits)
  then have same: "map round_edge (effective ds) = effective ds" by (simp add: map_idI)
  have good: "\<forall>e \<in> set (effective ds). good_edge e"
    using effective_road [OF assms(2)] good_rounded same by (metis imageE image_eqI set_map)
  have none: "\<forall>s t. g_edge ops (fold (AddNode ops) (vertices ds) (g_empty ops)) s t = None"
    "\<forall>s t. g_edge ops (g_empty ops) s t = None"
    by (simp_all add: empty_nodes_graph [OF assms(1)] weighted_graph.edge_empty [OF assms(1)])
  have "set (effective ds) = set (both_ways (directed_set ds) (map round_edge (effective ds)))"
    using both_ways_effective [of ds] same by simp
  from weighted_graph.add_edges_same [OF assms(1) this good none]
  show ?thesis unfolding build_graph_edges load_graph_edges [OF assms(2)] by auto
qed

theorem graphs_agree_whole_weights_witness:
  "\<exists>g g'. build_graph map_ops demo_roads = Inr g
    \<and> load_graph map_ops (directed_set demo_roads) (Some (fst (writeEdges demo_roads), False)) = Inr g'
    \<and> (\<forall>s t. g_edge map_ops g s t = g_edge map_ops g' s t)"
proof (rule graphs_agree_whole_weights [OF mg.weighted_graph_axioms demo_roads_edges])
  have "\<exists>n. Fin 7 = Fin (of_int n)" "\<exists>n. Fin 5 = Fin (of_int n)"
    by (rule exI [of _ 7], simp, rule exI [of _ 5], simp)
  then show "\<forall>(s, t, w) \<in> set (edges demo_roads). \<exists>n. w = Fin (of_int n)" by (simp add: demo_roads_def)
qed

text \<open>
  With other weights the two graphs can differ: an edge of a ten millionth is written as
  0.000000, so the reference distances use its weight and the benchmark's graph has it free.
\<close>

definition tiny_roads :: road_dataset where
  "tiny_roads = \<lparr>vertices = [1, 2], edges = [(1, 2, Fin (1 / 10000000))], directed_set = True\<rparr>"

theorem graphs_differ_by_rounding:
  "\<exists>g g'. build_graph map_ops tiny_roads = Inr g
    \<and> load_graph map_ops True (Some (fst (writeEdges tiny_roads), False)) = Inr g'
    \<and> g_edge map_ops g 1 2 = Some (Fin (1 / 10000000)) \<and> g_edge map_ops g' 1 2 = Some (Fin 0)"
proof -
  have road: "\<forall>e \<in> set (edges tiny_roads). road_edge e" and dir: "directed_set tiny_roads"
    by (simp_all add: tiny_roads_def road_edge_def road_weight_Fin in_int64_def)
  have "\<lfloor>1 / 10 :: rat\<rfloor> = 0" by (simp add: floor_eq_iff)
  then have "round6 (Fin (1 / 10000000)) = Fin 0" by (simp add: round_even_def)
  then show ?thesis
    using load_graph_edges [OF road, of map_ops] dir
    by (simp del: round6.simps add: build_graph_edges tiny_roads_def effective_def both_ways_def round_edge_def add_edges_def
        AddEdge_def AddNode_def map_ops_def ins_def fle_def)
qed

section \<open>Files\<close>

text \<open>
  The files that prepare writes are read back: the vertices as they are, the properties with
  the direction and the source vertex, and the reference distances with every vertex, infinite
  where there is no path and rounded to six decimals otherwise.
\<close>

theorem written_files_read:
  assumes "\<forall>v \<in> set (vertices ds). in_int64 v \<and> good_distance (d v)"
    and "plain_name name" and "in_int64 source" and "length (vertices ds) < 10 ^ 20" and "nE < 10 ^ 20"
  shows "ReadVertices (Some (writeVertices (vertices ds), False)) = (Inr (vertices ds) :: unit ldbc_error + int list)
    \<and> ReadProperties (Some (writeProperties name ds nE source, False))
      = (Inr \<lparr>Directed = directed_set ds, WeightedSSSP = True, SourceVertex = source\<rparr> :: unit ldbc_error + Properties)
    \<and> ReadSSSP (Some (writeSSSP (vertices ds) d, False))
      = (Inr (\<lambda>v. if v \<in> set (vertices ds) then Some (read_distance (d v)) else None)
          :: unit ldbc_error + (int \<Rightarrow> float64 option))"
  using read_written_vertices [of "vertices ds"] read_written_properties [OF assms(2-5)]
    read_written_SSSP [OF assms(1)] assms(1) by blast

theorem written_files_read_witness:
  "ReadVertices (Some (writeVertices (vertices demo_roads), False)) = (Inr (vertices demo_roads) :: unit ldbc_error + int list)
    \<and> ReadProperties (Some (writeProperties ''demo'' demo_roads 4 1, False))
      = (Inr \<lparr>Directed = directed_set demo_roads, WeightedSSSP = True, SourceVertex = 1\<rparr> :: unit ldbc_error + Properties)
    \<and> ReadSSSP (Some (writeSSSP (vertices demo_roads) [0 \<mapsto> Fin 7, 1 \<mapsto> Fin 0], False))
      = (Inr (\<lambda>v. if v \<in> set (vertices demo_roads) then Some (read_distance ([0 \<mapsto> Fin 7, 1 \<mapsto> Fin 0] v)) else None)
          :: unit ldbc_error + (int \<Rightarrow> float64 option))"
  by (rule written_files_read)
    (simp_all add: demo_roads_def in_int64_def good_distance_def road_weight_def plain_name_def)

text \<open>
  A source vertex of 0 that the SSSP key declares is replaced by the source of BFS if that
  key follows, since 0 stands for a source that was not declared; in the other order it is kept.
\<close>

theorem SSSP_source_0_overridden:
  "ReadProperties (Some (text_of [''graph.g.sssp.source-vertex = 0'', ''graph.g.bfs.source-vertex = 7''], False))
     = (Inr \<lparr>Directed = False, WeightedSSSP = False, SourceVertex = 7\<rparr> :: unit ldbc_error + Properties)
   \<and> ReadProperties (Some (text_of [''graph.g.bfs.source-vertex = 7'', ''graph.g.sssp.source-vertex = 0''], False))
     = (Inr \<lparr>Directed = False, WeightedSSSP = False, SourceVertex = 0\<rparr> :: unit ldbc_error + Properties)"
proof -
  have "property_line ''graph.g.sssp.source-vertex = 0'' zero_properties = (Inr zero_properties :: unit ldbc_error + Properties)"
    "property_line ''graph.g.bfs.source-vertex = 7'' zero_properties
      = (Inr (zero_properties\<lparr>SourceVertex := 7\<rparr>) :: unit ldbc_error + Properties)"
    "property_line ''graph.g.sssp.source-vertex = 0'' (zero_properties\<lparr>SourceVertex := 7\<rparr>)
      = (Inr zero_properties :: unit ldbc_error + Properties)"
    by code_simp+
  moreover have "plain_line MaxScanTokenSize ''graph.g.sssp.source-vertex = 0''"
    "plain_line MaxScanTokenSize ''graph.g.bfs.source-vertex = 7''"
    by (simp_all add: plain_line_def MaxScanTokenSize_def)
  ultimately show ?thesis
    by (simp del: text_of_simps add: ReadProperties_def scan_fold_text) (simp add: zero_properties_def)
qed

section \<open>The CSV format\<close>

definition pair_of :: "edge \<Rightarrow> int \<times> int" where
  "pair_of = (\<lambda>(s, t, w). (min s t, max s t))"

definition csv_ok :: "csv_state \<Rightarrow> bool" where
  "csv_ok c \<longleftrightarrow> seen c = pair_of ` set (csv_edges c) \<and> distinct (map pair_of (csv_edges c))
     \<and> (\<forall>(s, t, w) \<in> set (csv_edges c). s \<noteq> t)"

lemma csv_add_ok: "csv_ok c \<Longrightarrow> csv_ok (csv_add s t w c)"
proof -
  assume ok: "csv_ok c"
  have key: "(if t < s then (t, s) else (s, t)) = pair_of (s, t, w)" by (simp add: pair_of_def min_def max_def)
  show ?thesis
    using ok unfolding csv_add_def key csv_ok_def by (auto simp: Let_def)
qed

lemma csv_line_ok: "csv_line text c = Inr c' \<Longrightarrow> csv_ok c \<Longrightarrow> csv_ok c'"
  by (auto simp: csv_line_def Let_def intro: csv_add_ok split: if_splits option.splits prod.splits)

lemma err_fold_keeps:
  assumes "\<And>x s s'. \<lbrakk> f x s = Inr s'; I s \<rbrakk> \<Longrightarrow> I s'"
  shows "err_fold f xs s = Inr s' \<Longrightarrow> I s \<Longrightarrow> I s'"
  by (induction xs arbitrary: s) (auto simp: err_bind_eq_Inr dest: assms)

lemma scan_fold_keeps:
  assumes "\<And>x s s'. \<lbrakk> f x s = Inr s'; I s \<rbrakk> \<Longrightarrow> I s'"
  shows "scan_fold m e f r s = Inr s' \<Longrightarrow> I s \<Longrightarrow> I s'"
proof -
  assume scan: "scan_fold m e f r s = Inr s'" and I: "I s"
  then have "err_fold f (fst (Scan m r)) s = Inr s'"
    by (auto simp: scan_fold_def err_bind_eq_Inr split: prod.splits if_splits)
  from err_fold_keeps [of f I, OF assms this I] show "I s'" .
qed

lemma make_int64s_Ret: "make_int64s n f = Ret xs \<Longrightarrow> 0 \<le> n \<and> xs = map (f \<circ> int) [0..<nat n]"
  by (auto simp: make_int64s_def split: if_splits)

text \<open>
  Whatever archive it parses, the CSV format gives a simple undirected graph: no edge from a
  node to itself, no two edges with the same ends in either direction, and the vertices are
  numbered from 0.
\<close>

theorem parseCSVZip_simple:
  assumes "parseCSVZip archive path = Ret (Inr ds)"
  shows "distinct (map pair_of (edges ds)) \<and> (\<forall>(s, t, w) \<in> set (edges ds). s \<noteq> t)
    \<and> \<not> directed_set ds \<and> (\<exists>k. vertices ds = map int [0..<k])"
proof -
  obtain r c n verts where c: "scan_fold buffer_1M ReadError csv_line r csv_start = Inr c"
    and verts: "make_int64s n (\<lambda>i. i) = Ret verts"
    and ds: "ds = \<lparr>vertices = verts, edges = csv_edges c, directed_set = False\<rparr>"
    using assms by (auto simp: parseCSVZip_def go_simps split: option.splits prod.splits sum.splits)
  have "csv_ok csv_start" by (simp add: csv_ok_def csv_start_def)
  then have "csv_ok c" using scan_fold_keeps [of csv_line csv_ok] csv_line_ok c by metis
  then show ?thesis using make_int64s_Ret [OF verts] ds by (auto simp: csv_ok_def comp_def)
qed

definition demo_archive :: "(string \<times> reader option) list" where
  "demo_archive = [(''d/nodes.csv'', Some (text_of [''# id'', ''0'', ''1''], False)),
     (''d/edges.csv'', Some (text_of [''0,1,5,0'', ''1,0,5,0'', ''1,1,3,0''], False))]"

definition demo_csv :: road_dataset where
  "demo_csv = \<lparr>vertices = [0, 1], edges = [(0, 1, Fin 0)], directed_set = False\<rparr>"

lemma parse_demo_archive: "parseCSVZip (\<lambda>p. Some demo_archive) ''x.zip'' = Ret (Inr demo_csv)"
proof -
  have mem: "zip_member ''edges.csv'' demo_archive = Some (Some (text_of [''0,1,5,0'', ''1,0,5,0'', ''1,1,3,0''], False))"
    "zip_member ''nodes.csv'' demo_archive = Some (Some (text_of [''# id'', ''0'', ''1''], False))"
    by code_simp+
  have skip: "csv_skipped (TrimSpace ''# id'')" "\<not> csv_skipped (TrimSpace ''0'')" "\<not> csv_skipped (TrimSpace ''1'')"
    by code_simp+
  have lines: "csv_line ''0,1,5,0'' csv_start
      = Inr \<lparr>seen = {(0, 1)}, csv_edges = [(0, 1, Fin 0)], skipSelf = 0, skipDup = 0\<rparr>"
    "csv_line ''1,0,5,0'' \<lparr>seen = {(0, 1)}, csv_edges = [(0, 1, Fin 0)], skipSelf = 0, skipDup = 0\<rparr>
      = Inr \<lparr>seen = {(0, 1)}, csv_edges = [(0, 1, Fin 0)], skipSelf = 0, skipDup = Suc 0\<rparr>"
    "csv_line ''1,1,3,0'' \<lparr>seen = {(0, 1)}, csv_edges = [(0, 1, Fin 0)], skipSelf = 0, skipDup = Suc 0\<rparr>
      = Inr \<lparr>seen = {(0, 1)}, csv_edges = [(0, 1, Fin 0)], skipSelf = 1, skipDup = Suc 0\<rparr>"
    by code_simp+
  have plain: "\<forall>l \<in> set [''0,1,5,0'', ''1,0,5,0'', ''1,1,3,0'']. plain_line buffer_1M l"
    "\<forall>l \<in> set [''# id'', ''0'', ''1'']. plain_line buffer_1M l"
    by (simp_all add: plain_line_def buffer_1M_def)
  show ?thesis
    by (simp del: text_of_simps
        add: parseCSVZip_def mem countCSVRows_def scan_fold_text [OF plain(1)] scan_fold_text [OF plain(2)] skip lines
          make_int64s_def demo_csv_def upt_rec)
qed

theorem parseCSVZip_simple_witness:
  "distinct (map pair_of (edges demo_csv)) \<and> list_all (\<lambda>(s, t, w). s \<noteq> t) (edges demo_csv)
    \<and> \<not> directed_set demo_csv \<and> (\<exists>k. vertices demo_csv = map int [0..<k])"
  using parseCSVZip_simple [OF parse_demo_archive] unfolding list_all_iff .

end
