(* ===== verification/KConvert.thy ===== *)
theory KConvert
  imports KLdbc KClient
begin

text \<open>
  k-shortest-path/cmd/convert: a data set as RDF for the bulk loader. The text is what is then
  compressed with gzip; writing it does not fail.
\<close>

section \<open>Model\<close>

definition formatWeight :: "float64 \<Rightarrow> string" where
  "formatWeight w =
     (let s = format_shortest w
      in if set s \<inter> {CHR ''.'', CHR ''e'', CHR ''E''} = {} then s @ ''.0'' else s)"

definition vertex_triples :: "int \<Rightarrow> string list" where
  "vertex_triples v =
     [''_:v'' @ show_int v @ '' <graphalytics_id> '' @ [CHR 0x22] @ show_int v @ [CHR 0x22] @ ''^^<xs:int> .'',
      ''_:v'' @ show_int v @ '' <dgraph.type> '' @ [CHR 0x22] @ ''Vertex'' @ [CHR 0x22] @ '' .'']"

definition edge_triple :: "int \<Rightarrow> int \<Rightarrow> float64 \<Rightarrow> string" where
  "edge_triple src dst weight =
     ''_:v'' @ show_int src @ '' <connected> _:v'' @ show_int dst @ '' (weight='' @ formatWeight weight @ '') .''"

text \<open>The state of the edge scan: the lines written and the count of edge triples.\<close>

definition rdf_edge :: "bool \<Rightarrow> edge \<Rightarrow> string list \<times> nat \<Rightarrow> unit + string list \<times> nat" where
  "rdf_edge directed = (\<lambda>(src, dst, w) (ls, n).
     if directed then Inr (ls @ [edge_triple src dst w], n + 1)
     else Inr (ls @ [edge_triple src dst w] @ [edge_triple dst src w], n + 1 + 1))"

definition writeRDF ::
  "(string \<Rightarrow> reader option) \<Rightarrow> Dataset \<Rightarrow> unit ldbc_error + (string \<times> nat \<times> nat)" where
  "writeRDF fs ds =
     err_bind (ReadVertices (fs (VertexFile ds)))
       (\<lambda>verts.
          err_bind (ScanEdges (fs (EdgeFile ds)) (rdf_edge (Directed (ds_Properties ds)))
                      (concat (map vertex_triples verts), 0))
            (\<lambda>(ls, edgeCount). Inr (text_of ls, length verts, edgeCount)))"

text \<open>The files written in full, with their paths, and the error that ended the command.\<close>

datatype convert_error = DatasetRequired | LoadFailed "unit ldbc_error" | RdfFailed "unit ldbc_error"

definition convert_main ::
  "(string \<Rightarrow> reader option) \<Rightarrow> string \<Rightarrow> string \<Rightarrow> (string \<times> string) list \<times> convert_error option" where
  "convert_main fs dataset outDir =
     (if dataset = [] then ([], Some DatasetRequired)
      else let outDir = (if outDir = [] then path_Join [dataset, ''dgraph''] else outDir)
           in case LoadDataset fs dataset of
                Inl e \<Rightarrow> ([], Some (LoadFailed e))
              | Inr ds \<Rightarrow>
                  let schema = (path_Join [outDir, ''graph.schema''], Schema)
                  in case writeRDF fs ds of
                       Inl e \<Rightarrow> ([schema], Some (RdfFailed e))
                     | Inr (text, nV, nE) \<Rightarrow> ([schema, (path_Join [outDir, ''graph.rdf.gz''], text)], None))"

section \<open>Facts\<close>

text \<open>A weight is always written with a point or an exponent.\<close>

lemma formatWeight_float: "set (formatWeight w) \<inter> {CHR ''.'', CHR ''e'', CHR ''E''} \<noteq> {}"
  by (auto simp: formatWeight_def Let_def)

lemma rdf_edges:
  "err_fold (rdf_edge directed) es (ls, n)
     = Inr (ls @ concat (map (\<lambda>(s, t, w). if directed then [edge_triple s t w]
                                        else [edge_triple s t w, edge_triple t s w]) es),
            n + (if directed then 1 else 2) * length es)"
  by (induction es arbitrary: ls n) (auto simp: rdf_edge_def split: prod.splits)

end
