(* ===== verification/KClientProps.thy ===== *)
theory KClientProps
  imports KClient
begin

text \<open>
  The client: pages add up to the whole map, the cache file gives the map back, a linear path is
  walked to its end, and what a result says of the paths that came back.
\<close>

section \<open>Pages\<close>

definition add_vertices :: "(string \<times> int) list \<Rightarrow> uid_map \<Rightarrow> uid_map" where
  "add_vertices vs = fold (\<lambda>(uid, gid) m. m(gid \<mapsto> uid)) vs"

lemma fetch_loop_pages:
  assumes "0 < n" and "\<forall>off. serve (int n) (int off) = Inr (take n (drop off vs))"
    and "length vs + n < 2 ^ 63"
  shows "off \<le> length vs \<Longrightarrow> fetch_loop serve (int n) (int off) out = Some (Inr (add_vertices (drop off vs) out))"
proof (induction "length vs - off" arbitrary: off out rule: less_induct)
  case less
  let ?page = "take n (drop off vs)"
  have serve: "serve (int n) (int off) = Inr ?page" using assms(2) by blast
  show ?case
  proof (cases "length ?page < n")
    case True
    then have "?page = drop off vs" by simp
    with serve True have "serve (int n) (int off) = Inr (drop off vs)" "int (length (drop off vs)) < int n" by simp_all
    then show ?thesis
      by (subst fetch_loop.simps) (simp del: length_drop add: add_vertices_def)
  next
    case False
    then have len: "off + n \<le> length vs" "?page \<noteq> []" using assms(1) less.prems by auto
    have wrap: "wrap64 (int off + int n) = int (off + n)" using assms(3) len(1) by (subst wrap64_small) auto
    have IH: "fetch_loop serve (int n) (int (off + n)) m = Some (Inr (add_vertices (drop (off + n) vs) m))" for m
      using less.hyps [of "off + n" m] len(1) assms(1) by simp
    have "drop off vs = ?page @ drop (off + n) vs" by (metis append_take_drop_id drop_drop add.commute)
    then have "add_vertices (drop off vs) out = add_vertices (drop (off + n) vs) (add_vertices ?page out)"
      by (metis add_vertices_def comp_apply fold_append)
    with serve len False IH wrap show ?thesis
      by (subst fetch_loop.simps) (simp add: add_vertices_def)
  qed
qed

text \<open>
  C16: fetching in pages returns, and with every vertex: if the server answers with the pages of
  one list of vertices, the map is that of the whole list, for any positive page size.
\<close>

theorem FetchUIDMap_complete:
  assumes "0 < n" and "\<forall>off. serve (int n) (int off) = Inr (take n (drop off vs))"
    and "length vs + n < 2 ^ 63"
  shows "FetchUIDMap serve (int n) = Some (Inr (add_vertices vs Map.empty))"
  using fetch_loop_pages [where n = n and serve = serve and vs = vs and off = 0 and out = Map.empty, OF assms] by (simp add: FetchUIDMap_def)

theorem FetchUIDMap_complete_witness:
  "FetchUIDMap (\<lambda>first off. Inr (take (nat first) (drop (nat off) [(''0x1'', 7), (''0x2'', 8), (''0x3'', 9)]))) (int 2)
    = Some (Inr (add_vertices [(''0x1'', 7), (''0x2'', 8), (''0x3'', 9)] Map.empty))"
  by (rule FetchUIDMap_complete) simp_all

section \<open>The cache\<close>

definition plain_uid :: "string \<Rightarrow> bool" where
  "plain_uid u \<longleftrightarrow> CHR 0x0A \<notin> set u \<and> CHR 0x0D \<notin> set u \<and> length u < 1000000"

lemma load_uid_line:
  assumes "in_int64 gid"
  shows "load_line (uid_line (gid, uid)) out = Inr (out(gid \<mapsto> uid))"
proof -
  have "CHR 0x09 \<notin> set (show_int gid)" using word_chars_not_space [OF word_show_int [of gid], of "CHR 0x09"] by (auto simp: is_space_def)
  then have "takeWhile (\<lambda>x. x \<noteq> CHR 0x09) (show_int gid @ CHR 0x09 # uid) = show_int gid"
    by (rule takeWhile_line)
  then show ?thesis using assms by (simp add: load_line_def uid_line_def Cut_def Let_def ParseInt_show_int)
qed

lemma uid_line_plain: "in_int64 gid \<Longrightarrow> plain_uid uid \<Longrightarrow> plain_line buffer_1M (uid_line (gid, uid))"
  using length_show_int [of gid] show_int_plain [of gid]
  by (simp add: plain_line_def uid_line_def plain_uid_def buffer_1M_def)

text \<open>
  The cache file gives the map back, whatever order the map was iterated in when saved.
\<close>

theorem LoadUIDMap_SaveUIDMap:
  assumes "distinct (map fst m)" and "\<forall>(gid, uid) \<in> set m. in_int64 gid \<and> plain_uid uid"
  shows "LoadUIDMap (Some (SaveUIDMap m, False)) = Inr (map_of m)"
proof -
  have "err_fold load_line (map uid_line xs) out = Inr (fold (\<lambda>(gid, uid) o'. o'(gid \<mapsto> uid)) xs out)"
    if "\<forall>(gid, uid) \<in> set xs. in_int64 gid \<and> plain_uid uid" for xs out
    using that by (induction xs arbitrary: out) (auto simp: load_uid_line)
  moreover have "fold (\<lambda>(gid, uid) o'. o'(gid \<mapsto> uid)) xs out = out ++ map_of xs"
    if "distinct (map fst xs)" for xs and out :: uid_map
    using that
  proof (induction xs arbitrary: out)
    case (Cons x xs)
    then have "map_of xs (fst x) = None" by (simp add: map_of_eq_None_iff image_image)
    with Cons show ?case by (cases x) (auto simp: map_add_def fun_eq_iff split: option.splits)
  qed simp
  moreover have "\<forall>l \<in> set (map uid_line m). plain_line buffer_1M l" using assms(2) uid_line_plain by auto
  ultimately show ?thesis using assms by (simp add: LoadUIDMap_def SaveUIDMap_def scan_fold_text)
qed

theorem LoadUIDMap_SaveUIDMap_witness:
  "LoadUIDMap (Some (SaveUIDMap [(7, ''0x1''), (- 3, ''0x2'')], False)) = Inr (map_of [(7, ''0x1''), (- 3, ''0x2'')])"
  by (rule LoadUIDMap_SaveUIDMap) (simp_all add: in_int64_def plain_uid_def)

section \<open>Paths\<close>

text \<open>The path that starts at \<open>u\<close> and takes the steps, each with its uid and weight.\<close>

fun path_node :: "string \<Rightarrow> string \<Rightarrow> (string \<times> float64) list \<Rightarrow> json_object" where
  "path_node edge u [] = [(''uid'', JString u)]"
| "path_node edge u ((v, w) # steps) =
     [(''uid'', JString u), (edge, JObject ((edge @ ''|weight'', JFloat w) # path_node edge v steps))]"

lemma facet_key: "edge @ ''|weight'' \<noteq> edge" "edge @ ''|weight'' \<noteq> ''uid''"
proof -
  show "edge @ ''|weight'' \<noteq> ''uid''"
  proof
    assume "edge @ ''|weight'' = ''uid''"
    then have "length (edge @ ''|weight'') = length ''uid''" by (rule arg_cong)
    then show False by simp
  qed
qed simp

lemma jget_path_node:
  assumes "edge \<noteq> ''uid''" and "k \<noteq> edge"
  shows "jget ((k, v) # path_node edge u steps) edge
    = (case steps of [] \<Rightarrow> None | (x, w) # ss \<Rightarrow> Some (JObject ((edge @ ''|weight'', JFloat w) # path_node edge x ss)))"
    and "k \<noteq> ''uid'' \<Longrightarrow> jget ((k, v) # path_node edge u steps) ''uid'' = Some (JString u)"
  using assms by (cases steps; force simp: jget_def)+

lemma jget_facet:
  assumes "edge \<noteq> ''uid''"
  shows "jget ((edge @ ''|weight'', JFloat w) # path_node edge x ss) (edge @ ''|weight'') = Some (JFloat w)"
  using facet_key [of edge] by (cases ss) (auto simp: jget_def)

lemma walk_path_node:
  assumes "edge \<noteq> ''uid''" and "k \<noteq> edge"
  shows "distinct (map fst steps) \<and> set (map fst steps) \<inter> seen = {}
      \<Longrightarrow> walk edge acc seen ((k, v) # path_node edge u steps) = (foldl fadd acc (map snd steps), True, True)"
    and "\<not> (distinct (map fst steps) \<and> set (map fst steps) \<inter> seen = {})
      \<Longrightarrow> \<exists>t. walk edge acc seen ((k, v) # path_node edge u steps) = (t, False, True)"
proof (atomize (full), use assms(2) in \<open>induction steps arbitrary: acc seen k v u\<close>)
  case Nil
  from jget_path_node(1) [OF assms(1) Nil.prems, of v u "[]"] show ?case
    by (subst (1 2) walk.simps) (simp del: path_node.simps)
next
  case (Cons s ss)
  obtain x w where s: "s = (x, w)" by (cases s)
  have step: "walk edge acc seen ((k, v) # path_node edge u (s # ss))
    = (if x \<in> seen then (fadd acc w, False, True)
       else walk edge (fadd acc w) (insert x seen) ((edge @ ''|weight'', JFloat w) # path_node edge x ss))"
    using jget_path_node(1) [OF assms(1) Cons.prems, of v u "s # ss"]
      jget_path_node(2) [OF assms(1) facet_key(1) facet_key(2), of "JFloat w" x ss] jget_facet [OF assms(1), of w x ss]
    by (subst walk.simps) (simp del: path_node.simps add: s toFloat_def)
  show ?case
    unfolding step using Cons.IH [OF facet_key(1), of "insert x seen" "fadd acc w" "JFloat w" x] s by auto
qed

text \<open>
  C17: a linear path as the server nests it is walked to its end: its weights are summed in order
  and it is loopless if no uid repeats; with a repeated uid it is reported as not loopless.
\<close>

theorem walkPath_linear:
  assumes "edge \<notin> {''uid'', ''_weight_''}"
  shows "(distinct (u # map fst steps) \<longrightarrow>
      walkPath ((''_weight_'', JFloat r) # path_node edge u steps) edge = (foldl fadd (Fin 0) (map snd steps), True, True))
    \<and> (\<not> distinct (u # map fst steps) \<longrightarrow>
      (\<exists>t. walkPath ((''_weight_'', JFloat r) # path_node edge u steps) edge = (t, False, True)))"
proof -
  have e: "edge \<noteq> ''uid''" "''_weight_'' \<noteq> edge" using assms by auto
  have "jget ((''_weight_'', JFloat r) # path_node edge u steps) ''uid'' = Some (JString u)"
    by (rule jget_path_node(2) [OF e]) simp
  then show ?thesis
    using walk_path_node [OF e, of steps "{u}" "Fin 0" "JFloat r" u] by (auto simp: walkPath_def)
qed

theorem walkPath_linear_witness:
  "walkPath ((''_weight_'', JFloat (Fin 3)) # path_node ''connected'' ''0x1'' [(''0x2'', Fin 1), (''0x3'', Fin 2)]) ''connected''
     = (foldl fadd (Fin 0) [Fin 1, Fin 2], True, True)
   \<and> (\<exists>t. walkPath ((''_weight_'', JFloat (Fin 3)) # path_node ''connected'' ''0x1'' [(''0x2'', Fin 1), (''0x1'', Fin 2)]) ''connected''
     = (t, False, True))"
  using walkPath_linear [of "''connected''" "''0x1''" "[(''0x2'', Fin 1), (''0x3'', Fin 2)]" "Fin 3"]
    walkPath_linear [of "''connected''" "''0x1''" "[(''0x2'', Fin 1), (''0x1'', Fin 2)]" "Fin 3"]
  by simp

section \<open>Results\<close>

definition reported_weights :: "json_object list \<Rightarrow> float64 list" where
  "reported_weights ps =
     concat (map (\<lambda>p. let (x, has) = toFloat (jget p ''_weight_'') in if has then [x] else []) ps)"

definition no_loop :: "string \<Rightarrow> json_object \<Rightarrow> bool" where
  "no_loop edge p \<longleftrightarrow> fst (snd (walkPath p edge))"

definition path_adds_up :: "string \<Rightarrow> json_object \<Rightarrow> bool" where
  "path_adds_up edge p \<longleftrightarrow>
     (let (summed, noLoop, ok) = walkPath p edge; (x, has) = toFloat (jget p ''_weight_'')
      in ok \<and> noLoop \<and> (has \<longrightarrow> \<not> weight_differs summed x))"

lemma check_path_effect:
  "ws_weights (check_path edge p st) = ws_weights st @ reported_weights [p]"
  "loopless (check_path edge p st) \<longleftrightarrow> loopless st \<and> no_loop edge p"
  "selfConsistent (check_path edge p st) \<longleftrightarrow> selfConsistent st \<and> path_adds_up edge p"
proof -
  obtain summed nl ok where w: "walkPath p edge = (summed, nl, ok)" by (cases "walkPath p edge")
  obtain x has where f: "toFloat (jget p ''_weight_'') = (x, has)" by (cases "toFloat (jget p ''_weight_'')")
  note model = check_path_def reported_weights_def no_loop_def path_adds_up_def w f
  show "ws_weights (check_path edge p st) = ws_weights st @ reported_weights [p]"
    by (cases ok; cases nl; cases has) (simp_all add: model Let_def)
  show "loopless (check_path edge p st) \<longleftrightarrow> loopless st \<and> no_loop edge p"
    by (cases ok; cases nl; cases has) (simp_all add: model Let_def)
  show "selfConsistent (check_path edge p st) \<longleftrightarrow> selfConsistent st \<and> path_adds_up edge p"
    by (cases ok; cases nl; cases has) (simp_all add: model Let_def)
qed

lemma check_paths_effect:
  "ws_weights (fold (check_path edge) ps st) = ws_weights st @ reported_weights ps"
  "loopless (fold (check_path edge) ps st) \<longleftrightarrow> loopless st \<and> (\<forall>p \<in> set ps. no_loop edge p)"
  "selfConsistent (fold (check_path edge) ps st) \<longleftrightarrow> selfConsistent st \<and> (\<forall>p \<in> set ps. path_adds_up edge p)"
  by (induction ps arbitrary: st) (auto simp: check_path_effect reported_weights_def)

lemma length_reported: "length (reported_weights ps) \<le> length ps"
  by (induction ps) (auto simp: reported_weights_def Let_def split: prod.splits)

lemma sort_Nil_iff: "sort ws = [] \<longleftrightarrow> ws = []" for ws :: "'a::linorder list"
  by (metis set_empty set_sort)

lemma hd_sort_Min: "ws \<noteq> [] \<Longrightarrow> sort ws ! 0 = Min (set ws)" for ws :: "'a::linorder list"
proof -
  assume ne: "ws \<noteq> []"
  then obtain x xs where x: "sort ws = x # xs" by (metis list.exhaust set_empty set_sort)
  then have "\<forall>y \<in> set ws. x \<le> y" "x \<in> set ws"
    by (metis set_ConsD set_sort sorted_simps(2) sorted_sort order_refl, metis list.set_intros(1) set_sort)
  then have "Min (set ws) = x" by (intro Min_eqI) simp_all
  then show ?thesis using x by simp
qed

text \<open>
  C18: the result of a query that came back: the weights are those reported by its paths, sorted,
  the distance is the least of them (infinite without any), there are at most as many weights
  as paths, and a result is loopless or self-consistent exactly if every path is, except that an
  answer without paths counts as neither.
\<close>

theorem Shortest_answer:
  assumes "query (shortest_query opts) (if 0 < Timeout opts then Some (Timeout opts) else None) = (Inr (Some body), t)"
    and "decode_paths body = Some ps"
  shows "\<exists>r. Shortest query opts = (r, None) \<and> Weights r = sort (reported_weights ps)
    \<and> Distance r = (if reported_weights ps = [] then PInf else Min (set (reported_weights ps)))
    \<and> PathCount r = length ps \<and> length (Weights r) \<le> PathCount r \<and> Latency r = t
    \<and> (Loopless r \<longleftrightarrow> ps \<noteq> [] \<and> (\<forall>p \<in> set ps. no_loop (edge_of opts) p))
    \<and> (SelfConsistent r \<longleftrightarrow> ps \<noteq> [] \<and> (\<forall>p \<in> set ps. path_adds_up (edge_of opts) p))"
proof (cases "ps = []")
  case True
  then show ?thesis using assms by (simp add: Shortest_def zero_result_def reported_weights_def)
next
  case False
  then show ?thesis
    using assms length_reported [of ps] hd_sort_Min [of "reported_weights ps"]
    by (simp add: Shortest_def Let_def check_paths_effect walk_start_def sort_Nil_iff)
qed

lemma decode_paths_objects: "decode_paths (JObject [(''_path_'', JArray (map JObject ps))]) = Some ps"
proof -
  have "those (map as_object (map JObject ps)) = Some ps" by (induction ps) (simp_all add: as_object_def)
  moreover have "jget [(''_path_'', JArray (map JObject ps))] ''_path_'' = Some (JArray (map JObject ps))"
    by (simp add: jget_def)
  ultimately show ?thesis by (simp only: decode_paths_def as_object_def json.case option.case)
qed

definition demo_options :: ShortestOptions where
  "demo_options = \<lparr>SrcUID = ''0x1'', DstUID = ''0x3'', EdgePred = [], NumPaths = 2, MaxFrontier = 0, Timeout = 0\<rparr>"

definition demo_paths :: "json_object list" where
  "demo_paths = [(''_weight_'', JFloat (Fin 3)) # path_node ''connected'' ''0x1'' [(''0x2'', Fin 1), (''0x3'', Fin 2)],
     path_node ''connected'' ''0x1'' [(''0x3'', Fin 9)]]"

theorem Shortest_answer_witness:
  "\<exists>r. Shortest (\<lambda>q t. (Inr (Some (JObject [(''_path_'', JArray (map JObject demo_paths))])), 5)) demo_options = (r, None)
    \<and> Weights r = sort (reported_weights demo_paths)
    \<and> Distance r = (if reported_weights demo_paths = [] then PInf else Min (set (reported_weights demo_paths)))
    \<and> PathCount r = length demo_paths \<and> length (Weights r) \<le> PathCount r \<and> Latency r = 5
    \<and> (Loopless r \<longleftrightarrow> demo_paths \<noteq> [] \<and> (\<forall>p \<in> set demo_paths. no_loop (edge_of demo_options) p))
    \<and> (SelfConsistent r \<longleftrightarrow> demo_paths \<noteq> [] \<and> (\<forall>p \<in> set demo_paths. path_adds_up (edge_of demo_options) p))"
  by (rule Shortest_answer [OF _ decode_paths_objects]) simp

end
