(* ===== verification/KShortestProps.thy ===== *)
theory KShortestProps
  imports KShortestRun
begin

text \<open>
  The k-shortest run: its counts add up whatever the server answers, and its targets depend on
  the seed and the files alone.
\<close>

section \<open>Counts\<close>

definition verdicts :: "kFrontierStat \<Rightarrow> string \<Rightarrow> nat" where
  "verdicts stat v = length [t \<leftarrow> TargetResults stat. kt_Verdict t = v]"

definition tally :: "kFrontierStat \<Rightarrow> recorder \<Rightarrow> k_pair list \<Rightarrow> bool" where
  "tally stat rec qs \<longleftrightarrow>
     map GID (TargetResults stat) = map p_gid qs
     \<and> Returned stat + Timeouts stat + OtherErrors stat = length qs
     \<and> ks_Correct stat + CountMismatches stat + WeightMismatches stat = Returned stat
     \<and> ks_Correct stat = verdicts stat ''ok'' \<and> CountMismatches stat = verdicts stat ''count_mismatch''
     \<and> WeightMismatches stat = verdicts stat ''weight_mismatch'' \<and> Timeouts stat = verdicts stat ''timeout''
     \<and> OtherErrors stat = verdicts stat ''error'' \<and> SelfInconsistent stat \<le> Returned stat
     \<and> length (samples rec) = Returned stat \<and> errs rec = int (Timeouts stat + OtherErrors stat)"

lemma classify_cases: "classifyErr (Some e) = ''timeout'' \<or> classifyErr (Some e) = ''error''"
  by (simp add: classifyErr_def Let_def split: client_error.splits)

lemma tally_error:
  "tally stat rec qs \<Longrightarrow> tally (count_error e (new_target p sr) stat) (RecordError rec) (qs @ [p])"
  using classify_cases [of e]
  by (auto simp: tally_def count_error_def RecordError_def verdicts_def new_target_def Let_def)

lemma tally_result:
  "tally stat rec qs \<Longrightarrow> tally (count_result tol p sr (new_target p sr) stat) (Record (Latency sr) rec) (qs @ [p])"
  by (cases "cr_Verdict (Vectors (p_oracle p) (Weights sr) tol)")
    (auto simp: tally_def count_result_def Record_def verdicts_def new_target_def Let_def)

lemma tally_step:
  assumes "tally stat rec qs" and "target_step srv opts tol p (stat, rec, k) = (stat', rec', k')"
  shows "tally stat' rec' (qs @ [p]) \<and> Targets stat' = Targets stat \<and> ks_MaxFrontier stat' = ks_MaxFrontier stat"
proof -
  obtain sr err where s: "Shortest (srv k) (opts p) = (sr, err)" by (cases "Shortest (srv k) (opts p)")
  have keep: "Targets (count_error e tr stat) = Targets stat" "ks_MaxFrontier (count_error e tr stat) = ks_MaxFrontier stat"
    "Targets (count_result tol p sr tr stat) = Targets stat"
    "ks_MaxFrontier (count_result tol p sr tr stat) = ks_MaxFrontier stat" for e tr
    by (cases "cr_Verdict (Vectors (p_oracle p) (Weights sr) tol)"; simp add: count_error_def count_result_def Let_def)+
  show ?thesis
    using assms(2) tally_error [OF assms(1), of _ p sr] tally_result [OF assms(1), of tol p sr] keep
    by (auto simp: target_step_def s Let_def split: option.splits)
qed

lemma tally_steps:
  assumes "tally stat rec qs" and "fold (target_step srv opts tol) ps (stat, rec, k) = (stat', rec', k')"
  shows "tally stat' rec' (qs @ ps) \<and> Targets stat' = Targets stat \<and> ks_MaxFrontier stat' = ks_MaxFrontier stat"
  using assms
proof (induction ps arbitrary: stat rec k qs)
  case (Cons p ps)
  obtain s r j where step: "target_step srv opts tol p (stat, rec, k) = (s, r, j)"
    by (cases "target_step srv opts tol p (stat, rec, k)")
  with Cons.IH [of s r "qs @ [p]" j] tally_step [OF Cons.prems(1) step] Cons.prems(2) show ?case by simp
qed simp

lemma finish_counts:
  "TargetResults (finish_stat wall rec stat) = TargetResults stat" "Returned (finish_stat wall rec stat) = Returned stat"
  "Timeouts (finish_stat wall rec stat) = Timeouts stat" "OtherErrors (finish_stat wall rec stat) = OtherErrors stat"
  "ks_Correct (finish_stat wall rec stat) = ks_Correct stat"
  "CountMismatches (finish_stat wall rec stat) = CountMismatches stat"
  "WeightMismatches (finish_stat wall rec stat) = WeightMismatches stat"
  "SelfInconsistent (finish_stat wall rec stat) = SelfInconsistent stat"
  by (simp_all add: finish_stat_def Let_def)

lemma tally_finish: "tally stat rec qs \<Longrightarrow> tally (finish_stat wall rec stat) rec qs"
  unfolding tally_def verdicts_def finish_counts .

lemma finish_keeps: "Targets (finish_stat wall rec stat) = Targets stat"
  "ks_MaxFrontier (finish_stat wall rec stat) = ks_MaxFrontier stat"
  "ks_Latency (finish_stat wall rec stat) = fst (Summarize wall rec)"
  by (simp_all add: finish_stat_def Let_def)

lemma Summarize_counts: "Count (fst (Summarize wall r)) = length (samples r)" "Errors (fst (Summarize wall r)) = errs r"
  by (simp_all add: Summarize_def zero_summary_def Let_def)

text \<open>
  C19: whatever the server answers, every qualified target is recorded once, in order, and the
  counts of a frontier add up: targets are returned, timed out or failed; returned ones are
  correct or have one of the two mismatches; each count is the number of targets with that
  verdict; the latency summary counts the returned queries and the errors.
\<close>

theorem run_frontier_counts:
  "\<exists>stat k' rec. run_frontier srv clock opts tol qs fr k = (stat, k') \<and> tally stat rec qs
    \<and> Targets stat = length qs \<and> ks_MaxFrontier stat = fr
    \<and> Count (ks_Latency stat) = Returned stat \<and> Errors (ks_Latency stat) = int (Timeouts stat + OtherErrors stat)"
proof -
  obtain s r j where run: "fold (target_step srv opts tol) qs (new_stat fr (length qs), stats_New, k) = (s, r, j)"
    by (cases "fold (target_step srv opts tol) qs (new_stat fr (length qs), stats_New, k)")
  have "tally (new_stat fr (length qs)) stats_New []"
    by (simp add: tally_def new_stat_def stats_New_def verdicts_def)
  from tally_steps [OF this run] have t: "tally s r qs" "Targets s = length qs" "ks_MaxFrontier s = fr"
    by (simp_all add: new_stat_def)
  have f: "tally (finish_stat (clock j) r s) r qs" by (rule tally_finish [OF t(1)])
  then have "length (samples r) = Returned (finish_stat (clock j) r s)"
    "errs r = int (Timeouts (finish_stat (clock j) r s) + OtherErrors (finish_stat (clock j) r s))"
    by (simp_all add: tally_def)
  with f t(2,3) show ?thesis
    by (intro exI [of _ "finish_stat (clock j) r s"] exI [of _ j] exI [of _ r])
      (simp add: run_frontier_def run finish_keeps Summarize_counts)
qed

section \<open>Targets of a band\<close>

lemma sort_cands_props:
  "set (sort_cands cs) = set cs" "length (sort_cands cs) = length cs"
  "distinct (map c_gid (sort_cands cs)) \<longleftrightarrow> distinct (map c_gid cs)"
proof -
  have m: "mset (sort_cands cs) = mset cs" by (simp add: sort_cands_def)
  then show "set (sort_cands cs) = set cs" "length (sort_cands cs) = length cs" by (simp_all add: sort_cands_def)
  from m have "mset (map c_gid (sort_cands cs)) = mset (map c_gid cs)" by simp
  then show "distinct (map c_gid (sort_cands cs)) \<longleftrightarrow> distinct (map c_gid cs)" by (rule mset_eq_imp_distinct_iff)
qed

text \<open>Candidates with different ids are sorted alike, in whatever order they come.\<close>

lemma sort_cands_same:
  assumes "distinct (map c_gid cs)" and "distinct (map c_gid ds)" and "set cs = set ds"
  shows "sort_cands cs = sort_cands ds"
proof -
  have "inj_on c_gid (set cs \<union> set ds)" using assms by (simp add: distinct_map)
  moreover have "distinct (map c_gid (sort_key c_gid xs))" if "distinct (map c_gid xs)" for xs
  proof -
    have "mset (map c_gid (sort_key c_gid xs)) = mset (map c_gid xs)" by simp
    with that show ?thesis using mset_eq_imp_distinct_iff by blast
  qed
  from this [OF assms(1)] this [OF assms(2)]
  have "distinct (map c_gid (sort_key c_gid cs))" "distinct (map c_gid (sort_key c_gid ds))" .
  ultimately have "sort_key c_gid cs = sort_key c_gid ds"
    using assms(3) by (intro map_sorted_distinct_set_unique [of c_gid]) simp_all
  then show ?thesis by (simp add: sort_cands_def)
qed

lemma reachable_set:
  "set (reachable ref uidMap source order) =
     {c. c_gid c \<in> set order \<and> ref (c_gid c) = Some (c_dist c) \<and> c_gid c \<noteq> source \<and> \<not> fle (c_dist c) (Fin 0)
       \<and> \<not> is_inf (c_dist c) 1 \<and> uidMap (c_gid c) \<noteq> None}" (is "?L = ?R")
proof
  show "?L \<subseteq> ?R" by (auto simp: reachable_def split: option.splits if_splits)
  show "?R \<subseteq> ?L"
  proof
    fix c assume c: "c \<in> ?R"
    then have "c \<in> set (case ref (c_gid c) of None \<Rightarrow> []
       | Some d \<Rightarrow> if c_gid c = source \<or> fle d (Fin 0) \<or> is_inf d 1 \<or> uidMap (c_gid c) = None then []
                   else [\<lparr>c_gid = c_gid c, c_dist = d\<rparr>])" by simp
    with c show "c \<in> ?L" unfolding reachable_def set_concat set_map by blast
  qed
qed

lemma reachable_distinct: "distinct order \<Longrightarrow> distinct (map c_gid (reachable ref uidMap source order))"
proof (induction order)
  case (Cons gid order)
  have "gid \<notin> c_gid ` set (reachable ref uidMap source order)" using Cons.prems by (auto simp: reachable_set)
  then show ?case using Cons by (auto simp: reachable_def split: option.splits)
qed (simp add: reachable_def)

lemma band_limits_range:
  "0 < n \<Longrightarrow> case band_limits n bandLo bandHi of (lo, hi) \<Rightarrow> 0 \<le> lo \<and> lo < hi \<and> hi \<le> int n"
  by (auto simp: band_limits_def Let_def)

lemma pick_fold:
  "\<forall>i \<in> set idx. i < length band \<Longrightarrow>
   go_fold (\<lambda>i out. go_bind (go_index band (int i)) (\<lambda>c. Ret (out @ [c]))) idx out = Ret (out @ map ((!) band) idx)"
  by (induction idx arbitrary: out) (simp_all add: go_index_nat)

text \<open>At most \<open>n\<close> elements, or all if \<open>n\<close> is not positive.\<close>

lemma limit_facts:
  assumes "ys = (if 0 < n \<and> n < int (length xs) then take (nat n) xs else xs)" and "xs \<noteq> []"
  shows "ys \<noteq> []" and "0 < n \<longrightarrow> int (length ys) \<le> n" and "set ys \<subseteq> set xs" and "distinct xs \<longrightarrow> distinct ys"
proof -
  show "ys \<noteq> []" "0 < n \<longrightarrow> int (length ys) \<le> n" "distinct xs \<longrightarrow> distinct ys" using assms by simp_all
  show "set ys \<subseteq> set xs" using assms(1) set_take_subset [of "nat n" xs] by simp
qed

text \<open>A shuffle: for each seed and length a permutation of the indices.\<close>

definition is_shuffle :: "(int \<Rightarrow> nat \<Rightarrow> nat list) \<Rightarrow> bool" where
  "is_shuffle shuffle \<longleftrightarrow> (\<forall>seed n. distinct (shuffle seed n) \<and> set (shuffle seed n) = {..<n})"

lemma is_shuffle_length: "is_shuffle shuffle \<Longrightarrow> length (shuffle seed n) = n"
  by (metis card_lessThan distinct_card is_shuffle_def)

lemma banded_run:
  assumes "ReadSSSP file = (Inr ref :: oracle_error ldbc_error + (int \<Rightarrow> float64 option))" and "reachable ref uidMap source order \<noteq> []" and "is_shuffle shuffle"
  shows "\<exists>band idx. bandedTargets shuffle order file uidMap source bandLo bandHi n seed = Ret (Inr (map ((!) band) idx))
    \<and> distinct idx \<and> set idx \<subseteq> {..<length band} \<and> idx \<noteq> [] \<and> (0 < n \<longrightarrow> int (length idx) \<le> n)
    \<and> set band \<subseteq> set (reachable ref uidMap source order)
    \<and> (distinct order \<longrightarrow> distinct (map c_gid band))"
proof -
  let ?r = "sort_cands (reachable ref uidMap source order)"
  have ne: "?r \<noteq> []" using assms(2) sort_cands_props(2) by (metis length_0_conv)
  obtain lo hi where lim: "band_limits (length ?r) bandLo bandHi = (lo, hi)" by fastforce
  with band_limits_range [of "length ?r" bandLo bandHi] ne have range: "0 \<le> lo" "lo < hi" "hi \<le> int (length ?r)" by auto
  let ?band = "take (nat hi - nat lo) (drop (nat lo) ?r)"
  have slice: "go_slice ?r lo hi = Ret ?band" using range by (simp add: go_slice_def)
  have len: "0 < length ?band" using range by simp
  let ?s = "shuffle seed (length ?band)"
  define idx where "idx = (if 0 < n \<and> n < int (length ?s) then take (nat n) ?s else ?s)"
  have s: "distinct ?s" "set ?s = {..<length ?band}" "length ?s = length ?band"
    using assms(3) is_shuffle_length [OF assms(3)] by (auto simp: is_shuffle_def)
  have "?s \<noteq> []" using s(3) len by (metis length_greater_0_conv)
  note idx = limit_facts [OF idx_def this]
  have sub: "set idx \<subseteq> {..<length ?band}" using idx(3) unfolding s(2) .
  then have "\<forall>i \<in> set idx. i < length ?band" by blast
  note pick = pick_fold [OF this, of "[]"]
  have "set ?band \<subseteq> set (reachable ref uidMap source order)"
    using set_take_subset set_drop_subset sort_cands_props(1) by fast
  moreover have "distinct order \<longrightarrow> distinct (map c_gid ?band)"
    using reachable_distinct sort_cands_props(3) by (simp add: take_map [symmetric] drop_map [symmetric] del: take_map drop_map)
  moreover have "bandedTargets shuffle order file uidMap source bandLo bandHi n seed = Ret (Inr (map ((!) ?band) idx))"
    using ne by (simp del: length_take length_drop add: bandedTargets_def assms(1) lim slice Let_def idx_def [symmetric] pick)
  ultimately show ?thesis using sub idx(1,2,4) s(1) by blast
qed

text \<open>
  C20: with a reference file without NaNs, a map order that lists every key once and a reachable
  target, the selection of targets never panics; it depends on the seed and the file and not on
  the order in which Go iterates over the map; the targets are different vertices with a uid, at
  a positive finite distance, other than the source, at least one and at most the number asked
  for.
\<close>

theorem bandedTargets_deterministic:
  assumes "ReadSSSP file = (Inr ref :: oracle_error ldbc_error + (int \<Rightarrow> float64 option))"
    and "distinct order" and "set order = dom ref" and "distinct order'" and "set order' = dom ref"
    and "NaN \<notin> ran ref" and "reachable ref uidMap source order \<noteq> []" and "is_shuffle shuffle"
  shows "\<exists>cs. bandedTargets shuffle order file uidMap source bandLo bandHi n seed = Ret (Inr cs)
    \<and> bandedTargets shuffle order' file uidMap source bandLo bandHi n seed = Ret (Inr cs)
    \<and> cs \<noteq> [] \<and> distinct (map c_gid cs) \<and> (0 < n \<longrightarrow> int (length cs) \<le> n)
    \<and> (\<forall>c \<in> set cs. c_gid c \<noteq> source \<and> uidMap (c_gid c) \<noteq> None \<and> ref (c_gid c) = Some (c_dist c)
         \<and> (\<exists>x. c_dist c = Fin x \<and> 0 < x))"
proof -
  have sets: "set (reachable ref uidMap source order) = set (reachable ref uidMap source order')"
    by (simp add: reachable_set assms(3,5))
  then have "sort_cands (reachable ref uidMap source order) = sort_cands (reachable ref uidMap source order')"
    using reachable_distinct assms(2,4) by (intro sort_cands_same) simp_all
  then have same: "bandedTargets shuffle order' file uidMap source bandLo bandHi n seed
      = bandedTargets shuffle order file uidMap source bandLo bandHi n seed"
    by (simp add: bandedTargets_def assms(1))
  obtain band idx where run: "bandedTargets shuffle order file uidMap source bandLo bandHi n seed = Ret (Inr (map ((!) band) idx))"
    and idx: "distinct idx" "set idx \<subseteq> {..<length band}" "idx \<noteq> []" "0 < n \<longrightarrow> int (length idx) \<le> n"
    and band: "set band \<subseteq> set (reachable ref uidMap source order)" "distinct (map c_gid band)"
    using banded_run [OF assms(1,7,8), of bandLo bandHi n seed] assms(2) by blast
  have members: "set (map ((!) band) idx) \<subseteq> set (reachable ref uidMap source order)" using idx(2) band(1) by fastforce
  have "inj_on (\<lambda>i. c_gid (band ! i)) {..<length band}"
    using band(2) by (simp add: distinct_conv_nth inj_on_def) blast
  then have "distinct (map c_gid (map ((!) band) idx))"
    using idx(1,2) by (auto simp: distinct_map comp_def intro: inj_on_subset)
  moreover have "\<exists>x. c_dist c = Fin x \<and> 0 < x" if "c \<in> set (reachable ref uidMap source order)" for c
  proof -
    have "c_dist c \<noteq> NaN" using that assms(6) by (auto simp: reachable_set ran_def)
    then show ?thesis using that by (cases "c_dist c") (auto simp: reachable_set fle_def)
  qed
  ultimately show ?thesis
    using run same idx(3,4) members
    by (intro exI [of _ "map ((!) band) idx"]) (auto simp: reachable_set subset_iff)
qed

definition demo_reference :: "int \<Rightarrow> float64 option" where
  "demo_reference = [1 \<mapsto> Fin 0, 2 \<mapsto> Fin 5, 3 \<mapsto> PInf]"

lemma read_demo_reference:
  "ReadSSSP (Some (text_of [''1 0'', ''2 5'', ''3 Infinity''], False)) = (Inr demo_reference :: 'e ldbc_error + (int \<Rightarrow> float64 option))"
proof -
  have five: "fround 5 = Fin 5" using float_of_int_exact [of 5] by (simp add: float_of_int_def)
  have "literal ''5'' = Some 5" "\<not> EqualFold ''5'' ''Infinity''" "strip_sign ''5'' = (False, ''5'')" "ToLower ''5'' = ''5''"
    by code_simp+
  then have five_text: "parse_distance ''5'' = Some (Fin 5)" by (simp add: parse_distance_def ParseFloat_def five)
  have parts: "TrimSpace ''1 0'' = ''1 0''" "TrimSpace ''2 5'' = ''2 5''" "TrimSpace ''3 Infinity'' = ''3 Infinity''"
    "Fields ''1 0'' = [''1'', ''0'']" "Fields ''2 5'' = [''2'', ''5'']" "Fields ''3 Infinity'' = [''3'', ''Infinity'']"
    "parse_distance ''0'' = Some (Fin 0)" "parse_distance ''Infinity'' = Some PInf"
    "ParseInt ''1'' = Some 1" "ParseInt ''2'' = Some 2" "ParseInt ''3'' = Some 3"
    by code_simp+
  have "\<forall>l \<in> set [''1 0'', ''2 5'', ''3 Infinity'']. plain_line buffer_1M l"
    by (simp add: plain_line_def buffer_1M_def)
  then show ?thesis
    by (simp del: text_of_simps add: ReadSSSP_def scan_fold_text sssp_line_def parts five_text demo_reference_def)
qed

theorem bandedTargets_deterministic_witness:
  "\<exists>cs. bandedTargets (\<lambda>seed n. [0..<n]) [3, 2, 1] (Some (text_of [''1 0'', ''2 5'', ''3 Infinity''], False))
      [1 \<mapsto> ''0x1'', 2 \<mapsto> ''0x2''] 1 (Fin 0) (Fin 1) 10 1 = Ret (Inr cs)
    \<and> bandedTargets (\<lambda>seed n. [0..<n]) [1, 2, 3] (Some (text_of [''1 0'', ''2 5'', ''3 Infinity''], False))
      [1 \<mapsto> ''0x1'', 2 \<mapsto> ''0x2''] 1 (Fin 0) (Fin 1) 10 1 = Ret (Inr cs)
    \<and> cs \<noteq> [] \<and> distinct (map c_gid cs) \<and> (0 < (10 :: int) \<longrightarrow> int (length cs) \<le> 10)
    \<and> (\<forall>c \<in> set cs. c_gid c \<noteq> 1 \<and> [1 \<mapsto> ''0x1'', 2 \<mapsto> ''0x2''] (c_gid c) \<noteq> None
         \<and> demo_reference (c_gid c) = Some (c_dist c) \<and> (\<exists>x. c_dist c = Fin x \<and> 0 < x))"
  by (rule bandedTargets_deterministic [OF read_demo_reference])
    (auto simp: demo_reference_def is_shuffle_def ran_def reachable_def fle_def)

end
