(* ===== verification/KBench.thy ===== *)
theory KBench
  imports KShortestRun
begin

text \<open>
  k-shortest-path/cmd/bench/main.go: the uid map and its cache, the choice of targets and pairs,
  the pool of workers of the correctness mode with its channels, the tally of its results, and
  the atomic write of the result file.
\<close>

section \<open>The command\<close>

record bench_config =
  mode :: string
  datasetDir :: string
  cfg_out :: string
  uidMapCache :: string
  refreshUIDMap :: bool

datatype bench_mode = Correctness | Perf | KShortest

datatype bench_error =
    NoDataset | LoadError "unit ldbc_error" | FetchError client_error | EmptyUidMap | UnknownMode string

text \<open>What the command does: it fails, or it runs a mode, after it may have saved the uid map.\<close>

datatype bench_outcome = Fatal bench_error | Run bench_mode Dataset uid_map string "(string \<times> uid_map) option"

definition out_path :: "bench_config \<Rightarrow> string" where
  "out_path cfg = (if cfg_out cfg = [] then path_Join [''results'', mode cfg @ ''.json''] else cfg_out cfg)"

definition cache_path :: "bench_config \<Rightarrow> string" where
  "cache_path cfg =
     (if uidMapCache cfg = [] then path_Join [datasetDir cfg, ''dgraph'', ''uid-map.tsv''] else uidMapCache cfg)"

definition cached_uid_map :: "(string \<Rightarrow> reader option) \<Rightarrow> bench_config \<Rightarrow> uid_map option" where
  "cached_uid_map fs cfg =
     (if refreshUIDMap cfg then None
      else case LoadUIDMap (fs (cache_path cfg)) of Inl e \<Rightarrow> None | Inr m \<Rightarrow> Some m)"

definition run_mode ::
  "bench_config \<Rightarrow> Dataset \<Rightarrow> uid_map \<Rightarrow> (string \<times> uid_map) option \<Rightarrow> bench_outcome" where
  "run_mode cfg ds uidMap saved =
     (if uidMap = Map.empty then Fatal EmptyUidMap
      else if mode cfg = ''correctness'' then Run Correctness ds uidMap (out_path cfg) saved
      else if mode cfg = ''perf'' then Run Perf ds uidMap (out_path cfg) saved
      else if mode cfg = ''kshortest'' then Run KShortest ds uidMap (out_path cfg) saved
      else Fatal (UnknownMode (mode cfg)))"

definition bench_main ::
  "(string \<Rightarrow> reader option) \<Rightarrow> (int \<Rightarrow> int \<Rightarrow> client_error + (string \<times> int) list) \<Rightarrow> bench_config \<Rightarrow>
     bench_outcome go" where
  "bench_main fs serve cfg =
     (if datasetDir cfg = [] then Ret (Fatal NoDataset)
      else case LoadDataset fs (datasetDir cfg) of
             Inl e \<Rightarrow> Ret (Fatal (LoadError e))
           | Inr ds \<Rightarrow>
               (case cached_uid_map fs cfg of
                  Some m \<Rightarrow> Ret (run_mode cfg ds m None)
                | None \<Rightarrow>
                    go_bind (may_hang (map_option Ret (FetchUIDMap serve 10000)))
                      (\<lambda>r. case r of
                         Inl e \<Rightarrow> Ret (Fatal (FetchError e))
                       | Inr m \<Rightarrow>
                           if m = Map.empty then Ret (Fatal EmptyUidMap)
                           else Ret (run_mode cfg ds m (Some (cache_path cfg, m))))))"

section \<open>Targets and pairs\<close>

definition pickTargets ::
  "(int \<Rightarrow> nat \<Rightarrow> nat list) \<Rightarrow> int list \<Rightarrow> uid_map \<Rightarrow> int \<Rightarrow> int \<Rightarrow> int \<Rightarrow> int list" where
  "pickTargets shuffle order uidMap source n seed =
     (let all = sort (filter (\<lambda>v. v \<noteq> source \<and> uidMap v \<noteq> None) order)
      in if n \<le> 0 \<or> int (length all) \<le> n then all
         else take (nat n) (map ((!) all) (shuffle seed (length all))))"

datatype start_error = NoReference string | BadReference "unit ldbc_error" | SourceNotInGraph int

text \<open>The uid of the source, the reference distances and the targets of the correctness mode.\<close>

definition correctness_start ::
  "(int \<Rightarrow> nat \<Rightarrow> nat list) \<Rightarrow> int list \<Rightarrow> (string \<Rightarrow> reader option) \<Rightarrow> Dataset \<Rightarrow> uid_map \<Rightarrow>
     int \<Rightarrow> int \<Rightarrow> start_error + string \<times> (int \<Rightarrow> float64 option) \<times> int list" where
  "correctness_start shuffle order fs ds uidMap n seed =
     (let source = SourceVertex (ds_Properties ds)
      in if fs (SSSPRefFile ds) = None then Inl (NoReference (SSSPRefFile ds))
         else case ReadSSSP (fs (SSSPRefFile ds)) of
                Inl e \<Rightarrow> Inl (BadReference e)
              | Inr ref \<Rightarrow>
                  (case uidMap source of
                     None \<Rightarrow> Inl (SourceNotInGraph source)
                   | Some srcUID \<Rightarrow> Inr (srcUID, ref, pickTargets shuffle order uidMap source n seed)))"

text \<open>\<open>intn n r\<close> draws an index below \<open>n\<close>; drawing a second id that differs may never end.\<close>

partial_function (option) redraw ::
  "(nat \<Rightarrow> 'r \<Rightarrow> nat \<times> 'r) \<Rightarrow> int list \<Rightarrow> int \<Rightarrow> int \<Rightarrow> 'r \<Rightarrow> (int \<times> 'r) option" where
  "redraw intn ids a b r =
     (if a = b then let (j, r) = intn (length ids) r in redraw intn ids a (ids ! j) r
      else Some (b, r))"

definition draw_pair :: "(nat \<Rightarrow> 'r \<Rightarrow> nat \<times> 'r) \<Rightarrow> int list \<Rightarrow> 'r \<Rightarrow> ((int \<times> int) \<times> 'r) go" where
  "draw_pair intn ids r =
     (let (i, r) = intn (length ids) r; (j, r) = intn (length ids) r
      in go_bind (may_hang (map_option Ret (redraw intn ids (ids ! i) (ids ! j) r)))
           (\<lambda>(b, r). Ret ((ids ! i, b), r)))"

fun draw_pairs :: "(nat \<Rightarrow> 'r \<Rightarrow> nat \<times> 'r) \<Rightarrow> int list \<Rightarrow> nat \<Rightarrow> 'r \<Rightarrow> (int \<times> int) list go" where
  "draw_pairs intn ids 0 r = Ret []"
| "draw_pairs intn ids (Suc k) r =
     go_bind (draw_pair intn ids r) (\<lambda>(p, r). go_bind (draw_pairs intn ids k r) (\<lambda>ps. Ret (p # ps)))"

definition perf_pairs ::
  "(nat \<Rightarrow> 'r \<Rightarrow> nat \<times> 'r) \<Rightarrow> int list \<Rightarrow> uid_map \<Rightarrow> int \<Rightarrow> 'r \<Rightarrow> (string \<times> string) list option go" where
  "perf_pairs intn order uidMap pairs r =
     (let ids = sort order; uid = (\<lambda>v. case uidMap v of Some u \<Rightarrow> u | None \<Rightarrow> [])
      in if length ids < 2 then Ret None
         else if \<not> make_fits 32 pairs then Panic MakeSliceLen
         else go_bind (draw_pairs intn ids (nat pairs) r)
                (\<lambda>ps. Ret (Some (map (\<lambda>(a, b). (uid a, uid b)) ps))))"

definition perf_record :: "(ShortestResult \<times> client_error option) list \<Rightarrow> recorder" where
  "perf_record rs =
     fold (\<lambda>(sr, err) rec. if err \<noteq> None then RecordError rec else Record (Latency sr) rec) rs stats_New"

section \<open>The tally of the correctness mode\<close>

definition epsilon :: float64 where
  "epsilon = fround (1 / 10000)"

definition relErr :: "float64 \<Rightarrow> float64 \<Rightarrow> float64" where
  "relErr expected got =
     (if feq expected (Fin 0) then (if feq got (Fin 0) then Fin 0 else fabs got)
      else fdiv (fabs (fsub expected got)) (fabs expected))"

record correctnessFailure =
  Vertex :: int
  Expected :: float64
  Got :: float64
  RelErr :: float64

record correctnessResult =
  Passed :: nat
  Failed :: nat
  InfMismatch :: nat
  QueryErrors :: nat
  FirstFails :: "correctnessFailure list"
  cr_rec :: recorder

definition zero_tally :: correctnessResult where
  "zero_tally =
     \<lparr>Passed = 0, Failed = 0, InfMismatch = 0, QueryErrors = 0, FirstFails = [], cr_rec = stats_New\<rparr>"

definition add_failure :: "correctnessFailure \<Rightarrow> correctnessResult \<Rightarrow> correctnessResult" where
  "add_failure f res =
     (if length (FirstFails res) < 20 then res\<lparr>FirstFails := FirstFails res @ [f]\<rparr> else res)"

type_synonym query_result = "int \<times> ShortestResult \<times> client_error option"

definition count_query ::
  "(int \<Rightarrow> float64 option) \<Rightarrow> query_result \<Rightarrow> correctnessResult \<Rightarrow> correctnessResult" where
  "count_query ref = (\<lambda>(tgt, sr, err) res.
     let expected = (case ref tgt of Some d \<Rightarrow> d | None \<Rightarrow> Fin 0); got = Distance sr
     in if err \<noteq> None
        then res\<lparr>cr_rec := RecordError (cr_rec res), QueryErrors := QueryErrors res + 1\<rparr>
        else let res = res\<lparr>cr_rec := Record (Latency sr) (cr_rec res)\<rparr>
             in if is_inf expected 1 \<and> is_inf got 1 then res\<lparr>Passed := Passed res + 1\<rparr>
                else if is_inf expected 1 \<noteq> is_inf got 1 then
                  add_failure \<lparr>Vertex = tgt, Expected = expected, Got = got, RelErr = Fin 0\<rparr>
                    (res\<lparr>InfMismatch := InfMismatch res + 1, Failed := Failed res + 1\<rparr>)
                else if flt epsilon (relErr expected got) then
                  add_failure \<lparr>Vertex = tgt, Expected = expected, Got = got, RelErr = relErr expected got\<rparr>
                    (res\<lparr>Failed := Failed res + 1\<rparr>)
                else res\<lparr>Passed := Passed res + 1\<rparr>)"

text \<open>A distance in the JSON of a failure: infinities are strings.\<close>

definition jsonDist :: "float64 \<Rightarrow> json" where
  "jsonDist d =
     (if is_inf d 1 then JString ''Infinity'' else if is_inf d (- 1) then JString ''-Infinity'' else JFloat d)"

section \<open>The pool of workers\<close>

text \<open>
  The channels are buffers of twice the number of workers. A worker waits for a target (idle),
  works on one (its query and its result not yet sent) or has returned; what a query gives is
  arbitrary. The feeder sends the targets, closes the jobs, waits for the workers and closes the
  results, which the main loop receives.
\<close>

record pool =
  todo :: "int list"
  jobs :: "int list"
  jobsClosed :: bool
  idle :: nat
  working :: "int multiset"
  exited :: nat
  out :: "query_result list"
  outClosed :: bool
  received :: "query_result list"

definition new_pool :: "nat \<Rightarrow> int list \<Rightarrow> pool" where
  "new_pool n targets =
     \<lparr>todo = targets, jobs = [], jobsClosed = False, idle = n, working = {#}, exited = 0, out = [],
      outClosed = False, received = []\<rparr>"

inductive pool_step :: "nat \<Rightarrow> pool \<Rightarrow> pool \<Rightarrow> bool" for n :: nat where
  feed: "\<lbrakk> todo s = t # ts; length (jobs s) < 2 * n \<rbrakk> \<Longrightarrow>
     pool_step n s (s\<lparr>todo := ts, jobs := jobs s @ [t]\<rparr>)"
| close_jobs: "\<lbrakk> todo s = []; \<not> jobsClosed s \<rbrakk> \<Longrightarrow> pool_step n s (s\<lparr>jobsClosed := True\<rparr>)"
| take_job: "\<lbrakk> jobs s = t # ts; 0 < idle s \<rbrakk> \<Longrightarrow>
     pool_step n s (s\<lparr>jobs := ts, idle := idle s - 1, working := add_mset t (working s)\<rparr>)"
| send_result: "\<lbrakk> t \<in># working s; length (out s) < 2 * n \<rbrakk> \<Longrightarrow>
     pool_step n s (s\<lparr>working := working s - {#t#}, out := out s @ [(t, r)], idle := idle s + 1\<rparr>)"
| worker_returns: "\<lbrakk> jobs s = []; jobsClosed s; 0 < idle s \<rbrakk> \<Longrightarrow>
     pool_step n s (s\<lparr>idle := idle s - 1, exited := exited s + 1\<rparr>)"
| close_out: "\<lbrakk> jobsClosed s; exited s = n; \<not> outClosed s \<rbrakk> \<Longrightarrow> pool_step n s (s\<lparr>outClosed := True\<rparr>)"
| receive: "out s = x # xs \<Longrightarrow> pool_step n s (s\<lparr>out := xs, received := received s @ [x]\<rparr>)"

definition pool_done :: "pool \<Rightarrow> bool" where
  "pool_done s \<longleftrightarrow> out s = [] \<and> outClosed s"

section \<open>The result file\<close>

datatype file_op = CreateFile string | Append string string | Rename string string

text \<open>The encoder writes the text in pieces to the temporary file, which is renamed at the end.\<close>

definition writeJSON :: "string \<Rightarrow> string list \<Rightarrow> file_op list" where
  "writeJSON path pieces =
     (let tmp = path @ ''.tmp''
      in CreateFile tmp # map (Append tmp) pieces @ [Rename tmp path])"

fun apply_op :: "file_op \<Rightarrow> (string \<Rightarrow> string option) \<Rightarrow> (string \<Rightarrow> string option)" where
  "apply_op (CreateFile p) fs = fs(p \<mapsto> [])"
| "apply_op (Append p t) fs = fs(p := map_option (\<lambda>s. s @ t) (fs p))"
| "apply_op (Rename p q) fs = (fs(q := fs p))(p := None)"

end
