(* ===== verification/KBenchProps.thy ===== *)
theory KBenchProps
  imports KBench
begin

text \<open>
  The benchmark command: the pool of workers hands every target to one worker and ends, the
  tally adds up whatever the server answers and in whatever order, the targets depend on the
  seed alone, and the result file is never half written.
\<close>

section \<open>The pool\<close>

inductive reachable_pool :: "nat \<Rightarrow> int list \<Rightarrow> pool \<Rightarrow> bool" for n :: nat and targets :: "int list" where
  start: "reachable_pool n targets (new_pool n targets)"
| step: "\<lbrakk> reachable_pool n targets s; pool_step n s s' \<rbrakk> \<Longrightarrow> reachable_pool n targets s'"

definition all_targets :: "pool \<Rightarrow> int multiset" where
  "all_targets s =
     mset (todo s) + mset (jobs s) + working s + image_mset fst (mset (out s)) + image_mset fst (mset (received s))"

definition pool_ok :: "nat \<Rightarrow> int list \<Rightarrow> pool \<Rightarrow> bool" where
  "pool_ok n targets s \<longleftrightarrow>
     all_targets s = mset targets \<and> idle s + size (working s) + exited s = n
     \<and> (jobsClosed s \<longrightarrow> todo s = []) \<and> (0 < exited s \<longrightarrow> jobsClosed s \<and> jobs s = [])
     \<and> (outClosed s \<longrightarrow> jobsClosed s \<and> exited s = n)
     \<and> (n = 0 \<longrightarrow> jobs s = [] \<and> out s = [])"

lemma pool_ok_start: "pool_ok n targets (new_pool n targets)"
  by (simp add: pool_ok_def all_targets_def new_pool_def)

lemma pool_ok_step: "pool_step n s s' \<Longrightarrow> pool_ok n targets s \<Longrightarrow> pool_ok n targets s'"
proof (induction rule: pool_step.induct)
  case (send_result t s r)
  then obtain W where "working s = add_mset t W" by (metis insert_DiffM)
  with send_result show ?case by (auto simp: pool_ok_def all_targets_def)
qed (auto simp: pool_ok_def all_targets_def)

lemma reachable_ok: "reachable_pool n targets s \<Longrightarrow> pool_ok n targets s"
  by (induction rule: reachable_pool.induct) (auto intro: pool_ok_start pool_ok_step)

text \<open>A pool that is done has received one result for each target.\<close>

lemma done_received:
  assumes "pool_ok n targets s" and "pool_done s" and "0 < n"
  shows "image_mset fst (mset (received s)) = mset targets"
proof -
  have "jobs s = []" "todo s = []" "working s = {#}"
    using assms by (auto simp: pool_ok_def pool_done_def)
  then show ?thesis using assms by (simp add: pool_ok_def pool_done_def all_targets_def)
qed

definition pool_measure :: "pool \<Rightarrow> nat" where
  "pool_measure s =
     4 * length (todo s) + 3 * length (jobs s) + 2 * size (working s) + length (out s)
     + (if jobsClosed s then 0 else 1) + (if outClosed s then 0 else 1) + (idle s + size (working s))"

lemma pool_step_measure: "pool_step n s s' \<Longrightarrow> pool_measure s' < pool_measure s"
proof (induction rule: pool_step.induct)
  case (send_result t s r)
  then obtain W where "working s = add_mset t W" by (metis insert_DiffM)
  then show ?case by (simp add: pool_measure_def)
qed (auto simp: pool_measure_def)

text \<open>With at least one worker, a pool that is not done can go on.\<close>

lemma pool_progress:
  assumes "pool_ok n targets s" and "\<not> pool_done s" and "0 < n"
  shows "\<exists>s'. pool_step n s s'"
proof (cases "out s")
  case (Cons x xs)
  then show ?thesis using pool_step.receive by blast
next
  case out: Nil
  show ?thesis
  proof (cases "working s = {#}")
    case False
    then obtain t where "t \<in># working s" by (meson multiset_nonemptyE)
    then show ?thesis using pool_step.send_result [of t s n] out assms(3) by fastforce
  next
    case idle: True
    show ?thesis
    proof (cases "idle s = 0")
      case True
      then have "exited s = n" "jobsClosed s" "\<not> outClosed s"
        using idle assms out by (auto simp: pool_ok_def pool_done_def)
      then show ?thesis using pool_step.close_out by blast
    next
      case False
      show ?thesis
      proof (cases "jobs s")
        case (Cons t ts)
        then show ?thesis using pool_step.take_job False by blast
      next
        case jobs: Nil
        show ?thesis
        proof (cases "jobsClosed s")
          case True
          then show ?thesis using pool_step.worker_returns jobs False by blast
        next
          case more: False
          show ?thesis
          proof (cases "todo s")
            case Nil
            then show ?thesis using pool_step.close_jobs more by blast
          next
            case (Cons t ts)
            then show ?thesis using pool_step.feed [of s t ts n] jobs assms(3) by fastforce
          qed
        qed
      qed
    qed
  qed
qed

section \<open>The tally\<close>

definition tally_ok :: "nat \<Rightarrow> correctnessResult \<Rightarrow> bool" where
  "tally_ok k res \<longleftrightarrow>
     Passed res + Failed res + QueryErrors res = k \<and> InfMismatch res \<le> Failed res
     \<and> length (FirstFails res) = min 20 (Failed res)
     \<and> length (samples (cr_rec res)) = Passed res + Failed res \<and> errs (cr_rec res) = int (QueryErrors res)"

lemma count_query_ok: "tally_ok k res \<Longrightarrow> tally_ok (Suc k) (count_query ref q res)"
  by (cases q) (auto simp: tally_ok_def count_query_def add_failure_def Record_def RecordError_def Let_def)

lemma count_queries_ok: "tally_ok k res \<Longrightarrow> tally_ok (k + length qs) (fold (count_query ref) qs res)"
proof (induction qs arbitrary: k res)
  case (Cons q qs)
  from Cons.IH [OF count_query_ok [OF Cons.prems]] show ?case by simp
qed simp

lemma tally_ok_zero: "tally_ok 0 zero_tally"
  by (simp add: tally_ok_def zero_tally_def stats_New_def)

text \<open>
  C21: with at least one worker, however the workers, the feeder and the main loop interleave and
  whatever the server answers: when the main loop ends it has received exactly one result for
  every target, and the counts of passed, failed and failed queries add up to the targets.
\<close>

theorem correctness_pool_counts:
  assumes "0 < n" and "reachable_pool n targets s" and "pool_done s"
  shows "image_mset fst (mset (received s)) = mset targets
    \<and> tally_ok (length targets) (fold (count_query ref) (received s) zero_tally)"
proof -
  have m: "image_mset fst (mset (received s)) = mset targets"
    by (rule done_received [OF reachable_ok [OF assms(2)] assms(3,1)])
  then have "length (received s) = length targets" by (metis size_image_mset size_mset)
  with m count_queries_ok [OF tally_ok_zero, of "received s" ref] show ?thesis by simp
qed

definition demo_done :: pool where
  "demo_done = \<lparr>todo = [], jobs = [], jobsClosed = True, idle = 0, working = {#}, exited = 1, out = [],
     outClosed = True, received = [(7, zero_result 0, None)]\<rparr>"

lemma reachable_demo_done: "reachable_pool 1 [7] demo_done"
proof -
  note step = reachable_pool.step
  have "reachable_pool 1 [7] (new_pool 1 [7])" by (rule reachable_pool.start)
  from step [OF this pool_step.feed [of _ 7 "[]"]]
  have "reachable_pool 1 [7] ((new_pool 1 [7])\<lparr>todo := [], jobs := [7]\<rparr>)" by (simp add: new_pool_def)
  from step [OF this pool_step.take_job [of _ 7 "[]"]]
  have "reachable_pool 1 [7] ((new_pool 1 [7])\<lparr>todo := [], idle := 0, working := {#7#}\<rparr>)" by (simp add: new_pool_def)
  from step [OF this pool_step.send_result [of 7 _ 1 "(zero_result 0, None)"]]
  have "reachable_pool 1 [7] ((new_pool 1 [7])\<lparr>todo := [], out := [(7, zero_result 0, None)]\<rparr>)" by (simp add: new_pool_def)
  from step [OF this pool_step.receive [of _ "(7, zero_result 0, None)" "[]"]]
  have "reachable_pool 1 [7] ((new_pool 1 [7])\<lparr>todo := [], received := [(7, zero_result 0, None)]\<rparr>)" by (simp add: new_pool_def)
  from step [OF this pool_step.close_jobs]
  have "reachable_pool 1 [7] ((new_pool 1 [7])\<lparr>todo := [], received := [(7, zero_result 0, None)], jobsClosed := True\<rparr>)"
    by (simp add: new_pool_def)
  from step [OF this pool_step.worker_returns]
  have "reachable_pool 1 [7] ((new_pool 1 [7])\<lparr>todo := [], received := [(7, zero_result 0, None)], jobsClosed := True,
      idle := 0, exited := 1\<rparr>)" by (simp add: new_pool_def)
  from step [OF this pool_step.close_out] show ?thesis by (simp add: new_pool_def demo_done_def)
qed

theorem correctness_pool_counts_witness:
  "image_mset fst (mset (received demo_done)) = mset [7]
    \<and> tally_ok (length [7 :: int]) (fold (count_query [7 \<mapsto> Fin 1]) (received demo_done) zero_tally)"
  by (rule correctness_pool_counts [OF _ reachable_demo_done]) (simp_all add: demo_done_def pool_done_def)

text \<open>
  C22: with at least one worker the correctness mode neither deadlocks nor runs forever: in every
  reachable state that is not done some goroutine can take a step, and steps cannot go on
  without end.
\<close>

theorem correctness_pool_live:
  assumes "0 < n"
  shows "(\<forall>s. reachable_pool n targets s \<and> \<not> pool_done s \<longrightarrow> (\<exists>s'. pool_step n s s'))
    \<and> wf {(s', s). pool_step n s s'}"
proof
  show "\<forall>s. reachable_pool n targets s \<and> \<not> pool_done s \<longrightarrow> (\<exists>s'. pool_step n s s')"
    using pool_progress [OF reachable_ok _ assms] by blast
  have "{(s', s). pool_step n s s'} \<subseteq> measure pool_measure" using pool_step_measure by auto
  then show "wf {(s', s). pool_step n s s'}" by (rule wf_subset [OF wf_measure])
qed

theorem correctness_pool_live_witness:
  "(\<exists>s'. pool_step 2 (new_pool 2 [4, 5]) s') \<and> wf {(s', s). pool_step 2 s s'}"
  using correctness_pool_live [of 2 "[4, 5]"] reachable_pool.start [of 2 "[4, 5]"]
  by (simp add: pool_done_def new_pool_def)

text \<open>
  Without workers (\<open>-concurrency 0\<close>) and with a target, the first state is stuck: the feeder
  waits for a receiver, the main loop waits for a result, and neither comes.
\<close>

theorem correctness_pool_no_workers:
  assumes "targets \<noteq> []"
  shows "\<not> pool_done (new_pool 0 targets) \<and> (\<nexists>s'. pool_step 0 (new_pool 0 targets) s')"
proof
  show "\<not> pool_done (new_pool 0 targets)" by (simp add: pool_done_def new_pool_def)
  show "\<nexists>s'. pool_step 0 (new_pool 0 targets) s'"
    using assms by (auto simp: new_pool_def elim!: pool_step.cases)
qed

theorem correctness_pool_no_workers_witness:
  "\<not> pool_done (new_pool 0 [4]) \<and> (\<nexists>s'. pool_step 0 (new_pool 0 [4]) s')"
  by (rule correctness_pool_no_workers) simp

section \<open>Targets\<close>

lemma permuted:
  assumes "distinct xs" and "distinct idx" and "set idx = {..<length xs}"
  shows "distinct (map ((!) xs) idx)" and "set (map ((!) xs) idx) = set xs"
proof -
  have "inj_on ((!) xs) {..<length xs}" using assms(1) by (auto simp: inj_on_def nth_eq_iff_index_eq)
  then show "distinct (map ((!) xs) idx)" using assms(2,3) by (simp add: distinct_map)
  have "set (map ((!) xs) idx) = (!) xs ` {..<length xs}" using assms(3) by simp
  also have "\<dots> = set xs" by (auto simp: set_conv_nth)
  finally show "set (map ((!) xs) idx) = set xs" .
qed

lemma at_most:
  assumes "r = (if n \<le> 0 \<or> int (length xs) \<le> n then xs else take (nat n) ys)"
    and "distinct xs" and "distinct ys" and "set ys = set xs"
  shows "distinct r" and "set r \<subseteq> set xs" and "length r = (if n \<le> 0 then length xs else min (nat n) (length xs))"
proof -
  have "length ys = length xs" using assms(2-4) by (metis distinct_card)
  then show "length r = (if n \<le> 0 then length xs else min (nat n) (length xs))" using assms(1) by auto
  show "distinct r" using assms(1-3) by simp
  show "set r \<subseteq> set xs" using assms(1,4) set_take_subset [of "nat n" ys] by auto
qed

text \<open>
  The targets of the correctness mode depend on the seed and not on the order in which Go
  iterates over the reference; they are different vertices with a uid other than the source, all
  of them if the number asked for is not positive or not smaller, and that many otherwise.
\<close>

theorem pickTargets_deterministic:
  assumes "distinct order" and "distinct order'" and "set order = set order'"
    and "\<forall>seed n. distinct (shuffle seed n) \<and> set (shuffle seed n) = {..<n}"
  shows "pickTargets shuffle order uidMap source n seed = pickTargets shuffle order' uidMap source n seed
    \<and> distinct (pickTargets shuffle order uidMap source n seed)
    \<and> set (pickTargets shuffle order uidMap source n seed) \<subseteq> {v \<in> set order. v \<noteq> source \<and> uidMap v \<noteq> None}
    \<and> length (pickTargets shuffle order uidMap source n seed)
      = (let m = card {v \<in> set order. v \<noteq> source \<and> uidMap v \<noteq> None} in if n \<le> 0 then m else min (nat n) m)"
proof -
  let ?P = "\<lambda>v. v \<noteq> source \<and> uidMap v \<noteq> None"
  have same: "sort (filter ?P order) = sort (filter ?P order')"
    using assms(1-3) by (intro sorted_distinct_set_unique) simp_all
  have len: "length (sort (filter ?P order)) = card {v \<in> set order. ?P v}"
    using assms(1) by (simp add: distinct_length_filter Int_def conj_commute)
  let ?all = "sort (filter ?P order)"
  let ?idx = "shuffle seed (length ?all)"
  have idx: "distinct ?idx" "set ?idx = {..<length ?all}" "length ?idx = length ?all"
  proof -
    show d: "distinct ?idx" and "set ?idx = {..<length ?all}" using assms(4) by blast+
    then show "length ?idx = length ?all" using distinct_card [OF d] by simp
  qed
  have "distinct ?all" using assms(1) by simp
  note perm = permuted [OF this idx(1,2)]
  have r: "pickTargets shuffle order uidMap source n seed
      = (if n \<le> 0 \<or> int (length ?all) \<le> n then ?all else take (nat n) (map ((!) ?all) ?idx))"
    by (simp only: pickTargets_def Let_def)
  have "pickTargets shuffle order uidMap source n seed = pickTargets shuffle order' uidMap source n seed"
    by (simp only: pickTargets_def same)
  moreover have all: "set ?all = {v \<in> set order. ?P v}" by auto
  note at_most [OF r \<open>distinct ?all\<close> perm, unfolded len all]
  ultimately show ?thesis unfolding Let_def by (intro conjI)
qed

theorem pickTargets_deterministic_witness:
  "pickTargets (\<lambda>seed n. rev [0..<n]) [1, 2, 3] [2 \<mapsto> ''a'', 3 \<mapsto> ''b''] 1 1 9
      = pickTargets (\<lambda>seed n. rev [0..<n]) [3, 2, 1] [2 \<mapsto> ''a'', 3 \<mapsto> ''b''] 1 1 9
    \<and> distinct (pickTargets (\<lambda>seed n. rev [0..<n]) [1, 2, 3] [2 \<mapsto> ''a'', 3 \<mapsto> ''b''] 1 1 9)
    \<and> set (pickTargets (\<lambda>seed n. rev [0..<n]) [1, 2, 3] [2 \<mapsto> ''a'', 3 \<mapsto> ''b''] 1 1 9)
      \<subseteq> {v \<in> set [1, 2, 3]. v \<noteq> 1 \<and> [2 \<mapsto> ''a'', 3 \<mapsto> ''b''] v \<noteq> None}
    \<and> length (pickTargets (\<lambda>seed n. rev [0..<n]) [1, 2, 3] [2 \<mapsto> ''a'', 3 \<mapsto> ''b''] 1 1 9)
      = (let m = card {v \<in> set [1 :: int, 2, 3]. v \<noteq> 1 \<and> [2 \<mapsto> ''a'', 3 \<mapsto> ''b''] v \<noteq> None}
         in if (1 :: int) \<le> 0 then m else min (nat 1) m)"
  by (rule pickTargets_deterministic) auto

section \<open>The result file\<close>

lemma apply_appends:
  "fold apply_op (map (Append p) ts) fs = (if ts = [] then fs else fs(p := map_option (\<lambda>s. s @ concat ts) (fs p)))"
  by (induction ts arbitrary: fs) (auto simp: fun_eq_iff option.map_comp comp_def)

lemma tmp_differs: "path @ ''.tmp'' \<noteq> path"
  by simp

text \<open>
  C24: the result file is replaced as a whole: if the program is killed after any number of the
  operations, whatever the pieces in which the encoder writes, the file is what it was before or
  the complete new text.
\<close>

theorem writeJSON_atomic:
  "fold apply_op (take k (writeJSON path pieces)) fs path \<in> {fs path, Some (concat pieces)}"
proof -
  let ?tmp = "path @ ''.tmp''"
  have prefix: "fold apply_op (map (Append ?tmp) ts) (fs(?tmp \<mapsto> [])) path = fs path" for ts
    by (simp add: apply_appends)
  show ?thesis
  proof (cases k)
    case (Suc j)
    show ?thesis
    proof (cases "j \<le> length pieces")
      case True
      then have "take k (writeJSON path pieces) = CreateFile ?tmp # map (Append ?tmp) (take j pieces)"
        by (simp add: writeJSON_def Suc take_map Let_def)
      then show ?thesis using prefix by simp
    next
      case False
      then have "take k (writeJSON path pieces) = CreateFile ?tmp # map (Append ?tmp) pieces @ [Rename ?tmp path]"
        by (simp add: writeJSON_def Suc Let_def)
      then show ?thesis by (simp add: apply_appends)
    qed
  qed simp
qed

end
