(* ===== verification/NQuads.thy ===== *)
theory NQuads
  imports Prelude
begin

text \<open>
  The N-Quad as the RDF parser of Dgraph returns it, with the fields that the programs use; the
  type of the value differs between the versions of the parser. The parser is a parameter of
  the programs.
\<close>

record 'v NQuad =
  Subject :: string
  Predicate :: string
  ObjectId :: string
  ObjectValue :: 'v
  Lang :: string

end
