(* ===== verification/RdfVerify.thy ===== *)
theory RdfVerify
  imports GoTextFacts NQuads "HOL-Library.Multiset" "HOL-Library.Char_ord" "HOL-Library.List_Lexorder"
    "HOL-Library.Product_Lexorder"
begin

text \<open>
  scripts/verify: two RDF files are parsed, sorted and compared; the lines of the first file that
  the second does not have go to a file. The readers of dgraph/x and the parser of dgraph/rdf are
  parameters: the lines that were read, and a function that parses one; the value of an N-Quad is
  that of \<open>GetStrVal\<close>.
\<close>

section \<open>Model\<close>

text \<open>A line as the program compares it: numbers, and the names they stand for.\<close>

record R =
  R_s :: u64
  R_p :: string
  R_o :: u64
  R_v :: string
  R_os :: string
  R_oo :: string

text \<open>The verb \<open>%x\<close> of a number.\<close>

definition hex_digit :: "nat \<Rightarrow> char" where
  "hex_digit d = (if d < 10 then char_of (48 + d) else char_of (87 + d))"

fun hex :: "nat \<Rightarrow> string" where
  "hex n = (if n < 16 then [hex_digit n] else hex (n div 16) @ [hex_digit (n mod 16)])"

declare hex.simps [simp del]

definition R_String :: "R \<Rightarrow> string" where
  "R_String r = hex (unat (R_s r)) @ '' '' @ R_p r @ '' '' @ hex (unat (R_o r)) @ '' '' @ R_v r
     @ '' ['' @ R_os r @ '','' @ R_oo r @ '']''"

definition equal_R :: "R \<Rightarrow> R \<Rightarrow> bool" where
  "equal_R a b =
     (if R_s a \<noteq> R_s b \<or> R_p a \<noteq> R_p b \<or> R_o a \<noteq> R_o b \<or> R_v a \<noteq> R_v b then False else True)"

definition less_R :: "R \<Rightarrow> R \<Rightarrow> bool" where
  "less_R bi bj =
     (if R_s bi \<noteq> R_s bj then R_s bi < R_s bj
      else if R_p bi \<noteq> R_p bj then R_p bi < R_p bj
      else if R_o bi \<noteq> R_o bj then R_o bi < R_o bj
      else R_v bi < R_v bj)"

definition convert_nquad :: "(string \<Rightarrow> u64) \<Rightarrow> string NQuad \<Rightarrow> R" where
  "convert_nquad GetUid n =
     (let r = \<lparr>R_s = GetUid (Subject n), R_p = Predicate n, R_o = 0, R_v = [], R_os = Subject n, R_oo = []\<rparr>;
          r = (if 0 < length (ObjectId n) then r\<lparr>R_o := GetUid (ObjectId n), R_oo := ObjectId n\<rparr> else r)
      in r\<lparr>R_v := ObjectValue n\<rparr>)"

text \<open>The loop of \<open>compare\<close> over what is left of the two lists, with the matches and the buffer.\<close>

fun compare_loop :: "R list \<Rightarrow> R list \<Rightarrow> nat \<Rightarrow> string \<Rightarrow> nat \<times> string" where
  "compare_loop (s # srcl) (d # dstl) matches buf =
     (if equal_R s d then compare_loop srcl dstl (matches + 1) buf
      else if less_R s d then compare_loop srcl (d # dstl) matches (buf @ R_String s @ [CHR 0x0A])
      else compare_loop (s # srcl) dstl matches buf)"
| "compare_loop srcl dstl matches buf = (matches, buf)"

definition compare_R :: "R list \<Rightarrow> R list \<Rightarrow> nat \<times> string" where
  "compare_R srcl dstl = compare_loop srcl dstl 0 []"

text \<open>
  Reading a file: the lines up to the end of the file or to another error of the reader, which is
  fatal, as is a line that does not parse.
\<close>

datatype 'e verify_error = ParseLine string 'e | WhileReading

definition read_rdf ::
  "(string \<Rightarrow> 'e + string NQuad) \<Rightarrow> (string \<Rightarrow> u64) \<Rightarrow> string list \<times> bool \<Rightarrow> 'e verify_error + R list \<times> nat" where
  "read_rdf Parse GetUid file =
     (let (ls, failed) = file
      in err_bind (err_fold (\<lambda>l (rs, count).
             case Parse l of Inl e \<Rightarrow> Inl (ParseLine l e)
                           | Inr rnq \<Rightarrow> Inr (rs @ [convert_nquad GetUid rnq], count + 1)) ls ([], 0))
           (\<lambda>r. if failed then Inl WhileReading else Inr r))"

text \<open>
  The command with a sorting function for \<open>sort.Sort\<close>, which is not stable: the two counts, the
  number of matches and the contents of the output file.
\<close>

definition verify_main ::
  "(R list \<Rightarrow> R list) \<Rightarrow> (string \<Rightarrow> 'e + string NQuad) \<Rightarrow> (string \<Rightarrow> u64) \<Rightarrow> string list \<times> bool \<Rightarrow> string list \<times> bool
     \<Rightarrow> 'e verify_error + (nat \<times> nat \<times> nat \<times> string)" where
  "verify_main Sort Parse GetUid src dst =
     err_bind (read_rdf Parse GetUid src)
       (\<lambda>(srcl, srcCount). err_bind (read_rdf Parse GetUid dst)
          (\<lambda>(dstl, dstCount).
             let (matches, buf) = compare_R (Sort srcl) (Sort dstl)
             in Inr (srcCount, dstCount, matches, buf)))"

section \<open>The order\<close>

text \<open>What the program compares: all but the names that were resolved to numbers.\<close>

type_synonym R_key = "u64 \<times> string \<times> u64 \<times> string"

definition key_R :: "R \<Rightarrow> R_key" where
  "key_R r = (R_s r, R_p r, R_o r, R_v r)"

lemma equal_R_key: "equal_R a b \<longleftrightarrow> key_R a = key_R b"
  by (simp add: equal_R_def key_R_def)

lemma less_R_key: "less_R a b \<longleftrightarrow> key_R a < key_R b"
  by (auto simp: less_R_def key_R_def less_prod_def order_less_le)

text \<open>Any sorting function that keeps the elements; \<open>sort.Sort\<close> promises no more.\<close>

definition sorts_R :: "(R list \<Rightarrow> R list) \<Rightarrow> bool" where
  "sorts_R Sort \<longleftrightarrow> (\<forall>l. mset (Sort l) = mset l \<and> sorted (map key_R (Sort l)))"

lemma sort_key_sorts: "sorts_R (sort_key key_R)"
  by (simp add: sorts_R_def)

section \<open>The comparison as multisets\<close>

fun reported :: "R list \<Rightarrow> R list \<Rightarrow> R list" where
  "reported (s # srcl) (d # dstl) =
     (if key_R s = key_R d then reported srcl dstl
      else if key_R s < key_R d then s # reported srcl (d # dstl)
      else reported (s # srcl) dstl)"
| "reported srcl dstl = []"

fun matched :: "R list \<Rightarrow> R list \<Rightarrow> nat" where
  "matched (s # srcl) (d # dstl) =
     (if key_R s = key_R d then Suc (matched srcl dstl)
      else if key_R s < key_R d then matched srcl (d # dstl)
      else matched (s # srcl) dstl)"
| "matched srcl dstl = 0"

lemma compare_loop_eq:
  "compare_loop srcl dstl n buf = (n + matched srcl dstl, buf @ text_of (map R_String (reported srcl dstl)))"
  by (induction srcl dstl n buf rule: compare_loop.induct) (simp_all add: equal_R_key less_R_key)

abbreviation keys_R :: "R list \<Rightarrow> R_key multiset" where
  "keys_R l \<equiv> image_mset key_R (mset l)"

lemma not_in_keys: "\<lbrakk> sorted (map key_R (d # ds)); k < key_R d \<rbrakk> \<Longrightarrow> k \<notin># keys_R (d # ds)"
  by (auto simp: image_iff)

lemma matched_inter:
  "\<lbrakk> sorted (map key_R srcl); sorted (map key_R dstl) \<rbrakk> \<Longrightarrow>
   matched srcl dstl = size (keys_R srcl \<inter># keys_R dstl)"
proof (induction srcl dstl rule: matched.induct)
  case (1 s srcl d dstl)
  consider "key_R s = key_R d" | "key_R s < key_R d" | "key_R d < key_R s" by force
  then show ?case
  proof cases
    case 1
    with "1.IH"(1) "1.prems" show ?thesis by simp
  next
    case 2
    then have "keys_R (s # srcl) \<inter># keys_R (d # dstl) = keys_R srcl \<inter># keys_R (d # dstl)"
      using not_in_keys [OF "1.prems"(2)] by (simp add: inter_add_left1)
    with 2 [THEN less_imp_neq] 2 "1.IH"(2) "1.prems" show ?thesis by simp
  next
    case 3
    then have "keys_R (s # srcl) \<inter># keys_R (d # dstl) = keys_R (s # srcl) \<inter># keys_R dstl"
      using not_in_keys [OF "1.prems"(1)] by (simp add: inter_add_right1)
    with less_not_sym [OF 3] 3 [THEN less_imp_neq] "1.IH"(3) "1.prems" show ?thesis by simp
  qed
qed simp_all

text \<open>Reported are the missing lines that are less than some line of the other file.\<close>

definition below_last :: "R list \<Rightarrow> R_key \<Rightarrow> bool" where
  "below_last dstl k \<longleftrightarrow> list_ex (\<lambda>d. k < key_R d) dstl"

definition missing_below :: "R list \<Rightarrow> R list \<Rightarrow> R_key multiset" where
  "missing_below srcl dstl = filter_mset (below_last dstl) (keys_R srcl - keys_R dstl)"

lemma below_last_skip:
  "\<forall>k \<in># m. key_R d \<le> k \<Longrightarrow> filter_mset (below_last (d # dstl)) m = filter_mset (below_last dstl) m"
  by (rule filter_mset_cong) (auto simp: below_last_def)

lemma diff_keys_ge:
  "\<lbrakk> sorted (map key_R srcl); srcl = [] \<or> a \<le> key_R (hd srcl) \<rbrakk> \<Longrightarrow> \<forall>k \<in># keys_R srcl - m. a \<le> k"
  by (cases srcl) (fastforce dest: in_diffD)+

lemma missing_below_same:
  "\<lbrakk> sorted (map key_R (s # srcl)); key_R s = key_R d \<rbrakk> \<Longrightarrow>
   missing_below (s # srcl) (d # dstl) = missing_below srcl dstl"
  unfolding missing_below_def
  by (subst below_last_skip) (auto dest!: in_diffD)

lemma missing_below_less:
  "\<lbrakk> sorted (map key_R (d # dstl)); key_R s < key_R d \<rbrakk> \<Longrightarrow>
   missing_below (s # srcl) (d # dstl) = add_mset (key_R s) (missing_below srcl (d # dstl))"
proof -
  assume a: "sorted (map key_R (d # dstl))" "key_R s < key_R d"
  have "keys_R (s # srcl) - keys_R (d # dstl) = add_mset (key_R s) (keys_R srcl - keys_R (d # dstl))"
    using diff_add_mset_swap [OF not_in_keys [OF a], of "keys_R srcl"] by simp
  moreover have "below_last (d # dstl) (key_R s)" using a(2) by (simp add: below_last_def)
  ultimately show ?thesis by (simp only: missing_below_def filter_mset_add_mset if_True)
qed

lemma missing_below_greater:
  "\<lbrakk> sorted (map key_R (s # srcl)); key_R d < key_R s \<rbrakk> \<Longrightarrow>
   missing_below (s # srcl) (d # dstl) = missing_below (s # srcl) dstl"
proof -
  assume a: "sorted (map key_R (s # srcl))" "key_R d < key_R s"
  have eq: "keys_R (s # srcl) - keys_R (d # dstl) = keys_R (s # srcl) - keys_R dstl"
    using minus_add_mset_if_not_in_lhs [OF not_in_keys [OF a], of "keys_R dstl"] by simp
  show ?thesis
    unfolding missing_below_def eq
    by (rule below_last_skip [OF diff_keys_ge [OF a(1)]]) (simp add: less_imp_le a(2))
qed

lemma reported_diff:
  "\<lbrakk> sorted (map key_R srcl); sorted (map key_R dstl) \<rbrakk> \<Longrightarrow>
   keys_R (reported srcl dstl) = missing_below srcl dstl"
proof (induction srcl dstl rule: reported.induct)
  case (1 s srcl d dstl)
  consider "key_R s = key_R d" | "key_R s < key_R d" | "key_R d < key_R s" by force
  then show ?case
  proof cases
    case 1
    with "1.IH"(1) "1.prems" missing_below_same show ?thesis by simp
  next
    case 2
    with 2 [THEN less_imp_neq] "1.IH"(2) "1.prems" missing_below_less [OF "1.prems"(2)] show ?thesis by simp
  next
    case 3
    with less_not_sym [OF 3] 3 [THEN less_imp_neq] "1.IH"(3) "1.prems" missing_below_greater [OF "1.prems"(1)] show ?thesis by simp
  qed
qed (simp_all add: missing_below_def below_last_def)

section \<open>The command\<close>

lemma read_rdf_all:
  "map Parse ls = map Inr ns \<Longrightarrow>
   read_rdf Parse GetUid (ls, False) = Inr (map (convert_nquad GetUid) ns, length ls)"
proof -
  let ?f = "\<lambda>l (rs, count). case Parse l of Inl e \<Rightarrow> Inl (ParseLine l e)
      | Inr rnq \<Rightarrow> Inr (rs @ [convert_nquad GetUid rnq], count + 1)"
  have "map Parse ls = map Inr ns \<Longrightarrow>
      err_fold ?f ls (rs, k) = Inr (rs @ map (convert_nquad GetUid) ns, k + length ls)" for ls ns rs k
    by (induction ls arbitrary: ns rs k) (auto simp: Cons_eq_map_conv)
  from this [of ls ns "[]" 0] show "map Parse ls = map Inr ns \<Longrightarrow> ?thesis" by (simp add: read_rdf_def)
qed

lemma missing_below_mset:
  "\<lbrakk> mset as = mset as'; mset bs = mset bs' \<rbrakk> \<Longrightarrow> missing_below as bs = missing_below as' bs'"
proof -
  assume m: "mset as = mset as'" "mset bs = mset bs'"
  have "below_last bs = below_last bs'"
    using mset_eq_setD [OF m(2)] by (simp add: below_last_def fun_eq_iff list_ex_iff)
  with m show ?thesis by (simp add: missing_below_def)
qed

lemma compare_R_sorted:
  assumes "sorts_R Sort"
  shows "\<exists>rs. compare_R (Sort srcl) (Sort dstl)
        = (size (keys_R srcl \<inter># keys_R dstl), text_of (map R_String rs))
     \<and> keys_R rs = missing_below srcl dstl"
  using assms matched_inter [of "Sort srcl" "Sort dstl"] reported_diff [of "Sort srcl" "Sort dstl"]
    missing_below_mset [of "Sort srcl" srcl "Sort dstl" dstl]
  by (auto simp: sorts_R_def compare_R_def compare_loop_eq)

text \<open>With nothing in the second file nothing is reported, although every line is missing.\<close>

lemma missing_below_empty: "missing_below srcl [] = {#}"
  by (simp add: missing_below_def below_last_def)

text \<open>A last line that is in both files and not less than any other makes the report complete.\<close>

lemma missing_below_complete:
  "\<lbrakk> \<forall>k \<in># keys_R srcl - keys_R dstl. k < key_R d; d \<in> set dstl \<rbrakk> \<Longrightarrow>
   missing_below srcl dstl = keys_R srcl - keys_R dstl"
  unfolding missing_below_def filter_mset_eq_conv by (auto simp: below_last_def list_ex_iff)

text \<open>
  C34: the verdict on two files that parse, whatever sorting function is used: the matches are the
  lines that both have, with their multiplicities, and reported are the lines of the first file
  that the second does not have, but only those that are less than some line of the second file;
  what sorts after the end of the second file is never reported.
\<close>

theorem verify_main_reports:
  assumes "sorts_R Sort" and "map Parse ls = map Inr ns" and "map Parse ls' = map Inr ns'"
  shows "\<exists>rs. verify_main Sort Parse GetUid (ls, False) (ls', False)
        = Inr (length ls, length ls',
               size (keys_R (map (convert_nquad GetUid) ns) \<inter># keys_R (map (convert_nquad GetUid) ns')),
               text_of (map R_String rs))
     \<and> keys_R rs = missing_below (map (convert_nquad GetUid) ns) (map (convert_nquad GetUid) ns')"
  using compare_R_sorted [OF assms(1), of "map (convert_nquad GetUid) ns" "map (convert_nquad GetUid) ns'"]
  by (auto simp: verify_main_def read_rdf_all [OF assms(2)] read_rdf_all [OF assms(3)])

definition demo_nquad :: "string \<Rightarrow> string NQuad" where
  "demo_nquad l = \<lparr>Subject = l, Predicate = ''p'', ObjectId = [], ObjectValue = ''v'', Lang = []\<rparr>"

theorem verify_main_reports_witness:
  "\<exists>rs. verify_main (sort_key key_R) (\<lambda>l. Inr (demo_nquad l) :: unit + string NQuad) (\<lambda>l. of_nat (length l))
        ([''aaa'', ''a'', ''aa''], False) ([''aa''], False)
      = Inr (3, 1, 1, text_of (map R_String rs))
    \<and> keys_R rs = {#(1, ''p'', 0, ''v'')#}"
proof -
  let ?U = "\<lambda>l :: string. of_nat (length l) :: u64"
  have a: "keys_R (map (convert_nquad ?U) (map demo_nquad [''aaa'', ''a'', ''aa'']))
      = {#(3, ''p'', 0, ''v''), (1, ''p'', 0, ''v''), (2, ''p'', 0, ''v'')#}"
    and b: "keys_R (map (convert_nquad ?U) (map demo_nquad [''aa''])) = {#(2, ''p'', 0, ''v'')#}"
    by (simp_all add: convert_nquad_def demo_nquad_def key_R_def)
  have "below_last (map (convert_nquad ?U) (map demo_nquad [''aa''])) (n, ''p'', 0, ''v'') \<longleftrightarrow> n < 2" for n
    by (auto simp: below_last_def convert_nquad_def demo_nquad_def key_R_def less_prod_def order_less_le)
  then have "missing_below (map (convert_nquad ?U) (map demo_nquad [''aaa'', ''a'', ''aa'']))
      (map (convert_nquad ?U) (map demo_nquad [''aa''])) = {#(1, ''p'', 0, ''v'')#}"
    unfolding missing_below_def a b by simp
  with verify_main_reports [OF sort_key_sorts, of "\<lambda>l. Inr (demo_nquad l) :: unit + string NQuad" "[''aaa'', ''a'', ''aa'']"
      "map demo_nquad [''aaa'', ''a'', ''aa'']" "[''aa'']" "map demo_nquad [''aa'']" ?U]
  moreover have "size ({#(3, ''p'', 0, ''v''), (1, ''p'', 0, ''v''), (2, ''p'', 0, ''v'')#}
      \<inter># {#(2, ''p'', 0, ''v'') :: R_key#}) = 1"
    by (simp add: inter_add_right2)
  ultimately show ?thesis unfolding a b by (simp add: numeral_3_eq_3)
qed

end
