(* ===== verification/GoLines.thy ===== *)
theory GoLines
  imports GoTextFacts "HOL-Library.Multiset"
begin

text \<open>
  More of the text library, for the small converters: the loop over \<open>bufio.Reader.ReadString\<close>,
  \<open>strings.Trim\<close>, \<open>Replace\<close> and \<open>Index\<close>, 32 bit numbers, and the interleaving of what two
  goroutines send on one channel.
\<close>

section \<open>Trim, Replace, Index\<close>

definition Trim :: "string \<Rightarrow> string \<Rightarrow> string" where
  "Trim s cutset = rev (dropWhile (\<lambda>c. c \<in> set cutset) (rev (dropWhile (\<lambda>c. c \<in> set cutset) s)))"

text \<open>\<open>strings.Replace\<close> of a string that is not empty; a negative count stands for all.\<close>

function replace_n :: "string \<Rightarrow> string \<Rightarrow> nat \<Rightarrow> string \<Rightarrow> string" where
  "replace_n old new n s =
     (if n = 0 \<or> s = [] then s
      else if prefix old s then new @ replace_n old new (n - 1) (drop (length old) s)
      else hd s # replace_n old new n (tl s))"
  by pat_completeness auto
termination
  by (relation "measure (\<lambda>(old, new, n, s). n + length s)") auto

declare replace_n.simps [simp del]

definition Replace :: "string \<Rightarrow> string \<Rightarrow> string \<Rightarrow> int \<Rightarrow> string" where
  "Replace s old new n = replace_n old new (if n < 0 then length s else nat n) s"

definition Index :: "string \<Rightarrow> char \<Rightarrow> int" where
  "Index s c = (if c \<in> set s then int (length (takeWhile (\<lambda>x. x \<noteq> c) s)) else - 1)"

text \<open>\<open>strconv.ParseInt(s, 10, 32)\<close>.\<close>

definition ParseInt32 :: "string \<Rightarrow> int option" where
  "ParseInt32 s =
     (case ParseInt s of None \<Rightarrow> None
      | Some v \<Rightarrow> if - (2 ^ 31) \<le> v \<and> v < 2 ^ 31 then Some v else None)"

lemma Trim_line: "CHR 0x0A \<notin> set l \<Longrightarrow> Trim (l @ [CHR 0x0A]) [CHR 0x0A] = l"
proof -
  assume "CHR 0x0A \<notin> set l"
  then have "dropWhile (\<lambda>c. c \<in> set [CHR 0x0A]) l = l" "dropWhile (\<lambda>c. c \<in> set [CHR 0x0A]) (rev l) = rev l"
    by (simp_all add: dropWhile_eq_self_iff) (metis hd_in_set last_in_set hd_rev rev.simps(1) rev_rev_ident)+
  moreover have "dropWhile (\<lambda>c. c \<in> set [CHR 0x0A]) (l @ [CHR 0x0A])
      = (if l = [] then [] else dropWhile (\<lambda>c. c \<in> set [CHR 0x0A]) l @ [CHR 0x0A])"
    using \<open>CHR 0x0A \<notin> set l\<close> by (cases l) auto
  ultimately show ?thesis by (simp add: Trim_def)
qed

lemma replace_n_same: "\<not> sublist old s \<Longrightarrow> replace_n old new n s = s"
proof (induction s)
  case (Cons c s)
  then show ?case
    by (subst replace_n.simps) (auto simp: sublist_Cons_right)
qed (simp add: replace_n.simps)

lemma Replace_same: "\<not> sublist old s \<Longrightarrow> Replace s old new n = s"
  by (simp add: Replace_def replace_n_same)

lemma ParseInt32_show_int: "\<lbrakk> - (2 ^ 31) \<le> v; v < 2 ^ 31 \<rbrakk> \<Longrightarrow> ParseInt32 (show_int v) = Some v"
  by (simp add: ParseInt32_def ParseInt_show_int in_int64_def)

section \<open>Splitting\<close>

lemma takeWhile_length_iff: "length (takeWhile P s) = length s \<longleftrightarrow> (\<forall>x \<in> set s. P x)"
  by (metis takeWhile_eq_all_conv takeWhile_eq_take take_all_iff order_refl)

lemma Split_one: "c \<notin> set s \<Longrightarrow> Split c s = [s]"
  by (subst Split.simps) (auto simp: takeWhile_length_iff Let_def)

lemma Split_cons: "c \<notin> set a \<Longrightarrow> Split c (a @ c # s) = a # Split c s"
  using takeWhile_line [of c a s] by (subst Split.simps) (simp add: Let_def)

lemma Split_join: "\<lbrakk> fs \<noteq> []; \<forall>f \<in> set fs. c \<notin> set f \<rbrakk> \<Longrightarrow> Split c (str_join [c] fs) = fs"
  by (induction "[c]" fs rule: str_join.induct) (simp_all add: Split_one Split_cons)

lemma set_str_join: "set (str_join sep fs) \<subseteq> set sep \<union> \<Union> (set ` set fs)"
  by (induction sep fs rule: str_join.induct) auto

lemma Split_nonempty: "Split c s \<noteq> []"
  by (subst Split.simps) (simp add: Let_def)

section \<open>The loop over ReadString\<close>

text \<open>The lines with their newlines, and what follows the last newline.\<close>

function cut_lines :: "string \<Rightarrow> string list \<times> string" where
  "cut_lines s =
     (if CHR 0x0A \<in> set s then
        let raw = takeWhile (\<lambda>c. c \<noteq> CHR 0x0A) s;
            (ls, rest) = cut_lines (drop (Suc (length raw)) s)
        in ((raw @ [CHR 0x0A]) # ls, rest)
      else ([], s))"
  by pat_completeness auto
termination
  by (relation "measure length") (auto simp: length_pos_if_in_set intro!: diff_less)

declare cut_lines.simps [simp del]

text \<open>
  \<open>for { line, err := br.ReadString('\n'); if err != nil && err == io.EOF { break }; ... }\<close>: at the
  end of the file the loop ends, and drops a last line without a newline. Any other error is
  ignored: the body sees what was read before it, and then empty lines for ever.
\<close>

partial_function (option) fail_loop :: "(string \<Rightarrow> 's \<Rightarrow> 'e + 's) \<Rightarrow> 's \<Rightarrow> ('e + 's) option" where
  "fail_loop f s = (case f [] s of Inl e \<Rightarrow> Some (Inl e) | Inr s' \<Rightarrow> fail_loop f s')"

definition ReadString_loop :: "(string \<Rightarrow> 's \<Rightarrow> 'e + 's) \<Rightarrow> reader \<Rightarrow> 's \<Rightarrow> ('e + 's) go" where
  "ReadString_loop f r s =
     (let (ls, tail) = cut_lines (fst r)
      in case err_fold f ls s of
           Inl e \<Rightarrow> Ret (Inl e)
         | Inr s \<Rightarrow>
             if \<not> snd r then Ret (Inr s)
             else case f tail s of
                    Inl e \<Rightarrow> Ret (Inl e)
                  | Inr s \<Rightarrow> may_hang (map_option Ret (fail_loop f s)))"

lemma fail_loop_skip:
  fixes f :: "string \<Rightarrow> 's \<Rightarrow> 'e + 's"
  assumes f: "f [] s = Inr s"
  shows "fail_loop f s = None"
proof (rule ccontr)
  assume "fail_loop f s \<noteq> None"
  then obtain r where r: "fail_loop f s = Some r" by auto
  have "f = f \<longrightarrow> s = s \<longrightarrow> False"
  proof (rule fail_loop.raw_induct [where P = "\<lambda>g t _. g = f \<longrightarrow> t = s \<longrightarrow> False", OF _ r])
    fix loop :: "(string \<Rightarrow> 's \<Rightarrow> 'e + 's) \<Rightarrow> 's \<Rightarrow> ('e + 's) option" and g t y
    assume IH: "\<And>g t y. loop g t = Some y \<Longrightarrow> g = f \<longrightarrow> t = s \<longrightarrow> False"
      and eq: "(case g [] t of Inl e \<Rightarrow> Some (Inl e) | Inr s' \<Rightarrow> loop g s') = Some y"
    show "g = f \<longrightarrow> t = s \<longrightarrow> False" using IH [of f s y] eq f by auto
  qed
  then show False by simp
qed

lemma cut_lines_cons: "CHR 0x0A \<notin> set l \<Longrightarrow>
  cut_lines (l @ CHR 0x0A # s) = ((l @ [CHR 0x0A]) # fst (cut_lines s), snd (cut_lines s))"
  using takeWhile_line [of "CHR 0x0A" l s] by (subst cut_lines.simps) (simp add: Let_def split: prod.splits)

lemma cut_lines_text:
  "\<lbrakk> \<forall>l \<in> set ls. CHR 0x0A \<notin> set l; CHR 0x0A \<notin> set tail \<rbrakk> \<Longrightarrow>
   cut_lines (text_of ls @ tail) = (map (\<lambda>l. l @ [CHR 0x0A]) ls, tail)"
proof (induction ls)
  case Nil
  then show ?case by (simp add: cut_lines.simps)
next
  case (Cons l ls)
  then show ?case using cut_lines_cons [of l "text_of ls @ tail"] by simp
qed

lemma err_fold_map: "err_fold f (map g xs) s = err_fold (\<lambda>x. f (g x)) xs s"
  by (induction xs arbitrary: s) (simp_all add: err_bind_def split: sum.splits)

text \<open>A file of lines is read line by line; a tail after the last newline is ignored.\<close>

lemma ReadString_loop_text:
  assumes "\<forall>l \<in> set ls. CHR 0x0A \<notin> set l" and "CHR 0x0A \<notin> set tail"
  shows "ReadString_loop f (text_of ls @ tail, False) s = Ret (err_fold (\<lambda>l. f (l @ [CHR 0x0A])) ls s)"
  using cut_lines_text [OF assms] by (simp add: ReadString_loop_def err_fold_map split: sum.splits)

text \<open>The next step of a program, unless the last one was fatal.\<close>

definition run_bind :: "('e + 'a) go \<Rightarrow> ('a \<Rightarrow> ('e + 'b) go) \<Rightarrow> ('e + 'b) go" where
  "run_bind m f = go_bind m (\<lambda>r. case r of Inl e \<Rightarrow> Ret (Inl e) | Inr x \<Rightarrow> f x)"

lemma run_bind_Inr [simp]: "run_bind (Ret (Inr x)) f = f x"
  by (simp add: run_bind_def)

definition quoted :: "string \<Rightarrow> string" where
  "quoted s = CHR 0x22 # s @ [CHR 0x22]"

section \<open>Two senders on one channel\<close>

text \<open>Which of the two sends next is the schedule's choice; what is left at its end comes last.\<close>

fun interleave :: "bool list \<Rightarrow> 'a list \<Rightarrow> 'a list \<Rightarrow> 'a list" where
  "interleave (b # bs) (x # xs) (y # ys) =
     (if b then x # interleave bs xs (y # ys) else y # interleave bs (x # xs) ys)"
| "interleave bs xs ys = xs @ ys"

lemma append_in_shuffles: "xs @ ys \<in> shuffles xs ys"
  by (induction xs) (auto intro: Cons_in_shuffles_leftI)

lemma interleave_shuffles: "interleave bs xs ys \<in> shuffles xs ys"
  by (induction bs xs ys rule: interleave.induct)
    (simp_all add: Cons_in_shuffles_leftI Cons_in_shuffles_rightI append_in_shuffles)

lemma set_interleave [simp]: "set (interleave bs xs ys) = set xs \<union> set ys"
  using set_shuffles [OF interleave_shuffles] .

lemma length_interleave [simp]: "length (interleave bs xs ys) = length xs + length ys"
  using length_shuffles [OF interleave_shuffles] .

lemma mset_interleave [simp]: "mset (interleave bs xs ys) = mset xs + mset ys"
  using mset_shuffles [OF interleave_shuffles] .

text \<open>Every order in which two goroutines can send is that of some schedule.\<close>

lemma shuffles_interleave: "zs \<in> shuffles xs ys \<Longrightarrow> \<exists>bs. zs = interleave bs xs ys"
proof (induction xs ys arbitrary: zs rule: shuffles.induct)
  case (3 x xs y ys)
  then consider zs' where "zs = x # zs'" "zs' \<in> shuffles xs (y # ys)"
    | zs' where "zs = y # zs'" "zs' \<in> shuffles (x # xs) ys" by auto
  then show ?case
  proof cases
    case 1
    with "3.IH"(1) obtain bs where "zs = interleave (True # bs) (x # xs) (y # ys)" by fastforce
    then show ?thesis ..
  next
    case 2
    with "3.IH"(2) obtain bs where "zs = interleave (False # bs) (x # xs) (y # ys)" by fastforce
    then show ?thesis ..
  qed
qed auto

end
