(* ===== verification/MovieLens.thy ===== *)
theory MovieLens
  imports GoLines
begin

text \<open>
  movielens: the MovieLens data sets as RDF. \<open>conv100k\<close> reads four files of the 100K data set, one
  after the other; \<open>conv20m\<close> reads two files of the 20M data set in two goroutines that send their
  lines to a third. A file is what its reader gives; compressing the output is left out, and after
  a fatal error the model says nothing of what has been written.
\<close>

section \<open>The 100K data set\<close>

datatype conv_error = OpenFailed string | BadNumber string

definition GC :: int where "GC = 100000"
definition MC_100k :: int where "MC_100k = 200000"

definition genre_triple :: "string \<Rightarrow> int \<Rightarrow> string" where
  "genre_triple name gi = ''<'' @ show_int (GC + gi) @ ''> <name> '' @ quoted name @ '' .''"

definition read_genre :: "string \<Rightarrow> string list \<Rightarrow> conv_error + string list" where
  "read_genre line out =
     (let line = Trim line [CHR 0x0A]; csv = Split (CHR ''|'') line
      in if length csv \<noteq> 2 then Inr out
         else case ParseInt32 (csv ! 1) of
                None \<Rightarrow> Inl (BadNumber (csv ! 1))
              | Some gi \<Rightarrow> Inr (out @ [genre_triple (csv ! 0) gi]))"

definition user_triples :: "string list \<Rightarrow> string list" where
  "user_triples csv =
     [''<'' @ csv ! 0 @ ''> <age> '' @ quoted (csv ! 1) @ ''^^<xs:int> .'',
      ''<'' @ csv ! 0 @ ''> <gender> '' @ quoted (csv ! 2) @ '' .'',
      ''<'' @ csv ! 0 @ ''> <occupation> '' @ quoted (csv ! 3) @ '' .'',
      ''<'' @ csv ! 0 @ ''> <zipcode> '' @ quoted (csv ! 4) @ '' .'']"

definition read_user :: "string \<Rightarrow> string list \<Rightarrow> conv_error + string list" where
  "read_user line out =
     (let line = Trim line [CHR 0x0A]; csv = Split (CHR ''|'') line
      in if length csv \<noteq> 5 then Inr out else Inr (out @ user_triples csv))"

definition rating_triple :: "string \<Rightarrow> int \<Rightarrow> string \<Rightarrow> string" where
  "rating_triple user movie rating =
     ''<'' @ user @ ''> <rated> <'' @ show_int movie @ ''>  (rating='' @ rating @ '') .''"

definition read_rating :: "string \<Rightarrow> string list \<Rightarrow> conv_error + string list" where
  "read_rating line out =
     (let line = Trim line [CHR 0x0A]; csv = Split (CHR 0x09) line
      in if length csv \<noteq> 4 then Inr out
         else case ParseInt32 (csv ! 1) of
                None \<Rightarrow> Inl (BadNumber (csv ! 1))
              | Some gi \<Rightarrow> Inr (out @ [rating_triple (csv ! 0) (MC_100k + gi) (csv ! 2)]))"

definition name_triple :: "int \<Rightarrow> string \<Rightarrow> string" where
  "name_triple movie name = ''<'' @ show_int movie @ ''> <name> '' @ quoted name @ '' .''"

definition genre_edge :: "int \<Rightarrow> int \<Rightarrow> string" where
  "genre_edge movie genre = ''<'' @ show_int movie @ ''> <genre> <'' @ show_int genre @ ''> .''"

definition movie_triples :: "int \<Rightarrow> string list \<Rightarrow> string list" where
  "movie_triples gi csv =
     name_triple (MC_100k + gi) (csv ! 1) #
     concat (map (\<lambda>i. if csv ! i = ''0'' then [] else [genre_edge (MC_100k + gi) (GC + int i - 5)]) [5..<24])"

definition read_movie :: "string \<Rightarrow> string list \<Rightarrow> conv_error + string list" where
  "read_movie line out =
     (let line = Trim line [CHR 0x0A]; csv = Split (CHR ''|'') line
      in if length csv \<noteq> 24 then Inr out
         else case ParseInt32 (csv ! 0) of
                None \<Rightarrow> Inl (BadNumber (csv ! 0))
              | Some gi \<Rightarrow> Inr (out @ movie_triples gi csv))"

definition os_Open :: "(string \<Rightarrow> reader option) \<Rightarrow> string \<Rightarrow> (conv_error + reader) go" where
  "os_Open fs path = Ret (case fs path of None \<Rightarrow> Inl (OpenFailed path) | Some r \<Rightarrow> Inr r)"

text \<open>The lines written; the paths are those of the flags genre, rating, user and movie.\<close>

definition conv100k ::
  "(string \<Rightarrow> reader option) \<Rightarrow> string \<Rightarrow> string \<Rightarrow> string \<Rightarrow> string \<Rightarrow> (conv_error + string list) go" where
  "conv100k fs genre users data movie =
     run_bind (os_Open fs genre) (\<lambda>gf.
     run_bind (os_Open fs users) (\<lambda>uf.
     run_bind (os_Open fs data) (\<lambda>df.
     run_bind (os_Open fs movie) (\<lambda>mf.
     run_bind (ReadString_loop read_genre gf []) (\<lambda>out.
     run_bind (ReadString_loop read_user uf out) (\<lambda>out.
     run_bind (ReadString_loop read_rating df out) (\<lambda>out.
     ReadString_loop read_movie mf out)))))))"

section \<open>The 20M data set\<close>

definition UC :: int where "UC = 1000000"
definition MC_20m :: int where "MC_20m = 9000000"

definition read_rating_20m :: "string \<Rightarrow> string list \<Rightarrow> conv_error + string list" where
  "read_rating_20m line sent =
     (let line = Trim line [CHR 0x0A]; csv = Split (CHR '','') line
      in if length csv \<noteq> 4 then Inr sent
         else case ParseInt32 (csv ! 1) of
                None \<Rightarrow> Inl (BadNumber (csv ! 1))
              | Some gi \<Rightarrow>
                  case ParseInt32 (csv ! 0) of
                    None \<Rightarrow> Inl (BadNumber (csv ! 0))
                  | Some ui \<Rightarrow> Inr (sent @ [rating_triple (show_int (UC + ui)) (MC_20m + gi) (csv ! 2)]))"

text \<open>The state of the loop over the movies.\<close>

record genre_state =
  genreCount :: int
  genreMap :: "string \<Rightarrow> int option"
  sent_lines :: "string list"

definition clean_name :: "string \<Rightarrow> string" where
  "clean_name s = Replace s [CHR 0x22, CHR 0x0D] [] (- 1)"

definition send_genre :: "int \<Rightarrow> string \<Rightarrow> genre_state \<Rightarrow> genre_state" where
  "send_genre movie g st =
     (let g = clean_name g;
          (d, st) = (case genreMap st g of
                       Some d \<Rightarrow> (d, st)
                     | None \<Rightarrow> (genreCount st, st\<lparr>genreMap := (genreMap st)(g \<mapsto> genreCount st),
                                                genreCount := genreCount st + 1\<rparr>))
      in st\<lparr>sent_lines := sent_lines st @ [genre_edge movie d]\<rparr>)"

definition read_movie_20m :: "string \<Rightarrow> genre_state \<Rightarrow> conv_error + genre_state" where
  "read_movie_20m line st =
     (let line = Trim line [CHR 0x0A]; csv = Split (CHR '','') line
      in if length csv \<noteq> 3 then Inr st
         else case ParseInt32 (csv ! 0) of
                None \<Rightarrow> Inl (BadNumber (csv ! 0))
              | Some gi \<Rightarrow>
                  let name = clean_name (csv ! 1);
                      st = st\<lparr>sent_lines := sent_lines st @ [name_triple (MC_20m + gi) name]\<rparr>
                  in Inr (fold (send_genre (MC_20m + gi)) (Split (CHR ''|'') (csv ! 2)) st))"

definition genre_line_20m :: "int \<Rightarrow> string \<Rightarrow> string" where
  "genre_line_20m v k = ''<'' @ show_int v @ ''> <genre> '' @ quoted k @ '' .''"

text \<open>
  Both loops run at the same time. A fatal error of either ends the program, and a loop that never
  ends keeps it from ending; \<open>order\<close> is the order in which Go iterates over the map of genres, each
  key once, and \<open>schedule\<close> that in which the lines of the two goroutines reach the writer.
\<close>

definition both_loops :: "('e + 'a) go \<Rightarrow> ('e + 'b) go \<Rightarrow> ('e + 'a \<times> 'b) go" where
  "both_loops m n =
     (case (m, n) of
        (Ret (Inl e), _) \<Rightarrow> Ret (Inl e)
      | (_, Ret (Inl e)) \<Rightarrow> Ret (Inl e)
      | (Ret (Inr x), Ret (Inr y)) \<Rightarrow> Ret (Inr (x, y))
      | (Panic p, _) \<Rightarrow> Panic p
      | (_, Panic p) \<Rightarrow> Panic p
      | _ \<Rightarrow> Hang)"

definition conv20m ::
  "(string \<Rightarrow> reader option) \<Rightarrow> string list \<Rightarrow> bool list \<Rightarrow> string \<Rightarrow> string
     \<Rightarrow> (conv_error + string list) go" where
  "conv20m fs order schedule users movie =
     run_bind (os_Open fs users) (\<lambda>uf.
     run_bind (os_Open fs movie) (\<lambda>mf.
     run_bind (both_loops (ReadString_loop read_rating_20m uf [])
         (ReadString_loop read_movie_20m mf \<lparr>genreCount = 1, genreMap = Map.empty, sent_lines = []\<rparr>))
       (\<lambda>(ratings, st).
          let genres = map (\<lambda>k. genre_line_20m (the (genreMap st k)) k) order
          in Ret (Inr (interleave schedule ratings (sent_lines st @ genres))))))"

end
