(* ===== verification/MovieLensProps.thy ===== *)
theory MovieLensProps
  imports MovieLens
begin

text \<open>
  What the MovieLens converters write for files of well-formed rows: the triples of each row for
  the 100K data set, and for the 20M data set a numbering of the genres that fits all edges.
\<close>

section \<open>Rows\<close>

text \<open>Fields that can stand in a row: without the separator and without a newline.\<close>

definition row_fields :: "char \<Rightarrow> string list \<Rightarrow> bool" where
  "row_fields c fs \<longleftrightarrow> fs \<noteq> [] \<and> list_all (\<lambda>f. c \<notin> set f \<and> CHR 0x0A \<notin> set f) fs"

definition row :: "char \<Rightarrow> string list \<Rightarrow> string" where
  "row c fs = str_join [c] fs"

lemma row_no_newline: "\<lbrakk> row_fields c fs; c \<noteq> CHR 0x0A \<rbrakk> \<Longrightarrow> CHR 0x0A \<notin> set (row c fs)"
  using set_str_join [of "[c]" fs] by (auto simp: row_fields_def row_def list_all_iff)

lemma Split_row:
  "\<lbrakk> row_fields c fs; c \<noteq> CHR 0x0A \<rbrakk> \<Longrightarrow> Split c (Trim (row c fs @ [CHR 0x0A]) [CHR 0x0A]) = fs"
  using row_no_newline [of c fs] Split_join [of fs c]
  by (simp add: Trim_line row_fields_def list_all_iff) (simp add: row_def)

text \<open>The rows of a file, and what may follow its last newline.\<close>

definition rows_file :: "char \<Rightarrow> string list list \<Rightarrow> string \<Rightarrow> reader" where
  "rows_file c rows tail = (text_of (map (row c) rows) @ tail, False)"

lemma ReadString_rows:
  assumes "\<forall>x \<in> set xs. row_fields c (enc x)" and "c \<noteq> CHR 0x0A" and "CHR 0x0A \<notin> set tail"
    and "\<And>x s. x \<in> set xs \<Longrightarrow> f (row c (enc x) @ [CHR 0x0A]) s = Inr (g x s)"
  shows "ReadString_loop f (rows_file c (map enc xs) tail) s = Ret (Inr (fold g xs s))"
proof -
  have "\<forall>l \<in> set (map (\<lambda>x. row c (enc x)) xs). CHR 0x0A \<notin> set l" using assms(1,2) row_no_newline by auto
  moreover have "err_fold (\<lambda>x. f (row c (enc x) @ [CHR 0x0A])) xs s = Inr (fold g xs s)"
    using assms(4) by (rule err_fold_Inr)
  ultimately show ?thesis
    using ReadString_loop_text [OF _ assms(3), of "map (\<lambda>x. row c (enc x)) xs" f s]
    by (simp add: rows_file_def err_fold_map comp_def)
qed

lemma fold_append: "fold (\<lambda>x out. out @ g x) xs out = out @ concat (map g xs)"
  by (induction xs arbitrary: out) simp_all

lemma ReadString_rows_append:
  assumes "\<forall>x \<in> set xs. row_fields c (enc x)" and "c \<noteq> CHR 0x0A" and "CHR 0x0A \<notin> set tail"
    and "\<And>x out. x \<in> set xs \<Longrightarrow> f (row c (enc x) @ [CHR 0x0A]) out = Inr (out @ g x)"
  shows "ReadString_loop f (rows_file c (map enc xs) tail) out = Ret (Inr (out @ concat (map g xs)))"
  using ReadString_rows [of xs c enc tail f "\<lambda>x out. out @ g x", OF assms] by (simp add: fold_append)

section \<open>The 100K data set\<close>

definition int32 :: "int \<Rightarrow> bool" where
  "int32 n \<longleftrightarrow> - (2 ^ 31) \<le> n \<and> n < 2 ^ 31"

lemma ParseInt32_int32 [simp]: "int32 n \<Longrightarrow> ParseInt32 (show_int n) = Some n"
  by (simp add: int32_def ParseInt32_show_int)

type_synonym genre_row = "string \<times> int"
type_synonym rating_row = "string \<times> int \<times> string \<times> string"
type_synonym movie_row = "int \<times> string \<times> string list"

definition genre_fields :: "genre_row \<Rightarrow> string list" where
  "genre_fields = (\<lambda>(name, gi). [name, show_int gi])"

definition rating_fields :: "rating_row \<Rightarrow> string list" where
  "rating_fields = (\<lambda>(user, movie, rating, time). [user, show_int movie, rating, time])"

definition movie_fields :: "movie_row \<Rightarrow> string list" where
  "movie_fields = (\<lambda>(movie, title, others). show_int movie # title # others)"

lemma read_genre_row:
  "\<lbrakk> row_fields (CHR ''|'') (genre_fields r); int32 (snd r) \<rbrakk> \<Longrightarrow>
   read_genre (row (CHR ''|'') (genre_fields r) @ [CHR 0x0A]) out = Inr (out @ [genre_triple (fst r) (snd r)])"
  using Split_row [of "CHR ''|''" "genre_fields r"]
  by (cases r) (simp add: read_genre_def genre_fields_def)

lemma read_user_row:
  "\<lbrakk> row_fields (CHR ''|'') r; length r = 5 \<rbrakk> \<Longrightarrow>
   read_user (row (CHR ''|'') r @ [CHR 0x0A]) out = Inr (out @ user_triples r)"
  using Split_row [of "CHR ''|''" r] by (simp add: read_user_def)

lemma read_rating_row:
  "\<lbrakk> row_fields (CHR 0x09) (rating_fields (u, m, r, t)); int32 m \<rbrakk> \<Longrightarrow>
   read_rating (row (CHR 0x09) (rating_fields (u, m, r, t)) @ [CHR 0x0A]) out
     = Inr (out @ [rating_triple u (MC_100k + m) r])"
  using Split_row [of "CHR 0x09" "rating_fields (u, m, r, t)"]
  by (simp add: read_rating_def rating_fields_def)

lemma read_movie_row:
  "\<lbrakk> row_fields (CHR ''|'') (movie_fields (m, t, others)); int32 m; length others = 22 \<rbrakk> \<Longrightarrow>
   read_movie (row (CHR ''|'') (movie_fields (m, t, others)) @ [CHR 0x0A]) out
     = Inr (out @ movie_triples m (movie_fields (m, t, others)))"
  using Split_row [of "CHR ''|''" "movie_fields (m, t, others)"]
  by (simp add: read_movie_def movie_fields_def)

definition genres_ok :: "genre_row list \<Rightarrow> bool" where
  "genres_ok = list_all (\<lambda>r. row_fields (CHR ''|'') (genre_fields r) \<and> int32 (snd r))"

definition users_ok :: "string list list \<Rightarrow> bool" where
  "users_ok = list_all (\<lambda>r. row_fields (CHR ''|'') r \<and> length r = 5)"

definition ratings_ok :: "rating_row list \<Rightarrow> bool" where
  "ratings_ok = list_all (\<lambda>(u, m, r, t). row_fields (CHR 0x09) (rating_fields (u, m, r, t)) \<and> int32 m)"

definition movies_ok :: "movie_row list \<Rightarrow> bool" where
  "movies_ok = list_all (\<lambda>(m, t, others). row_fields (CHR ''|'') (movie_fields (m, t, others)) \<and> int32 m \<and> length others = 22)"

text \<open>The edges of a movie: one for each of its 19 flags that is not 0.\<close>

definition movie_edges :: "movie_row \<Rightarrow> string list" where
  "movie_edges = (\<lambda>(m, t, others).
     map (\<lambda>g. genre_edge (MC_100k + m) (GC + int g)) (filter (\<lambda>g. others ! (g + 3) \<noteq> ''0'') [0..<19]))"

lemma movie_triples_edges:
  "movie_triples m (movie_fields (m, t, others)) = name_triple (MC_100k + m) t # movie_edges (m, t, others)"
proof -
  have range: "[5..<24] = map (\<lambda>g. g + 5) [0..<19]" using map_add_upt [of 5 19] by (simp only: numeral_plus_numeral semiring_norm)
  have "(movie_fields (m, t, others)) ! (g + 5) = others ! (g + 3)" for g
    by (simp add: movie_fields_def nth_Cons' eval_nat_numeral)
  then have flags: "(\<lambda>g. if movie_fields (m, t, others) ! (g + 5) = ''0'' then []
        else [genre_edge (MC_100k + m) (GC + int (g + 5) - 5)])
      = (\<lambda>g. if others ! (g + 3) \<noteq> ''0'' then [genre_edge (MC_100k + m) (GC + int g)] else [])"
    by (auto simp: algebra_simps)
  have concat: "concat (map (\<lambda>g. if P g then [f g] else []) xs) = map f (filter P xs)" for P f and xs :: "nat list"
    by (induction xs) auto
  have "movie_fields (m, t, others) ! 1 = t" by (simp add: movie_fields_def)
  then show ?thesis
    by (simp only: movie_triples_def movie_edges_def range map_map comp_def case_prod_conv flags concat)
qed

lemma genre_loop:
  "\<lbrakk> genres_ok gs; CHR 0x0A \<notin> set tail \<rbrakk> \<Longrightarrow>
   ReadString_loop read_genre (rows_file (CHR ''|'') (map genre_fields gs) tail) out
     = Ret (Inr (out @ concat (map (\<lambda>r. [genre_triple (fst r) (snd r)]) gs)))"
  by (rule ReadString_rows_append) (auto simp: genres_ok_def list_all_iff read_genre_row)

lemma user_loop:
  "\<lbrakk> users_ok us; CHR 0x0A \<notin> set tail \<rbrakk> \<Longrightarrow>
   ReadString_loop read_user (rows_file (CHR ''|'') us tail) out = Ret (Inr (out @ concat (map user_triples us)))"
  using ReadString_rows_append [of us "CHR ''|''" "\<lambda>r. r" tail read_user user_triples out]
  by (simp add: users_ok_def list_all_iff read_user_row)

definition rating_of :: "rating_row \<Rightarrow> string" where
  "rating_of = (\<lambda>(u, m, r, t). rating_triple u (MC_100k + m) r)"

lemma rating_loop:
  "\<lbrakk> ratings_ok rs; CHR 0x0A \<notin> set tail \<rbrakk> \<Longrightarrow>
   ReadString_loop read_rating (rows_file (CHR 0x09) (map rating_fields rs) tail) out
     = Ret (Inr (out @ concat (map (\<lambda>r. [rating_of r]) rs)))"
  by (rule ReadString_rows_append) (auto simp: ratings_ok_def list_all_iff read_rating_row rating_of_def)

definition movie_of :: "movie_row \<Rightarrow> string list" where
  "movie_of r = name_triple (MC_100k + fst r) (fst (snd r)) # movie_edges r"

lemma movie_loop:
  "\<lbrakk> movies_ok ms; CHR 0x0A \<notin> set tail \<rbrakk> \<Longrightarrow>
   ReadString_loop read_movie (rows_file (CHR ''|'') (map movie_fields ms) tail) out
     = Ret (Inr (out @ concat (map movie_of ms)))"
  by (rule ReadString_rows_append)
    (auto simp: movies_ok_def list_all_iff read_movie_row movie_triples_edges movie_of_def)

text \<open>
  For files of well-formed rows, the 100K converter writes the name of each genre, the four
  properties of each user, each rating, and each movie's name with an edge to genre \<open>g\<close> for each
  flag \<open>g\<close> that is not 0, in the order of the files; whatever follows the last newline of a file
  is dropped without a word.
\<close>

theorem conv100k_rows:
  assumes "genres_ok gs" and "users_ok us" and "ratings_ok rs" and "movies_ok ms"
    and "CHR 0x0A \<notin> set (tail 0 @ tail 1 @ tail 2 @ tail (3 :: nat))"
    and "fs genre = Some (rows_file (CHR ''|'') (map genre_fields gs) (tail 0))"
    and "fs users = Some (rows_file (CHR ''|'') us (tail 1))"
    and "fs data = Some (rows_file (CHR 0x09) (map rating_fields rs) (tail 2))"
    and "fs movie = Some (rows_file (CHR ''|'') (map movie_fields ms) (tail 3))"
  shows "conv100k fs genre users data movie = Ret (Inr (
      map (\<lambda>r. genre_triple (fst r) (snd r)) gs @ concat (map user_triples us) @
      map rating_of rs @ concat (map movie_of ms)))"
  using assms
  by (simp add: conv100k_def os_Open_def genre_loop user_loop rating_loop movie_loop concat_map_singleton)

definition demo_movie :: movie_row where
  "demo_movie = (7, ''Up'', replicate 4 ''0'' @ [''1''] @ replicate 17 ''0'')"

definition demo_100k :: "string \<Rightarrow> reader option" where
  "demo_100k = [''g'' \<mapsto> rows_file (CHR ''|'') (map genre_fields [(''Action'', 1)]) ''unended'',
     ''u'' \<mapsto> rows_file (CHR ''|'') [[''1'', ''24'', ''M'', ''writer'', ''85711'']] [],
     ''d'' \<mapsto> rows_file (CHR 0x09) (map rating_fields [(''1'', 7, ''5'', ''0'')]) [],
     ''m'' \<mapsto> rows_file (CHR ''|'') (map movie_fields [demo_movie]) []]"

theorem conv100k_rows_witness:
  "conv100k demo_100k ''g'' ''u'' ''d'' ''m'' = Ret (Inr (
     [genre_triple ''Action'' 1] @ user_triples [''1'', ''24'', ''M'', ''writer'', ''85711''] @
     [rating_triple ''1'' 200007 ''5'', name_triple 200007 ''Up'', genre_edge 200007 100001]))"
proof -
  have ok: "genres_ok [(''Action'', 1)]" "users_ok [[''1'', ''24'', ''M'', ''writer'', ''85711'']]"
    "ratings_ok [(''1'', 7, ''5'', ''0'')]" "movies_ok [demo_movie]"
    by code_simp+
  have "filter (\<lambda>g. (replicate 4 ''0'' @ [''1''] @ replicate 17 ''0'') ! (g + 3) \<noteq> ''0'') [0..<19] = [1]"
    by code_simp
  then have m: "movie_of demo_movie = [name_triple 200007 ''Up'', genre_edge 200007 100001]"
    by (simp add: movie_of_def movie_edges_def demo_movie_def MC_100k_def GC_def)
  have r: "rating_of (''1'', 7, ''5'', ''0'') = rating_triple ''1'' 200007 ''5''"
    by (simp add: rating_of_def MC_100k_def)
  show ?thesis
    using conv100k_rows [OF ok, of "\<lambda>i. if i = 0 then ''unended'' else []" demo_100k "''g''" "''u''" "''d''" "''m''"]
    by (simp add: demo_100k_def m r)
qed

text \<open>An edge to a genre leads to a named node if the genre file numbers the flags.\<close>

lemma movie_edges_named:
  assumes "{0..<19} \<subseteq> snd ` set gs" and "l \<in> set (movie_edges (m, t, others))"
  shows "\<exists>(name, g) \<in> set gs. l = genre_edge (MC_100k + m) (GC + g)
    \<and> genre_triple name g \<in> set (map (\<lambda>r. genre_triple (fst r) (snd r)) gs)"
proof -
  from assms(2) obtain g :: nat where "g < 19" and l: "l = genre_edge (MC_100k + m) (GC + int g)"
    by (auto simp: movie_edges_def)
  then have "int g \<in> snd ` set gs" using assms(1) by auto
  then obtain r where "r \<in> set gs" "snd r = int g" by auto
  with l show ?thesis by (intro bexI [of _ r]) (auto split: prod.splits intro!: rev_image_eqI)
qed

section \<open>The 20M data set\<close>

type_synonym rating_row_20m = "int \<times> int \<times> string \<times> string"
type_synonym movie_row_20m = "int \<times> string \<times> string list"

definition rating_fields_20m :: "rating_row_20m \<Rightarrow> string list" where
  "rating_fields_20m = (\<lambda>(user, movie, rating, time). [show_int user, show_int movie, rating, time])"

definition movie_fields_20m :: "movie_row_20m \<Rightarrow> string list" where
  "movie_fields_20m = (\<lambda>(movie, title, genres). [show_int movie, title, str_join ''|'' genres])"

definition ratings_20m_ok :: "rating_row_20m list \<Rightarrow> bool" where
  "ratings_20m_ok =
     list_all (\<lambda>(u, m, r, t). row_fields (CHR '','') (rating_fields_20m (u, m, r, t)) \<and> int32 u \<and> int32 m)"

text \<open>Titles and genres without the two bytes that are removed, genres without their separator.\<close>

definition movies_20m_ok :: "movie_row_20m list \<Rightarrow> bool" where
  "movies_20m_ok =
     list_all (\<lambda>(m, t, gs). row_fields (CHR '','') (movie_fields_20m (m, t, gs)) \<and> int32 m \<and>
       clean_name t = t \<and> gs \<noteq> [] \<and> list_all (\<lambda>g. CHR ''|'' \<notin> set g \<and> clean_name g = g) gs)"

definition rating_of_20m :: "rating_row_20m \<Rightarrow> string" where
  "rating_of_20m = (\<lambda>(u, m, r, t). rating_triple (show_int (UC + u)) (MC_20m + m) r)"

lemma rating_loop_20m:
  "\<lbrakk> ratings_20m_ok rs; CHR 0x0A \<notin> set tail \<rbrakk> \<Longrightarrow>
   ReadString_loop read_rating_20m (rows_file (CHR '','') (map rating_fields_20m rs) tail) out
     = Ret (Inr (out @ map rating_of_20m rs))"
proof -
  assume ok: "ratings_20m_ok rs" "CHR 0x0A \<notin> set tail"
  have "read_rating_20m (row (CHR '','') (rating_fields_20m r) @ [CHR 0x0A]) out = Inr (out @ [rating_of_20m r])"
    if "r \<in> set rs" for r out
    using that ok(1) Split_row [of "CHR '',''" "rating_fields_20m r"]
    by (cases r) (auto simp: ratings_20m_ok_def list_all_iff read_rating_20m_def rating_fields_20m_def rating_of_20m_def)
  moreover have "\<forall>r \<in> set rs. row_fields (CHR '','') (rating_fields_20m r)"
    using ok(1) by (auto simp: ratings_20m_ok_def list_all_iff)
  ultimately show ?thesis
    using ReadString_rows_append [of rs "CHR '',''" rating_fields_20m tail read_rating_20m "\<lambda>r. [rating_of_20m r]" out]
      ok(2) by (simp add: concat_map_singleton)
qed

text \<open>The genres in the order in which they are first seen, and their numbers.\<close>

definition see :: "string \<Rightarrow> string list \<Rightarrow> string list" where
  "see g seen = (if g \<in> set seen then seen else seen @ [g])"

definition number :: "string list \<Rightarrow> string \<Rightarrow> int" where
  "number seen g = 1 + int (length (takeWhile (\<lambda>x. x \<noteq> g) seen))"

definition numbering :: "string list \<Rightarrow> string \<Rightarrow> int option" where
  "numbering seen g = (if g \<in> set seen then Some (number seen g) else None)"

lemma number_append: "g \<in> set seen \<Longrightarrow> number (seen @ ys) g = number seen g"
  by (auto simp: number_def takeWhile_append)

lemma number_fresh: "g \<notin> set seen \<Longrightarrow> number (seen @ [g]) g = 1 + int (length seen)"
  by (auto simp: number_def takeWhile_append takeWhile_length_iff [THEN iffD2])

lemma numbering_see: "g \<notin> set seen \<Longrightarrow> (numbering seen)(g \<mapsto> 1 + int (length seen)) = numbering (see g seen)"
  by (auto simp: numbering_def see_def number_fresh number_append fun_eq_iff)

lemma see_distinct: "distinct seen \<Longrightarrow> distinct (fold see gs seen)"
  by (induction gs arbitrary: seen) (auto simp: see_def)

lemma see_set: "set (fold see gs seen) = set seen \<union> set gs"
  by (induction gs arbitrary: seen) (auto simp: see_def)

lemma see_extends: "\<exists>ys. fold see gs seen = seen @ ys"
proof (induction gs arbitrary: seen)
  case (Cons g gs)
  from Cons [of "see g seen"] show ?case by (auto simp: see_def)
qed simp

lemma number_see: "g \<in> set seen \<Longrightarrow> number (fold see gs seen) g = number seen g"
  using see_extends [of gs seen] number_append by auto

lemma number_nth: "\<lbrakk> distinct seen; i < length seen \<rbrakk> \<Longrightarrow> number seen (seen ! i) = 1 + int i"
proof (induction seen arbitrary: i)
  case (Cons x seen)
  then show ?case by (cases i) (auto simp: number_def)
qed simp

lemma number_bij: "distinct seen \<Longrightarrow> bij_betw (number seen) (set seen) {1..int (length seen)}"
proof (rule bij_betw_imageI)
  assume d: "distinct seen"
  show "inj_on (number seen) (set seen)"
    by (rule inj_onI) (metis number_nth [OF d] in_set_conv_nth add_left_cancel of_nat_eq_iff)
  have "number seen ` set seen = (\<lambda>i. 1 + int i) ` {..<length seen}"
    by (auto simp: set_conv_nth image_iff number_nth [OF d]) (metis number_nth [OF d])
  also have "\<dots> = {1..int (length seen)}"
  proof -
    have "x \<in> (\<lambda>i. 1 + int i) ` {..<length seen}" if "1 \<le> x" "x \<le> int (length seen)" for x
      using that by (intro image_eqI [of _ _ "nat (x - 1)"]) auto
    then show ?thesis by auto
  qed
  finally show "number seen ` set seen = {1..int (length seen)}" .
qed

definition st_of :: "string list \<Rightarrow> string list \<Rightarrow> genre_state" where
  "st_of seen ls = \<lparr>genreCount = 1 + int (length seen), genreMap = numbering seen, sent_lines = ls\<rparr>"

lemma send_genre_st:
  "clean_name g = g \<Longrightarrow>
   send_genre movie g (st_of seen ls) = st_of (see g seen) (ls @ [genre_edge movie (number (see g seen) g)])"
proof (cases "g \<in> set seen")
  case True
  assume "clean_name g = g"
  with True show ?thesis by (simp add: send_genre_def st_of_def numbering_def see_def)
next
  case False
  assume "clean_name g = g"
  moreover have "numbering seen g = None" using False by (simp add: numbering_def)
  ultimately show ?thesis
    using numbering_see [OF False] False by (simp add: send_genre_def st_of_def see_def number_fresh)
qed

lemma send_genres_st:
  "\<forall>g \<in> set gs. clean_name g = g \<Longrightarrow>
   fold (send_genre movie) gs (st_of seen ls)
     = st_of (fold see gs seen) (ls @ map (\<lambda>g. genre_edge movie (number (fold see gs seen) g)) gs)"
proof (induction gs arbitrary: seen ls)
  case (Cons g gs)
  have "g \<in> set (see g seen)" by (simp add: see_def)
  with Cons number_see [of g "see g seen" gs] show ?case by (simp add: send_genre_st)
qed simp

text \<open>A movie's lines for a numbering of the genres.\<close>

definition movie_of_20m :: "(string \<Rightarrow> int) \<Rightarrow> movie_row_20m \<Rightarrow> string list" where
  "movie_of_20m ids = (\<lambda>(m, t, gs).
     name_triple (MC_20m + m) t # map (\<lambda>g. genre_edge (MC_20m + m) (ids g)) gs)"

abbreviation genres_of :: "movie_row_20m list \<Rightarrow> string list" where
  "genres_of ms \<equiv> concat (map (\<lambda>(m, t, gs). gs) ms)"

definition movie_step :: "movie_row_20m \<Rightarrow> genre_state \<Rightarrow> genre_state" where
  "movie_step = (\<lambda>(m, t, gs) st. fold (send_genre (MC_20m + m)) gs
     (st\<lparr>sent_lines := sent_lines st @ [name_triple (MC_20m + m) t]\<rparr>))"

lemma movie_step_st:
  "\<forall>g \<in> set gs. clean_name g = g \<Longrightarrow>
   movie_step (m, t, gs) (st_of seen ls)
     = st_of (fold see gs seen) (ls @ movie_of_20m (number (fold see gs seen)) (m, t, gs))"
proof -
  assume gs: "\<forall>g \<in> set gs. clean_name g = g"
  have "(st_of seen ls)\<lparr>sent_lines := sent_lines (st_of seen ls) @ [name_triple (MC_20m + m) t]\<rparr>
      = st_of seen (ls @ [name_triple (MC_20m + m) t])"
    by (simp add: st_of_def)
  then show ?thesis by (simp add: movie_step_def send_genres_st [OF gs] movie_of_20m_def)
qed

lemma movie_of_20m_cong:
  "(\<And>g. g \<in> set gs \<Longrightarrow> ids g = ids' g) \<Longrightarrow> movie_of_20m ids (m, t, gs) = movie_of_20m ids' (m, t, gs)"
  by (simp add: movie_of_20m_def)

lemma movie_steps_st:
  "\<forall>g \<in> set (genres_of ms). clean_name g = g \<Longrightarrow>
   fold movie_step ms (st_of seen ls)
     = st_of (fold see (genres_of ms) seen)
         (ls @ concat (map (movie_of_20m (number (fold see (genres_of ms) seen))) ms))"
proof (induction ms arbitrary: seen ls)
  case (Cons r ms)
  obtain m t gs where r: "r = (m, t, gs)" by (cases r)
  let ?s = "fold see gs seen"
  have same: "movie_of_20m (number ?s) (m, t, gs) = movie_of_20m (number (fold see (genres_of ms) ?s)) (m, t, gs)"
    by (rule movie_of_20m_cong) (simp add: number_see see_set)
  have "fold movie_step (r # ms) (st_of seen ls) = fold movie_step ms (st_of ?s (ls @ movie_of_20m (number ?s) r))"
    using Cons.prems by (simp add: r movie_step_st)
  also have "\<dots> = st_of (fold see (genres_of ms) ?s) ((ls @ movie_of_20m (number ?s) r)
      @ concat (map (movie_of_20m (number (fold see (genres_of ms) ?s))) ms))"
    using Cons.prems by (intro Cons.IH) simp
  finally show ?case using same by (simp add: r)
qed simp

lemma read_movie_20m_row:
  assumes "movies_20m_ok [r]"
  shows "read_movie_20m (row (CHR '','') (movie_fields_20m r) @ [CHR 0x0A]) st = Inr (movie_step r st)"
proof -
  obtain m t gs where r: "r = (m, t, gs)" by (cases r)
  have "Split (CHR ''|'') (str_join ''|'' gs) = gs"
    using assms by (intro Split_join) (auto simp: r movies_20m_ok_def list_all_iff)
  then show ?thesis
    using assms Split_row [of "CHR '',''" "movie_fields_20m r"]
    by (simp add: r read_movie_20m_def movies_20m_ok_def movie_fields_20m_def movie_step_def Let_def)
qed

lemma movie_loop_20m:
  assumes "movies_20m_ok ms" and "CHR 0x0A \<notin> set tail"
  defines "seen \<equiv> fold see (genres_of ms) []"
  shows "ReadString_loop read_movie_20m (rows_file (CHR '','') (map movie_fields_20m ms) tail)
      \<lparr>genreCount = 1, genreMap = Map.empty, sent_lines = []\<rparr>
    = Ret (Inr (st_of seen (concat (map (movie_of_20m (number seen)) ms))))"
proof -
  have "st_of [] [] = \<lparr>genreCount = 1, genreMap = Map.empty, sent_lines = []\<rparr>"
    by (simp add: st_of_def numbering_def fun_eq_iff)
  moreover have "\<forall>g \<in> set (genres_of ms). clean_name g = g"
    using assms(1) by (auto simp: movies_20m_ok_def list_all_iff)
  note movie_steps_st [OF this, of "[]" "[]"]
  moreover have "\<forall>r \<in> set ms. movies_20m_ok [r] \<and> row_fields (CHR '','') (movie_fields_20m r)"
    using assms(1) by (auto simp: movies_20m_ok_def list_all_iff)
  ultimately show ?thesis
    using ReadString_rows [of ms "CHR '',''" movie_fields_20m tail read_movie_20m movie_step "st_of [] []"] assms(2)
    by (simp add: read_movie_20m_row seen_def)
qed

text \<open>
  For files of well-formed rows, and however the two goroutines and the iteration over the
  map are ordered, the 20M converter writes each rating, each movie's name and one edge for each
  genre of a movie, with one numbering \<open>1..n\<close> of the genres, and one line for each genre under the
  number that the edges use.
\<close>

theorem conv20m_rows:
  assumes "ratings_20m_ok rs" and "movies_20m_ok ms" and "CHR 0x0A \<notin> set (tail @ tail')"
    and "fs users = Some (rows_file (CHR '','') (map rating_fields_20m rs) tail)"
    and "fs movie = Some (rows_file (CHR '','') (map movie_fields_20m ms) tail')"
    and "distinct order" and "set order = set (genres_of ms)"
  shows "\<exists>ids zs. conv20m fs order schedule users movie = Ret (Inr zs)
    \<and> bij_betw ids (set order) {1..int (length order)}
    \<and> mset zs = mset (map rating_of_20m rs) + mset (concat (map (movie_of_20m ids) ms))
        + mset (map (\<lambda>g. genre_line_20m (ids g) g) order)"
proof -
  let ?seen = "fold see (genres_of ms) []"
  let ?ms = "concat (map (movie_of_20m (number ?seen)) ms)"
  let ?gs = "map (\<lambda>g. genre_line_20m (number ?seen g) g) order"
  have seen: "distinct ?seen" "set ?seen = set order"
    using see_distinct [of "[]"] see_set [of "genres_of ms" "[]"] assms(7) by simp_all
  then have "length ?seen = length order" using assms(6) by (metis distinct_card)
  with number_bij [OF seen(1)] seen(2) have "bij_betw (number ?seen) (set order) {1..int (length order)}" by simp
  moreover have gs: "map (\<lambda>k. genre_line_20m (the (numbering ?seen k)) k) order = ?gs"
    using seen(2) by (simp add: numbering_def)
  have "conv20m fs order schedule users movie = Ret (Inr (interleave schedule (map rating_of_20m rs) (?ms @ ?gs)))"
    using assms(1-5) rating_loop_20m [of rs tail "[]"] movie_loop_20m [of ms tail']
    by (simp add: conv20m_def os_Open_def both_loops_def st_of_def gs del: map_eq_conv)
  moreover have "mset (interleave schedule (map rating_of_20m rs) (?ms @ ?gs))
      = mset (map rating_of_20m rs) + mset ?ms + mset ?gs"
    by (simp add: add.assoc)
  ultimately show ?thesis by blast
qed

theorem conv20m_rows_witness:
  "\<exists>ids zs. conv20m [''r'' \<mapsto> rows_file (CHR '','') (map rating_fields_20m [(1, 7, ''5'', ''0'')]) [],
        ''m'' \<mapsto> rows_file (CHR '','') (map movie_fields_20m [(7, ''Up'', [''War'', ''Noir'']), (8, ''Id'', [''War''])]) []]
      [''Noir'', ''War''] [False, True] ''r'' ''m'' = Ret (Inr zs)
    \<and> bij_betw ids (set [''Noir'', ''War'']) {1..2}
    \<and> mset zs = mset (map rating_of_20m [(1, 7, ''5'', ''0'')])
        + mset (concat (map (movie_of_20m ids) [(7, ''Up'', [''War'', ''Noir'']), (8, ''Id'', [''War''])]))
        + mset (map (\<lambda>g. genre_line_20m (ids g) g) [''Noir'', ''War''])"
proof -
  have ok: "ratings_20m_ok [(1, 7, ''5'', ''0'')]"
    "movies_20m_ok [(7, ''Up'', [''War'', ''Noir'']), (8, ''Id'', [''War''])]"
    by code_simp+
  show ?thesis
    using conv20m_rows [OF ok, of "[]" "[]" "[''r'' \<mapsto> rows_file (CHR '','') (map rating_fields_20m [(1, 7, ''5'', ''0'')]) [],
        ''m'' \<mapsto> rows_file (CHR '','') (map movie_fields_20m [(7, ''Up'', [''War'', ''Noir'']), (8, ''Id'', [''War''])]) []]"
        "''r''" "''m''" "[''Noir'', ''War'']" "[False, True]"]
    by (simp add: insert_commute)
qed

text \<open>
  The two bytes that are removed are a quote followed by a carriage return, not each of them: the
  last genre of a row that ends in a carriage return gets a number of its own.
\<close>

lemma carriage_return_second_genre:
  "numbering (fold see (map clean_name (Split (CHR ''|'') (''War|War'' @ [CHR 0x0D]))) [])
     = [''War'' \<mapsto> 1, ''War'' @ [CHR 0x0D] \<mapsto> 2]"
proof -
  have "fold see (map clean_name (Split (CHR ''|'') (''War|War'' @ [CHR 0x0D]))) [] = [''War'', ''War'' @ [CHR 0x0D]]"
    by code_simp
  then show ?thesis by (auto simp: numbering_def number_def fun_eq_iff)
qed

end
