(* ===== verification/FilmConvert.thy ===== *)
theory FilmConvert
  imports GoLines NQuads
begin

text \<open>
  convert/main.go: from a dump of Freebase, the names and, through the nodes that stand for
  performances, direct edges from actors to films and from films to actors. The RDF parser is a
  parameter; compressing the output is left out.
\<close>

section \<open>Model\<close>

definition isRequired :: "'v NQuad \<Rightarrow> bool" where
  "isRequired nq \<longleftrightarrow> Predicate nq \<in> {''actor.film'', ''performance.film'', ''starring'', ''performance.actor''}"

definition writeOut :: "string \<Rightarrow> string \<Rightarrow> string \<Rightarrow> string" where
  "writeOut s p ob = ''<'' @ s @ ''> <'' @ p @ ''> <'' @ ob @ ''> .'' @ [CHR 0x0A]"

text \<open>The reading goroutine: the lines with names that it writes, and the N-Quads that it sends.\<close>

datatype 'e film_error = OpenInput | ParseError 'e

definition readFile_line ::
  "(string \<Rightarrow> 'e + 'v NQuad) \<Rightarrow> string \<Rightarrow> string list \<times> 'v NQuad list \<Rightarrow> 'e film_error + string list \<times> 'v NQuad list"
  where
  "readFile_line Parse line = (\<lambda>(names, sent).
     case Parse line of
       Inl e \<Rightarrow> Inl (ParseError e)
     | Inr nq \<Rightarrow>
         let names = (if Predicate nq = ''name'' then names @ [line] else names)
         in Inr (if \<not> isRequired nq then (names, sent) else (names, sent @ [nq])))"

text \<open>The main goroutine: its four maps and what it writes.\<close>

record film_state =
  actormp :: "string \<Rightarrow> string option"
  starringmp :: "string \<Rightarrow> string option"
  r1 :: "string \<Rightarrow> string option"
  r2 :: "string \<Rightarrow> string option"
  film_out :: "string list"

definition write_film :: "string \<Rightarrow> string \<Rightarrow> string \<Rightarrow> film_state \<Rightarrow> film_state" where
  "write_film s p ob st = st\<lparr>film_out := film_out st @ [writeOut s p ob]\<rparr>"

definition film_step :: "'v NQuad \<Rightarrow> film_state \<Rightarrow> film_state" where
  "film_step nq st =
     (if Predicate nq = ''actor.film'' then st\<lparr>actormp := (actormp st)(ObjectId nq \<mapsto> Subject nq)\<rparr>
      else if Predicate nq = ''starring'' then st\<lparr>starringmp := (starringmp st)(ObjectId nq \<mapsto> Subject nq)\<rparr>
      else if Predicate nq = ''performance.film'' then
        (case actormp st (Subject nq) of
           Some d \<Rightarrow> write_film d ''acted_in'' (ObjectId nq) st
         | None \<Rightarrow> st\<lparr>r1 := (r1 st)(Subject nq \<mapsto> ObjectId nq)\<rparr>)
      else if Predicate nq = ''performance.actor'' then
        (case starringmp st (Subject nq) of
           Some d \<Rightarrow> write_film d ''actors'' (ObjectId nq) st
         | None \<Rightarrow> st\<lparr>r2 := (r2 st)(Subject nq \<mapsto> ObjectId nq)\<rparr>)
      else st)"

text \<open>The loops over what was left waiting, in the orders in which Go iterates over the maps.\<close>

definition film_rest1 :: "string \<Rightarrow> film_state \<Rightarrow> film_state" where
  "film_rest1 k st =
     (case actormp st k of Some d \<Rightarrow> write_film d ''acted_in'' (the (r1 st k)) st | None \<Rightarrow> st)"

definition film_rest2 :: "string \<Rightarrow> film_state \<Rightarrow> film_state" where
  "film_rest2 k st =
     (case starringmp st k of Some d \<Rightarrow> write_film d ''actors'' (the (r2 st k)) st | None \<Rightarrow> st)"

definition empty_film_state :: film_state where
  "empty_film_state = \<lparr>actormp = Map.empty, starringmp = Map.empty, r1 = Map.empty, r2 = Map.empty, film_out = []\<rparr>"

definition film_join :: "string list \<Rightarrow> string list \<Rightarrow> 'v NQuad list \<Rightarrow> string list" where
  "film_join order1 order2 nqs =
     film_out (fold film_rest2 order2 (fold film_rest1 order1 (fold film_step nqs empty_film_state)))"

text \<open>What is written: the two goroutines share the writer, each write is under a mutex.\<close>

definition film_main ::
  "(string \<Rightarrow> 'e + 'v NQuad) \<Rightarrow> reader option \<Rightarrow> string list \<Rightarrow> string list \<Rightarrow> bool list \<Rightarrow>
     ('e film_error + string list) go" where
  "film_main Parse input order1 order2 schedule =
     (case input of
        None \<Rightarrow> Ret (Inl OpenInput)
      | Some r \<Rightarrow>
          run_bind (ReadString_loop (readFile_line Parse) r ([], []))
            (\<lambda>(names, nqs). Ret (Inr (interleave schedule names (film_join order1 order2 nqs)))))"

section \<open>The join\<close>

text \<open>The edges of one predicate into a node, with their subjects, and out of a node.\<close>

definition edges_into :: "string \<Rightarrow> 'v NQuad list \<Rightarrow> (string \<times> string) set" where
  "edges_into p nqs = set (map (\<lambda>a. (ObjectId a, Subject a)) (filter (\<lambda>a. Predicate a = p) nqs))"

definition edges_from :: "string \<Rightarrow> 'v NQuad list \<Rightarrow> (string \<times> string) set" where
  "edges_from q nqs = set (map (\<lambda>b. (Subject b, ObjectId b)) (filter (\<lambda>b. Predicate b = q) nqs))"

definition join_lines :: "string \<Rightarrow> (string \<times> string) set \<Rightarrow> (string \<times> string) set \<Rightarrow> string set" where
  "join_lines ob P Q = {writeOut d ob f |k d f. (k, d) \<in> P \<and> (k, f) \<in> Q}"

text \<open>
  One half of the loop: \<open>mp\<close> holds the edges into a node that were seen, \<open>r\<close> some of the edges from
  a node, and an edge from a node waits unless it was written.
\<close>

definition half ::
  "string \<Rightarrow> (string \<times> string) set \<Rightarrow> (string \<times> string) set \<Rightarrow> (string \<Rightarrow> string option) \<Rightarrow>
     (string \<Rightarrow> string option) \<Rightarrow> string set \<Rightarrow> bool" where
  "half ob P Q mp r out \<longleftrightarrow>
     (\<forall>k d. mp k = Some d \<longleftrightarrow> (k, d) \<in> P) \<and> (\<forall>k f. r k = Some f \<longrightarrow> (k, f) \<in> Q) \<and>
     (\<forall>k f. (k, f) \<in> Q \<longrightarrow> r k = Some f \<or> (\<exists>d. mp k = Some d \<and> writeOut d ob f \<in> out))"

lemma half_Nil: "half ob {} {} Map.empty Map.empty {}"
  by (simp add: half_def)

lemma half_mono: "\<lbrakk> half ob P Q mp r out; out \<subseteq> out' \<rbrakk> \<Longrightarrow> half ob P Q mp r out'"
  unfolding half_def by blast

lemma half_into:
  "\<lbrakk> half ob P Q mp r out; single_valued (insert (k, d) P) \<rbrakk> \<Longrightarrow> half ob (insert (k, d) P) Q (mp(k \<mapsto> d)) r out"
  unfolding half_def single_valued_def by (auto split: if_splits) metis+

lemma half_known:
  "\<lbrakk> half ob P Q mp r out; mp k = Some d \<rbrakk> \<Longrightarrow> half ob P (insert (k, f) Q) mp r (insert (writeOut d ob f) out)"
  unfolding half_def by auto metis+

lemma half_wait:
  "\<lbrakk> half ob P Q mp r out; single_valued (insert (k, f) Q) \<rbrakk> \<Longrightarrow> half ob P (insert (k, f) Q) mp (r(k \<mapsto> f)) out"
  unfolding half_def single_valued_def by auto metis+

text \<open>What is written at the end: all that was to be written.\<close>

lemma half_end:
  assumes "half ob P Q mp r out"
  shows "join_lines ob P Q \<subseteq> out \<union> {writeOut d ob f |k d f. mp k = Some d \<and> r k = Some f}"
    and "{writeOut d ob f |k d f. mp k = Some d \<and> r k = Some f} \<subseteq> join_lines ob P Q"
proof -
  show "join_lines ob P Q \<subseteq> out \<union> {writeOut d ob f |k d f. mp k = Some d \<and> r k = Some f}"
  proof
    fix l assume "l \<in> join_lines ob P Q"
    then obtain k d f where l: "l = writeOut d ob f" "(k, d) \<in> P" "(k, f) \<in> Q" unfolding join_lines_def by blast
    with assms have "mp k = Some d" "r k = Some f \<or> (\<exists>d. mp k = Some d \<and> writeOut d ob f \<in> out)"
      unfolding half_def by blast+
    with l(1) show "l \<in> out \<union> {writeOut d ob f |k d f. mp k = Some d \<and> r k = Some f}" by auto
  qed
  show "{writeOut d ob f |k d f. mp k = Some d \<and> r k = Some f} \<subseteq> join_lines ob P Q"
    using assms unfolding half_def join_lines_def by blast
qed

lemma both_halves:
  "\<lbrakk> A \<subseteq> out \<union> V; V \<subseteq> A; B \<subseteq> out \<union> W; W \<subseteq> B; out \<subseteq> A \<union> B \<rbrakk> \<Longrightarrow> out \<union> V \<union> W = A \<union> B"
  by blast

text \<open>The invariant of the main loop: both halves, and nothing else is written.\<close>

definition film_inv :: "'v NQuad list \<Rightarrow> film_state \<Rightarrow> bool" where
  "film_inv nqs st \<longleftrightarrow>
     half ''acted_in'' (edges_into ''actor.film'' nqs) (edges_from ''performance.film'' nqs)
       (actormp st) (r1 st) (set (film_out st)) \<and>
     half ''actors'' (edges_into ''starring'' nqs) (edges_from ''performance.actor'' nqs)
       (starringmp st) (r2 st) (set (film_out st)) \<and>
     set (film_out st)
       \<subseteq> join_lines ''acted_in'' (edges_into ''actor.film'' nqs) (edges_from ''performance.film'' nqs)
       \<union> join_lines ''actors'' (edges_into ''starring'' nqs) (edges_from ''performance.actor'' nqs)"

text \<open>A performance has one actor and one film, and so does the node of a starring.\<close>

definition one_each :: "'v NQuad list \<Rightarrow> bool" where
  "one_each nqs \<longleftrightarrow>
     single_valued (edges_into ''actor.film'' nqs) \<and> single_valued (edges_from ''performance.film'' nqs) \<and>
     single_valued (edges_into ''starring'' nqs) \<and> single_valued (edges_from ''performance.actor'' nqs)"

lemma edges_snoc:
  "edges_into p (nqs @ [nq]) = (if Predicate nq = p then insert (ObjectId nq, Subject nq) (edges_into p nqs) else edges_into p nqs)"
  "edges_from p (nqs @ [nq]) = (if Predicate nq = p then insert (Subject nq, ObjectId nq) (edges_from p nqs) else edges_from p nqs)"
  by (auto simp: edges_into_def edges_from_def)

lemma join_lines_insert:
  "join_lines ob P Q \<subseteq> join_lines ob (insert e P) Q" "join_lines ob P Q \<subseteq> join_lines ob P (insert e Q)"
  "(k, d) \<in> P \<Longrightarrow> writeOut d ob f \<in> join_lines ob P (insert (k, f) Q)"
  unfolding join_lines_def by blast+

lemma film_inv_step:
  assumes "film_inv nqs st" and "one_each (nqs @ [nq])"
  shows "film_inv (nqs @ [nq]) (film_step nq st)"
proof -
  note inv = assms(1) [unfolded film_inv_def] and one = assms(2) [unfolded one_each_def edges_snoc]
  consider "Predicate nq = ''actor.film''" | "Predicate nq = ''starring''"
    | "Predicate nq = ''performance.film''" | "Predicate nq = ''performance.actor''"
    | "Predicate nq \<notin> {''actor.film'', ''starring'', ''performance.film'', ''performance.actor''}" by blast
  then show ?thesis
  proof cases
    case 1
    then show ?thesis using inv one half_into join_lines_insert(1)
      unfolding film_inv_def edges_snoc film_step_def by simp blast
  next
    case 2
    then show ?thesis using inv one half_into join_lines_insert(1)
      unfolding film_inv_def edges_snoc film_step_def by simp blast
  next
    case 3
    show ?thesis
    proof (cases "actormp st (Subject nq)")
      case None
      with 3 show ?thesis using inv one half_wait join_lines_insert(2)
        unfolding film_inv_def edges_snoc film_step_def by simp blast
    next
      case (Some d)
      then have "(Subject nq, d) \<in> edges_into ''actor.film'' nqs" using inv by (simp add: half_def)
      with 3 Some show ?thesis using inv half_known [of "''acted_in''"] half_mono [of "''actors''"] join_lines_insert(2,3)
        unfolding film_inv_def edges_snoc film_step_def write_film_def by simp blast
    qed
  next
    case 4
    show ?thesis
    proof (cases "starringmp st (Subject nq)")
      case None
      with 4 show ?thesis using inv one half_wait join_lines_insert(2)
        unfolding film_inv_def edges_snoc film_step_def by simp blast
    next
      case (Some d)
      then have "(Subject nq, d) \<in> edges_into ''starring'' nqs" using inv by (simp add: half_def)
      with 4 Some show ?thesis using inv half_known [of "''actors''"] half_mono [of "''acted_in''"] join_lines_insert(2,3)
        unfolding film_inv_def edges_snoc film_step_def write_film_def by simp blast
    qed
  next
    case 5
    then show ?thesis using inv unfolding film_inv_def edges_snoc film_step_def by simp
  qed
qed

lemma one_each_prefix: "one_each (nqs @ [nq]) \<Longrightarrow> one_each nqs"
  unfolding one_each_def edges_snoc by (auto intro: single_valued_subset split: if_splits)

lemma film_inv_loop: "one_each nqs \<Longrightarrow> film_inv nqs (fold film_step nqs empty_film_state)"
proof (induction nqs rule: rev_induct)
  case Nil
  then show ?case by (simp add: film_inv_def empty_film_state_def edges_into_def edges_from_def half_Nil)
next
  case (snoc nq nqs)
  then show ?case using film_inv_step [of nqs "fold film_step nqs empty_film_state" nq] one_each_prefix [OF snoc.prems] by simp
qed

lemma film_rest1_loop:
  "fold film_rest1 ks st = st\<lparr>film_out := film_out st @
     concat (map (\<lambda>k. case actormp st k of Some d \<Rightarrow> [writeOut d ''acted_in'' (the (r1 st k))] | None \<Rightarrow> []) ks)\<rparr>"
  by (induction ks arbitrary: st) (auto simp: film_rest1_def write_film_def split: option.splits cong: option.case_cong)

lemma film_rest2_loop:
  "fold film_rest2 ks st = st\<lparr>film_out := film_out st @
     concat (map (\<lambda>k. case starringmp st k of Some d \<Rightarrow> [writeOut d ''actors'' (the (r2 st k))] | None \<Rightarrow> []) ks)\<rparr>"
  by (induction ks arbitrary: st) (auto simp: film_rest2_def write_film_def split: option.splits cong: option.case_cong)

lemma rest_lines:
  "set ks = dom r \<Longrightarrow>
   set (concat (map (\<lambda>k. case mp k of Some d \<Rightarrow> [writeOut d ob (the (r k))] | None \<Rightarrow> []) ks))
     = {writeOut d ob f |k d f. mp k = Some d \<and> r k = Some f}"
  by (auto split: option.splits) metis

text \<open>The orders of iteration list the keys that still wait when the channel is closed.\<close>

definition film_orders :: "string list \<Rightarrow> string list \<Rightarrow> 'v NQuad list \<Rightarrow> bool" where
  "film_orders order1 order2 nqs \<longleftrightarrow>
     set order1 = dom (r1 (fold film_step nqs empty_film_state)) \<and> distinct order1 \<and>
     set order2 = dom (r2 (fold film_step nqs empty_film_state)) \<and> distinct order2"

definition all_joins :: "'v NQuad list \<Rightarrow> string set" where
  "all_joins nqs =
     join_lines ''acted_in'' (edges_into ''actor.film'' nqs) (edges_from ''performance.film'' nqs)
     \<union> join_lines ''actors'' (edges_into ''starring'' nqs) (edges_from ''performance.actor'' nqs)"

lemma film_join_lines:
  assumes "one_each nqs" and "film_orders order1 order2 nqs"
  shows "set (film_join order1 order2 nqs) = all_joins nqs"
proof -
  let ?st = "fold film_step nqs empty_film_state"
  have inv: "film_inv nqs ?st" using assms(1) by (rule film_inv_loop)
  have "set (film_join order1 order2 nqs) = set (film_out ?st)
      \<union> {writeOut d ''acted_in'' f |k d f. actormp ?st k = Some d \<and> r1 ?st k = Some f}
      \<union> {writeOut d ''actors'' f |k d f. starringmp ?st k = Some d \<and> r2 ?st k = Some f}"
    using assms(2) rest_lines [of order1 "r1 ?st" "''acted_in''" "actormp ?st"]
      rest_lines [of order2 "r2 ?st" "''actors''" "starringmp ?st"]
    unfolding film_orders_def film_join_def film_rest1_loop film_rest2_loop by (simp add: Un_assoc)
  also have "\<dots> = all_joins nqs"
  proof -
    note h = inv [unfolded film_inv_def, THEN conjunct1] inv [unfolded film_inv_def, THEN conjunct2, THEN conjunct1]
    show ?thesis
      unfolding all_joins_def
      by (rule both_halves [OF half_end [OF h(1)] half_end [OF h(2)] inv [unfolded film_inv_def, THEN conjunct2, THEN conjunct2]])
  qed
  finally show ?thesis .
qed

section \<open>The program\<close>

lemma readFile_lines:
  "map Parse ls = map Inr nqs \<Longrightarrow>
   err_fold (readFile_line Parse) ls (names, sent)
     = Inr (names @ concat (map2 (\<lambda>l nq. if Predicate nq = ''name'' then [l] else []) ls nqs),
            sent @ filter isRequired nqs)"
proof (induction ls arbitrary: nqs names sent)
  case (Cons l ls)
  then obtain nq nqs' where "nqs = nq # nqs'" "Parse l = Inr nq" "map Parse ls = map Inr nqs'" by auto
  with Cons.IH show ?case by (simp add: readFile_line_def)
qed simp

lemma edges_required:
  "p \<in> {''actor.film'', ''performance.film'', ''starring'', ''performance.actor''} \<Longrightarrow>
   edges_into p (filter isRequired nqs) = edges_into p nqs \<and> edges_from p (filter isRequired nqs) = edges_from p nqs"
  by (auto simp: edges_into_def edges_from_def isRequired_def)

lemma required_joins:
  "all_joins (filter isRequired nqs) = all_joins nqs" "one_each (filter isRequired nqs) = one_each nqs"
  by (simp_all add: all_joins_def one_each_def edges_required)

text \<open>
  C27: if every line parses and a performance has one actor and one film (the node of a starring
  one film and one actor), the program writes, in whatever order the lines come and the goroutines
  run, exactly the lines with names and an edge for each pair that such a node connects.
\<close>

theorem film_main_joins:
  assumes "map (\<lambda>l. Parse (l @ [CHR 0x0A])) ls = map Inr nqs"
    and "list_all (\<lambda>l. CHR 0x0A \<notin> set l) (tail # ls)"
    and "one_each nqs" and "film_orders order1 order2 (filter isRequired nqs)"
  shows "\<exists>zs. film_main Parse (Some (text_of ls @ tail, False)) order1 order2 schedule = Ret (Inr zs)
    \<and> set zs = {l @ [CHR 0x0A] |l nq. (l, nq) \<in> set (zip ls nqs) \<and> Predicate nq = ''name''} \<union> all_joins nqs"
proof -
  let ?ls = "map (\<lambda>l. l @ [CHR 0x0A]) ls"
  let ?names = "concat (map2 (\<lambda>l nq. if Predicate nq = ''name'' then [l] else []) ?ls nqs)"
  have "err_fold (readFile_line Parse) ?ls ([], []) = Inr (?names, filter isRequired nqs)"
    using readFile_lines [of Parse ?ls nqs "[]" "[]"] assms(1) by (simp add: comp_def)
  then have "film_main Parse (Some (text_of ls @ tail, False)) order1 order2 schedule
      = Ret (Inr (interleave schedule ?names (film_join order1 order2 (filter isRequired nqs))))"
    using assms(2) ReadString_loop_text [of ls tail "readFile_line Parse" "([], [])"]
    by (simp add: film_main_def list_all_iff err_fold_map)
  moreover have "set ?names = {l @ [CHR 0x0A] |l nq. (l, nq) \<in> set (zip ls nqs) \<and> Predicate nq = ''name''}"
    by (force simp: zip_map1 split: if_splits)
  ultimately show ?thesis
    using film_join_lines [of "filter isRequired nqs" order1 order2] assms(3,4) by (simp add: required_joins)
qed

definition demo_film :: "string \<Rightarrow> unit NQuad" where
  "demo_film l =
     (if hd l = CHR ''n'' then \<lparr>Subject = ''a'', Predicate = ''name'', ObjectId = [], ObjectValue = (), Lang = []\<rparr>
      else if hd l = CHR ''f'' then \<lparr>Subject = ''p'', Predicate = ''performance.film'', ObjectId = ''f'', ObjectValue = (), Lang = []\<rparr>
      else \<lparr>Subject = ''a'', Predicate = ''actor.film'', ObjectId = ''p'', ObjectValue = (), Lang = []\<rparr>)"

theorem film_main_joins_witness:
  "\<exists>zs. film_main (\<lambda>l. Inr (demo_film l) :: unit + unit NQuad) (Some (text_of [''f'', ''n'', ''a''] @ ''f'', False))
      [''p''] [] [True] = Ret (Inr zs)
    \<and> set zs = {''n'' @ [CHR 0x0A], writeOut ''a'' ''acted_in'' ''f''}"
proof -
  let ?nqs = "map demo_film [''f'', ''n'', ''a'']"
  have "one_each ?nqs"
    by (auto simp: one_each_def edges_into_def edges_from_def demo_film_def single_valued_def)
  moreover have "film_orders [''p''] [] (filter isRequired ?nqs)"
    by (auto simp: film_orders_def isRequired_def demo_film_def film_step_def empty_film_state_def)
  moreover have "all_joins ?nqs = {writeOut ''a'' ''acted_in'' ''f''}"
    by (auto simp: all_joins_def join_lines_def edges_into_def edges_from_def demo_film_def)
  moreover have "{l @ [CHR 0x0A] |l nq. (l, nq) \<in> set (zip [''f'', ''n'', ''a''] ?nqs) \<and> Predicate nq = ''name''}
      = {''n'' @ [CHR 0x0A]}"
    by (auto simp: demo_film_def)
  moreover have "map (\<lambda>l. Inr (demo_film (l @ [CHR 0x0A])) :: unit + unit NQuad) [''f'', ''n'', ''a''] = map Inr ?nqs"
    by (simp add: demo_film_def)
  note film_main_joins [OF this, of "''f''" "[''p'']" "[]" "[True]"]
  ultimately show ?thesis by (simp add: insert_commute)
qed

text \<open>
  With two films for one performance the order matters: both are written if the actor comes first,
  and only the later one if the actor comes last.
\<close>

definition film_edge :: "string \<Rightarrow> string \<Rightarrow> string \<Rightarrow> unit NQuad" where
  "film_edge s p ob = \<lparr>Subject = s, Predicate = p, ObjectId = ob, ObjectValue = (), Lang = []\<rparr>"

lemma film_waiting_overwritten:
  "film_join [] [] [film_edge ''a'' ''actor.film'' ''p'', film_edge ''p'' ''performance.film'' ''f'',
       film_edge ''p'' ''performance.film'' ''g'']
     = [writeOut ''a'' ''acted_in'' ''f'', writeOut ''a'' ''acted_in'' ''g'']"
  "film_join [''p''] [] [film_edge ''p'' ''performance.film'' ''f'', film_edge ''p'' ''performance.film'' ''g'',
       film_edge ''a'' ''actor.film'' ''p'']
     = [writeOut ''a'' ''acted_in'' ''g'']"
  by (simp_all add: film_join_def film_edge_def film_step_def empty_film_state_def write_film_def film_rest1_def)

end
