(* ===== verification/GoTime.thy ===== *)
theory GoTime
  imports GoTextFacts
begin

text \<open>
  \<open>time.Parse\<close> and \<open>Format\<close> for the two layouts of twitterdata. A time is what its own zone shows
  of it; the zone itself is parsed and, as neither layout prints it, not kept.
\<close>

record wall_time =
  wt_year :: nat
  wt_month :: nat
  wt_day :: nat
  wt_hour :: nat
  wt_min :: nat
  wt_sec :: nat
  wt_nsec :: nat

section \<open>Parsing\<close>

definition shortDayNames :: "string list" where
  "shortDayNames = [''Sun'', ''Mon'', ''Tue'', ''Wed'', ''Thu'', ''Fri'', ''Sat'']"

definition shortMonthNames :: "string list" where
  "shortMonthNames = [''Jan'', ''Feb'', ''Mar'', ''Apr'', ''May'', ''Jun'', ''Jul'', ''Aug'', ''Sep'', ''Oct'', ''Nov'', ''Dec'']"

text \<open>The index of the first name that the value begins with, up to case, and the rest.\<close>

fun lookup_name :: "nat \<Rightarrow> string list \<Rightarrow> string \<Rightarrow> (nat \<times> string) option" where
  "lookup_name i [] val = None"
| "lookup_name i (v # tab) val =
     (if length v \<le> length val \<and> EqualFold (take (length v) val) v then Some (i, drop (length v) val)
      else lookup_name (i + 1) tab val)"

definition isDigit :: "string \<Rightarrow> nat \<Rightarrow> bool" where
  "isDigit s i \<longleftrightarrow> i < length s \<and> is_digit (s ! i)"

definition getnum :: "string \<Rightarrow> bool \<Rightarrow> (nat \<times> string) option" where
  "getnum s fixed =
     (if \<not> isDigit s 0 then None
      else if \<not> isDigit s 1 then (if fixed then None else Some (digit_val (s ! 0), drop 1 s))
      else Some (10 * digit_val (s ! 0) + digit_val (s ! 1), drop 2 s))"

text \<open>Before an element, blanks of the layout stand for any number of blanks, none at the end.\<close>

definition skip_blank :: "string \<Rightarrow> string option" where
  "skip_blank s = (if s \<noteq> [] \<and> hd s \<noteq> CHR '' '' then None else Some (dropWhile (\<lambda>c. c = CHR '' '') s))"

definition skip_char :: "char \<Rightarrow> string \<Rightarrow> string option" where
  "skip_char c s = (if s \<noteq> [] \<and> hd s = c then Some (tl s) else None)"

definition in_range :: "nat \<Rightarrow> nat \<times> string \<Rightarrow> (nat \<times> string) option" where
  "in_range m = (\<lambda>(n, s). if n < m then Some (n, s) else None)"

text \<open>A fraction may follow the seconds although the layout has none.\<close>

definition fraction :: "string \<Rightarrow> nat \<times> string" where
  "fraction s =
     (if 2 \<le> length s \<and> (s ! 0 = CHR ''.'' \<or> s ! 0 = CHR '','') \<and> isDigit s 1 then
        let ds = takeWhile is_digit (drop 1 s); ns = take 9 ds
        in (digits_val ns * 10 ^ (9 - length ns), drop (Suc (length ds)) s)
      else (0, s))"

definition zone_offset :: "string \<Rightarrow> string option" where
  "zone_offset s =
     (if length s < 5 then None
      else case getnum (take 2 (drop 1 s)) True of
             None \<Rightarrow> None
           | Some (hr, _) \<Rightarrow>
               case getnum (take 2 (drop 3 s)) True of
                 None \<Rightarrow> None
               | Some (mm, _) \<Rightarrow>
                   if 24 < hr \<or> 60 < mm then None
                   else if hd s \<noteq> CHR ''+'' \<and> hd s \<noteq> CHR ''-'' then None
                   else Some (drop 5 s))"

definition long_year :: "string \<Rightarrow> (nat \<times> string) option" where
  "long_year s =
     (if length s < 4 \<or> \<not> isDigit s 0 then None
      else case parse_digits (take 4 s) of None \<Rightarrow> None | Some y \<Rightarrow> Some (y, drop 4 s))"

definition leap_year :: "nat \<Rightarrow> bool" where
  "leap_year y \<longleftrightarrow> y mod 4 = 0 \<and> (y mod 100 \<noteq> 0 \<or> y mod 400 = 0)"

definition daysIn :: "nat \<Rightarrow> nat \<Rightarrow> nat" where
  "daysIn m y = (if m = 2 then (if leap_year y then 29 else 28) else if m \<in> {4, 6, 9, 11} then 30 else 31)"

text \<open>\<open>time.Parse("Mon Jan 02 15:04:05 -0700 2006", s)\<close>; an error is \<open>None\<close>.\<close>

definition parse_cTime :: "string \<Rightarrow> wall_time option" where
  "parse_cTime s =
     Option.bind (lookup_name 0 shortDayNames s) (\<lambda>(_, s).
     Option.bind (Option.bind (skip_blank s) (lookup_name 1 shortMonthNames)) (\<lambda>(month, s).
     Option.bind (Option.bind (skip_blank s) (\<lambda>s. getnum s True)) (\<lambda>(day, s).
     Option.bind (Option.bind (Option.bind (skip_blank s) (\<lambda>s. getnum s False)) (in_range 24)) (\<lambda>(hour, s).
     Option.bind (Option.bind (Option.bind (skip_char CHR '':'' s) (\<lambda>s. getnum s True)) (in_range 60)) (\<lambda>(mn, s).
     Option.bind (Option.bind (Option.bind (skip_char CHR '':'' s) (\<lambda>s. getnum s True)) (in_range 60)) (\<lambda>(sec, s).
     let (nsec, s) = fraction s
     in Option.bind (Option.bind (skip_blank s) zone_offset) (\<lambda>s.
        Option.bind (Option.bind (skip_blank s) long_year) (\<lambda>(year, s).
          if s \<noteq> [] \<or> day < 1 \<or> daysIn month year < day then None
          else Some \<lparr>wt_year = year, wt_month = month, wt_day = day, wt_hour = hour, wt_min = mn,
                     wt_sec = sec, wt_nsec = nsec\<rparr>))))))))"

section \<open>Formatting\<close>

definition pad :: "nat \<Rightarrow> nat \<Rightarrow> string" where
  "pad w n = (let s = decimal n in replicate (w - length s) CHR ''0'' @ s)"

definition frac9 :: "nat \<Rightarrow> string" where
  "frac9 nsec = (let ds = trim_right CHR ''0'' (pad 9 nsec) in if ds = [] then [] else CHR ''.'' # ds)"

text \<open>
  \<open>t.Format("2006-01-02T15:04:05.999999999+10:00")\<close>. The layout ends in \<open>+10:00\<close>, which is no
  element for a zone: its 1 is the element for the number of the month.
\<close>

definition format_dgraph :: "wall_time \<Rightarrow> string" where
  "format_dgraph t =
     pad 4 (wt_year t) @ ''-'' @ pad 2 (wt_month t) @ ''-'' @ pad 2 (wt_day t) @ ''T'' @ pad 2 (wt_hour t)
       @ '':'' @ pad 2 (wt_min t) @ '':'' @ pad 2 (wt_sec t) @ frac9 (wt_nsec t)
       @ ''+'' @ decimal (wt_month t) @ ''0:00''"

lemma parse_format_example:
  "map_option format_dgraph (parse_cTime ''Thu Apr 06 15:24:15 -0700 2017'') = Some ''2017-04-06T15:24:15+40:00''"
  by code_simp

end
