(* ===== verification/Tweets.thy ===== *)
theory Tweets
  imports GoTime
begin

text \<open>
  twitterdata: \<open>stream\<close>, whose workers write the messages of a Twitter stream to files, and
  \<open>postprocess\<close>, whose workers turn such messages into records for the live loader. Decoding a
  message is a parameter, since the structure that it fills is that of the anaconda package, and
  so is the assignment of uids by xidmap.
\<close>

section \<open>Buffered writing\<close>

text \<open>\<open>bufio.Writer\<close> with its default size: what has reached the file, and the buffer.\<close>

type_synonym bufio_writer = "string \<times> string"

definition bufio_size :: nat where
  "bufio_size = 4096"

function bufio_Write :: "string \<Rightarrow> bufio_writer \<Rightarrow> bufio_writer" where
  "bufio_Write p w =
     (if length p \<le> bufio_size - length (snd w) then (fst w, snd w @ p)
      else if snd w = [] then (fst w @ p, [])
      else let n = bufio_size - length (snd w)
           in bufio_Write (drop n p) (fst w @ snd w @ take n p, []))"
  by pat_completeness auto
termination
  by (relation "measure (\<lambda>(p, w). length p + length (snd w))")
    (auto simp flip: length_greater_0_conv)

declare bufio_Write.simps [simp del]

definition bufio_Flush :: "bufio_writer \<Rightarrow> bufio_writer" where
  "bufio_Flush w = (fst w @ snd w, [])"

section \<open>The stream\<close>

text \<open>
  The worker's loop: the writer and the counts of messages and of errors. Marshalling can fail.
  The program closes the file, and does not flush the writer.
\<close>

record stream_state =
  st_writer :: bufio_writer
  st_total :: nat
  st_errored :: nat

definition stream_message :: "('m \<Rightarrow> string option) \<Rightarrow> 'm \<Rightarrow> stream_state \<Rightarrow> stream_state" where
  "stream_message Marshal message st =
     (let st = st\<lparr>st_total := st_total st + 1\<rparr>
      in case Marshal message of
           None \<Rightarrow> st\<lparr>st_errored := st_errored st + 1\<rparr>
         | Some data \<Rightarrow> st\<lparr>st_writer := bufio_Write (data @ [CHR 0x0A]) (st_writer st)\<rparr>)"

definition stream_doWork :: "('m \<Rightarrow> string option) \<Rightarrow> 'm list \<Rightarrow> stream_state" where
  "stream_doWork Marshal work =
     fold (stream_message Marshal) work \<lparr>st_writer = ([], []), st_total = 0, st_errored = 0\<rparr>"

definition stream_file :: "stream_state \<Rightarrow> string" where
  "stream_file st = fst (st_writer st)"

section \<open>Quoting and JSON\<close>

text \<open>
  \<open>strconv.Quote\<close>. Characters beyond ASCII are taken as printable, and stay as they are.
\<close>

definition hex_lower :: "nat \<Rightarrow> char" where
  "hex_lower d = (if d < 10 then char_of (48 + d) else char_of (87 + d))"

definition hex2 :: "nat \<Rightarrow> string" where
  "hex2 n = [hex_lower (n div 16), hex_lower (n mod 16)]"

definition quote_char :: "char \<Rightarrow> string" where
  "quote_char c =
     (let n = of_char c :: nat
      in if c = CHR 0x22 \<or> c = CHR 0x5C then [CHR 0x5C, c]
         else if 32 \<le> n \<and> n \<noteq> 127 then [c]
         else if n = 7 then [CHR 0x5C, CHR ''a'']
         else if n = 8 then [CHR 0x5C, CHR ''b'']
         else if n = 12 then [CHR 0x5C, CHR ''f'']
         else if n = 10 then [CHR 0x5C, CHR ''n'']
         else if n = 13 then [CHR 0x5C, CHR ''r'']
         else if n = 9 then [CHR 0x5C, CHR ''t'']
         else if n = 11 then [CHR 0x5C, CHR ''v'']
         else [CHR 0x5C, CHR ''x''] @ hex2 n)"

definition Quote :: "string \<Rightarrow> string" where
  "Quote s = CHR 0x22 # concat (map quote_char s) @ [CHR 0x22]"

text \<open>\<open>s[1 : len(s)-1]\<close>\<close>

definition unquote :: "string \<Rightarrow> string go" where
  "unquote s = go_slice s 1 (int (length s) - 1)"

text \<open>A string as \<open>json.Marshal\<close> writes it, with HTML and the two line separators escaped.\<close>

definition json_char :: "char \<Rightarrow> string" where
  "json_char c =
     (let n = of_char c :: nat
      in if c = CHR 0x22 \<or> c = CHR 0x5C then [CHR 0x5C, c]
         else if n = 8 then [CHR 0x5C, CHR ''b'']
         else if n = 12 then [CHR 0x5C, CHR ''f'']
         else if n = 10 then [CHR 0x5C, CHR ''n'']
         else if n = 13 then [CHR 0x5C, CHR ''r'']
         else if n = 9 then [CHR 0x5C, CHR ''t'']
         else if n < 32 \<or> c \<in> {CHR ''<'', CHR ''>'', CHR ''&''} then CHR 0x5C # ''u00'' @ hex2 n
         else [c])"

fun json_chars :: "string \<Rightarrow> string" where
  "json_chars (a # b # c # s) =
     (if a = CHR 0xE2 \<and> b = CHR 0x80 \<and> c = CHR 0xA8 then CHR 0x5C # ''u2028'' @ json_chars s
      else if a = CHR 0xE2 \<and> b = CHR 0x80 \<and> c = CHR 0xA9 then CHR 0x5C # ''u2029'' @ json_chars s
      else json_char a @ json_chars (b # c # s))"
| "json_chars s = concat (map json_char s)"

definition json_string :: "string \<Rightarrow> string" where
  "json_string s = CHR 0x22 # json_chars s @ [CHR 0x22]"

definition json_bool :: "bool \<Rightarrow> string" where
  "json_bool b = (if b then ''true'' else ''false'')"

definition json_array :: "string list \<Rightarrow> string" where
  "json_array xs = ''['' @ str_join '','' xs @ '']''"

text \<open>An object from its fields; a field that \<open>omitempty\<close> drops is \<open>None\<close>.\<close>

definition json_object :: "(string \<times> string option) list \<Rightarrow> string" where
  "json_object fs =
     ''{'' @ str_join '','' (concat (map (\<lambda>(k, v). case v of None \<Rightarrow> []
        | Some v \<Rightarrow> [json_string k @ '':'' @ v]) fs)) @ ''}''"

definition omit_string :: "string \<Rightarrow> string option" where
  "omit_string s = (if s = [] then None else Some (json_string s))"

definition omit_list :: "('a \<Rightarrow> string) \<Rightarrow> 'a list \<Rightarrow> string option" where
  "omit_list f xs = (if xs = [] then None else Some (json_array (map f xs)))"

definition omit_uint :: "u64 \<Rightarrow> string option" where
  "omit_uint n = (if n = 0 then None else Some (decimal (unat n)))"

section \<open>Tweets\<close>

text \<open>The fields of \<open>anaconda.Tweet\<close> that are used; of a URL and of a tag, the one string used.\<close>

record tweet_user =
  User_IdStr :: string
  User_Name :: string
  User_ScreenName :: string
  User_Description :: string
  User_FriendsCount :: int
  User_Verified :: bool
  User_ProfileBannerURL :: string
  User_ProfileImageURL :: string

record user_mention =
  Mention_Id_str :: string
  Mention_Name :: string
  Mention_Screen_name :: string

record Tweet =
  Tweet_IdStr :: string
  Tweet_CreatedAt :: string
  Tweet_FullText :: string
  Tweet_Urls :: "string list"
  Tweet_Hashtags :: "string list"
  Tweet_User_mentions :: "user_mention list"
  Tweet_User :: tweet_user
  Tweet_Retweeted :: bool

record twitterUser =
  TU_UID :: u64
  TU_UserID :: string
  TU_UserName :: string
  TU_ScreenName :: string
  TU_Description :: string
  TU_FriendsCount :: int
  TU_Verified :: bool
  TU_ProfileBannerURL :: string
  TU_ProfileImageURL :: string

record twitterTweet =
  TT_UID :: u64
  TT_IDStr :: string
  TT_CreatedAt :: string
  TT_Message :: string
  TT_URLs :: "string list"
  TT_HashTags :: "string list"
  TT_Author :: twitterUser
  TT_Mention :: "twitterUser list"
  TT_Retweet :: bool

definition json_user :: "twitterUser \<Rightarrow> string" where
  "json_user u = json_object
     [(''uid'', omit_uint (TU_UID u)), (''user_id'', omit_string (TU_UserID u)),
      (''user_name'', omit_string (TU_UserName u)), (''screen_name'', omit_string (TU_ScreenName u)),
      (''description'', omit_string (TU_Description u)),
      (''friends_count'', if TU_FriendsCount u = 0 then None else Some (show_int (TU_FriendsCount u))),
      (''verified'', if TU_Verified u then Some (json_bool True) else None),
      (''profile_banner_url'', omit_string (TU_ProfileBannerURL u)),
      (''profile_image_url'', omit_string (TU_ProfileImageURL u))]"

definition json_tweet :: "twitterTweet \<Rightarrow> string" where
  "json_tweet t = json_object
     [(''uid'', omit_uint (TT_UID t)), (''id_str'', Some (json_string (TT_IDStr t))),
      (''created_at'', Some (json_string (TT_CreatedAt t))), (''message'', omit_string (TT_Message t)),
      (''urls'', omit_list json_string (TT_URLs t)), (''hashtags'', omit_list json_string (TT_HashTags t)),
      (''author'', Some (json_user (TT_Author t))), (''mention'', omit_list json_user (TT_Mention t)),
      (''retweet'', Some (json_bool (TT_Retweet t)))]"

datatype tweet_error = BadMessage | NotATweet | BadTime

text \<open>\<open>alloc.AssignUid\<close> is a function of the identifier and the state of the map of uids.\<close>

type_synonym 's assign = "string \<Rightarrow> 's \<Rightarrow> u64 \<times> 's"

fun mention_users :: "'s assign \<Rightarrow> user_mention list \<Rightarrow> 's \<Rightarrow> (tweet_error + twitterUser list) \<times> 's" where
  "mention_users assign [] s = (Inr [], s)"
| "mention_users assign (m # ms) s =
     (if Mention_Id_str m = [] then (Inl NotATweet, s)
      else let (uid, s) = assign (Mention_Id_str m) s;
               u = \<lparr>TU_UID = uid, TU_UserID = Mention_Id_str m, TU_UserName = Mention_Name m,
                    TU_ScreenName = Mention_Screen_name m, TU_Description = [], TU_FriendsCount = 0,
                    TU_Verified = False, TU_ProfileBannerURL = [], TU_ProfileImageURL = []\<rparr>
           in case mention_users assign ms s of
                (Inl e, s) \<Rightarrow> (Inl e, s)
              | (Inr us, s) \<Rightarrow> (Inr (u # us), s))"

definition parseMessage :: "(string \<Rightarrow> Tweet option) \<Rightarrow> string \<Rightarrow> tweet_error + Tweet" where
  "parseMessage Unmarshal message =
     (case Unmarshal message of
        None \<Rightarrow> Inl BadMessage
      | Some tweet \<Rightarrow> if Tweet_IdStr tweet = [] then Inl NotATweet else Inr tweet)"

definition expanded_urls :: "string list \<Rightarrow> string list" where
  "expanded_urls urls = fold (\<lambda>url acc. acc @ [url]) urls (replicate (length urls) [])"

definition tweet_record ::
  "'s assign \<Rightarrow> Tweet \<Rightarrow> wall_time \<Rightarrow> twitterUser list \<Rightarrow> 's \<Rightarrow> (twitterTweet \<times> 's) go" where
  "tweet_record assign tweet createdAt userMentions s =
     (let (uid, s) = assign (Tweet_IdStr tweet) s
      in go_bind (unquote (Quote (Tweet_FullText tweet))) (\<lambda>msg.
         let user = Tweet_User tweet; (author, s) = assign (User_IdStr user) s
         in go_bind (unquote (Quote (User_Name user))) (\<lambda>name.
            go_bind (unquote (Quote (User_Description user))) (\<lambda>descr.
            Ret (\<lparr>TT_UID = uid, TT_IDStr = Tweet_IdStr tweet, TT_CreatedAt = format_dgraph createdAt,
                  TT_Message = msg, TT_URLs = expanded_urls (Tweet_Urls tweet),
                  TT_HashTags = filter (\<lambda>t. t \<noteq> []) (Tweet_Hashtags tweet),
                  TT_Author = \<lparr>TU_UID = author, TU_UserID = User_IdStr user, TU_UserName = name,
                    TU_ScreenName = User_ScreenName user, TU_Description = descr,
                    TU_FriendsCount = User_FriendsCount user, TU_Verified = User_Verified user,
                    TU_ProfileBannerURL = User_ProfileBannerURL user,
                    TU_ProfileImageURL = User_ProfileImageURL user\<rparr>,
                  TT_Mention = userMentions, TT_Retweet = Tweet_Retweeted tweet\<rparr>, s)))))"

definition tweetToJSON :: "'s assign \<Rightarrow> Tweet \<Rightarrow> 's \<Rightarrow> ((tweet_error + string) \<times> 's) go" where
  "tweetToJSON assign tweet s =
     (case parse_cTime (Tweet_CreatedAt tweet) of
        None \<Rightarrow> Ret (Inl BadTime, s)
      | Some createdAt \<Rightarrow>
          (case mention_users assign (Tweet_User_mentions tweet) s of
             (Inl e, s) \<Rightarrow> Ret (Inl e, s)
           | (Inr userMentions, s) \<Rightarrow>
               go_bind (tweet_record assign tweet createdAt userMentions s)
                 (\<lambda>(dt, s). Ret (Inr (json_tweet dt), s))))"

definition processMessage ::
  "(string \<Rightarrow> Tweet option) \<Rightarrow> 's assign \<Rightarrow> string \<Rightarrow> 's \<Rightarrow> ((tweet_error + string) \<times> 's) go" where
  "processMessage Unmarshal assign message s =
     (case parseMessage Unmarshal message of
        Inl e \<Rightarrow> Ret (Inl e, s)
      | Inr tweet \<Rightarrow> tweetToJSON assign tweet s)"

section \<open>Workers\<close>

text \<open>
  What a worker has written, its counts, and whether the last message gave no error. The file is
  flushed at the end; a failing write is not modelled.
\<close>

record pp_state =
  pp_out :: string
  totalMessages :: nat
  erroredMessages :: nat
  notTweetMessages :: nat
  noErr :: bool

definition pp_message ::
  "(string \<Rightarrow> Tweet option) \<Rightarrow> 's assign \<Rightarrow> string \<Rightarrow> pp_state \<times> 's \<Rightarrow> (pp_state \<times> 's) go" where
  "pp_message Unmarshal assign message = (\<lambda>(st, s).
     let st = (if noErr st then st\<lparr>pp_out := pp_out st @ CHR '','' # [CHR 0x0A]\<rparr> else st);
         st = st\<lparr>totalMessages := totalMessages st + 1\<rparr>
     in go_bind (processMessage Unmarshal assign message s) (\<lambda>(r, s).
          case r of
            Inl e \<Rightarrow>
              let st = st\<lparr>noErr := False\<rparr>
              in Ret (if e = NotATweet then st\<lparr>notTweetMessages := notTweetMessages st + 1\<rparr>
                      else st\<lparr>erroredMessages := erroredMessages st + 1\<rparr>, s)
          | Inr data \<Rightarrow> Ret (st\<lparr>pp_out := pp_out st @ data, noErr := True\<rparr>, s)))"

definition pp_start :: pp_state where
  "pp_start = \<lparr>pp_out = CHR ''['' # [CHR 0x0A], totalMessages = 0, erroredMessages = 0, notTweetMessages = 0, noErr = False\<rparr>"

definition pp_doWork ::
  "(string \<Rightarrow> Tweet option) \<Rightarrow> 's assign \<Rightarrow> string list \<Rightarrow> 's \<Rightarrow> (pp_state \<times> 's) go" where
  "pp_doWork Unmarshal assign work s =
     go_bind (go_fold (pp_message Unmarshal assign) work (pp_start, s))
       (\<lambda>(st, s). Ret (st\<lparr>pp_out := pp_out st @ CHR 0x0A # '']''\<rparr>, s))"

text \<open>
  \<open>main\<close>: the entries that \<open>filepath.Walk\<close> visits, each a path or a failure, and the messages sent
  to the workers until the first error, which is a panic.
\<close>

definition processFile :: "(string \<Rightarrow> reader option) \<Rightarrow> string \<Rightarrow> string list \<times> bool" where
  "processFile fs path = (case fs path of None \<Rightarrow> ([], True) | Some r \<Rightarrow> Scan MaxScanTokenSize r)"

fun walk_files :: "(string \<Rightarrow> reader option) \<Rightarrow> (string \<times> bool) list \<Rightarrow> string list \<times> bool" where
  "walk_files fs [] = ([], False)"
| "walk_files fs ((path, failed) # entries) =
     (if failed then ([], True)
      else if \<not> HasSuffix path ''.json'' then walk_files fs entries
      else let (sent, err) = processFile fs path
           in if err then (sent, True)
              else let (sent', err) = walk_files fs entries in (sent @ sent', err))"

end
