(* ===== verification/TweetsProps.thy ===== *)
theory TweetsProps
  imports Tweets
begin

text \<open>
  What the Twitter programs write: the stream loses what is still in its buffer, the postprocessor
  separates records by commas except after a rejected last message, and the fields of a record.
\<close>

section \<open>The stream\<close>

lemma bufio_Write_inv:
  "length (snd w) \<le> bufio_size \<Longrightarrow>
   fst (bufio_Write p w) @ snd (bufio_Write p w) = fst w @ snd w @ p \<and> length (snd (bufio_Write p w)) \<le> bufio_size"
proof (induction p w rule: bufio_Write.induct)
  case (1 p w)
  show ?case
  proof (cases "length p \<le> bufio_size - length (snd w) \<or> snd w = []")
    case True
    with "1.prems" show ?thesis by (auto simp: bufio_Write.simps [of p w])
  next
    case False
    define n where "n = bufio_size - length (snd w)"
    from False have "bufio_Write p w = bufio_Write (drop n p) (fst w @ snd w @ take n p, [])"
      by (simp add: bufio_Write.simps [of p w] n_def Let_def)
    with "1.IH" [of n] False show ?thesis by (simp add: n_def)
  qed
qed

lemma bufio_Write_fits:
  "length (snd w) + length p \<le> bufio_size \<Longrightarrow> bufio_Write p w = (fst w, snd w @ p)"
  by (subst bufio_Write.simps) simp

text \<open>The lines that a worker hands to its writer.\<close>

definition stream_text :: "('m \<Rightarrow> string option) \<Rightarrow> 'm list \<Rightarrow> string" where
  "stream_text Marshal work = text_of (List.map_filter Marshal work)"

lemma map_filter_snoc: "List.map_filter f (xs @ [x]) = List.map_filter f xs @ (case f x of None \<Rightarrow> [] | Some y \<Rightarrow> [y])"
  by (simp add: map_filter_def split: option.splits)

lemma stream_doWork_inv:
  fixes Marshal :: "'m \<Rightarrow> string option"
  defines "st \<equiv> \<lambda>work. stream_doWork Marshal work"
  shows "stream_file (st work) @ snd (st_writer (st work)) = stream_text Marshal work
    \<and> length (snd (st_writer (st work))) \<le> bufio_size
    \<and> (stream_file (st work) = [] \<or> bufio_size < length (stream_text Marshal work))
    \<and> st_total (st work) = length work
    \<and> st_errored (st work) + length (List.map_filter Marshal work) = length work"
proof (induction work rule: rev_induct)
  case Nil
  show ?case by (simp add: st_def stream_doWork_def stream_file_def stream_text_def)
next
  case (snoc m work)
  have step: "st (work @ [m]) = stream_message Marshal m (st work)" by (simp add: st_def stream_doWork_def)
  show ?case
  proof (cases "Marshal m")
    case None
    with snoc.IH show ?thesis
      by (simp add: step stream_message_def stream_file_def stream_text_def map_filter_snoc)
  next
    case (Some data)
    let ?w = "st_writer (st work)" and ?p = "data @ [CHR 0x0A]"
    from snoc.IH have len: "length (snd ?w) \<le> bufio_size"
      and tx: "fst ?w @ snd ?w = stream_text Marshal work"
      and empty: "fst ?w = [] \<or> bufio_size < length (stream_text Marshal work)"
      by (simp_all add: stream_file_def)
    have new: "stream_text Marshal (work @ [m]) = stream_text Marshal work @ ?p"
      by (simp add: stream_text_def map_filter_snoc Some)
    have "fst (bufio_Write ?p ?w) = [] \<or> bufio_size < length (stream_text Marshal work @ ?p)"
      using empty tx bufio_Write_fits [of ?w ?p] by (cases "fst ?w = []") (auto simp: not_less [symmetric])
    with bufio_Write_inv [OF len, of ?p] snoc.IH tx Some new show ?thesis
      by (simp add: step stream_message_def stream_file_def map_filter_snoc append_assoc [symmetric] del: append_assoc)
  qed
qed

text \<open>
  A worker of the stream never flushes its writer: what it has marshalled is the file followed
  by what is lost, up to 4096 bytes, and with no more than 4096 bytes in all the file is empty;
  every message is counted, and the rejected ones are those that do not marshal.
\<close>

theorem stream_doWork_loses:
  "\<exists>lost. stream_text Marshal work = stream_file (stream_doWork Marshal work) @ lost
     \<and> length lost \<le> 4096
     \<and> (stream_file (stream_doWork Marshal work) = [] \<or> 4096 < length (stream_text Marshal work))
     \<and> st_total (stream_doWork Marshal work) = length work
     \<and> st_errored (stream_doWork Marshal work) + length (List.map_filter Marshal work) = length work"
  using stream_doWork_inv [of Marshal work]
  by (intro exI [of _ "snd (st_writer (stream_doWork Marshal work))"]) (simp add: bufio_size_def)

section \<open>Records\<close>

definition quoted_text :: "string \<Rightarrow> string" where
  "quoted_text s = concat (map quote_char s)"

lemma unquote_Quote: "unquote (Quote s) = Ret (quoted_text s)"
  using go_slice_nat [of 1 "Suc (length (quoted_text s))" "Quote s"]
  by (simp add: unquote_def Quote_def quoted_text_def)

lemma expanded_urls: "expanded_urls urls = replicate (length urls) [] @ urls"
proof -
  have "fold (\<lambda>url acc. acc @ [url]) urls acc = acc @ urls" for acc :: "string list"
    by (induction urls arbitrary: acc) simp_all
  then show ?thesis by (simp add: expanded_urls_def)
qed

lemma format_dgraph_suffix: "suffix (''+'' @ decimal (wt_month t) @ ''0:00'') (format_dgraph t)"
proof -
  have "format_dgraph t = (pad 4 (wt_year t) @ ''-'' @ pad 2 (wt_month t) @ ''-'' @ pad 2 (wt_day t) @ ''T''
      @ pad 2 (wt_hour t) @ '':'' @ pad 2 (wt_min t) @ '':'' @ pad 2 (wt_sec t) @ frac9 (wt_nsec t))
      @ (''+'' @ decimal (wt_month t) @ ''0:00'')"
    by (simp add: format_dgraph_def)
  then show ?thesis by (rule suffixI)
qed

lemma mention_users_ok:
  "\<forall>m \<in> set ms. Mention_Id_str m \<noteq> [] \<Longrightarrow>
   \<exists>us s'. mention_users assign ms s = (Inr us, s') \<and> map TU_UserID us = map Mention_Id_str ms"
proof (induction ms arbitrary: s)
  case (Cons m ms)
  obtain uid s1 where a: "assign (Mention_Id_str m) s = (uid, s1)" by (cases "assign (Mention_Id_str m) s")
  from Cons.IH [of s1] Cons.prems obtain us s' where "mention_users assign ms s1 = (Inr us, s')"
    "map TU_UserID us = map Mention_Id_str ms" by auto
  with a Cons.prems show ?case by simp
qed simp

text \<open>
  A tweet with a date and with identified mentions becomes a record that keeps its id, with an
  empty string for each URL before the URLs themselves, the texts of the tags that are not empty,
  the message with its quotes, newlines and control characters escaped already, and the date
  with ten times the number of the month for an offset.
\<close>

theorem tweetToJSON_record:
  assumes "parse_cTime (Tweet_CreatedAt tweet) = Some t"
    and "list_all (\<lambda>m. Mention_Id_str m \<noteq> []) (Tweet_User_mentions tweet)"
  shows "\<exists>dt s'. tweetToJSON assign tweet s = Ret (Inr (json_tweet dt), s')
    \<and> TT_IDStr dt = Tweet_IdStr tweet
    \<and> TT_URLs dt = replicate (length (Tweet_Urls tweet)) [] @ Tweet_Urls tweet
    \<and> TT_HashTags dt = filter (\<lambda>h. h \<noteq> []) (Tweet_Hashtags tweet)
    \<and> TT_Message dt = quoted_text (Tweet_FullText tweet)
    \<and> map TU_UserID (TT_Mention dt) = map Mention_Id_str (Tweet_User_mentions tweet)
    \<and> suffix (''+'' @ decimal (wt_month t) @ ''0:00'') (TT_CreatedAt dt)"
proof -
  have "\<forall>m \<in> set (Tweet_User_mentions tweet). Mention_Id_str m \<noteq> []"
    using assms(2) by (simp add: list_all_iff)
  from mention_users_ok [OF this, of assign s] obtain us s1 where
    m: "mention_users assign (Tweet_User_mentions tweet) s = (Inr us, s1)"
    "map TU_UserID us = map Mention_Id_str (Tweet_User_mentions tweet)" by auto
  note format_dgraph_suffix [of t]
  moreover obtain uid s2 where "assign (Tweet_IdStr tweet) s1 = (uid, s2)" by (cases "assign (Tweet_IdStr tweet) s1")
  moreover obtain author s3 where "assign (User_IdStr (Tweet_User tweet)) s2 = (author, s3)"
    by (cases "assign (User_IdStr (Tweet_User tweet)) s2")
  ultimately show ?thesis using m assms(1)
    by (simp add: tweetToJSON_def tweet_record_def unquote_Quote expanded_urls Let_def) (rule exI, rule conjI, rule refl, simp)
qed

definition demo_tweet :: Tweet where
  "demo_tweet = \<lparr>Tweet_IdStr = ''7'', Tweet_CreatedAt = ''Thu Apr 06 15:24:15 -0700 2017'', Tweet_FullText = [CHR 0x0A],
     Tweet_Urls = [''http'' ], Tweet_Hashtags = [[], ''go''],
     Tweet_User_mentions = [\<lparr>Mention_Id_str = ''9'', Mention_Name = ''n'', Mention_Screen_name = ''s''\<rparr>],
     Tweet_User = \<lparr>User_IdStr = ''8'', User_Name = ''a'', User_ScreenName = ''b'', User_Description = [],
       User_FriendsCount = 3, User_Verified = False, User_ProfileBannerURL = [], User_ProfileImageURL = []\<rparr>,
     Tweet_Retweeted = False\<rparr>"

definition demo_assign :: "string \<Rightarrow> unit \<Rightarrow> u64 \<times> unit" where
  "demo_assign i s = (of_nat (digits_val i), s)"

definition demo_time :: wall_time where
  "demo_time = \<lparr>wt_year = 2017, wt_month = 4, wt_day = 6, wt_hour = 15, wt_min = 24, wt_sec = 15, wt_nsec = 0\<rparr>"

lemma parse_demo: "parse_cTime ''Thu Apr 06 15:24:15 -0700 2017'' = Some demo_time"
  by code_simp

theorem tweetToJSON_record_witness:
  "\<exists>dt s'. tweetToJSON demo_assign demo_tweet () = Ret (Inr (json_tweet dt), s')
    \<and> TT_IDStr dt = ''7'' \<and> TT_URLs dt = [[], ''http''] \<and> TT_HashTags dt = [''go'']
    \<and> TT_Message dt = quoted_text [CHR 0x0A] \<and> map TU_UserID (TT_Mention dt) = [''9'']
    \<and> suffix (''+'' @ decimal 4 @ ''0:00'') (TT_CreatedAt dt)"
  using tweetToJSON_record [of demo_tweet demo_time demo_assign "()"]
  by (simp add: demo_tweet_def parse_demo) (simp add: demo_time_def)

section \<open>The files of the postprocessor\<close>

text \<open>The outcomes of the messages, one after the other.\<close>

fun pp_results ::
  "(string \<Rightarrow> Tweet option) \<Rightarrow> 's assign \<Rightarrow> string list \<Rightarrow> 's \<Rightarrow> (tweet_error + string) list" where
  "pp_results Unmarshal assign [] s = []"
| "pp_results Unmarshal assign (m # ms) s =
     (case processMessage Unmarshal assign m s of
        Ret (r, s) \<Rightarrow> r # pp_results Unmarshal assign ms s
      | _ \<Rightarrow> [])"

lemma processMessage_Ret: "\<exists>r s'. processMessage Unmarshal assign m s = Ret (r, s')"
  by (auto simp: processMessage_def tweetToJSON_def tweet_record_def unquote_Quote Let_def
      split: sum.splits option.splits prod.splits)

definition accepted :: "(tweet_error + string) list \<Rightarrow> string list" where
  "accepted rs = concat (map (\<lambda>r. case r of Inl e \<Rightarrow> [] | Inr data \<Rightarrow> [data]) rs)"

definition last_accepted :: "(tweet_error + string) list \<Rightarrow> bool" where
  "last_accepted rs \<longleftrightarrow> rs \<noteq> [] \<and> \<not> isl (last rs)"

abbreviation comma_nl :: string where
  "comma_nl \<equiv> CHR '','' # [CHR 0x0A]"

text \<open>What is written between the brackets.\<close>

definition pp_body :: "(tweet_error + string) list \<Rightarrow> string" where
  "pp_body rs = str_join comma_nl (accepted rs) @ (if accepted rs \<noteq> [] \<and> \<not> last_accepted rs then comma_nl else [])"

lemma accepted_snoc: "accepted (rs @ [r]) = accepted rs @ (case r of Inl e \<Rightarrow> [] | Inr data \<Rightarrow> [data])"
  by (simp add: accepted_def)

lemma last_accepted_nonempty: "last_accepted rs \<Longrightarrow> accepted rs \<noteq> []"
  by (cases rs rule: rev_cases) (auto simp: last_accepted_def accepted_def split: sum.splits)

lemma pp_body_Inl:
  "pp_body (rs @ [Inl e]) = pp_body rs @ (if last_accepted rs then comma_nl else [])"
  using last_accepted_nonempty [of rs] by (auto simp: pp_body_def accepted_snoc last_accepted_def)

lemma pp_body_Inr:
  "pp_body (rs @ [Inr data]) = pp_body rs @ (if last_accepted rs then comma_nl else []) @ data"
  using last_accepted_nonempty [of rs]
  by (cases "accepted rs = []") (auto simp: pp_body_def accepted_snoc last_accepted_def str_join_snoc)

definition pp_inv :: "(tweet_error + string) list \<Rightarrow> pp_state \<Rightarrow> bool" where
  "pp_inv rs st \<longleftrightarrow>
     pp_out st = CHR ''['' # CHR 0x0A # pp_body rs \<and> noErr st = last_accepted rs \<and>
     totalMessages st = length rs \<and> erroredMessages st + notTweetMessages st + length (accepted rs) = length rs"

lemma pp_message_inv:
  assumes "processMessage Unmarshal assign m s = Ret (r, s')" and "pp_inv rs st"
  shows "\<exists>st'. pp_message Unmarshal assign m (st, s) = Ret (st', s') \<and> pp_inv (rs @ [r]) st'"
  using assms
  by (cases r) (auto simp: pp_message_def pp_inv_def Let_def pp_body_Inl pp_body_Inr accepted_snoc last_accepted_def)

lemma pp_loop_inv:
  "pp_inv rs st \<Longrightarrow>
   \<exists>st' s'. go_fold (pp_message Unmarshal assign) work (st, s) = Ret (st', s')
     \<and> pp_inv (rs @ pp_results Unmarshal assign work s) st' \<and> length (pp_results Unmarshal assign work s) = length work"
proof (induction work arbitrary: rs st s)
  case (Cons m work)
  obtain r s1 where r: "processMessage Unmarshal assign m s = Ret (r, s1)" using processMessage_Ret [of Unmarshal assign m s] by blast
  from pp_message_inv [OF r Cons.prems] obtain st1 where
    "pp_message Unmarshal assign m (st, s) = Ret (st1, s1)" "pp_inv (rs @ [r]) st1" by blast
  with Cons.IH [of "rs @ [r]" st1 s1] r show ?case by auto
qed simp

text \<open>
  C35: the file of a worker has the records of its messages in order with a comma after each but the
  last, and one comma too many exactly if some message was accepted and the last one was not;
  no message makes the worker panic, and each is counted once.
\<close>

theorem pp_doWork_file:
  "\<exists>st s' rs. pp_doWork Unmarshal assign work s = Ret (st, s')
     \<and> rs = pp_results Unmarshal assign work s \<and> length rs = length work
     \<and> pp_out st = CHR ''['' # CHR 0x0A # str_join comma_nl (accepted rs)
         @ (if accepted rs \<noteq> [] \<and> \<not> last_accepted rs then comma_nl else []) @ CHR 0x0A # '']''
     \<and> totalMessages st = length work
     \<and> erroredMessages st + notTweetMessages st + length (accepted rs) = length work"
proof -
  have "pp_inv [] pp_start" by (simp add: pp_inv_def pp_start_def pp_body_def accepted_def last_accepted_def)
  from pp_loop_inv [OF this, of Unmarshal assign work s] obtain st s' where
    "go_fold (pp_message Unmarshal assign) work (pp_start, s) = Ret (st, s')"
    "pp_inv (pp_results Unmarshal assign work s) st" "length (pp_results Unmarshal assign work s) = length work"
    by auto
  then show ?thesis by (auto simp: pp_doWork_def pp_inv_def pp_body_def)
qed

end
