(* ===== verification/NeoLoader.thy ===== *)
theory NeoLoader
  imports GoLines NQuads
begin

text \<open>
  neo: the loader of RDF files into Neo4j. The RDF parser, the fingerprint of go-farm and the
  operations of the database are parameters, as are the draws of \<open>math/rand\<close> and the order in
  which the goroutines handle the N-Quads; decompressing is left out.
\<close>

section \<open>Reading\<close>


datatype 'e neo_error = NoFiles | OpenFile string | ReadError | ParseError 'e | DbError


section \<open>Parsing and handling\<close>

record counters =
  ctr_read :: u64
  ctr_parsed :: u64
  ctr_processed :: u64
  ctr_ignored :: u64

text \<open>What \<open>printCounters\<close> reports as pending from the loaded values.\<close>

definition pending :: "counters \<Rightarrow> u64" where
  "pending c = ctr_parsed c - ctr_ignored c - ctr_processed c"



text \<open>The database: a state, and operations that fail with \<open>None\<close>.\<close>

record ('db, 'node, 'v) neo_db =
  GetOrCreateNode :: "string \<Rightarrow> 'db \<Rightarrow> ('node \<times> bool \<times> 'db) option"
  AddLabel :: "'node \<Rightarrow> 'db \<Rightarrow> 'db"
  Relate :: "'node \<Rightarrow> string \<Rightarrow> 'node \<Rightarrow> 'db \<Rightarrow> 'db option"
  Node_Properties :: "'node \<Rightarrow> 'db \<Rightarrow> (string \<Rightarrow> 'v option) option"
  SetProperties :: "'node \<Rightarrow> (string \<Rightarrow> 'v option) \<Rightarrow> 'db \<Rightarrow> 'db option"

definition getEntity :: "('db, 'node, 'v) neo_db \<Rightarrow> string \<Rightarrow> 'db \<Rightarrow> ('node \<times> 'db) option" where
  "getEntity ops xid db =
     Option.bind (GetOrCreateNode ops xid db)
       (\<lambda>(e, created, db). Some (e, if created then AddLabel ops e db else db))"

definition store_nquad :: "('db, 'node, 'v) neo_db \<Rightarrow> 'v NQuad \<Rightarrow> 'db \<Rightarrow> 'db option" where
  "store_nquad ops nq db =
     Option.bind (getEntity ops (Subject nq) db) (\<lambda>(e1, db).
       if 0 < length (ObjectId nq) then
         Option.bind (getEntity ops (ObjectId nq) db) (\<lambda>(e2, db). Relate ops e1 (Predicate nq) e2 db)
       else
         Option.bind (Node_Properties ops e1 db) (\<lambda>props.
           let pred = Predicate nq;
               pred = (if 0 < length (Lang nq) then pred @ ''.'' @ Lang nq else pred)
           in SetProperties ops e1 (props(pred \<mapsto> ObjectValue nq)) db))"

text \<open>One N-Quad; a failure of the database ends the program.\<close>

definition handleNQuad ::
  "(string \<Rightarrow> u64) \<Rightarrow> u64 \<Rightarrow> ('db, 'node, 'v) neo_db \<Rightarrow> 'v NQuad \<Rightarrow> 'e neo_error + 'db \<times> counters \<Rightarrow>
     ('e neo_error + 'db \<times> counters) go" where
  "handleNQuad Fingerprint64 md ops nq st =
     (case st of
        Inl e \<Rightarrow> Ret (Inl e)
      | Inr (db, ctr) \<Rightarrow>
          if md = 0 then Panic DivideByZero
          else if Fingerprint64 (Subject nq) mod md \<noteq> 0 then
            Ret (Inr (db, ctr\<lparr>ctr_ignored := ctr_ignored ctr + 1\<rparr>))
          else case store_nquad ops nq db of
                 None \<Rightarrow> Ret (Inl DbError)
               | Some db \<Rightarrow> Ret (Inr (db, ctr\<lparr>ctr_processed := ctr_processed ctr + 1\<rparr>)))"


text \<open>
  The command: the files of a list with commas, and the count that is reported of each. At the end
  it gets or creates an entity with the number 10 for its identifier, which is \<open>probe\<close>.
\<close>

definition neo_file ::
  "(string \<Rightarrow> reader option) \<Rightarrow> (reader \<Rightarrow> 'db \<Rightarrow> ('e neo_error + 'db \<times> counters) go) \<Rightarrow> string \<Rightarrow>
     'e neo_error + 'db \<times> u64 list \<Rightarrow> ('e neo_error + 'db \<times> u64 list) go" where
  "neo_file fs handle path st =
     run_bind (Ret st) (\<lambda>(db, counts).
       if length path = 0 then Ret (Inr (db, counts))
       else case fs path of
              None \<Rightarrow> Ret (Inl (OpenFile path))
            | Some r \<Rightarrow> run_bind (handle r db) (\<lambda>(db, ctr). Ret (Inr (db, counts @ [ctr_processed ctr]))))"

definition neo_main ::
  "(string \<Rightarrow> reader option) \<Rightarrow> (reader \<Rightarrow> 'db \<Rightarrow> ('e neo_error + 'db \<times> counters) go) \<Rightarrow>
     ('db \<Rightarrow> 'db option) \<Rightarrow> string \<Rightarrow> 'db \<Rightarrow> ('e neo_error + 'db \<times> u64 list) go" where
  "neo_main fs handle probe rdfGzips db =
     (if length rdfGzips = 0 then Ret (Inl NoFiles)
      else run_bind (go_fold (neo_file fs handle) (Split (CHR '','') rdfGzips) (Inr (db, [])))
             (\<lambda>(db, counts). case probe db of None \<Rightarrow> Ret (Inl DbError) | Some db \<Rightarrow> Ret (Inr (db, counts))))"

section \<open>Reading keeps the lines\<close>







section \<open>Handling counts every N-Quad\<close>






text \<open>Sampling by 0 divides by 0 at the first N-Quad.\<close>

lemma handle_mod_0: "handleNQuad F 0 ops nq (Inr st) = Panic DivideByZero"
  by (cases st) (simp add: handleNQuad_def)

end
