(* ===== verification/Finder.thy ===== *)
theory Finder
  imports GoLines
begin

text \<open>
  finder: the lines of an RDF dump whose subject is in a list of entities. The trie of fvbock/trie is
  a parameter, the function \<open>Has\<close>; compressing is left out.
\<close>

section \<open>Model\<close>

text \<open>What is looked up for a line: \<open>None\<close> if it is skipped. The index \<open>right\<close> is one of \<open>l[left:]\<close>.\<close>

definition line_entity :: "string \<Rightarrow> string option go" where
  "line_entity l =
     (let left = Index l (CHR ''<'')
      in if left < 0 then Ret None
         else go_bind (go_slice l left (int (length l)))
                (\<lambda>t. let right = Index t (CHR ''>'')
                     in go_bind (go_slice l left (right + 1)) (\<lambda>e. Ret (Some e))))"

definition buffer_limit :: nat where
  "buffer_limit = 40 * 2 ^ 20"

text \<open>
  A worker: its buffer; the shared writer is what has been written so far. A worker takes a line,
  or ends, which writes what is left.
\<close>

definition find_step :: "(string \<Rightarrow> bool) \<Rightarrow> string \<Rightarrow> string \<times> string \<Rightarrow> (string \<times> string) go" where
  "find_step Has l = (\<lambda>(buf, out).
     go_bind (line_entity l) (\<lambda>e.
       case e of
         None \<Rightarrow> Ret (buf, out)
       | Some e \<Rightarrow>
           if Has e then
             (let buf = buf @ l @ [CHR 0x0A]
              in if buffer_limit < length buf then Ret ([], out @ buf) else Ret (buf, out))
           else Ret (buf, out)))"

definition find_end :: "string \<times> string \<Rightarrow> string \<times> string" where
  "find_end = (\<lambda>(buf, out). if 0 < length buf then ([], out @ buf) else (buf, out))"

text \<open>
  \<open>grep\<close> with workers \<open>0..<n\<close>: the lines in the order in which they are taken from the channel, each
  with the worker that takes it, and then the order in which the workers end. A panic of one
  worker ends the program.
\<close>

type_synonym finder_state = "(nat \<Rightarrow> string) \<times> string"

definition take_line :: "(string \<Rightarrow> bool) \<Rightarrow> nat \<times> string \<Rightarrow> finder_state \<Rightarrow> finder_state go" where
  "take_line Has = (\<lambda>(w, l) (bufs, out).
     go_bind (find_step Has l (bufs w, out)) (\<lambda>(buf, out). Ret (bufs(w := buf), out)))"

definition end_worker :: "nat \<Rightarrow> finder_state \<Rightarrow> finder_state" where
  "end_worker w = (\<lambda>(bufs, out). let (buf, out) = find_end (bufs w, out) in (bufs(w := buf), out))"

definition grep :: "(string \<Rightarrow> bool) \<Rightarrow> nat list \<Rightarrow> nat list \<Rightarrow> string list \<Rightarrow> string go" where
  "grep Has takers enders ls =
     go_bind (go_fold (take_line Has) (zip takers ls) (\<lambda>_. [], []))
       (\<lambda>st. Ret (snd (fold end_worker enders st)))"

text \<open>
  The program: the error of a scanner is never looked at, so a line that is too long ends the
  entities or the lines.
\<close>

definition finder_main ::
  "(string list \<Rightarrow> string \<Rightarrow> bool) \<Rightarrow> nat list \<Rightarrow> nat list \<Rightarrow> reader \<Rightarrow> reader \<Rightarrow> string go" where
  "finder_main Has takers enders entities rdf =
     grep (Has (fst (Scan MaxScanTokenSize entities))) takers enders (fst (Scan MaxScanTokenSize rdf))"

section \<open>The entity of a line\<close>

lemma Index_split: "c \<notin> set a \<Longrightarrow> Index (a @ c # b) c = int (length a)"
  using takeWhile_line [of c a b] by (simp add: Index_def)

lemma line_entity_none: "CHR ''<'' \<notin> set l \<Longrightarrow> line_entity l = Ret None"
  by (simp add: line_entity_def Index_def)

lemma line_entity_split:
  assumes "CHR ''<'' \<notin> set pre" and "CHR ''>'' \<notin> set e"
  shows "line_entity (pre @ CHR ''<'' # e @ CHR ''>'' # suf) =
    (if length pre \<le> length e + 2 then Ret (Some (take (length e + 2 - length pre) (CHR ''<'' # e @ CHR ''>'' # suf)))
     else Panic SliceBounds)"
proof -
  let ?l = "pre @ CHR ''<'' # e @ CHR ''>'' # suf"
  have "go_slice ?l (int (length pre)) (int (length ?l)) = Ret (CHR ''<'' # e @ CHR ''>'' # suf)"
    by (subst go_slice_nat) auto
  moreover have "Index (CHR ''<'' # e @ CHR ''>'' # suf) (CHR ''>'') = int (length e + 1)"
    using Index_split [of "CHR ''>''" "CHR ''<'' # e" suf] assms(2) by simp
  moreover have "go_slice ?l (int (length pre)) (int (length e + 1) + 1)
      = (if length pre \<le> length e + 2 then Ret (take (length e + 2 - length pre) (CHR ''<'' # e @ CHR ''>'' # suf))
         else Panic SliceBounds)"
    by (auto simp: go_slice_def nat_add_distrib)
  ultimately show ?thesis using Index_split [OF assms(1)] by (simp add: line_entity_def)
qed

text \<open>
  The entity of a line is what stands between its first angle brackets, with them, only if
  nothing stands before the first bracket; otherwise it is cut short by the length of that, and
  the program panics if that is longer than the entity.
\<close>

theorem line_entity_cut:
  assumes "CHR ''<'' \<notin> set pre" and "CHR ''>'' \<notin> set e"
  shows "line_entity (pre @ ''<'' @ e @ ''>'' @ suf) =
    (if length pre \<le> length (''<'' @ e @ ''>'')
     then Ret (Some (take (length (''<'' @ e @ ''>'') - length pre) (''<'' @ e @ ''>'')))
     else Panic SliceBounds)"
proof -
  have "take (length e + 2 - length pre) (CHR ''<'' # e @ CHR ''>'' # suf)
      = take (length e + 2 - length pre) (CHR ''<'' # e @ [CHR ''>''])"
    by (simp add: take_Cons' take_append)
  then show ?thesis using line_entity_split [OF assms, of suf] by simp
qed

theorem line_entity_cut_witness:
  "line_entity ('' '' @ ''<'' @ ''m.1'' @ ''>'' @ '' x'') = Ret (Some ''<m.1'')"
  using line_entity_cut [of "'' ''" "''m.1''" "'' x''"] by simp

section \<open>All lines that are found are written\<close>

definition found :: "(string \<Rightarrow> bool) \<Rightarrow> string \<Rightarrow> bool" where
  "found Has l \<longleftrightarrow> (case line_entity l of Ret (Some e) \<Rightarrow> Has e | _ \<Rightarrow> False)"

definition no_panic :: "string \<Rightarrow> bool" where
  "no_panic l \<longleftrightarrow> (case line_entity l of Ret _ \<Rightarrow> True | _ \<Rightarrow> False)"

text \<open>The lines written and those in the buffers of the workers \<open>0..<n\<close> are those found so far.\<close>

definition finder_inv :: "nat \<Rightarrow> string multiset \<Rightarrow> finder_state \<Rightarrow> bool" where
  "finder_inv n m = (\<lambda>(bufs, out). \<exists>os bs.
     out = text_of os \<and> (\<forall>w. bufs w = text_of (bs w)) \<and> mset os + (\<Sum>w<n. mset (bs w)) = m)"

lemma text_of_eq_Nil: "text_of ls = [] \<longleftrightarrow> ls = []"
  by (cases ls) simp_all

lemma sum_upd:
  "w < (n :: nat) \<Longrightarrow> (\<Sum>v<n. mset ((bs(w := xs)) v)) + mset (bs w) = (\<Sum>v<n. mset (bs v)) + mset xs"
proof -
  assume w: "w < n"
  have "(\<Sum>v<n. mset (f v)) = mset (f w) + (\<Sum>v \<in> {..<n} - {w}. mset (f v))" for f :: "nat \<Rightarrow> 'a list"
    using w by (intro sum.remove) auto
  from this [of "bs(w := xs)"] this [of bs] show ?thesis by (simp add: ac_simps)
qed

lemma finder_flush:
  assumes "out = text_of os" and "\<forall>w. bufs w = text_of (bs w)" and "mset os + (\<Sum>w<n. mset (bs w)) = m" and "w < n"
  shows "finder_inv n (m + mset ls) (bufs(w := []), out @ text_of (bs w @ ls))"
  using assms sum_upd [OF assms(4), of bs "[]"]
  unfolding finder_inv_def
  by (intro case_prodI exI [of _ "os @ bs w @ ls"] exI [of _ "bs(w := [])"]) (auto simp: ac_simps)

lemma finder_keep:
  assumes "out = text_of os" and "\<forall>w. bufs w = text_of (bs w)" and "mset os + (\<Sum>w<n. mset (bs w)) = m" and "w < n"
  shows "finder_inv n (m + mset ls) (bufs(w := text_of (bs w @ ls)), out)"
proof -
  have "(\<Sum>v<n. mset ((bs(w := bs w @ ls)) v)) = (\<Sum>v<n. mset (bs v)) + mset ls"
    using sum_upd [OF assms(4), of bs "bs w @ ls"] by (simp add: ac_simps)
  with assms show ?thesis
    unfolding finder_inv_def
    by (intro case_prodI exI [of _ os] exI [of _ "bs(w := bs w @ ls)"]) (auto simp: ac_simps)
qed

lemma take_line_inv:
  assumes "finder_inv n m st" and "w < n" and "no_panic l"
  shows "\<exists>st'. take_line Has (w, l) st = Ret st' \<and> finder_inv n (m + (if found Has l then {#l#} else {#})) st'"
proof -
  obtain bufs out where st: "st = (bufs, out)" by (cases st)
  from assms(1) obtain os bs where i: "out = text_of os" "\<forall>w. bufs w = text_of (bs w)"
    "mset os + (\<Sum>w<n. mset (bs w)) = m" by (auto simp: finder_inv_def st)
  have bufs: "bufs = (\<lambda>w. text_of (bs w))" using i(2) by auto
  from assms(3) obtain e where e: "line_entity l = Ret e" by (auto simp: no_panic_def split: go.splits)
  show ?thesis
  proof (cases "found Has l")
    case True
    then obtain x where "e = Some x" "Has x" by (auto simp: found_def e split: option.splits)
    moreover have "finder_inv n (m + {#l#}) (bufs(w := []), out @ bufs w @ l @ [CHR 0x0A])"
      "finder_inv n (m + {#l#}) (bufs(w := bufs w @ l @ [CHR 0x0A]), out)"
      using finder_flush [OF i assms(2), of "[l]"] finder_keep [OF i assms(2), of "[l]"] by (simp_all add: bufs)
    ultimately show ?thesis using True e by (auto simp: take_line_def find_step_def st Let_def)
  next
    case False
    with e have "take_line Has (w, l) st = Ret st"
      by (cases e) (auto simp: take_line_def find_step_def st found_def)
    with False assms(1) show ?thesis by simp
  qed
qed

lemma take_lines_inv:
  "\<lbrakk> finder_inv n m st; \<forall>(w, l) \<in> set wls. w < n \<and> no_panic l \<rbrakk> \<Longrightarrow>
   \<exists>st'. go_fold (take_line Has) wls st = Ret st' \<and> finder_inv n (m + mset (filter (found Has) (map snd wls))) st'"
proof (induction wls arbitrary: m st)
  case (Cons wl wls)
  obtain w l where wl: "wl = (w, l)" by (cases wl)
  from take_line_inv [OF Cons.prems(1), of w l Has] Cons.prems(2) obtain st1 where
    "take_line Has (w, l) st = Ret st1" "finder_inv n (m + (if found Has l then {#l#} else {#})) st1"
    by (auto simp: wl)
  with Cons.IH [OF this(2)] Cons.prems(2) show ?case by (auto simp: wl)
qed simp

lemma end_workers:
  "\<lbrakk> \<forall>w. bufs w = text_of (bs w); distinct ws \<rbrakk> \<Longrightarrow>
   snd (fold end_worker ws (bufs, out)) = out @ text_of (concat (map bs ws))"
proof (induction ws arbitrary: bufs bs out)
  case (Cons w ws)
  have step: "end_worker w (bufs, out) = (bufs(w := []), out @ text_of (bs w))"
    using Cons.prems(1) by (auto simp: end_worker_def find_end_def text_of_eq_Nil)
  have "snd (fold end_worker ws (bufs(w := []), out @ text_of (bs w)))
      = (out @ text_of (bs w)) @ text_of (concat (map (bs(w := [])) ws))"
    using Cons.prems by (intro Cons.IH) auto
  moreover have "map (bs(w := [])) ws = map bs ws" using Cons.prems(2) by auto
  ultimately show ?case by (simp add: step)
qed simp

lemma line_entity_panic: "\<not> no_panic l \<Longrightarrow> line_entity l = Panic SliceBounds"
  by (auto simp: no_panic_def line_entity_def go_slice_def Let_def split: if_splits)

lemma take_line_outcome:
  "take_line Has (w, l) st = (if no_panic l then take_line Has (w, l) st else Panic SliceBounds)"
  by (cases st) (simp add: take_line_def find_step_def line_entity_panic)

lemma take_line_Ret: "no_panic l \<Longrightarrow> \<exists>st'. take_line Has (w, l) st = Ret st'"
  by (cases st) (auto simp: take_line_def find_step_def no_panic_def Let_def split: go.splits option.splits)

lemma take_lines_panic:
  "\<not> list_all no_panic (map snd wls) \<Longrightarrow> go_fold (take_line Has) wls st = Panic SliceBounds"
proof (induction wls arbitrary: st)
  case (Cons wl wls)
  obtain w l where wl: "wl = (w, l)" by (cases wl)
  show ?case
  proof (cases "no_panic l")
    case True
    from take_line_Ret [OF this, of Has w st] obtain st' where "take_line Has (w, l) st = Ret st'" ..
    with Cons True show ?thesis by (simp add: wl)
  next
    case False
    with take_line_outcome [of Has w l st] show ?thesis by (simp add: wl)
  qed
qed simp

text \<open>
  C36: with at least one worker, however the lines are distributed among the workers and in whatever
  order these end. The code looks up the slice from the first \<open><\<close> of a line, but takes its end, the
  first \<open>>\<close> after that, as if the slice began the line. If for some line these bounds are wrong (for a
  line with something before its entity that is longer than the entity), the program panics. If
  not, the output has exactly the lines for which what is looked up is found (the entity, for the
  lines that begin with it, and an entity cut short otherwise), each as often as it occurs; the size
  at which a buffer is written does not matter.
\<close>

theorem grep_writes_found:
  assumes "list_all (\<lambda>w. w < n) takers" and "length takers = length ls"
    and "distinct enders" and "set enders = {..<n}"
  shows "if list_all no_panic ls
    then \<exists>zs. grep Has takers enders ls = Ret (text_of zs) \<and> mset zs = mset (filter (found Has) ls)
    else grep Has takers enders ls = Panic SliceBounds"
proof (cases "list_all no_panic ls")
  case False
  then have "\<not> list_all no_panic (map snd (zip takers ls))" using assms(2) by simp
  from take_lines_panic [OF this] False show ?thesis by (simp add: grep_def)
next
  case True
  have "finder_inv n {#} (\<lambda>_. [], [])"
    unfolding finder_inv_def by (intro case_prodI exI [of _ "[]"] exI [of _ "\<lambda>_. []"]) simp
  moreover have "\<forall>(w, l) \<in> set (zip takers ls). w < n \<and> no_panic l"
    using True assms(1) by (auto simp: list_all_iff dest: set_zip_leftD set_zip_rightD)
  ultimately obtain bufs out where st: "go_fold (take_line Has) (zip takers ls) (\<lambda>_. [], []) = Ret (bufs, out)"
    "finder_inv n (mset (filter (found Has) ls)) (bufs, out)"
    using take_lines_inv [of n "{#}" _ "zip takers ls" Has] assms(2) by fastforce
  then obtain os bs where i: "out = text_of os" "\<forall>w. bufs w = text_of (bs w)"
    "mset os + (\<Sum>w<n. mset (bs w)) = mset (filter (found Has) ls)" by (auto simp: finder_inv_def)
  have "mset (concat (map bs enders)) = (\<Sum>w<n. mset (bs w))"
    using assms(3,4) by (simp add: mset_concat sum_list_distinct_conv_sum_set comp_def)
  moreover have "grep Has takers enders ls = Ret (text_of (os @ concat (map bs enders)))"
    using end_workers [OF i(2) assms(3), of out] by (simp add: grep_def st(1) i(1))
  ultimately show ?thesis using i(3) True by (auto intro: exI [of _ "os @ concat (map bs enders)"])
qed

theorem grep_writes_found_witness:
  "(\<exists>zs. grep (\<lambda>e. e = ''<a>'') [1, 0, 1] [1, 0] [''<a> x'', ''none'', ''<a> y''] = Ret (text_of zs)
     \<and> mset zs = {#''<a> x'', ''<a> y''#})
   \<and> grep (\<lambda>e. e = ''<a>'') [1, 0] [1, 0] [''<a> x'', ''_:node <a>''] = Panic SliceBounds"
proof -
  have "list_all no_panic [''<a> x'', ''none'', ''<a> y'']" "\<not> list_all no_panic [''<a> x'', ''_:node <a>'']"
    "filter (found (\<lambda>e. e = ''<a>'')) [''<a> x'', ''none'', ''<a> y''] = [''<a> x'', ''<a> y'']"
    by code_simp+
  moreover have "set [1, 0] = {..<2 :: nat}" by auto
  ultimately show ?thesis
    using grep_writes_found [of 2 "[1, 0, 1]" "[''<a> x'', ''none'', ''<a> y'']" "[1, 0]" "\<lambda>e. e = ''<a>''"]
      grep_writes_found [of 2 "[1, 0]" "[''<a> x'', ''_:node <a>'']" "[1, 0]" "\<lambda>e. e = ''<a>''"]
    by (simp del: filter.simps)
qed

text \<open>Without workers nothing is written.\<close>

lemma grep_no_workers: "grep Has [] [] ls = Ret []"
  by (simp add: grep_def)

end
