(* ===== verification/OrientTransform.thy ===== *)
theory OrientTransform
  imports GoLines NQuads
begin

text \<open>
  orientdb/transform: the documents of the entities in a list of identifiers, from an RDF dump. The
  fingerprint of go-farm, the chunker of Dgraph and the binary form of times are parameters; the
  documents are what is then marshalled and written.
\<close>

section \<open>Model\<close>

datatype api_value = StrVal string | DatetimeVal string | DefaultVal string | OtherVal

text \<open>The text of a value; a time that cannot be read is fatal.\<close>

definition typeValFrom :: "(string \<Rightarrow> string option) \<Rightarrow> api_value \<Rightarrow> string option" where
  "typeValFrom date_text val =
     (case val of StrVal s \<Rightarrow> Some s | DatetimeVal b \<Rightarrow> date_text b | DefaultVal s \<Rightarrow> Some s | OtherVal \<Rightarrow> Some [])"

text \<open>What the fields of a document hold.\<close>

datatype doc_value = DNum u32 | DStr string | DList "u32 list"

type_synonym doc = "string \<Rightarrow> doc_value option"
type_synonym docs = "u32 \<Rightarrow> doc option"

text \<open>The identifiers: one to a line; an error of the scanner is printed, and the program goes on.\<close>

definition add_id :: "(string \<Rightarrow> u32) \<Rightarrow> string \<Rightarrow> docs \<Rightarrow> docs" where
  "add_id Fingerprint32 line jsonData =
     (let xid = TrimSpace line
      in if xid \<noteq> [] then let i = Fingerprint32 xid in jsonData(i \<mapsto> [''id'' \<mapsto> DNum i]) else jsonData)"

definition read_ids :: "(string \<Rightarrow> u32) \<Rightarrow> reader \<Rightarrow> docs" where
  "read_ids Fingerprint32 r = fold (add_id Fingerprint32) (fst (Scan MaxScanTokenSize r)) Map.empty"

text \<open>An N-Quad; \<open>p\<close> and \<open>e\<close> are the properties and the edges of the flags.\<close>

definition add_field ::
  "(string \<Rightarrow> u32) \<Rightarrow> (string \<Rightarrow> string option) \<Rightarrow> string list \<Rightarrow> string list \<Rightarrow> api_value NQuad \<Rightarrow> doc \<Rightarrow> doc option"
  where
  "add_field Fingerprint32 date_text p e nq d =
     (if Predicate nq \<in> set p then
        map_option (\<lambda>ov. d(Predicate nq \<mapsto> DStr ov)) (typeValFrom date_text (ObjectValue nq))
      else if Predicate nq \<in> set e then
        let oid = Fingerprint32 (ObjectId nq);
            xs = (case d (Predicate nq) of Some (DList xs) \<Rightarrow> xs | _ \<Rightarrow> [])
        in Some (d(Predicate nq \<mapsto> DList (xs @ [oid])))
      else Some d)"

definition orient_nquad ::
  "(string \<Rightarrow> u32) \<Rightarrow> (string \<Rightarrow> string option) \<Rightarrow> string list \<Rightarrow> string list \<Rightarrow> api_value NQuad \<Rightarrow>
     docs \<times> nat \<Rightarrow> unit + docs \<times> nat" where
  "orient_nquad Fingerprint32 date_text p e nq = (\<lambda>(jsonData, count).
     let uid = Fingerprint32 (Subject nq)
     in case jsonData uid of
          None \<Rightarrow> Inr (jsonData, count)
        | Some d \<Rightarrow>
            if Lang nq \<noteq> [] \<and> Lang nq \<noteq> ''en'' then Inr (jsonData, count)
            else case add_field Fingerprint32 date_text p e nq d of
                   None \<Rightarrow> Inl ()
                 | Some d \<Rightarrow> Inr (jsonData(uid \<mapsto> d), count + 1))"

text \<open>
  The chunks: of each the N-Quads that parse, and whether parsing it ended in the error for the end
  of a file, which ends the loop; any other error of the parser is printed. \<open>failed\<close> tells whether
  the chunker ends with an error, which is fatal.
\<close>

fun orient_chunks ::
  "(api_value NQuad \<Rightarrow> docs \<times> nat \<Rightarrow> unit + docs \<times> nat) \<Rightarrow> (api_value NQuad list \<times> bool) list \<Rightarrow> bool \<Rightarrow>
     docs \<times> nat \<Rightarrow> unit + docs \<times> nat" where
  "orient_chunks step [] failed st = (if failed then Inl () else Inr st)"
| "orient_chunks step ((nqs, eof) # chunks) failed st =
     (if eof then Inr st else err_bind (err_fold step nqs st) (orient_chunks step chunks failed))"

text \<open>The documents in the order in which Go iterates over the map, and the count of N-Quads.\<close>

definition orient_main ::
  "(string \<Rightarrow> u32) \<Rightarrow> (string \<Rightarrow> string option) \<Rightarrow> reader option \<Rightarrow> string \<Rightarrow> string \<Rightarrow>
     (api_value NQuad list \<times> bool) list \<Rightarrow> bool \<Rightarrow> u32 list \<Rightarrow> unit + doc list \<times> nat" where
  "orient_main Fingerprint32 date_text input properties edges chunks failed order =
     (case input of
        None \<Rightarrow> Inl ()
      | Some r \<Rightarrow>
          let p = Split (CHR '','') properties; e = Split (CHR '','') edges
          in err_bind (orient_chunks (orient_nquad Fingerprint32 date_text p e) chunks failed (read_ids Fingerprint32 r, 0))
               (\<lambda>(jsonData, count). Inr (map (\<lambda>i. the (jsonData i)) order, count)))"

section \<open>Types of the fields\<close>

text \<open>
  A document has a number for its identifier, strings for the properties and lists for the edges.
  A predicate that is both is a property.
\<close>

definition field_typed :: "string list \<Rightarrow> string list \<Rightarrow> string \<Rightarrow> doc_value \<Rightarrow> bool" where
  "field_typed p e k v =
     (case v of DNum j \<Rightarrow> k = ''id'' | DStr s \<Rightarrow> k \<in> set p | DList xs \<Rightarrow> k \<in> set e \<and> k \<notin> set p \<and> xs \<noteq> [])"

definition well_typed :: "string list \<Rightarrow> string list \<Rightarrow> u32 \<Rightarrow> doc \<Rightarrow> bool" where
  "well_typed p e i d \<longleftrightarrow> d ''id'' = Some (DNum i) \<and> (\<forall>k v. d k = Some v \<longrightarrow> field_typed p e k v)"

definition well_typed_docs :: "string list \<Rightarrow> string list \<Rightarrow> docs \<Rightarrow> bool" where
  "well_typed_docs p e ds \<longleftrightarrow> (\<forall>i d. ds i = Some d \<longrightarrow> well_typed p e i d)"

lemma well_typed_new: "well_typed p e i [''id'' \<mapsto> DNum i]"
  by (auto simp: well_typed_def field_typed_def split: if_splits)

lemma well_typed_upd:
  "\<lbrakk> well_typed p e i d; field_typed p e k v; k \<noteq> ''id'' \<rbrakk> \<Longrightarrow> well_typed p e i (d(k \<mapsto> v))"
  by (auto simp: well_typed_def)

lemma well_typed_docs_upd: "\<lbrakk> well_typed_docs p e ds; well_typed p e i d \<rbrakk> \<Longrightarrow> well_typed_docs p e (ds(i \<mapsto> d))"
  by (auto simp: well_typed_docs_def)

lemma read_ids_typed: "well_typed_docs p e (read_ids F r)"
proof -
  have "well_typed_docs p e ds \<Longrightarrow> well_typed_docs p e (fold (add_id F) ls ds)" for ls ds
    by (induction ls arbitrary: ds) (simp_all add: add_id_def Let_def well_typed_docs_upd well_typed_new)
  from this [of Map.empty] show ?thesis by (simp add: read_ids_def well_typed_docs_def)
qed

lemma add_field_typed:
  assumes "add_field F date p e nq d = Some d'" and "well_typed p e i d" and "''id'' \<notin> set p \<union> set e"
  shows "well_typed p e i d'"
proof -
  consider "d' = d" | s where "Predicate nq \<in> set p" "d' = d(Predicate nq \<mapsto> DStr s)"
    | xs where "Predicate nq \<in> set e" "Predicate nq \<notin> set p" "xs \<noteq> []" "d' = d(Predicate nq \<mapsto> DList xs)"
    using assms(1) by (auto simp: add_field_def Let_def split: if_splits)
  then show ?thesis
    using assms(2,3) by cases (auto intro!: well_typed_upd simp: field_typed_def)
qed

lemma orient_nquad_cases:
  assumes "orient_nquad F date p e nq (ds, n) = Inr (ds', n')"
  obtains "ds' = ds" "n' = n"
  | d d' where "ds (F (Subject nq)) = Some d" "add_field F date p e nq d = Some d'" "ds' = ds(F (Subject nq) \<mapsto> d')"
      "n' = Suc n"
  using assms by (auto simp: orient_nquad_def Let_def split: option.splits if_splits)

lemma orient_nquad_typed:
  assumes "orient_nquad F date p e nq (ds, n) = Inr (ds', n')" and "well_typed_docs p e ds" and "''id'' \<notin> set p \<union> set e"
  shows "well_typed_docs p e ds' \<and> dom ds' = dom ds"
  using assms(1)
proof (cases rule: orient_nquad_cases)
  case (2 d d')
  moreover from this(1) assms(2) have "well_typed p e (F (Subject nq)) d" by (simp add: well_typed_docs_def)
  ultimately show ?thesis using add_field_typed assms(2,3) well_typed_docs_upd by auto
qed (use assms(2) in simp)

lemma orient_loop_typed:
  "\<lbrakk> err_fold (orient_nquad F date p e) nqs (ds, n) = Inr (ds', n'); well_typed_docs p e ds; ''id'' \<notin> set p \<union> set e \<rbrakk> \<Longrightarrow>
   well_typed_docs p e ds' \<and> dom ds' = dom ds"
proof (induction nqs arbitrary: ds n)
  case (Cons nq nqs)
  from Cons.prems(1) obtain ds1 n1 where
    "orient_nquad F date p e nq (ds, n) = Inr (ds1, n1)" "err_fold (orient_nquad F date p e) nqs (ds1, n1) = Inr (ds', n')"
    by (auto simp: err_bind_eq_Inr)
  with Cons.IH [of ds1 n1] orient_nquad_typed [of F date p e nq ds n ds1 n1] Cons.prems(2,3) show ?case by simp
qed simp

lemma orient_chunks_typed:
  "\<lbrakk> orient_chunks (orient_nquad F date p e) chunks failed (ds, n) = Inr (ds', n'); well_typed_docs p e ds;
     ''id'' \<notin> set p \<union> set e \<rbrakk> \<Longrightarrow> well_typed_docs p e ds' \<and> dom ds' = dom ds"
proof (induction chunks arbitrary: ds n)
  case Nil
  then show ?case by (simp split: if_splits)
next
  case (Cons c chunks)
  obtain nqs eof where c: "c = (nqs, eof)" by (cases c)
  show ?case
  proof (cases eof)
    case False
    with Cons.prems(1) obtain ds1 n1 where
      "err_fold (orient_nquad F date p e) nqs (ds, n) = Inr (ds1, n1)"
      "orient_chunks (orient_nquad F date p e) chunks failed (ds1, n1) = Inr (ds', n')"
      by (auto simp: c err_bind_eq_Inr)
    with Cons.IH [of ds1 n1] orient_loop_typed [of F date p e nqs ds n ds1 n1] Cons.prems(2,3) show ?thesis by simp
  qed (use Cons.prems c in simp)
qed

text \<open>
  C26: the documents are typed: whatever the dump, when the transformation ends without a fatal error
  there is one document for each fingerprint of an identifier, with the fingerprint as its
  \<open>id\<close>, strings as its properties and lists as its edges, provided that no property and no edge is
  called \<open>id\<close>.
\<close>

theorem orient_main_typed:
  assumes "orient_main F date (Some r) properties edges chunks failed order = Inr (out, cnt)"
    and "''id'' \<notin> set (Split (CHR '','') properties) \<union> set (Split (CHR '','') edges)"
    and "distinct order" and "set order = dom (read_ids F r)"
  shows "list_all2 (well_typed (Split (CHR '','') properties) (Split (CHR '','') edges)) order out"
proof -
  let ?p = "Split (CHR '','') properties" and ?e = "Split (CHR '','') edges"
  from assms(1) obtain ds where
    "orient_chunks (orient_nquad F date ?p ?e) chunks failed (read_ids F r, 0) = Inr (ds, cnt)"
    and out: "out = map (\<lambda>i. the (ds i)) order"
    by (auto simp: orient_main_def err_bind_eq_Inr Let_def)
  from orient_chunks_typed [OF this(1) read_ids_typed assms(2)]
  have "well_typed_docs ?p ?e ds" "dom ds = dom (read_ids F r)" by simp_all
  then have "well_typed ?p ?e i (the (ds i))" if "i \<in> set order" for i
  proof -
    have "i \<in> dom ds" using that assms(4) \<open>dom ds = dom (read_ids F r)\<close> by simp
    then obtain d where "ds i = Some d" by auto
    then have "well_typed ?p ?e i d" using \<open>well_typed_docs ?p ?e ds\<close> unfolding well_typed_docs_def by blast
    with \<open>ds i = Some d\<close> show ?thesis by simp
  qed
  then show ?thesis by (simp add: out list_all2_map2 list_all2_same)
qed

definition demo_ids :: reader where
  "demo_ids = (text_of [''ab'', '' c''], False)"

definition demo_fp :: "string \<Rightarrow> u32" where
  "demo_fp s = of_nat (length s)"

definition demo_quad :: "string \<Rightarrow> string \<Rightarrow> string \<Rightarrow> api_value \<Rightarrow> string \<Rightarrow> api_value NQuad" where
  "demo_quad s pr ob v l = \<lparr>Subject = s, Predicate = pr, ObjectId = ob, ObjectValue = v, Lang = l\<rparr>"

definition demo_chunks :: "(api_value NQuad list \<times> bool) list" where
  "demo_chunks =
     [([demo_quad ''ab'' ''name'' [] (StrVal ''x'') ''de'', demo_quad ''ab'' ''name'' [] (StrVal ''y'') ''en''], False),
      ([demo_quad ''c'' ''genre'' ''abc'' OtherVal [], demo_quad ''c'' ''genre'' ''ab'' OtherVal []], False)]"

lemma read_demo_ids: "read_ids demo_fp demo_ids = [2 \<mapsto> [''id'' \<mapsto> DNum 2], 1 \<mapsto> [''id'' \<mapsto> DNum 1]]"
proof -
  have "fst (Scan MaxScanTokenSize demo_ids) = [''ab'', '' c'']"
    using scan_lines_unlines [of "[''ab'', '' c'']" MaxScanTokenSize]
    by (simp add: Scan_def demo_ids_def text_of_def plain_line_def MaxScanTokenSize_def split: prod.splits)
  moreover have "TrimSpace ''ab'' = ''ab''" "TrimSpace '' c'' = ''c''" by code_simp+
  ultimately show ?thesis by (simp add: read_ids_def add_id_def demo_fp_def)
qed

lemma Split_demo: "Split (CHR '','') ''name'' = [''name'']" "Split (CHR '','') ''genre'' = [''genre'']"
  by code_simp+

lemma orient_demo:
  "orient_main demo_fp Some (Some demo_ids) ''name'' ''genre'' demo_chunks False [1, 2]
     = Inr ([[''id'' \<mapsto> DNum 1, ''genre'' \<mapsto> DList [3, 2]], [''id'' \<mapsto> DNum 2, ''name'' \<mapsto> DStr ''y'']], 3)"
  unfolding orient_main_def option.case Split_demo read_demo_ids demo_chunks_def
  by (simp add: orient_nquad_def demo_quad_def demo_fp_def add_field_def typeValFrom_def fun_upd_def fun_eq_iff)

theorem orient_main_typed_witness:
  "list_all2 (well_typed [''name''] [''genre'']) [1, 2]
     [[''id'' \<mapsto> DNum 1, ''genre'' \<mapsto> DList [3, 2]], [''id'' \<mapsto> DNum 2, ''name'' \<mapsto> DStr ''y'']]"
  using orient_main_typed [OF orient_demo] unfolding Split_demo read_demo_ids by (simp add: insert_commute)

section \<open>What the fields are\<close>

text \<open>The N-Quads that reach the document of \<open>i\<close>, for one predicate.\<close>

definition relevant :: "(string \<Rightarrow> u32) \<Rightarrow> u32 \<Rightarrow> string \<Rightarrow> api_value NQuad list \<Rightarrow> api_value NQuad list" where
  "relevant F i k = filter (\<lambda>nq. F (Subject nq) = i \<and> Lang nq \<in> {[], ''en''} \<and> Predicate nq = k)"

text \<open>A property has the last value, an edge the fingerprints of its objects in order.\<close>

definition field_of ::
  "(string \<Rightarrow> u32) \<Rightarrow> (string \<Rightarrow> string option) \<Rightarrow> string list \<Rightarrow> string list \<Rightarrow> u32 \<Rightarrow> api_value NQuad list \<Rightarrow>
     string \<Rightarrow> doc_value option" where
  "field_of F date p e i nqs k =
     (let ns = relevant F i k nqs
      in if k = ''id'' then Some (DNum i)
         else if ns = [] then None
         else if k \<in> set p then map_option DStr (typeValFrom date (ObjectValue (last ns)))
         else if k \<in> set e then Some (DList (map (\<lambda>nq. F (ObjectId nq)) ns))
         else None)"

lemma field_of_Nil: "field_of F date p e i [] = [''id'' \<mapsto> DNum i]"
  by (auto simp: field_of_def relevant_def fun_eq_iff)

lemma relevant_snoc:
  "relevant F i k (nqs @ [nq]) = relevant F i k nqs
     @ (if F (Subject nq) = i \<and> Lang nq \<in> {[], ''en''} \<and> Predicate nq = k then [nq] else [])"
  by (simp add: relevant_def)

lemma field_of_other:
  "\<not> (F (Subject nq) = i \<and> Lang nq \<in> {[], ''en''} \<and> Predicate nq = k) \<Longrightarrow>
   field_of F date p e i (nqs @ [nq]) k = field_of F date p e i nqs k"
proof -
  assume "\<not> (F (Subject nq) = i \<and> Lang nq \<in> {[], ''en''} \<and> Predicate nq = k)"
  then have "relevant F i k (nqs @ [nq]) = relevant F i k nqs" unfolding relevant_snoc by (simp only: if_False append_Nil2)
  then show ?thesis by (simp add: field_of_def)
qed

lemma add_field_of:
  assumes "add_field F date p e nq (field_of F date p e i nqs) = Some d" and "F (Subject nq) = i"
    and "Lang nq \<in> {[], ''en''}" and "''id'' \<notin> set p \<union> set e"
  shows "d = field_of F date p e i (nqs @ [nq])"
proof
  fix k
  show "d k = field_of F date p e i (nqs @ [nq]) k"
  proof (cases "Predicate nq = k")
    case True
    with assms show ?thesis
      by (auto simp: add_field_def field_of_def relevant_snoc Let_def split: if_splits)
  next
    case False
    with assms(1) have "d k = field_of F date p e i nqs k"
      by (auto simp: add_field_def Let_def split: if_splits)
    with False show ?thesis by (simp add: field_of_other)
  qed
qed

lemma orient_loop_fields:
  assumes "err_fold (orient_nquad F date p e) nqs (ds0, n) = Inr (ds, n')" and "''id'' \<notin> set p \<union> set e"
    and "\<forall>i \<in> dom ds0. ds0 i = Some [''id'' \<mapsto> DNum i]"
  shows "ds = (\<lambda>i. if i \<in> dom ds0 then Some (field_of F date p e i nqs) else None)"
  using assms(1)
proof (induction nqs arbitrary: ds n' rule: rev_induct)
  case Nil
  have "ds0 i = (if i \<in> dom ds0 then Some (field_of F date p e i []) else None)" for i
    using bspec [OF assms(3), of i] unfolding field_of_Nil by (cases "i \<in> dom ds0") auto
  then have "ds0 = (\<lambda>i. if i \<in> dom ds0 then Some (field_of F date p e i []) else None)" by (rule ext)
  moreover have "ds = ds0" using Nil by simp
  ultimately show ?case by simp
next
  case (snoc nq nqs)
  then obtain ds1 n1 where one: "err_fold (orient_nquad F date p e) nqs (ds0, n) = Inr (ds1, n1)"
    "orient_nquad F date p e nq (ds1, n1) = Inr (ds, n')"
    by (auto simp: err_fold_append err_bind_eq_Inr)
  from snoc.IH [OF one(1)] have ds1: "ds1 = (\<lambda>i. if i \<in> dom ds0 then Some (field_of F date p e i nqs) else None)" .
  let ?i = "F (Subject nq)"
  show ?case
  proof (cases "?i \<in> dom ds0 \<and> Lang nq \<in> {[], ''en''}")
    case True
    with one(2) ds1 obtain d where "add_field F date p e nq (field_of F date p e ?i nqs) = Some d" "ds = ds1(?i \<mapsto> d)"
      by (auto simp: orient_nquad_def Let_def split: option.splits if_splits)
    with add_field_of [OF this(1) refl] True assms(2) have "ds = ds1(?i \<mapsto> field_of F date p e ?i (nqs @ [nq]))" by simp
    moreover have "field_of F date p e i (nqs @ [nq]) = field_of F date p e i nqs" if "i \<noteq> ?i" for i
      using that by (intro ext field_of_other) auto
    ultimately show ?thesis using True ds1 by (auto simp: fun_eq_iff)
  next
    case False
    with one(2) ds1 have "ds = ds1"
      by (auto simp: orient_nquad_def Let_def split: option.splits if_splits)
    moreover have "field_of F date p e i (nqs @ [nq]) = field_of F date p e i nqs" if "i \<in> dom ds0" for i
      using that False by (intro ext field_of_other) auto
    ultimately show ?thesis using ds1 by (auto simp: fun_eq_iff)
  qed
qed

lemma orient_chunks_fold:
  "list_all (\<lambda>c. \<not> snd c) chunks \<Longrightarrow>
   orient_chunks step chunks False st = err_fold step (concat (map fst chunks)) st"
proof (induction chunks arbitrary: st)
  case (Cons c chunks)
  then show ?case
    by (cases c; cases "err_fold step (fst c) st") (simp_all add: err_fold_append)
qed simp

lemma read_ids_docs: "\<forall>i \<in> dom (read_ids F r). read_ids F r i = Some [''id'' \<mapsto> DNum i]"
proof -
  have "\<forall>i \<in> dom ds. ds i = Some [''id'' \<mapsto> DNum i] \<Longrightarrow>
      \<forall>i \<in> dom (fold (add_id F) ls ds). fold (add_id F) ls ds i = Some [''id'' \<mapsto> DNum i]" for ls ds
    by (induction ls arbitrary: ds) (simp_all add: add_id_def Let_def)
  from this [of Map.empty] show ?thesis by (simp add: read_ids_def)
qed

text \<open>
  The contents of the documents: if no parse ends early, each document has the last value in English or
  without a language of each property, and for each edge the fingerprints of all its objects, in
  the order of the dump.
\<close>

theorem orient_main_fields:
  assumes "orient_main F date (Some r) properties edges chunks False order = Inr (out, cnt)"
    and "''id'' \<notin> set (Split (CHR '','') properties) \<union> set (Split (CHR '','') edges)"
    and "set order \<subseteq> dom (read_ids F r)" and "list_all (\<lambda>c. \<not> snd c) chunks"
  shows "out = map (\<lambda>i. field_of F date (Split (CHR '','') properties) (Split (CHR '','') edges) i
                        (concat (map fst chunks))) order"
proof -
  let ?p = "Split (CHR '','') properties" and ?e = "Split (CHR '','') edges"
  from assms(1) obtain ds where
    "err_fold (orient_nquad F date ?p ?e) (concat (map fst chunks)) (read_ids F r, 0) = Inr (ds, cnt)"
    and out: "out = map (\<lambda>i. the (ds i)) order"
    by (auto simp: orient_main_def err_bind_eq_Inr Let_def orient_chunks_fold [OF assms(4)])
  from orient_loop_fields [OF this(1) assms(2) read_ids_docs] assms(3) show ?thesis
    by (auto simp: out)
qed

theorem orient_main_fields_witness:
  "[[''id'' \<mapsto> DNum 1, ''genre'' \<mapsto> DList [3, 2]], [''id'' \<mapsto> DNum 2, ''name'' \<mapsto> DStr ''y'']]
     = map (\<lambda>i. field_of demo_fp Some [''name''] [''genre''] i (concat (map fst demo_chunks))) [1, 2]"
  using orient_main_fields [OF orient_demo] unfolding Split_demo read_demo_ids
  by (simp add: demo_chunks_def)

end
