(* ===== verification/IndexTests.thy ===== *)
theory IndexTests
  imports GoLines
begin

text \<open>
  indextest: two programs that read the same RDF file into memory, \<open>forward\<close> as a graph with edges
  from subjects to objects and \<open>backward\<close> as the inverse graph, and run queries on it. The
  fingerprint of go-farm and the Unicode normalization of golang.org/x/text are parameters, and
  the error of the scanner is never looked at. A failed assertion ends the program.
\<close>

section \<open>Lines\<close>

definition assert :: "bool \<Rightarrow> unit go" where
  "assert b = (if b then Ret () else Panic AssertFailed)"

definition bracketed :: "string \<Rightarrow> bool" where
  "bracketed s \<longleftrightarrow> HasPrefix s ''<'' \<and> HasSuffix s ''>''"

definition removeFirstLast :: "string \<Rightarrow> string go" where
  "removeFirstLast s = go_slice s 1 (int (length s) - 1)"

definition LastIndex :: "string \<Rightarrow> char \<Rightarrow> int" where
  "LastIndex s c = (if c \<in> set s then int (length s) - 1 - int (length (takeWhile (\<lambda>x. x \<noteq> c) (rev s))) else - 1)"

text \<open>A graph: for each predicate the lists of neighbours of the uids.\<close>

type_synonym uid_graph = "string \<Rightarrow> (u64 \<Rightarrow> u64 list option) option"

definition neighbours :: "uid_graph \<Rightarrow> string \<Rightarrow> u64 \<Rightarrow> u64 list" where
  "neighbours g pred u = (case g pred of None \<Rightarrow> [] | Some m \<Rightarrow> (case m u of None \<Rightarrow> [] | Some us \<Rightarrow> us))"

definition add_edge :: "string \<Rightarrow> u64 \<Rightarrow> u64 \<Rightarrow> uid_graph \<Rightarrow> uid_graph" where
  "add_edge pred u v g =
     (let m = (case g pred of None \<Rightarrow> Map.empty | Some m \<Rightarrow> m);
          us = (case m u of None \<Rightarrow> [] | Some us \<Rightarrow> us)
      in g(pred \<mapsto> m(u \<mapsto> us @ [v])))"

text \<open>The checks on a line and its parts: the subject's uid, the predicate and the value.\<close>

definition line_parts :: "(string \<Rightarrow> u64) \<Rightarrow> string \<Rightarrow> (u64 \<times> string \<times> string) go" where
  "line_parts Fingerprint64 line =
     (let tokens = Split (CHR 0x09) line
      in go_bind (assert (length tokens = 4)) (\<lambda>_.
         go_bind (assert (bracketed (tokens ! 0))) (\<lambda>_.
         go_bind (removeFirstLast (tokens ! 0)) (\<lambda>src.
         go_bind (assert (bracketed (tokens ! 1))) (\<lambda>_.
         go_bind (removeFirstLast (tokens ! 1)) (\<lambda>pred.
           Ret (Fingerprint64 src, pred, tokens ! 2)))))))"

section \<open>The forward graph\<close>

record forward_state =
  f_numLines :: nat
  f_numValues :: nat
  f_numNames :: nat
  f_numReleaseDates :: nat
  f_graph :: uid_graph
  gNames :: "u64 \<Rightarrow> string option"
  gReleaseDates :: "u64 \<Rightarrow> string option"

definition forward_start :: forward_state where
  "forward_start = \<lparr>f_numLines = 0, f_numValues = 0, f_numNames = 0, f_numReleaseDates = 0, f_graph = Map.empty,
     gNames = Map.empty, gReleaseDates = Map.empty\<rparr>"

definition forward_value :: "u64 \<Rightarrow> string \<Rightarrow> string \<Rightarrow> forward_state \<Rightarrow> forward_state go" where
  "forward_value srcUID pred value st =
     (let st = st\<lparr>f_numValues := f_numValues st + 1\<rparr>; pos = LastIndex value CHR ''@''
      in go_bind (if 0 \<le> pos then
                    go_bind (go_slice value (pos + 1) (int (length value))) (\<lambda>lang.
                    go_bind (go_slice value 0 pos) (\<lambda>v.
                    go_bind (removeFirstLast v) (\<lambda>v. Ret (pred @ ''.'' @ lang, v))))
                  else Ret (pred, value))
           (\<lambda>(pred, value). Ret
             (if pred = ''type.object.name.en'' then
                st\<lparr>f_numNames := f_numNames st + 1, gNames := (gNames st)(srcUID \<mapsto> value)\<rparr>
              else if pred = ''film.film.initial_release_date'' then
                st\<lparr>f_numReleaseDates := f_numReleaseDates st + 1, gReleaseDates := (gReleaseDates st)(srcUID \<mapsto> value)\<rparr>
              else st)))"

definition forward_line :: "(string \<Rightarrow> u64) \<Rightarrow> string \<Rightarrow> forward_state \<Rightarrow> forward_state go" where
  "forward_line Fingerprint64 line st =
     (let st = st\<lparr>f_numLines := f_numLines st + 1\<rparr>
      in go_bind (line_parts Fingerprint64 line) (\<lambda>(srcUID, pred, value).
           if bracketed value then
             go_bind (removeFirstLast value) (\<lambda>value.
               Ret (st\<lparr>f_graph := add_edge pred srcUID (Fingerprint64 value) (f_graph st)\<rparr>))
           else forward_value srcUID pred value st))"

definition forward_load :: "(string \<Rightarrow> u64) \<Rightarrow> reader \<Rightarrow> forward_state go" where
  "forward_load Fingerprint64 r =
     go_fold (forward_line Fingerprint64) (fst (Scan MaxScanTokenSize r)) forward_start"

text \<open>\<open>expand\<close>; the loop over the graph finds at most one entry for the predicate.\<close>

definition forward_expand :: "forward_state \<Rightarrow> u64 list \<Rightarrow> string \<Rightarrow> u64 list" where
  "forward_expand st uids pred =
     (case f_graph st pred of
        None \<Rightarrow> []
      | Some m \<Rightarrow> fold (\<lambda>u out. case m u of None \<Rightarrow> out | Some dst \<Rightarrow> out @ dst) uids [])"

text \<open>The words of a normalized name; an error of the normalization is fatal.\<close>

definition name_has :: "(string \<Rightarrow> string option) \<Rightarrow> string list \<Rightarrow> string \<Rightarrow> bool option" where
  "name_has norm_text ws name =
     map_option (\<lambda>n. list_ex (\<lambda>t. t \<in> set ws) (Split (CHR '' '') n)) (norm_text name)"

definition count_names :: "(string \<Rightarrow> string option) \<Rightarrow> string list \<Rightarrow> string list \<Rightarrow> nat go" where
  "count_names norm_text ws names =
     go_fold (\<lambda>name n. case name_has norm_text ws name of
         None \<Rightarrow> Panic AssertFailed
       | Some b \<Rightarrow> Ret (if b then n + 1 else n)) names 0"

definition spielberg :: u64 where
  "spielberg = 15161013152876854722"

definition films_of_director :: "forward_state \<Rightarrow> u64 list" where
  "films_of_director st =
     (let r = forward_expand st [spielberg] ''film.director.film'';
          r = forward_expand st r ''film.film.directed_by''
      in forward_expand st r ''film.director.film'')"

definition doFilterString :: "(string \<Rightarrow> string option) \<Rightarrow> forward_state \<Rightarrow> (nat \<times> nat) go" where
  "doFilterString norm_text st =
     (let r = films_of_director st
      in go_bind (count_names norm_text [''the'', ''a''] (List.map_filter (gNames st) r)) (\<lambda>hits. Ret (length r, hits)))"

definition doSortRelease :: "forward_state \<Rightarrow> nat \<times> nat" where
  "doSortRelease st =
     (let r = films_of_director st in (length r, length (filter (\<lambda>u. gReleaseDates st u \<noteq> None) r)))"

text \<open>\<open>doGen\<close> over the names in the order \<open>order\<close> of the map, and the program.\<close>

definition doGen :: "(string \<Rightarrow> string option) \<Rightarrow> u64 list \<Rightarrow> forward_state \<Rightarrow> nat go" where
  "doGen norm_text order st = count_names norm_text [''good'', ''bad''] (List.map_filter (gNames st) order)"

definition forward_main ::
  "(string \<Rightarrow> u64) \<Rightarrow> (string \<Rightarrow> string option) \<Rightarrow> u64 list \<Rightarrow> reader option \<Rightarrow> (forward_state \<times> nat) go" where
  "forward_main Fingerprint64 norm_text order file =
     (case file of
        None \<Rightarrow> Panic AssertFailed
      | Some r \<Rightarrow>
          go_bind (forward_load Fingerprint64 r) (\<lambda>st.
          go_bind (assert (0 < f_numLines st)) (\<lambda>_.
          go_bind (assert (f_graph st \<noteq> Map.empty)) (\<lambda>_.
          go_bind (assert (0 < f_numValues st)) (\<lambda>_.
          go_bind (assert (0 < f_numNames st)) (\<lambda>_.
          go_bind (assert (0 < f_numReleaseDates st)) (\<lambda>_.
          go_bind (doGen norm_text order st) (\<lambda>hits. Ret (st, hits)))))))))"

section \<open>The inverse graph\<close>

record backward_state =
  b_numLines :: nat
  b_numValues :: nat
  b_numNames :: nat
  b_numReleaseDates :: nat
  invGraph :: uid_graph
  goodUIDs :: "u64 list"

definition backward_start :: backward_state where
  "backward_start = \<lparr>b_numLines = 0, b_numValues = 0, b_numNames = 0, b_numReleaseDates = 0, invGraph = Map.empty,
     goodUIDs = []\<rparr>"

definition backward_value :: "u64 \<Rightarrow> string \<Rightarrow> string \<Rightarrow> backward_state \<Rightarrow> backward_state go" where
  "backward_value srcUID pred value st =
     (let st = st\<lparr>b_numValues := b_numValues st + 1\<rparr>
      in go_bind (removeFirstLast value) (\<lambda>value. Ret
           (if pred = ''type.object.name'' then
              let st = st\<lparr>b_numNames := b_numNames st + 1\<rparr>;
                  vTokens = Split (CHR '' '') (ToLower value)
              in if list_ex (\<lambda>t. t = ''the'') vTokens then st\<lparr>goodUIDs := goodUIDs st @ [srcUID]\<rparr> else st
            else if pred = ''film.film.initial_release_date'' then
              st\<lparr>b_numReleaseDates := b_numReleaseDates st + 1\<rparr>
            else st)))"

definition backward_line :: "(string \<Rightarrow> u64) \<Rightarrow> string \<Rightarrow> backward_state \<Rightarrow> backward_state go" where
  "backward_line Fingerprint64 line st =
     (let st = st\<lparr>b_numLines := b_numLines st + 1\<rparr>
      in go_bind (line_parts Fingerprint64 line) (\<lambda>(srcUID, pred, value).
           if bracketed value then
             go_bind (removeFirstLast value) (\<lambda>value.
               Ret (st\<lparr>invGraph := add_edge pred (Fingerprint64 value) srcUID (invGraph st)\<rparr>))
           else backward_value srcUID pred value st))"

definition backward_load :: "(string \<Rightarrow> u64) \<Rightarrow> reader \<Rightarrow> backward_state go" where
  "backward_load Fingerprint64 r =
     go_fold (backward_line Fingerprint64) (fst (Scan MaxScanTokenSize r)) backward_start"

text \<open>
  \<open>expand\<close> for one predicate: the entries of the uids that are there. A map of this program is the
  list of its entries, each key once.
\<close>

definition backward_expand :: "backward_state \<Rightarrow> u64 list \<Rightarrow> string \<Rightarrow> (u64 \<times> u64 list) list" where
  "backward_expand st uids pred =
     (case invGraph st pred of
        None \<Rightarrow> []
      | Some m \<Rightarrow> map (\<lambda>u. (u, the (m u))) (remdups (filter (\<lambda>u. m u \<noteq> None) uids)))"

text \<open>
  \<open>uniqueUIDs\<close>: the counts of all values of a map, and the pairs in the order in which Go iterates
  over the map of counts, which \<open>order\<close> makes of the uids.
\<close>

definition uid_counts :: "(u64 \<times> u64 list) list \<Rightarrow> u64 \<Rightarrow> nat option" where
  "uid_counts m =
     fold (\<lambda>(k, v) uniq. fold (\<lambda>u uniq. uniq(u \<mapsto> (case uniq u of None \<Rightarrow> 0 | Some n \<Rightarrow> n) + 1)) v uniq)
       m Map.empty"

definition uniqueUIDs :: "(u64 list \<Rightarrow> u64 list) \<Rightarrow> (u64 \<times> u64 list) list \<Rightarrow> (u64 \<times> nat) list" where
  "uniqueUIDs order m = map (\<lambda>u. (u, the (uid_counts m u))) (order (remdups (concat (map snd m))))"

text \<open>The director with the most films: the first of the largest counts.\<close>

definition max_director :: "(u64 \<times> nat) list \<Rightarrow> u64 \<times> nat" where
  "max_director ucs = fold (\<lambda>(u, c) (mu, mc). if mc < c then (u, c) else (mu, mc)) ucs (0, 0)"

text \<open>
  \<open>doGood\<close>: three steps along the inverse graph, each of which must reach more than 100 uids.
\<close>

definition doGood :: "(u64 list \<Rightarrow> u64 list) \<Rightarrow> backward_state \<Rightarrow> (u64 \<times> nat) go" where
  "doGood order st =
     (let directorEdges = backward_expand st (goodUIDs st) ''film.director.film''
      in go_bind (assert (100 < length directorEdges)) (\<lambda>_.
         let directorUIDs = map fst (uniqueUIDs order directorEdges);
             filmEdges = backward_expand st directorUIDs ''film.film.directed_by''
         in go_bind (assert (100 < length filmEdges)) (\<lambda>_.
            let filmUIDs = map fst (uniqueUIDs order filmEdges);
                directorEdges = backward_expand st filmUIDs ''film.director.film''
            in go_bind (assert (100 < length directorEdges)) (\<lambda>_.
                 Ret (max_director (uniqueUIDs order directorEdges))))))"

definition backward_main :: "(string \<Rightarrow> u64) \<Rightarrow> (u64 list \<Rightarrow> u64 list) \<Rightarrow> reader option \<Rightarrow> (backward_state \<times> u64 \<times> nat) go" where
  "backward_main Fingerprint64 order file =
     (case file of
        None \<Rightarrow> Panic AssertFailed
      | Some r \<Rightarrow>
          go_bind (backward_load Fingerprint64 r) (\<lambda>st.
          go_bind (assert (0 < b_numLines st)) (\<lambda>_.
          go_bind (assert (invGraph st \<noteq> Map.empty)) (\<lambda>_.
          go_bind (assert (0 < b_numValues st)) (\<lambda>_.
          go_bind (assert (0 < b_numNames st)) (\<lambda>_.
          go_bind (assert (0 < b_numReleaseDates st)) (\<lambda>_.
          go_bind (assert (0 < length (goodUIDs st))) (\<lambda>_.
          go_bind (doGood order st) (\<lambda>res. Ret (st, res))))))))))"

end
