(* ===== verification/IndexTestsProps.thy ===== *)
theory IndexTestsProps
  imports IndexTests
begin

text \<open>
  The graphs of the two index tests are inverse to each other, and the director that \<open>backward\<close>
  reports is one with the most films.
\<close>

section \<open>The two graphs\<close>

lemma neighbours_add_edge:
  "neighbours (add_edge pred u v g) pred' u' = neighbours g pred' u' @ (if pred' = pred \<and> u' = u then [v] else [])"
  by (auto simp: neighbours_def add_edge_def Let_def split: option.splits)

text \<open>The relation between the states after the same lines.\<close>

definition inverse_states :: "forward_state \<Rightarrow> backward_state \<Rightarrow> bool" where
  "inverse_states st st' \<longleftrightarrow>
     f_numLines st = b_numLines st' \<and> f_numValues st = b_numValues st' \<and>
     (\<forall>pred u v. count_list (neighbours (f_graph st) pred u) v = count_list (neighbours (invGraph st') pred v) u)"

lemma forward_value_frame:
  "forward_value s pr val st = Ret st1 \<Longrightarrow>
   f_graph st1 = f_graph st \<and> f_numLines st1 = f_numLines st \<and> f_numValues st1 = f_numValues st + 1"
  by (auto simp: forward_value_def go_simps Let_def split: if_splits)

lemma backward_value_frame:
  "backward_value s pr val st = Ret st1 \<Longrightarrow>
   invGraph st1 = invGraph st \<and> b_numLines st1 = b_numLines st \<and> b_numValues st1 = b_numValues st + 1"
  by (auto simp: backward_value_def go_simps Let_def split: if_splits)

lemma inverse_step:
  assumes "forward_line F l st = Ret st1" and "backward_line F l st' = Ret st1'" and "inverse_states st st'"
  shows "inverse_states st1 st1'"
proof -
  from assms(1) obtain s pr val where parts: "line_parts F l = Ret (s, pr, val)"
    by (auto simp: forward_line_def go_simps Let_def)
  show ?thesis
  proof (cases "bracketed val")
    case True
    with assms parts show ?thesis
      by (auto simp: forward_line_def backward_line_def go_simps Let_def inverse_states_def neighbours_add_edge)
  next
    case False
    with assms(1,2) parts obtain fs bs where
      "forward_value s pr val (st\<lparr>f_numLines := f_numLines st + 1\<rparr>) = Ret st1"
      "backward_value s pr val (st'\<lparr>b_numLines := b_numLines st' + 1\<rparr>) = Ret st1'"
      by (simp add: forward_line_def backward_line_def Let_def)
    from forward_value_frame [OF this(1)] backward_value_frame [OF this(2)] assms(3)
    show ?thesis by (simp add: inverse_states_def)
  qed
qed

lemma inverse_fold:
  "\<lbrakk> go_fold (forward_line F) ls st = Ret st1; go_fold (backward_line F) ls st' = Ret st1'; inverse_states st st' \<rbrakk> \<Longrightarrow>
   inverse_states st1 st1'"
proof (induction ls arbitrary: st st')
  case (Cons l ls)
  from Cons.prems(1,2) obtain st2 st2' where
    "forward_line F l st = Ret st2" "go_fold (forward_line F) ls st2 = Ret st1"
    "backward_line F l st' = Ret st2'" "go_fold (backward_line F) ls st2' = Ret st1'"
    by (auto simp: go_simps)
  with Cons.IH inverse_step Cons.prems(3) show ?case by blast
qed simp

text \<open>
  C29: the two programs load inverse graphs: on a file that both accept, an edge from \<open>u\<close> to \<open>v\<close> occurs in
  the graph of \<open>forward\<close> as often as the edge from \<open>v\<close> to \<open>u\<close> in that of \<open>backward\<close>, and both count the
  same lines and values.
\<close>

theorem loads_are_inverse:
  assumes "forward_load F r = Ret st" and "backward_load F r = Ret st'"
  shows "count_list (neighbours (f_graph st) pred u) v = count_list (neighbours (invGraph st') pred v) u
    \<and> f_numLines st = b_numLines st' \<and> f_numValues st = b_numValues st'"
proof -
  have "inverse_states forward_start backward_start"
    by (simp add: inverse_states_def forward_start_def backward_start_def neighbours_def)
  with assms inverse_fold show ?thesis
    unfolding forward_load_def backward_load_def inverse_states_def by blast
qed

definition demo_line :: string where
  "demo_line = str_join [CHR 0x09] [''<a>'', ''<p>'', ''<bb>'', ''.'']"

definition demo_len :: "string \<Rightarrow> u64" where
  "demo_len s = of_nat (length s)"

lemma scan_demo: "fst (Scan MaxScanTokenSize (text_of [demo_line], False)) = [demo_line]"
proof -
  have "plain_line MaxScanTokenSize demo_line" by (simp add: demo_line_def plain_line_def MaxScanTokenSize_def)
  then show ?thesis
    using scan_lines_unlines [of "[demo_line]" MaxScanTokenSize] by (simp add: Scan_def text_of_def split: prod.splits)
qed

lemma demo_parts: "line_parts demo_len demo_line = Ret (1, ''p'', ''<bb>'')"
proof -
  have "Split (CHR 0x09) demo_line = [''<a>'', ''<p>'', ''<bb>'', ''.'']"
    unfolding demo_line_def by (rule Split_join) auto
  moreover have "removeFirstLast ''<a>'' = Ret ''a''" "removeFirstLast ''<p>'' = Ret ''p''"
    "bracketed ''<a>''" "bracketed ''<p>''"
    by code_simp+
  ultimately show ?thesis by (simp add: line_parts_def assert_def demo_len_def)
qed

theorem loads_are_inverse_witness:
  "\<exists>st st'. forward_load demo_len (text_of [demo_line], False) = Ret st
     \<and> backward_load demo_len (text_of [demo_line], False) = Ret st'
     \<and> count_list (neighbours (f_graph st) ''p'' 1) 2 = 1 \<and> count_list (neighbours (invGraph st') ''p'' 2) 1 = 1"
proof -
  let ?r = "(text_of [demo_line], False)"
  have b: "bracketed ''<bb>''" "removeFirstLast ''<bb>'' = Ret ''bb''" by code_simp+
  let ?st = "forward_start\<lparr>f_numLines := 1, f_graph := add_edge ''p'' 1 2 Map.empty\<rparr>"
  let ?st' = "backward_start\<lparr>b_numLines := 1, invGraph := add_edge ''p'' 2 1 Map.empty\<rparr>"
  have f: "forward_load demo_len ?r = Ret ?st"
    unfolding forward_load_def scan_demo by (simp add: forward_line_def demo_parts b demo_len_def forward_start_def)
  moreover have "backward_load demo_len ?r = Ret ?st'"
    unfolding backward_load_def scan_demo by (simp add: backward_line_def demo_parts b demo_len_def backward_start_def)
  moreover have "count_list (neighbours (f_graph ?st) ''p'' 1) 2 = 1"
    by (simp add: neighbours_add_edge) (simp add: neighbours_def)
  ultimately show ?thesis using loads_are_inverse [OF f, of _ "''p''" 1 2] by fastforce
qed

section \<open>Counting\<close>

lemma uid_counts_eq:
  "uid_counts m u =
     (if u \<in> set (concat (map snd m)) then Some (count_list (concat (map snd m)) u) else None)"
proof -
  let ?count = "\<lambda>vs u. if u \<in> set vs then Some (count_list vs u) else None"
  have inner: "fold (\<lambda>u uniq. uniq(u \<mapsto> (case uniq u of None \<Rightarrow> 0 | Some n \<Rightarrow> n) + 1)) v (?count vs) = ?count (vs @ v)"
    for v vs :: "u64 list"
  proof (induction v arbitrary: vs)
    case (Cons x v)
    have "(?count vs)(x \<mapsto> (case ?count vs x of None \<Rightarrow> 0 | Some n \<Rightarrow> n) + 1) = ?count (vs @ [x])"
      by (auto simp: fun_eq_iff count_notin)
    with Cons [of "vs @ [x]"] show ?case by (simp only: fold.simps comp_apply append_assoc append_Cons append_Nil)
  qed (simp only: fold.simps id_apply append_Nil2)
  have "fold (\<lambda>(k, v) uniq. fold (\<lambda>u uniq. uniq(u \<mapsto> (case uniq u of None \<Rightarrow> 0 | Some n \<Rightarrow> n) + 1)) v uniq) m (?count vs)
      = ?count (vs @ concat (map snd m))" for vs
  proof (induction m arbitrary: vs)
    case Nil
    show ?case by (simp only: fold.simps id_apply list.map concat.simps append_Nil2)
  next
    case (Cons kv m)
    obtain k v where "kv = (k, v)" by (cases kv)
    with Cons [of "vs @ v"] show ?case
      by (simp only: fold.simps comp_apply case_prod_conv inner list.map concat.simps snd_conv append_assoc)
  qed
  from this [of "[]"] show ?thesis by (simp add: uid_counts_def fun_eq_iff)
qed

lemma max_director_le:
  "(u, c) \<in> set ucs \<Longrightarrow> c \<le> snd (max_director ucs)"
  "max_director ucs = (0, 0) \<or> max_director ucs \<in> set ucs"
proof -
  let ?f = "\<lambda>(u, c) (mu, mc). if mc < c then (u, c) else (mu, mc)"
  have "snd p \<le> snd (fold ?f ucs p) \<and> (\<forall>(u, c) \<in> set ucs. c \<le> snd (fold ?f ucs p))
      \<and> (fold ?f ucs p = p \<or> fold ?f ucs p \<in> set ucs)" for p :: "u64 \<times> nat"
  proof (induction ucs arbitrary: p)
    case (Cons uc ucs)
    from Cons [of "?f uc p"] show ?case by (cases uc; cases p) (auto split: if_splits)
  qed simp
  from this [of "(0, 0)"] show "(u, c) \<in> set ucs \<Longrightarrow> c \<le> snd (max_director ucs)"
    "max_director ucs = (0, 0) \<or> max_director ucs \<in> set ucs"
    unfolding max_director_def by auto
qed

text \<open>The edges of the last of the three steps.\<close>

definition good_edges :: "(u64 list \<Rightarrow> u64 list) \<Rightarrow> backward_state \<Rightarrow> (u64 \<times> u64 list) list" where
  "good_edges order st =
     (let step = \<lambda>uids pred. map fst (uniqueUIDs order (backward_expand st uids pred))
      in backward_expand st (step (step (goodUIDs st) ''film.director.film'') ''film.film.directed_by'') ''film.director.film'')"

text \<open>
  The director that \<open>backward\<close> reports has the most edges among all that the last step reaches, and the
  count reported is the number of its edges, in whatever order Go iterates over the counts.
\<close>

theorem doGood_maximal:
  assumes "doGood order st = Ret (u, c)" and "\<forall>us. set (order us) = set us"
  shows "count_list (concat (map snd (good_edges order st))) u' \<le> c
    \<and> (c = 0 \<or> c = count_list (concat (map snd (good_edges order st))) u)"
proof -
  let ?e = "good_edges order st" and ?n = "count_list (concat (map snd (good_edges order st)))"
  have ucs: "uniqueUIDs order ?e = map (\<lambda>u. (u, ?n u)) (order (remdups (concat (map snd ?e))))"
    unfolding uniqueUIDs_def using assms(2) by (auto simp: uid_counts_eq simp del: set_concat)
  have r: "max_director (uniqueUIDs order ?e) = (u, c)"
    using assms(1) by (auto simp: doGood_def good_edges_def go_simps Let_def)
  have "?n u' \<le> c"
  proof (cases "u' \<in> set (concat (map snd ?e))")
    case True
    then have "(u', ?n u') \<in> set (uniqueUIDs order ?e)" unfolding ucs using assms(2) by (auto simp del: set_concat)
    from max_director_le(1) [OF this] r show ?thesis by simp
  qed (simp add: count_notin)
  moreover have "c = 0 \<or> c = ?n u"
    using max_director_le(2) [of "uniqueUIDs order ?e"] r unfolding ucs by auto
  ultimately show ?thesis by simp
qed

text \<open>A state in which each step leads from the uids 1 to 101 to themselves.\<close>

definition demo_uids :: "u64 list" where
  "demo_uids = map of_nat [1..<102]"

definition demo_good :: backward_state where
  "demo_good = backward_start\<lparr>goodUIDs := demo_uids,
     invGraph := (\<lambda>_. Some (\<lambda>u. if u \<in> set demo_uids then Some [u] else None))\<rparr>"

lemma distinct_demo: "distinct demo_uids" "length demo_uids = 101"
  by (auto simp: demo_uids_def distinct_map inj_on_def word_of_nat_eq_iff take_bit_nat_eq_self simp del: upt_rec_numeral)

lemma demo_expand:
  "backward_expand demo_good demo_uids pred = map (\<lambda>u. (u, [u])) demo_uids"
  by (simp add: backward_expand_def demo_good_def distinct_demo distinct_remdups_id cong: filter_cong)

lemma count_list_distinct: "distinct us \<Longrightarrow> u \<in> set us \<Longrightarrow> count_list us u = 1"
  by (induction us) (auto simp: count_notin)

lemma demo_unique: "uniqueUIDs (\<lambda>us. us) (map (\<lambda>u. (u, [u])) demo_uids) = map (\<lambda>u. (u, 1)) demo_uids"
proof -
  have "concat (map snd (map (\<lambda>u. (u, [u])) demo_uids)) = demo_uids" by (simp add: comp_def)
  moreover have "count_list demo_uids u = 1" if "u \<in> set demo_uids" for u
    using distinct_demo(1) that by (rule count_list_distinct)
  ultimately show ?thesis unfolding uniqueUIDs_def uid_counts_eq by (simp add: distinct_demo distinct_remdups_id)
qed

lemma demo_max: "max_director (map (\<lambda>u. (u, 1)) demo_uids) = (1, 1)"
proof -
  have skip: "fold (\<lambda>(u, c) (mu, mc). if mc < c then (u, c) else (mu, mc)) (map (\<lambda>u. (u, 1)) us) (1, 1) = (1, 1 :: nat)"
    for us :: "u64 list" by (induction us) simp_all
  obtain us where us: "demo_uids = 1 # us" by (simp add: demo_uids_def upt_conv_Cons)
  show ?thesis unfolding max_director_def us using skip [of us] by simp
qed

lemma doGood_demo: "doGood (\<lambda>us. us) demo_good = Ret (1, 1)"
proof -
  have "goodUIDs demo_good = demo_uids" by (simp add: demo_good_def)
  moreover have "map fst (map (\<lambda>u. (u, 1 :: nat)) demo_uids) = demo_uids" by (simp add: comp_def)
  ultimately show ?thesis
    by (simp only: doGood_def Let_def demo_expand demo_unique demo_max length_map distinct_demo)
      (simp add: assert_def)
qed

theorem doGood_maximal_witness:
  "count_list (concat (map snd (good_edges (\<lambda>us. us) demo_good))) 5 \<le> 1
    \<and> (1 = (0 :: nat) \<or> 1 = count_list (concat (map snd (good_edges (\<lambda>us. us) demo_good))) 1)"
  using doGood_maximal [OF doGood_demo, of 5] by simp

end
