(* ===== verification/Batches.thy ===== *)
theory Batches
  imports GoLines NQuads
begin

text \<open>
  Two loaders that send RDF lines in batches: scripts/mutations over HTTP and data/neo4j over bolt.
  What their reading functions deliver, the RDF parser, the conversion of dates and the servers are
  parameters.
\<close>

section \<open>Groups of a list\<close>

text \<open>The list cut into groups of \<open>n\<close>, of which the last may be shorter; \<open>n\<close> is not 0.\<close>

function groups :: "nat \<Rightarrow> 'a list \<Rightarrow> 'a list list" where
  "groups n xs =
     (if xs = [] then [] else if n = 0 then [xs] else take n xs # groups n (drop n xs))"
  by pat_completeness auto
termination
  by (relation "measure (\<lambda>(n, xs). length xs)") auto

declare groups.simps [simp del]

lemma groups_Nil [simp]: "groups n [] = []"
  by (simp add: groups.simps)

lemma groups_short: "\<lbrakk> xs \<noteq> []; length xs \<le> n \<rbrakk> \<Longrightarrow> groups n xs = [xs]"
  by (cases "n = 0") (simp_all add: groups.simps [of n xs])

lemma groups_append: "0 < n \<Longrightarrow> length xs = n \<Longrightarrow> groups n (xs @ ys) = xs # groups n ys"
  by (subst groups.simps) auto

lemma concat_groups: "concat (groups n xs) = xs"
  by (induction n xs rule: groups.induct) (subst groups.simps, auto)

lemma groups_bounds: "0 < n \<Longrightarrow> g \<in> set (groups n xs) \<Longrightarrow> 0 < length g \<and> length g \<le> n"
proof (induction n xs rule: groups.induct)
  case (1 n xs)
  show ?case
  proof (cases "xs = []")
    case False
    with "1.prems" have "g = take n xs \<or> g \<in> set (groups n (drop n xs))" by (simp add: groups.simps [of n xs])
    with "1.IH" "1.prems"(1) False show ?thesis by auto
  qed (use "1.prems" in simp)
qed

section \<open>Mutations over HTTP\<close>

definition mutation_body :: "string \<Rightarrow> string" where
  "mutation_body rdf = ''mutation { set { '' @ rdf @ '' } }''"

text \<open>
  A request is sent again until there is an answer, the \<open>k\<close>-th attempt being \<open>Do m k\<close>.
\<close>

partial_function (option) retry :: "(string \<Rightarrow> nat \<Rightarrow> string option) \<Rightarrow> string \<Rightarrow> nat \<Rightarrow> string option" where
  "retry Do m k = (case Do m k of None \<Rightarrow> retry Do m (k + 1) | Some r \<Rightarrow> Some r)"

text \<open>
  What one worker does with the mutations it receives. \<open>Unmarshal\<close> reads an answer into the response
  that is there already, the variable \<open>r\<close> that all workers share; it fails where the answer cannot be
  read. The result is the count of requests and the last response.
\<close>

record response =
  Code :: string
  Message :: string

datatype request_error = BadAnswer | NotOk string string

definition request_step ::
  "(string \<Rightarrow> nat \<Rightarrow> string option) \<Rightarrow> (string \<Rightarrow> response \<Rightarrow> response option) \<Rightarrow> string \<Rightarrow>
     request_error + u64 \<times> response \<Rightarrow> (request_error + u64 \<times> response) go" where
  "request_step Do Unmarshal m st =
     run_bind (Ret st) (\<lambda>(c, r).
       case retry Do (mutation_body m) 0 of
         None \<Rightarrow> Hang
       | Some answer \<Rightarrow>
           (case Unmarshal answer r of
              None \<Rightarrow> Ret (Inl BadAnswer)
            | Some r \<Rightarrow> Ret (if Code r \<noteq> ''ErrorOk'' then Inl (NotOk m (Message r)) else Inr (c + 1, r))))"

definition makeRequest ::
  "(string \<Rightarrow> nat \<Rightarrow> string option) \<Rightarrow> (string \<Rightarrow> response \<Rightarrow> response option) \<Rightarrow> string list \<Rightarrow>
     u64 \<times> response \<Rightarrow> (request_error + u64 \<times> response) go" where
  "makeRequest Do Unmarshal ms st = go_fold (request_step Do Unmarshal) ms (Inr st)"

text \<open>The loop over the lines: the buffer, the count in it, the lines read and what was sent.\<close>

record mutation_state =
  m_buf :: string
  m_num :: int
  rdfCount :: nat
  m_sent :: "string list"

definition mutation_line :: "int \<Rightarrow> string \<Rightarrow> mutation_state \<Rightarrow> mutation_state" where
  "mutation_line numRdf line st =
     (let st = st\<lparr>m_buf := m_buf st @ line @ [CHR 0x0A]\<rparr>;
          st = (if numRdf \<le> m_num st then st\<lparr>m_sent := m_sent st @ [m_buf st], m_buf := [], m_num := 0\<rparr> else st)
      in st\<lparr>rdfCount := rdfCount st + 1, m_num := m_num st + 1\<rparr>)"

text \<open>
  What \<open>readLine\<close> delivers: the lines, what is in the buffer beyond them when the error comes, and
  whether the error is another than the end of the file, which is fatal. The result is what is sent
  and the count of lines.
\<close>

definition mutations_main :: "int \<Rightarrow> string list \<times> string \<times> bool \<Rightarrow> unit + string list \<times> nat" where
  "mutations_main numRdf file =
     (let (ls, rest, failed) = file;
          st = fold (mutation_line numRdf) ls \<lparr>m_buf = [], m_num = 0, rdfCount = 0, m_sent = []\<rparr>;
          buf = m_buf st @ rest
      in if failed then Inl ()
         else Inr (if 0 < length buf then m_sent st @ [buf] else m_sent st, rdfCount st))"

section \<open>Statements over bolt\<close>

text \<open>The value of an N-Quad with the type code of the parser; \<open>date_text\<close> converts a date.\<close>

definition getStrVal :: "(string \<Rightarrow> string option) \<Rightarrow> nat \<times> string \<Rightarrow> string option" where
  "getStrVal date_text = (\<lambda>(objectType, val).
     if objectType = 0 then Some val
     else if objectType = 5 \<or> objectType = 6 then date_text val
     else None)"

type_synonym bolt_row = "string \<times> (string \<times> string) list"

datatype 'e bolt_error = UnableToParse 'e | BadValue | ErrorWhileReading

definition bolt_row_of :: "(string \<Rightarrow> string option) \<Rightarrow> (nat \<times> string) NQuad \<Rightarrow> 'e bolt_error + bolt_row" where
  "bolt_row_of date_text rnq =
     (let pred = Predicate rnq
      in if 0 < length (ObjectId rnq) then
           Inr (''MERGE (n { xid: {xid1} }) MERGE (n2 { xid: {xid2} }) MERGE (n) - [r:`'' @ pred @ ''`] - (n2)'',
                [(''xid1'', Subject rnq), (''xid2'', ObjectId rnq)])
         else case getStrVal date_text (ObjectValue rnq) of
                None \<Rightarrow> Inl BadValue
              | Some v \<Rightarrow>
                  Inr (''MERGE (n { xid: {xid} }) ON CREATE SET n.`'' @ pred @ ''` = {val} ON MATCH SET n.`'' @ pred @ ''` = {val}'',
                       [(''xid'', Subject rnq), (''val'', v)]))"

text \<open>
  The state of the loop: the request that is being filled, the count of lines and the requests
  sent. A request is copied before it is sent, so that filling the next one does not change it.
\<close>

record bolt_state =
  bolt_req :: "bolt_row list"
  bolt_count :: int
  bolt_sent :: "bolt_row list list"

definition go_rem :: "int \<Rightarrow> int \<Rightarrow> int" where
  "go_rem a b = a - go_quot a b * b"

definition bolt_line ::
  "(string \<Rightarrow> 'e + (nat \<times> string) NQuad) \<Rightarrow> (string \<Rightarrow> string option) \<Rightarrow> int \<Rightarrow> string \<Rightarrow>
     'e bolt_error + bolt_state \<Rightarrow> ('e bolt_error + bolt_state) go" where
  "bolt_line Parse date_text sz line st =
     run_bind (Ret st) (\<lambda>st.
     run_bind (Ret (case Parse line of Inl e \<Rightarrow> Inl (UnableToParse e) | Inr rnq \<Rightarrow> bolt_row_of date_text rnq)) (\<lambda>row.
       let st = st\<lparr>bolt_req := bolt_req st @ [row], bolt_count := bolt_count st + 1\<rparr>
       in if sz = 0 then Panic DivideByZero
          else Ret (Inr (if go_rem (bolt_count st) sz = 0
                         then st\<lparr>bolt_sent := bolt_sent st @ [bolt_req st], bolt_req := []\<rparr> else st))))"

text \<open>
  The command, without the workers: what it sends to them. The channel has room for twice the size, an
  int64, and its elements take 48 bytes; \<open>failed\<close> is an error of the reader other than the end of the
  file.
\<close>

definition bolt_main ::
  "(string \<Rightarrow> 'e + (nat \<times> string) NQuad) \<Rightarrow> (string \<Rightarrow> string option) \<Rightarrow> int \<Rightarrow> string list \<times> bool \<Rightarrow>
     ('e bolt_error + bolt_row list list) go" where
  "bolt_main Parse date_text sz file =
     (if \<not> chan_fits 48 (wrap64 (2 * sz)) then Panic MakeChanSize
      else let (ls, failed) = file
           in run_bind (go_fold (bolt_line Parse date_text sz) ls (Inr \<lparr>bolt_req = [], bolt_count = 0, bolt_sent = []\<rparr>))
                (\<lambda>st. if failed then Ret (Inl ErrorWhileReading)
                      else Ret (Inr (if 0 < length (bolt_req st) then bolt_sent st @ [bolt_req st] else bolt_sent st))))"

text \<open>What the workers count of the requests that succeed: the lines and the requests.\<close>

definition bolt_counts :: "bolt_row list list \<Rightarrow> u64 \<times> u64" where
  "bolt_counts reqs = fold (\<lambda>r (rdfs, mutations). (rdfs + of_nat (length r), mutations + 1)) reqs (0, 0)"

section \<open>The batches of mutations\<close>

lemma mutation_later:
  "\<lbrakk> 0 < m; length b < m \<rbrakk> \<Longrightarrow>
   fold (mutation_line (int m)) ls \<lparr>m_buf = text_of b, m_num = int (length b) + 1, rdfCount = n, m_sent = sent\<rparr>
     = \<lparr>m_buf = text_of (drop ((length b + length ls) div m * m) (b @ ls)),
        m_num = int ((length b + length ls) mod m) + 1, rdfCount = n + length ls,
        m_sent = sent @ map text_of (groups m (take ((length b + length ls) div m * m) (b @ ls)))\<rparr>"
proof (induction ls arbitrary: b n sent)
  case (Cons l ls)
  show ?case
  proof (cases "length b + 1 < m")
    case True
    then have "mutation_line (int m) l \<lparr>m_buf = text_of b, m_num = int (length b) + 1, rdfCount = n, m_sent = sent\<rparr>
        = \<lparr>m_buf = text_of (b @ [l]), m_num = int (length (b @ [l])) + 1, rdfCount = Suc n, m_sent = sent\<rparr>"
      by (simp add: mutation_line_def)
    with Cons.IH [of "b @ [l]" "Suc n" sent] Cons.prems True show ?thesis by simp
  next
    case False
    with Cons.prems have m: "m = Suc (length b)" by simp
    then have "mutation_line (int m) l \<lparr>m_buf = text_of b, m_num = int (length b) + 1, rdfCount = n, m_sent = sent\<rparr>
        = \<lparr>m_buf = text_of [], m_num = int (length []) + 1, rdfCount = Suc n, m_sent = sent @ [text_of (b @ [l])]\<rparr>"
      by (simp add: mutation_line_def)
    moreover have "(length b + length (l # ls)) div m = Suc (length ls div m)"
      "(length b + length (l # ls)) mod m = length ls mod m"
      using m by (simp_all add: div_add_self1 [of m "length ls"] flip: add_Suc)
    moreover have "groups m (take (Suc (length ls div m) * m) (b @ l # ls))
        = (b @ [l]) # groups m (take (length ls div m * m) ls)"
    proof -
      have "take (Suc (length ls div m) * m) (b @ l # ls) = (b @ [l]) @ take (length ls div m * m) ls"
        using m by (simp add: take_Cons')
      with groups_append [of m "b @ [l]"] m show ?thesis by simp
    qed
    moreover have "drop (Suc (length ls div m) * m) (b @ l # ls) = drop (length ls div m * m) ls"
      using m by (simp add: drop_Cons')
    ultimately show ?thesis using Cons.IH [of "[]" "Suc n" "sent @ [text_of (b @ [l])]"] Cons.prems
      by (simp add: append_assoc)
  qed
qed simp

text \<open>While the first batch is filled, the count is one behind: it is sent with a line more.\<close>

lemma mutation_first:
  "\<lbrakk> 0 < m; length b + length ls \<le> m \<rbrakk> \<Longrightarrow>
   fold (mutation_line (int m)) ls \<lparr>m_buf = text_of b, m_num = int (length b), rdfCount = n, m_sent = sent\<rparr>
     = \<lparr>m_buf = text_of (b @ ls), m_num = int (length b + length ls), rdfCount = n + length ls, m_sent = sent\<rparr>"
proof (induction ls arbitrary: b n)
  case (Cons l ls)
  then have "mutation_line (int m) l \<lparr>m_buf = text_of b, m_num = int (length b), rdfCount = n, m_sent = sent\<rparr>
      = \<lparr>m_buf = text_of (b @ [l]), m_num = int (length (b @ [l])), rdfCount = Suc n, m_sent = sent\<rparr>"
    by (simp add: mutation_line_def)
  with Cons.IH [of "b @ [l]" "Suc n"] Cons.prems show ?case by simp
qed simp

lemma groups_take_drop: "0 < n \<Longrightarrow> groups n (take (k * n) xs) @ groups n (drop (k * n) xs) = groups n xs"
proof (induction k arbitrary: xs)
  case (Suc k)
  show ?case
  proof (cases "xs = []")
    case False
    with Suc.prems have "groups n (take (Suc k * n) xs) = take n xs # groups n (take (k * n) (drop n xs))"
      by (subst groups.simps) (simp add: drop_take min_def)
    with Suc.IH [of "drop n xs"] Suc.prems False show ?thesis
      by (simp add: groups.simps [of n xs] add.commute)
  qed simp
qed simp

lemma groups_rest:
  assumes "0 < n"
  shows "groups n (take (length xs div n * n) xs)
      @ (if drop (length xs div n * n) xs = [] then [] else [drop (length xs div n * n) xs]) = groups n xs"
proof -
  have "length (drop (length xs div n * n) xs) \<le> n"
    using assms by (simp add: minus_div_mult_eq_mod less_imp_le)
  with groups_short [of "drop (length xs div n * n) xs" n] groups_take_drop [OF assms, of "length xs div n" xs]
  show ?thesis by (auto split: if_splits)
qed

text \<open>The lines of the batches: the first has a line more than the others may have.\<close>

definition batches :: "nat \<Rightarrow> 'a list \<Rightarrow> 'a list list" where
  "batches m ls = (if ls = [] then [] else take (m + 1) ls # groups m (drop (m + 1) ls))"

lemma text_of_Nil_iff: "text_of ls = [] \<longleftrightarrow> ls = []"
  by (cases ls) simp_all

lemma mutation_fold:
  assumes "0 < m"
  shows "\<exists>b sent num. fold (mutation_line (int m)) ls \<lparr>m_buf = [], m_num = 0, rdfCount = 0, m_sent = []\<rparr>
      = \<lparr>m_buf = text_of b, m_num = num, rdfCount = length ls, m_sent = map text_of sent\<rparr>
    \<and> sent @ (if b = [] then [] else [b]) = batches m ls"
proof (cases "length ls \<le> m")
  case True
  with assms mutation_first [of m "[]" ls 0 "[]"]
  have "fold (mutation_line (int m)) ls \<lparr>m_buf = [], m_num = 0, rdfCount = 0, m_sent = []\<rparr>
      = \<lparr>m_buf = text_of ls, m_num = int (length ls), rdfCount = length ls, m_sent = map text_of []\<rparr>" by simp
  moreover have "[] @ (if ls = [] then [] else [ls]) = batches m ls" using True by (simp add: batches_def)
  ultimately show ?thesis by blast
next
  case False
  define f where "f = take m ls"
  from False obtain l r where drop: "drop m ls = l # r" by (cases "drop m ls") auto
  with append_take_drop_id [of m ls] have ls: "ls = f @ l # r" by (simp add: f_def)
  have f: "length f = m" using False by (simp add: f_def)
  have "fold (mutation_line (int m)) ls \<lparr>m_buf = [], m_num = 0, rdfCount = 0, m_sent = []\<rparr>
      = fold (mutation_line (int m)) r \<lparr>m_buf = text_of [], m_num = int (length []) + 1, rdfCount = Suc m, m_sent = [text_of (f @ [l])]\<rparr>"
    using mutation_first [of m "[]" f 0 "[]"] assms f by (simp add: ls mutation_line_def)
  also note mutation_later [OF assms, of "[]" r "Suc m" "[text_of (f @ [l])]"]
  finally have "fold (mutation_line (int m)) ls \<lparr>m_buf = [], m_num = 0, rdfCount = 0, m_sent = []\<rparr>
      = \<lparr>m_buf = text_of (drop (length r div m * m) r), m_num = int (length r mod m) + 1, rdfCount = length ls,
         m_sent = map text_of ((f @ [l]) # groups m (take (length r div m * m) r))\<rparr>"
    using assms f by (simp add: ls)
  moreover have "((f @ [l]) # groups m (take (length r div m * m) r))
      @ (if drop (length r div m * m) r = [] then [] else [drop (length r div m * m) r]) = batches m ls"
    using groups_rest [OF assms, of r] f by (simp add: ls batches_def)
  ultimately show ?thesis by blast
qed

end
