(* ===== verification/BatchesProps.thy ===== *)
theory BatchesProps
  imports Batches
begin

text \<open>
  What the two loaders send: every line once and in order, in the batches that the sizes give, and
  when the requests come to an end.
\<close>

section \<open>Mutations over HTTP\<close>

text \<open>
  scripts/mutations sends every byte of its file once and in order and counts every line; on a file
  whose reading leaves nothing in the buffer, the first mutation has one line more than numRdf (up
  to the end of the file), and the others have numRdf lines, of which the last may have fewer.
\<close>

theorem mutations_main_batches:
  assumes "0 < m"
  shows "\<exists>sent. mutations_main (int m) (ls, rest, False) = Inr (sent, length ls)
    \<and> concat sent = concat (map (\<lambda>l. l @ [CHR 0x0A]) ls) @ rest
    \<and> (rest = [] \<longrightarrow> sent = map (\<lambda>b. concat (map (\<lambda>l. l @ [CHR 0x0A]) b)) (batches m ls))"
proof -
  from mutation_fold [OF assms] obtain b sent num where
    st: "fold (mutation_line (int m)) ls \<lparr>m_buf = [], m_num = 0, rdfCount = 0, m_sent = []\<rparr>
      = \<lparr>m_buf = text_of b, m_num = num, rdfCount = length ls, m_sent = map text_of sent\<rparr>"
    and "batches": "sent @ (if b = [] then [] else [b]) = batches m ls" by blast
  define all where "all = (if text_of b @ rest = [] then map text_of sent else map text_of sent @ [text_of b @ rest])"
  have "mutations_main (int m) (ls, rest, False) = Inr (all, length ls)"
    by (simp add: mutations_main_def Let_def st all_def)
  moreover have "concat (batches m ls) = ls"
    by (cases ls) (simp_all add: batches_def concat_groups)
  with arg_cong [OF "batches", of concat] have parts: "concat sent @ b = ls" by (auto split: if_splits)
  have "concat (map text_of sent) = text_of (concat sent)" by (induction sent) simp_all
  then have "concat all = text_of ls @ rest"
    by (auto simp: all_def parts [symmetric])
  moreover have "rest = [] \<longrightarrow> all = map text_of (batches m ls)"
    by (simp add: all_def "batches" [symmetric] text_of_Nil_iff)
  ultimately show ?thesis unfolding text_of_def by blast
qed

theorem mutations_main_batches_witness:
  "mutations_main 2 ([''a'', ''b'', ''c'', ''d''], [], False)
     = Inr ([''a'' @ [CHR 0x0A] @ ''b'' @ [CHR 0x0A] @ ''c'' @ [CHR 0x0A], ''d'' @ [CHR 0x0A]], 4)"
  using mutations_main_batches [of 2 "[''a'', ''b'', ''c'', ''d'']" "[]"]
  by (auto simp: batches_def groups.simps)

text \<open>The attempts up to the first that is answered.\<close>

lemma retry_first:
  "\<lbrakk> Do m (k + n) = Some a; \<forall>j < n. Do m (k + j) = None \<rbrakk> \<Longrightarrow> retry Do m k = Some a"
proof (induction n arbitrary: k)
  case 0
  then show ?case by (simp add: retry.simps)
next
  case (Suc n)
  have none: "Do m (k + j) = None" if "j < Suc n" for j using Suc.prems(2) that by blast
  have "\<forall>j < n. Do m (Suc k + j) = None" using none [of "Suc j" for j] by simp
  with Suc.IH [of "Suc k"] Suc.prems(1) have "retry Do m (Suc k) = Some a" by simp
  moreover have "Do m k = None" using none [of 0] by simp
  ultimately show ?case by (simp add: retry.simps [of Do m k])
qed

lemma retry_answers:
  assumes "Do m n \<noteq> None"
  obtains j a where "Do m j = Some a" "retry Do m 0 = Some a"
proof -
  define j where "j = (LEAST j. Do m j \<noteq> None)"
  have "Do m j \<noteq> None" unfolding j_def by (rule LeastI [of _ n]) (rule assms)
  then obtain a where "Do m (0 + j) = Some a" by auto
  moreover have "\<forall>i < j. Do m (0 + i) = None" unfolding j_def by (auto dest: not_less_Least)
  ultimately show ?thesis using that retry_first [of Do m 0 j a] by simp
qed

text \<open>
  A worker of scripts/mutations comes to an end: when for each mutation some attempt is answered and
  the answers report success, it returns and has counted every mutation, the count being uint64.
\<close>

theorem makeRequest_returns:
  assumes "\<And>m. m \<in> set ms \<Longrightarrow> \<exists>k. Do (mutation_body m) k \<noteq> None"
    and "\<And>m k a r. \<lbrakk> m \<in> set ms; Do (mutation_body m) k = Some a \<rbrakk> \<Longrightarrow>
      \<exists>r'. Unmarshal a r = Some r' \<and> Code r' = ''ErrorOk''"
  shows "\<exists>r'. makeRequest Do Unmarshal ms (c, r) = Ret (Inr (c + of_nat (length ms), r'))"
  using assms
proof (induction ms arbitrary: c r)
  case (Cons m ms)
  from Cons.prems(1) [of m] obtain k where "Do (mutation_body m) k \<noteq> None" by auto
  then obtain j a where "Do (mutation_body m) j = Some a" and a: "retry Do (mutation_body m) 0 = Some a"
    by (rule retry_answers)
  with Cons.prems(2) [of m j a r] obtain r' where r': "Unmarshal a r = Some r'" "Code r' = ''ErrorOk''" by auto
  with a have "request_step Do Unmarshal m (Inr (c, r)) = Ret (Inr (c + 1, r'))" by (simp add: request_step_def)
  moreover have "\<exists>r''. makeRequest Do Unmarshal ms (c + 1, r') = Ret (Inr (c + 1 + of_nat (length ms), r''))"
  proof (rule Cons.IH)
    show "\<exists>k. Do (mutation_body m') k \<noteq> None" if "m' \<in> set ms" for m' using that Cons.prems(1) by simp
    show "\<exists>r''. Unmarshal a r = Some r'' \<and> Code r'' = ''ErrorOk''"
      if "m' \<in> set ms" "Do (mutation_body m') k = Some a" for m' k a r
      using that Cons.prems(2) [of m'] by simp
  qed
  ultimately show ?case by (auto simp: makeRequest_def algebra_simps)
qed (simp add: makeRequest_def)

theorem makeRequest_returns_witness:
  "\<exists>r'. makeRequest (\<lambda>m k. if k < 2 then None else Some ''ErrorOk'') (\<lambda>a r. Some (r\<lparr>Code := a\<rparr>)) [''x'', ''y'']
     (0, \<lparr>Code = [], Message = []\<rparr>) = Ret (Inr (2, r'))"
proof -
  have "\<exists>r'. makeRequest (\<lambda>m k. if k < 2 then None else Some ''ErrorOk'') (\<lambda>a r. Some (r\<lparr>Code := a\<rparr>)) [''x'', ''y'']
      (0, \<lparr>Code = [], Message = []\<rparr>) = Ret (Inr (0 + of_nat (length [''x'', ''y'']), r'))"
  proof (rule makeRequest_returns)
    show "\<exists>k::nat. (if k < 2 then None else Some ''ErrorOk'') \<noteq> None" for m :: string by (intro exI [of _ 2]) simp
  qed (simp split: if_splits)
  then show ?thesis by simp
qed

section \<open>Statements over bolt\<close>

lemma go_rem_int: "go_rem (int a) (int b) = int (a mod b)"
  by (simp add: go_rem_def go_quot_def sgn_if zmod_int minus_div_mult_eq_mod [symmetric] of_nat_diff zdiv_int [symmetric]
      flip: of_nat_mult)

text \<open>The state after the rows \<open>d\<close>.\<close>

definition bolt_after :: "nat \<Rightarrow> bolt_row list \<Rightarrow> bolt_state" where
  "bolt_after n d = \<lparr>bolt_req = drop (length d div n * n) d, bolt_count = int (length d),
     bolt_sent = groups n (take (length d div n * n) d)\<rparr>"

lemma groups_snoc_full:
  assumes "0 < n" and "length (d @ [x]) mod n = 0"
  shows "groups n (take (length d div n * n) d) @ [drop (length d div n * n) d @ [x]] = groups n (d @ [x])"
proof -
  define q where "q = length d div n * n"
  have "length d mod n = n - 1" using assms by (auto simp: mod_Suc split: if_splits)
  then have l: "length (drop q d @ [x]) = n" using assms(1) by (simp add: q_def minus_div_mult_eq_mod)
  have "groups n (take q (d @ [x])) @ groups n (drop q (d @ [x])) = groups n (d @ [x])"
    unfolding q_def by (rule groups_take_drop [OF assms(1)])
  moreover have "q \<le> length d" by (simp add: q_def)
  ultimately show ?thesis using groups_short [of "drop q d @ [x]" n] l by (simp add: q_def)
qed

lemma bolt_line_after:
  fixes Parse :: "string \<Rightarrow> 'e + (nat \<times> string) NQuad"
  assumes "0 < n" and "Parse l = Inr rnq" and "bolt_row_of date_text rnq = (Inr x :: 'e bolt_error + bolt_row)"
  shows "bolt_line Parse date_text (int n) l (Inr (bolt_after n d)) = Ret (Inr (bolt_after n (d @ [x])))"
proof -
  have rem: "go_rem (int (length d) + 1) (int n) = int (length (d @ [x]) mod n)"
    using go_rem_int [of "length (d @ [x])" n] by (simp add: add.commute)
  show ?thesis
  proof (cases "length (d @ [x]) mod n = 0")
    case True
    then have full: "length (d @ [x]) div n * n = length (d @ [x])" by auto
    from groups_snoc_full [OF assms(1) True] show ?thesis
      using True assms full by (simp add: bolt_line_def bolt_after_def rem Let_def)
  next
    case False
    then have "length (d @ [x]) div n = length d div n" by (auto simp: div_Suc split: if_splits)
    moreover have "length d div n * n \<le> length d" by simp
    ultimately show ?thesis using False assms
      by (simp add: bolt_line_def bolt_after_def rem Let_def)
  qed
qed

lemma bolt_fold_after:
  fixes Parse :: "string \<Rightarrow> 'e + (nat \<times> string) NQuad"
  assumes "0 < n"
    and "list_all2 (\<lambda>l x. \<exists>rnq. Parse l = Inr rnq \<and> bolt_row_of date_text rnq = (Inr x :: 'e bolt_error + bolt_row)) ls rows"
  shows "go_fold (bolt_line Parse date_text (int n)) ls (Inr (bolt_after n d)) = Ret (Inr (bolt_after n (d @ rows)))"
  using assms(2)
proof (induction ls rows arbitrary: d rule: list_all2_induct)
  case (Cons l ls x rows)
  then show ?case using bolt_line_after [OF assms(1), of Parse l _ date_text x d] by auto
qed simp

lemma bolt_counts_sums:
  "fold (\<lambda>r (rdfs, mutations). (rdfs + of_nat (length r), mutations + 1)) reqs (a, b)
     = (a + of_nat (length (concat reqs)), b + of_nat (length reqs))"
  by (induction reqs arbitrary: a b) (simp_all add: algebra_simps)

text \<open>
  C30: data/neo4j, with a size of at least 1 for which Go can make the channel of twice that many requests:
  if the lines are read without an error, every line parses and its value is of a kind that the
  program knows, it sends its workers the statement of every line once and in order, in requests of
  the given size of which the last may be shorter; the counters after all of them are those of the
  lines and of the requests. (That the workers count so is the property of them; at least one is
  needed to receive the requests.)
\<close>

theorem bolt_main_rows:
  fixes Parse :: "string \<Rightarrow> 'e + (nat \<times> string) NQuad"
  assumes "0 < n" and "chan_fits 48 (2 * int n)"
    and "list_all2 (\<lambda>l x. \<exists>rnq. Parse l = Inr rnq \<and> bolt_row_of date_text rnq = (Inr x :: 'e bolt_error + bolt_row)) ls rows"
  shows "bolt_main Parse date_text (int n) (ls, False) = Ret (Inr (groups n rows))
    \<and> concat (groups n rows) = rows \<and> (\<forall>g. g \<in> set (groups n rows) \<longrightarrow> 0 < length g \<and> length g \<le> n)
    \<and> bolt_counts (groups n rows) = (of_nat (length rows), of_nat (length (groups n rows)))"
proof -
  have "bolt_after n [] = \<lparr>bolt_req = [], bolt_count = 0, bolt_sent = []\<rparr>" by (simp add: bolt_after_def)
  with bolt_fold_after [OF assms(1,3), of "[]"]
  have "go_fold (bolt_line Parse date_text (int n)) ls (Inr \<lparr>bolt_req = [], bolt_count = 0, bolt_sent = []\<rparr>)
      = Ret (Inr (bolt_after n rows))" by simp
  moreover have "wrap64 (2 * int n) = 2 * int n"
    using assms(2) by (intro wrap64_small) (simp_all add: chan_fits_def)
  ultimately have "bolt_main Parse date_text (int n) (ls, False) = Ret (Inr (groups n rows))"
    using groups_rest [OF assms(1), of rows] assms(2)
    by (simp add: bolt_main_def bolt_after_def split: if_splits)
  moreover have "bolt_counts (groups n rows) = (of_nat (length rows), of_nat (length (groups n rows)))"
    by (simp add: bolt_counts_def bolt_counts_sums concat_groups)
  ultimately show ?thesis using groups_bounds [OF assms(1), of _ rows] by (auto simp: concat_groups)
qed

theorem bolt_main_rows_witness:
  "bolt_main (\<lambda>l. Inr \<lparr>Subject = l, Predicate = ''p'', ObjectId = ''o'', ObjectValue = (0, []), Lang = []\<rparr> :: unit + (nat \<times> string) NQuad)
     Some 2 ([''a'', ''b'', ''c''], False)
   = Ret (Inr (let q = \<lambda>s. (''MERGE (n { xid: {xid1} }) MERGE (n2 { xid: {xid2} }) MERGE (n) - [r:`p`] - (n2)'',
                            [(''xid1'', s), (''xid2'', ''o'')])
               in [[q ''a'', q ''b''], [q ''c'']]))"
  using bolt_main_rows [of 2 "\<lambda>l. Inr \<lparr>Subject = l, Predicate = ''p'', ObjectId = ''o'', ObjectValue = (0, []), Lang = []\<rparr> :: unit + (nat \<times> string) NQuad"
      Some "[''a'', ''b'', ''c'']" "map (\<lambda>s. (''MERGE (n { xid: {xid1} }) MERGE (n2 { xid: {xid2} }) MERGE (n) - [r:`p`] - (n2)'',
        [(''xid1'', s), (''xid2'', ''o'')])) [''a'', ''b'', ''c'']"]
  by (simp add: bolt_row_of_def groups.simps chan_fits_def)

text \<open>
  A size of 0 divides by zero at the first statement. A negative one is refused before, and so is one
  that is so large that twice the size overflows.
\<close>

lemma bolt_main_bad_size:
  fixes Parse :: "string \<Rightarrow> 'e + (nat \<times> string) NQuad"
  shows "\<lbrakk> - (2 ^ 62) \<le> sz; sz < 0 \<rbrakk> \<Longrightarrow> bolt_main Parse date_text sz file = Panic MakeChanSize"
    and "bolt_main Parse date_text (2 ^ 62) file = Panic MakeChanSize"
    and "\<lbrakk> Parse l = Inr rnq; bolt_row_of date_text rnq = (Inr x :: 'e bolt_error + bolt_row) \<rbrakk> \<Longrightarrow>
      bolt_main Parse date_text 0 (l # ls, failed) = Panic DivideByZero"
proof -
  show "bolt_main Parse date_text sz file = Panic MakeChanSize" if "- (2 ^ 62) \<le> sz" "sz < 0"
    using that by (simp add: bolt_main_def wrap64_small chan_fits_def)
  have "wrap64 (2 * 2 ^ 62) = - (2 ^ 63)" by (simp add: wrap64_def)
  then show "bolt_main Parse date_text (2 ^ 62) file = Panic MakeChanSize"
    by (simp add: bolt_main_def chan_fits_def)
  have "wrap64 0 = 0" by (simp add: wrap64_def)
  then show "bolt_main Parse date_text 0 (l # ls, failed) = Panic DivideByZero"
    if "Parse l = Inr rnq" "bolt_row_of date_text rnq = (Inr x :: 'e bolt_error + bolt_row)"
    using that by (simp add: bolt_main_def bolt_line_def run_bind_def go_simps chan_fits_def)
qed

end
