(* ===== verification/TypeTools.thy ===== *)
theory TypeTools
  imports GoLines "HOL-Library.Char_ord" "HOL-Library.List_Lexorder"
begin

text \<open>
  scripts/add-types: the three programs over the lines of an RDF file, which rename its types, print
  its types, and print the predicates of the nodes of a type. Strings are ordered by their bytes,
  and the error of the scanner is never looked at. What a program prints is its result.
\<close>

section \<open>Lines\<close>

text \<open>The first three fields of a line, which must be there.\<close>

definition three_fields :: "string \<Rightarrow> (string \<times> string \<times> string) go" where
  "three_fields line =
     (let parts = Fields line
      in go_bind (go_index parts 0) (\<lambda>subject.
         go_bind (go_index parts 1) (\<lambda>predicate.
         go_bind (go_index parts 2) (\<lambda>object. Ret (subject, predicate, object)))))"

definition type_predicate :: string where
  "type_predicate = ''<dgraph.type>''"

section \<open>Renaming the types\<close>

definition typeNames :: "(string \<times> string) list" where
  "typeNames =
     [(''actor'', ''Actor''), (''art_director'', ''ArtDirector''), (''casting_director'', ''CastingDirector''),
      (''cinematographer'', ''Cinematographer''), (''costumer_designer'', ''CostumeDesigner''),
      (''crewmember'', ''CrewMember''), (''critic'', ''Critic''), (''director'', ''Director''), (''editor'', ''Editor''),
      (''music_contributor'', ''MusicContributor''),
      (''person_or_entity_appearing_in_film'', ''PersonOrEntityAppearingInFilm''),
      (''personal_appearance'', ''PersonalAppearance''), (''producer'', ''Producer''),
      (''production_designer'', ''ProductionDesigner''), (''set_designer'', ''SetDesigner''),
      (''song_performer'', ''SongPerformer''), (''story_contributor'', ''StoryContributor''),
      (''theorist'', ''Theorist''), (''writer'', ''Writer''), (''character'', ''Character''),
      (''collection'', ''Collection''), (''company'', ''Company''), (''company_role_or_service'', ''CompanyRoleOrService''),
      (''distributor'', ''Distributor''), (''festival_sponsor'', ''FestivalSponsor''),
      (''production_company'', ''ProductionCompany''), (''content_rating'', ''ContentRating''),
      (''content_rating_system'', ''ContentRatingSystem''), (''crew_gig'', ''CrewGig''), (''job'', ''Job''),
      (''special_performance_type'', ''SpecialPerformanceType''), (''cut'', ''Cut''), (''cut_type'', ''CutType''),
      (''distribution_medium'', ''DistributionMedium''), (''festival_focus'', ''FestivalFocus''),
      (''personal_appearance_type'', ''PersonalAppearanceType''), (''featured_song'', ''FeaturedSong''),
      (''song'', ''Song''), (''festival'', ''Festival''), (''screening_venue'', ''ScreeningVenue''),
      (''festival_event'', ''FestivalEvent''), (''film'', ''Film''), (''dubbing_performance'', ''DubbingPerformance''),
      (''performance'', ''Performance''), (''regional_release_date'', ''RegionalReleaseDate''), (''format'', ''Format''),
      (''genre'', ''Genre''), (''location'', ''Location''), (''series'', ''Series''), (''subject'', ''Subject'')]"

definition typeConvertions :: "string \<Rightarrow> string option" where
  "typeConvertions = map_of (map (\<lambda>(old, new). (quoted old, quoted new)) typeNames)"

datatype types_error = OpenError | NoConversion string

text \<open>
  The loop over the lines, with the text written so far; an unknown type ends it, and what has been
  written stays.
\<close>

fun convert_lines :: "string list \<Rightarrow> string \<Rightarrow> (types_error option \<times> string) go" where
  "convert_lines [] out = Ret (None, out)"
| "convert_lines (line # ls) out =
     go_bind (three_fields line) (\<lambda>(subject, predicate, object).
       if predicate = type_predicate then
         (case typeConvertions object of
            None \<Rightarrow> Ret (Some (NoConversion object), out)
          | Some newType \<Rightarrow>
              convert_lines ls (out @ subject @ [CHR 0x09] @ predicate @ [CHR 0x09] @ newType @ [CHR 0x09] @ ''.'' @ [CHR 0x0A]))
       else convert_lines ls (out @ line @ [CHR 0x0A]))"

text \<open>
  The output file is opened without truncation: what was in it beyond what is written stays. \<open>Gzip\<close>
  compresses; the file that is read is given with its decompressed bytes.
\<close>

definition write_over :: "string \<Rightarrow> string \<Rightarrow> string" where
  "write_over old new = new @ drop (length new) old"

definition convertTypes :: "(string \<Rightarrow> string) \<Rightarrow> reader option \<Rightarrow> string \<Rightarrow> (types_error option \<times> string) go" where
  "convertTypes Gzip input old =
     (case input of
        None \<Rightarrow> Ret (Some OpenError, old)
      | Some r \<Rightarrow> go_bind (convert_lines (fst (Scan MaxScanTokenSize r)) []) (\<lambda>(err, out).
          Ret (err, write_over old (Gzip out))))"

section \<open>Printing the types and the predicates\<close>

definition type_line :: "string \<Rightarrow> string list \<Rightarrow> string list go" where
  "type_line line types =
     (let parts = Fields line
      in go_bind (go_index parts 1) (\<lambda>predicate.
         go_bind (go_index parts 2) (\<lambda>object.
           Ret (if predicate = type_predicate then List.insert object types else types))))"

definition printTypes :: "reader option \<Rightarrow> (unit + string list) go" where
  "printTypes input =
     (case input of
        None \<Rightarrow> Ret (Inl ())
      | Some r \<Rightarrow> go_bind (go_fold type_line (fst (Scan MaxScanTokenSize r)) []) (\<lambda>types. Ret (Inr (sort types))))"

text \<open>The nodes of the type, and for each node the set of its predicates.\<close>

record pred_state =
  typeNodes :: "string list"
  nodePredMap :: "string \<Rightarrow> string list option"

definition pred_line :: "string \<Rightarrow> string \<Rightarrow> pred_state \<Rightarrow> pred_state go" where
  "pred_line typeName line st =
     go_bind (three_fields line) (\<lambda>(subject, predicate, object).
       let st = (if predicate = type_predicate \<and> object = typeName
                 then st\<lparr>typeNodes := typeNodes st @ [subject]\<rparr> else st);
           preds = (case nodePredMap st subject of None \<Rightarrow> [] | Some ps \<Rightarrow> ps)
       in Ret (st\<lparr>nodePredMap := (nodePredMap st)(subject \<mapsto> List.insert predicate preds)\<rparr>))"

definition preds_of_type :: "pred_state \<Rightarrow> string list" where
  "preds_of_type st =
     sort (fold (\<lambda>node preds. case nodePredMap st node of None \<Rightarrow> preds | Some ps \<Rightarrow> List.union ps preds)
             (typeNodes st) [])"

definition printTypePreds :: "reader option \<Rightarrow> string \<Rightarrow> (unit + string list) go" where
  "printTypePreds input typeName =
     (case input of
        None \<Rightarrow> Ret (Inl ())
      | Some r \<Rightarrow> go_bind (go_fold (pred_line typeName) (fst (Scan MaxScanTokenSize r)) \<lparr>typeNodes = [], nodePredMap = Map.empty\<rparr>)
          (\<lambda>st. Ret (Inr (preds_of_type st))))"

end
