(* ===== verification/TypeToolsProps.thy ===== *)
theory TypeToolsProps
  imports TypeTools
begin

text \<open>
  The programs on types agree: renaming the types of a file renames what is printed of it. And the
  predicates that are printed for a type are those of its nodes.
\<close>

section \<open>Fields\<close>










section \<open>The new names\<close>






section \<open>Renaming\<close>











section \<open>The predicates of a type\<close>

definition preds_at :: "pred_state \<Rightarrow> string \<Rightarrow> string list" where
  "preds_at st s = (case nodePredMap st s of None \<Rightarrow> [] | Some ps \<Rightarrow> ps)"

lemma pred_line_sets:
  assumes "three_fields l = Ret (s, p, ob)"
  shows "\<exists>st'. pred_line T l st = Ret st' \<and> set (preds_at st' s') = set (preds_at st s') \<union> (if s' = s then {p} else {})
    \<and> set (typeNodes st') = set (typeNodes st) \<union> (if p = type_predicate \<and> ob = T then {s} else {})"
  using assms by (auto simp: pred_line_def Let_def preds_at_def)

lemma pred_fold_sets:
  "go_fold (pred_line T) ls st = Ret st' \<Longrightarrow>
   set (preds_at st' s) = set (preds_at st s) \<union> {p. \<exists>l \<in> set ls. \<exists>ob. three_fields l = Ret (s, p, ob)}
   \<and> set (typeNodes st') = set (typeNodes st) \<union> {s. \<exists>l \<in> set ls. three_fields l = Ret (s, type_predicate, T)}"
proof (induction ls arbitrary: st)
  case (Cons l ls)
  from Cons.prems obtain s1 p ob where l: "three_fields l = Ret (s1, p, ob)"
    by (cases "three_fields l") (auto simp: pred_line_def go_simps)
  from pred_line_sets [OF l, of T st s] obtain st1 where st1: "pred_line T l st = Ret st1"
    "set (preds_at st1 s) = set (preds_at st s) \<union> (if s = s1 then {p} else {})"
    "set (typeNodes st1) = set (typeNodes st) \<union> (if p = type_predicate \<and> ob = T then {s1} else {})" by blast
  from Cons.prems st1(1) have "go_fold (pred_line T) ls st1 = Ret st'" by simp
  from Cons.IH [OF this] st1(2,3) l show ?case by auto
qed simp

lemma preds_of_nodes:
  "set (fold (\<lambda>node preds. case nodePredMap st node of None \<Rightarrow> preds | Some ps \<Rightarrow> List.union ps preds) ns acc)
     = set acc \<union> (\<Union>n \<in> set ns. set (preds_at st n))"
  by (induction ns arbitrary: acc) (auto simp: preds_at_def split: option.splits)

lemma preds_of_nodes_distinct:
  "distinct acc \<Longrightarrow>
   distinct (fold (\<lambda>node preds. case nodePredMap st node of None \<Rightarrow> preds | Some ps \<Rightarrow> List.union ps preds) ns acc)"
  by (induction ns arbitrary: acc) (auto split: option.splits)

text \<open>
  What is printed for a type are, sorted and without repetition, the predicates of the subjects that
  have the type somewhere in the file, before or after.
\<close>

theorem printTypePreds_set:
  assumes "printTypePreds (Some r) T = Ret (Inr ps)"
  shows "sorted ps \<and> distinct ps \<and>
    (p \<in> set ps \<longleftrightarrow> (\<exists>s ob l l'. l \<in> set (fst (Scan MaxScanTokenSize r)) \<and> l' \<in> set (fst (Scan MaxScanTokenSize r))
      \<and> three_fields l = Ret (s, p, ob) \<and> three_fields l' = Ret (s, type_predicate, T)))"
proof -
  from assms obtain st where st: "go_fold (pred_line T) (fst (Scan MaxScanTokenSize r)) \<lparr>typeNodes = [], nodePredMap = Map.empty\<rparr> = Ret st"
    and ps: "ps = preds_of_type st" by (auto simp: printTypePreds_def go_simps)
  have "preds_at \<lparr>typeNodes = [], nodePredMap = Map.empty\<rparr> s = []" for s by (simp add: preds_at_def)
  with pred_fold_sets [OF st] ps show ?thesis
    by (auto simp: preds_of_type_def preds_of_nodes preds_of_nodes_distinct)
qed

theorem printTypePreds_set_witness:
  "printTypePreds (Some (text_of [''a name b'', ''c genre d'', ''a <dgraph.type> Movie''], False)) ''Movie''
     = Ret (Inr [type_predicate, ''name'']) \<and> ''name'' \<in> set [type_predicate, ''name''] \<and> ''genre'' \<notin> set [type_predicate, ''name'']"
proof -
  have scan: "fst (Scan MaxScanTokenSize (text_of [''a name b'', ''c genre d'', ''a <dgraph.type> Movie''], False))
      = [''a name b'', ''c genre d'', ''a <dgraph.type> Movie'']"
    by (simp add: Scan_def text_of_def scan_lines_unlines [unfolded text_of_def] plain_line_def MaxScanTokenSize_def
        del: concat.simps list.map)
  moreover have "map_option preds_of_type (case go_fold (pred_line ''Movie'') [''a name b'', ''c genre d'', ''a <dgraph.type> Movie'']
      \<lparr>typeNodes = [], nodePredMap = Map.empty\<rparr> of Ret st \<Rightarrow> Some st | _ \<Rightarrow> None) = Some [type_predicate, ''name'']"
    by code_simp
  ultimately have run: "printTypePreds (Some (text_of [''a name b'', ''c genre d'', ''a <dgraph.type> Movie''], False)) ''Movie''
      = Ret (Inr [type_predicate, ''name''])"
    by (auto simp: printTypePreds_def split: go.splits)
  moreover have "three_fields ''a name b'' = Ret (''a'', ''name'', ''b'')"
    "three_fields ''a <dgraph.type> Movie'' = Ret (''a'', type_predicate, ''Movie'')" by code_simp+
  with printTypePreds_set [OF run, of "''name''", unfolded scan] have "''name'' \<in> set [type_predicate, ''name'']" by auto
  ultimately show ?thesis by (simp add: type_predicate_def)
qed

end
