(* ===== verification/Regression.thy ===== *)
theory Regression
  imports GoLines
begin

text \<open>
  regression: one program extracts the runnable queries of a document into numbered files, the other
  sends queries to a server, stores the answers and compares them with stored ones. The server and
  the errors of the file system are parameters.
\<close>

section \<open>Extracting queries\<close>

definition start_mark :: string where
  "start_mark = ''{{< runnable >}}''"

definition end_mark :: string where
  "end_mark = ''{{< /runnable >}}''"

definition query_file :: "nat \<Rightarrow> string" where
  "query_file n = ''queries/query-'' @ decimal n @ ''.txt''"

record extract_state =
  counter :: nat
  q_buf :: string
  insideRunnable :: bool
  q_files :: "(string \<times> string) list"

definition extract_start :: extract_state where
  "extract_start = \<lparr>counter = 0, q_buf = [], insideRunnable = False, q_files = []\<rparr>"

text \<open>The file of the next query; \<open>writable\<close> tells which files can be written.\<close>

definition write_query :: "(string \<Rightarrow> bool) \<Rightarrow> extract_state \<Rightarrow> unit + extract_state" where
  "write_query writable st =
     (let st = st\<lparr>insideRunnable := False, counter := counter st + 1\<rparr>
      in if writable (query_file (counter st))
         then Inr (st\<lparr>q_files := q_files st @ [(query_file (counter st), q_buf st)], q_buf := []\<rparr>)
         else Inl ())"

definition extract_line :: "(string \<Rightarrow> bool) \<Rightarrow> string \<Rightarrow> extract_state \<Rightarrow> unit + extract_state" where
  "extract_line writable l st =
     (let trimmed = TrimSpace l
      in if trimmed = start_mark then Inr (st\<lparr>insideRunnable := True\<rparr>)
         else err_bind (if trimmed = end_mark then write_query writable st else Inr st) (\<lambda>st.
           if \<not> insideRunnable st then Inr st
           else Inr (st\<lparr>q_buf := q_buf st @ l @ [CHR 0x0A]\<rparr>)))"

definition extract_main :: "(string \<Rightarrow> bool) \<Rightarrow> reader option \<Rightarrow> unit + (string \<times> string) list" where
  "extract_main writable input =
     (case input of
        None \<Rightarrow> Inl ()
      | Some r \<Rightarrow> err_bind (scan_fold MaxScanTokenSize () (extract_line writable) r extract_start) (\<lambda>st. Inr (q_files st)))"

section \<open>Replaying queries\<close>

record query =
  q_text :: string
  q_no :: string

text \<open>An answer: its errors, and its data as they are marshalled and indented.\<close>

record answer =
  Errors :: "string list"
  Data :: string

datatype replay_error = NoResponse | GotErrors "string list" | NoFile string | BadName string

definition getResponse :: "(string \<Rightarrow> answer option) \<Rightarrow> string \<Rightarrow> replay_error + string" where
  "getResponse Do q =
     (case Do q of
        None \<Rightarrow> Inl NoResponse
      | Some res \<Rightarrow> if Errors res = [] then Inr (Data res) else Inl (GotErrors (Errors res)))"

definition responseFile :: "string \<Rightarrow> string \<Rightarrow> string" where
  "responseFile folder no = folder @ ''/response-'' @ no"

text \<open>The files, what is printed for each query, and the count.\<close>

datatype verdict = GotReply | Matches | Differs

record replay_state =
  r_files :: "string \<Rightarrow> string option"
  r_out :: "(string \<times> verdict) list"
  r_count :: "32 word"

definition runQuery :: "(string \<Rightarrow> answer option) \<Rightarrow> string \<Rightarrow> string \<Rightarrow> query \<Rightarrow> replay_state \<Rightarrow> replay_error + replay_state" where
  "runQuery Do src dest q st =
     err_bind (getResponse Do (q_text q)) (\<lambda>res.
       let st = (if src = [] then st\<lparr>r_out := r_out st @ [(q_no q, GotReply)]\<rparr> else st);
           st = st\<lparr>r_files := (r_files st)(responseFile dest (q_no q) \<mapsto> res)\<rparr>
       in err_bind (if src \<noteq> [] then
                      (case r_files st (responseFile src (q_no q)) of
                         None \<Rightarrow> Inl (NoFile (responseFile src (q_no q)))
                       | Some r \<Rightarrow> Inr (st\<lparr>r_out := r_out st @ [(q_no q, if r \<noteq> res then Differs else Matches)]\<rparr>))
                    else Inr st)
            (\<lambda>st. Inr (st\<lparr>r_count := r_count st + 1\<rparr>)))"

text \<open>The query of a file, from the name and the contents.\<close>

definition walk_file :: "string \<times> string \<Rightarrow> replay_error + query" where
  "walk_file = (\<lambda>(file_name, contents).
     let name = Split CHR ''-'' file_name
     in if 2 \<le> length name then Inr \<lparr>q_text = contents, q_no = last name\<rparr> else Inl (BadName file_name))"

definition walk_queries :: "(string \<times> string) list \<Rightarrow> replay_error + query list" where
  "walk_queries fls = err_fold (\<lambda>f qs. err_bind (walk_file f) (\<lambda>q. Inr (qs @ [q]))) fls []"

text \<open>
  The program on the files of the folder, in the order of the walk; the workers are taken as one
  after the other. The destination must be given.
\<close>

definition replay_main ::
  "(string \<Rightarrow> answer option) \<Rightarrow> string \<Rightarrow> string \<Rightarrow> (string \<times> string) list \<Rightarrow> (string \<Rightarrow> string option) \<Rightarrow>
     (replay_error + replay_state) go" where
  "replay_main Do src dest folder fs =
     (if dest = [] then Panic AssertFailed
      else Ret (err_bind (walk_queries folder) (\<lambda>qs.
        err_fold (runQuery Do src dest) qs \<lparr>r_files = fs, r_out = [], r_count = 0\<rparr>)))"

section \<open>The extracted queries\<close>

lemma extract_outside:
  "\<lbrakk> \<forall>l \<in> set ls. TrimSpace l \<noteq> start_mark \<and> TrimSpace l \<noteq> end_mark; \<not> insideRunnable st \<rbrakk> \<Longrightarrow>
   err_fold (extract_line writable) ls st = Inr st"
  by (induction ls) (simp_all add: extract_line_def Let_def)

lemma extract_inside:
  "\<lbrakk> \<forall>l \<in> set ls. TrimSpace l \<noteq> start_mark \<and> TrimSpace l \<noteq> end_mark; insideRunnable st \<rbrakk> \<Longrightarrow>
   err_fold (extract_line writable) ls st = Inr (st\<lparr>q_buf := q_buf st @ text_of ls\<rparr>)"
  by (induction ls arbitrary: st) (simp_all add: extract_line_def Let_def)

text \<open>A document: pieces of text, each followed by a query between marks.\<close>

definition doc_lines :: "(string list \<times> string list) list \<Rightarrow> string list" where
  "doc_lines ps = concat (map (\<lambda>(t, b). t @ [start_mark] @ b @ [end_mark]) ps)"

definition no_marks :: "string list \<Rightarrow> bool" where
  "no_marks ls \<longleftrightarrow> (\<forall>l \<in> set ls. TrimSpace l \<noteq> start_mark \<and> TrimSpace l \<noteq> end_mark)"

definition numbered :: "nat \<Rightarrow> (string list \<times> string list) list \<Rightarrow> (string \<times> string) list" where
  "numbered n ps = map (\<lambda>(i, t, b). (query_file i, text_of b)) (enumerate n ps)"

lemma marks_trimmed: "TrimSpace start_mark = start_mark" "TrimSpace end_mark = end_mark" "start_mark \<noteq> end_mark"
  by code_simp+

lemma extract_pieces:
  "\<lbrakk> \<forall>(t, b) \<in> set ps. no_marks t \<and> no_marks b; \<forall>i. writable (query_file i); \<not> insideRunnable st; q_buf st = [] \<rbrakk> \<Longrightarrow>
   \<exists>st'. err_fold (extract_line writable) (doc_lines ps) st = Inr st' \<and> \<not> insideRunnable st' \<and>
     q_files st' = q_files st @ numbered (Suc (counter st)) ps"
proof (induction ps arbitrary: st)
  case (Cons p ps)
  obtain t b where p: "p = (t, b)" by (cases p)
  let ?st = "st\<lparr>counter := Suc (counter st), q_files := q_files st @ [(query_file (Suc (counter st)), text_of b)]\<rparr>"
  have "err_fold (extract_line writable) (t @ [start_mark] @ b @ [end_mark]) st = Inr ?st"
    using Cons.prems by (simp add: p no_marks_def err_fold_append extract_outside extract_inside extract_line_def
        marks_trimmed marks_trimmed(3) [symmetric] Let_def write_query_def)
  moreover from Cons.IH [of ?st] Cons.prems obtain st' where
    "err_fold (extract_line writable) (doc_lines ps) ?st = Inr st'" "\<not> insideRunnable st'"
    "q_files st' = q_files ?st @ numbered (Suc (counter ?st)) ps" by auto
  moreover have "doc_lines (p # ps) = (t @ [start_mark] @ b @ [end_mark]) @ doc_lines ps" by (simp add: doc_lines_def p)
  moreover have "numbered (Suc (counter st)) (p # ps) = (query_file (Suc (counter st)), text_of b) # numbered (Suc (counter ?st)) ps"
    by (simp add: numbered_def p)
  ultimately show ?case by (simp only: err_fold_append) simp
qed (simp add: doc_lines_def numbered_def)

text \<open>
  C37: the extraction takes the queries back out of a document that is read without an error and
  whose lines end in a newline, are shorter than 64 KiB (bufio.MaxScanTokenSize) and hold no carriage return: if no
  line of the text or of the queries is a mark once its white space (that of Unicode, on both sides)
  is trimmed, and every file of a query can be written, the files are numbered from 1 in the order
  of the queries and hold their lines as they are, and what is not between marks is left out.
\<close>

theorem extract_main_doc:
  assumes "\<And>t b. (t, b) \<in> set ps \<Longrightarrow> no_marks t \<and> no_marks b" and "no_marks tail"
    and "\<And>i. writable (query_file i)" and "\<And>l. l \<in> set (doc_lines ps @ tail) \<Longrightarrow> plain_line MaxScanTokenSize l"
  shows "extract_main writable (Some (text_of (doc_lines ps @ tail), False)) = Inr (numbered 1 ps)"
proof -
  from extract_pieces [of ps writable extract_start] assms(1,3) obtain st where
    st: "err_fold (extract_line writable) (doc_lines ps) extract_start = Inr st" "\<not> insideRunnable st" "q_files st = numbered 1 ps"
    by (auto simp: extract_start_def)
  have "scan_lines MaxScanTokenSize (text_of (doc_lines ps @ tail)) = (doc_lines ps @ tail, False)"
    unfolding text_of_def by (rule scan_lines_unlines) (use assms(4) in blast)
  then show ?thesis
    using st extract_outside [of tail st] assms(2)
    by (simp add: extract_main_def scan_fold_def Scan_def err_fold_append no_marks_def)
qed

theorem extract_main_doc_witness:
  "extract_main (\<lambda>_. True) (Some (text_of [''Text'', start_mark, ''  q'', end_mark, start_mark, end_mark, ''End''], False))
     = Inr [(''queries/query-1.txt'', ''  q'' @ [CHR 0x0A]), (''queries/query-2.txt'', [])]"
proof -
  have marks: "no_marks [''Text''] \<and> no_marks [''  q''] \<and> no_marks [''End''] \<and> no_marks []" by code_simp
  have "plain_line MaxScanTokenSize l" if "l \<in> set (doc_lines [([''Text''], [''  q'']), ([], [])] @ [''End''])" for l
    using that by (auto simp: doc_lines_def plain_line_def MaxScanTokenSize_def start_mark_def end_mark_def)
  with extract_main_doc [of "[([''Text''], [''  q'']), ([], [])]" "[''End'']" "\<lambda>_. True"] marks
  have "extract_main (\<lambda>_. True) (Some (text_of (doc_lines [([''Text''], [''  q'']), ([], [])] @ [''End'']), False))
      = Inr (numbered 1 [([''Text''], [''  q'']), ([], [])])" by auto
  moreover have "query_file 1 = ''queries/query-1.txt''" "query_file 2 = ''queries/query-2.txt''" by code_simp+
  ultimately show ?thesis by (simp add: doc_lines_def numbered_def numeral_2_eq_2)
qed

section \<open>Replaying twice\<close>

lemma responseFile_inj:
  assumes "responseFile d n = responseFile d' n'" and "CHR ''/'' \<notin> set n" and "CHR ''/'' \<notin> set n'"
  shows "d = d' \<and> n = n'"
proof -
  have dash: "responseFile d n = d @ CHR ''/'' # (''response-'' @ n)" for d n by (simp add: responseFile_def)
  have "takeWhile (\<lambda>c. c \<noteq> CHR ''/'') (rev (responseFile d n)) = rev (''response-'' @ n)" if "CHR ''/'' \<notin> set n" for d n
    using takeWhile_line [of "CHR ''/''" "rev (''response-'' @ n)" "rev d"] that by (simp add: dash)
  from this [OF assms(2), of d] this [OF assms(3), of d'] assms(1) have "n = n'" by simp
  with assms(1) show ?thesis by (simp add: responseFile_def)
qed

definition answered :: "(string \<Rightarrow> answer option) \<Rightarrow> query \<Rightarrow> string \<Rightarrow> bool" where
  "answered Do q res \<longleftrightarrow> getResponse Do (q_text q) = Inr res"

lemma first_query:
  "runQuery Do [] d q st = Inr st1 \<Longrightarrow>
   \<exists>res. answered Do q res \<and> r_files st1 = (r_files st)(responseFile d (q_no q) \<mapsto> res)"
  by (auto simp: runQuery_def answered_def Let_def err_bind_eq_Inr)

lemma first_run:
  assumes "err_fold (runQuery Do [] d) qs st = Inr st'" and "distinct (map q_no qs)"
  shows "\<forall>q \<in> set qs. \<exists>res. answered Do q res \<and> r_files st' (responseFile d (q_no q)) = Some res"
    and "\<forall>f. f \<notin> responseFile d ` q_no ` set qs \<longrightarrow> r_files st' f = r_files st f"
  using assms
proof (induction qs arbitrary: st)
  case (Cons q qs)
  case 1
  from 1(1) obtain st1 where "runQuery Do [] d q st = Inr st1" and fold: "err_fold (runQuery Do [] d) qs st1 = Inr st'"
    by (auto simp: err_bind_eq_Inr)
  with first_query obtain res where res: "answered Do q res"
    and st1: "r_files st1 = (r_files st)(responseFile d (q_no q) \<mapsto> res)" "err_fold (runQuery Do [] d) qs st1 = Inr st'"
    by blast
  from 1 have d: "distinct (map q_no qs)" "q_no q \<notin> q_no ` set qs" by auto
  have "responseFile d (q_no q) \<notin> responseFile d ` q_no ` set qs" using d(2) by (auto simp: responseFile_def)
  with Cons.IH(2) [OF st1(2) d(1)] st1(1) have "r_files st' (responseFile d (q_no q)) = Some res" by simp
  with Cons.IH(1) [OF st1(2) d(1)] res show ?case by (auto simp: answered_def)
next
  case (Cons q qs)
  case 2
  from 2(1) obtain st1 where "runQuery Do [] d q st = Inr st1" and fold: "err_fold (runQuery Do [] d) qs st1 = Inr st'"
    by (auto simp: err_bind_eq_Inr)
  with first_query obtain res where
    st1: "r_files st1 = (r_files st)(responseFile d (q_no q) \<mapsto> res)" "err_fold (runQuery Do [] d) qs st1 = Inr st'"
    by blast
  with Cons.IH(2) [OF st1(2)] 2 show ?case by auto
qed simp_all

lemma second_run:
  assumes "\<forall>q \<in> set qs. CHR ''/'' \<notin> set (q_no q) \<and> (\<exists>res. answered Do q res \<and> r_files st (responseFile d (q_no q)) = Some res)"
    and "d \<noteq> []" and "d' \<noteq> d"
  shows "\<exists>st'. err_fold (runQuery Do d d') qs st = Inr st' \<and> r_out st' = r_out st @ map (\<lambda>q. (q_no q, Matches)) qs
    \<and> r_count st' = r_count st + of_nat (length qs)"
  using assms(1)
proof (induction qs arbitrary: st)
  case (Cons q qs)
  then obtain res where res: "getResponse Do (q_text q) = Inr res" "r_files st (responseFile d (q_no q)) = Some res"
    and slash: "CHR ''/'' \<notin> set (q_no q)" by (auto simp: answered_def)
  let ?st = "st\<lparr>r_files := (r_files st)(responseFile d' (q_no q) \<mapsto> res), r_out := r_out st @ [(q_no q, Matches)],
                r_count := r_count st + 1\<rparr>"
  have other: "responseFile d (q_no q1) \<noteq> responseFile d' (q_no q)" if "CHR ''/'' \<notin> set (q_no q1)" for q1
    using responseFile_inj [OF _ that slash] assms(3) by blast
  have "runQuery Do d d' q st = Inr ?st"
    using res other [OF slash] assms(2) by (simp add: runQuery_def Let_def)
  moreover have "\<forall>q \<in> set qs. CHR ''/'' \<notin> set (q_no q) \<and> (\<exists>res. answered Do q res \<and> r_files ?st (responseFile d (q_no q)) = Some res)"
    using Cons.prems other by auto
  from Cons.IH [OF this] obtain st' where "err_fold (runQuery Do d d') qs ?st = Inr st'"
    "r_out st' = r_out ?st @ map (\<lambda>q. (q_no q, Matches)) qs" "r_count st' = r_count ?st + of_nat (length qs)" by blast
  ultimately show ?case by (auto simp: algebra_simps)
qed simp

text \<open>
  A replay against the answers of an earlier run of the same queries, on a server that still gives
  the same answers, reports a match for every query and counts them all (as uint32); the numbers of
  the queries must be distinct, since they name the files.
\<close>

theorem replay_matches:
  assumes "replay_main Do [] d folder fs = Ret (Inr st)" and "walk_queries folder = Inr qs"
    and "distinct (map q_no qs)" and "\<And>q. q \<in> set qs \<Longrightarrow> CHR ''/'' \<notin> set (q_no q)" and "d' \<noteq> []" and "d' \<noteq> d"
  shows "\<exists>st'. replay_main Do d d' folder (r_files st) = Ret (Inr st')
    \<and> r_out st' = map (\<lambda>q. (q_no q, Matches)) qs \<and> r_count st' = of_nat (length qs)"
proof -
  from assms(1,2) have d: "d \<noteq> []" and run: "err_fold (runQuery Do [] d) qs \<lparr>r_files = fs, r_out = [], r_count = 0\<rparr> = Inr st"
    by (auto simp: replay_main_def split: if_splits)
  from first_run(1) [OF run assms(3)] assms(4)
  have "\<forall>q \<in> set qs. CHR ''/'' \<notin> set (q_no q) \<and> (\<exists>res. answered Do q res \<and>
      r_files \<lparr>r_files = r_files st, r_out = [], r_count = 0\<rparr> (responseFile d (q_no q)) = Some res)" by auto
  from second_run [OF this d assms(6)] assms(2,5) show ?thesis by (auto simp: replay_main_def)
qed

theorem replay_matches_witness:
  "\<exists>st'. replay_main (\<lambda>q. Some \<lparr>Errors = [], Data = q @ q\<rparr>) ''a'' ''b'' [(''query-1'', ''x''), (''query-2'', ''y'')]
       [''a/response-1'' \<mapsto> ''xx'', ''a/response-2'' \<mapsto> ''yy''] = Ret (Inr st')
     \<and> r_out st' = [(''1'', Matches), (''2'', Matches)] \<and> r_count st' = 2"
proof -
  let ?Do = "\<lambda>q. Some \<lparr>Errors = [], Data = q @ q\<rparr>"
  let ?folder = "[(''query-1'', ''x''), (''query-2'', ''y'')]"
  have walk: "walk_queries ?folder = Inr [\<lparr>q_text = ''x'', q_no = ''1''\<rparr>, \<lparr>q_text = ''y'', q_no = ''2''\<rparr>]" by code_simp
  have "replay_main ?Do [] ''a'' ?folder Map.empty
      = Ret (Inr \<lparr>r_files = [''a/response-1'' \<mapsto> ''xx'', ''a/response-2'' \<mapsto> ''yy''],
                  r_out = [(''1'', GotReply), (''2'', GotReply)], r_count = 2\<rparr>)"
    by (simp add: replay_main_def walk runQuery_def getResponse_def responseFile_def Let_def)
  moreover have "CHR ''/'' \<notin> set (q_no q)"
    if "q \<in> set [\<lparr>q_text = ''x'', q_no = ''1''\<rparr>, \<lparr>q_text = ''y'', q_no = ''2''\<rparr>]" for q
    using that by auto
  ultimately show ?thesis using replay_matches [OF _ walk, of ?Do "''a''" Map.empty _ "''b''"] by fastforce
qed

end
