(* ===== verification/GeoConvert.thy ===== *)
theory GeoConvert
  imports GoLines
begin

text \<open>
  geotordf and geofreebase: RDF from the features of a GeoJSON file. The decoder of JSON delivers
  tokens and features, geojson marshals a geometry, go-farm makes the fingerprint: these are
  parameters. Compression is not part of the model.
\<close>

section \<open>Finding the features\<close>

datatype token = Delim char | Str string | OtherToken

datatype find_error = TokenError | NotAnArray | NoFeatures

text \<open>\<open>Decoder.More\<close>: whether the next token is there and does not close an object or array.\<close>

definition More :: "token list \<Rightarrow> bool" where
  "More ts \<longleftrightarrow> ts \<noteq> [] \<and> hd ts \<noteq> Delim (CHR '']'') \<and> hd ts \<noteq> Delim (CHR ''}'')"

text \<open>
  The tokens of the input, and whether an error follows them, where otherwise the input ends. The
  result is the error, or the tokens from the first feature on.
\<close>

fun find_loop :: "token list \<Rightarrow> bool \<Rightarrow> find_error + token list" where
  "find_loop [] failed = (if failed then Inl TokenError else Inr [])"
| "find_loop (t # ts) failed =
     (if t = Str ''features'' \<and> More ts then
        (case ts of
           Delim c # ts' \<Rightarrow> if c = CHR ''['' then Inr ts' else Inl NotAnArray
         | d # ts' \<Rightarrow> find_loop ts' failed
         | [] \<Rightarrow> Inl TokenError)
      else find_loop ts failed)"

definition findFeatureArray :: "token list \<Rightarrow> bool \<Rightarrow> find_error + token list" where
  "findFeatureArray ts failed =
     err_bind (find_loop ts failed) (\<lambda>ts'. if \<not> More ts' then Inl NoFeatures else Inr ts')"

section \<open>geotordf\<close>

definition hex_digit :: "nat \<Rightarrow> char" where
  "hex_digit d = (if d < 10 then char_of (48 + d) else char_of (87 + d))"

fun hexadecimal :: "nat \<Rightarrow> string" where
  "hexadecimal n = (if n < 16 then [hex_digit n] else hexadecimal (n div 16) @ [hex_digit (n mod 16)])"

declare hexadecimal.simps [simp del]

definition quote :: string where
  "quote = [CHR 0x22]"

definition apostrophe :: string where
  "apostrophe = [CHR 0x27]"

text \<open>A feature: its identifier, its geometry, and its properties in the order of the map.\<close>

record 'g feature =
  ID :: string
  Geometry :: 'g
  Properties :: "(string \<times> string option) list"

definition uid_text :: "32 word \<Rightarrow> string" where
  "uid_text uid = ''<_uid_:0x'' @ hexadecimal (unat uid) @ ''>''"

definition geo_line :: "32 word \<Rightarrow> string \<Rightarrow> string" where
  "geo_line uid geoS = uid_text uid @ '' <loc> '' @ quoted geoS @ ''^^<geo:geojson> .'' @ [CHR 0x0A]"

definition literal_line :: "32 word \<Rightarrow> string \<times> string option \<Rightarrow> string" where
  "literal_line uid = (\<lambda>(k, v).
     case v of
       None \<Rightarrow> []
     | Some va \<Rightarrow>
         uid_text uid @ '' <'' @ Replace (Trim k ''@#'') '':'' ''.'' (- 1) @ ''> '' @ quoted (Replace va quote apostrophe (- 1))
           @ '' .'' @ [CHR 0x0A])"

definition feature_text :: "(string \<Rightarrow> 32 word) \<Rightarrow> ('g \<Rightarrow> string option) \<Rightarrow> 'g feature \<Rightarrow> string option" where
  "feature_text Fingerprint32 Marshal f =
     (case Marshal (Geometry f) of
        None \<Rightarrow> None
      | Some geo \<Rightarrow>
          let geoS = Replace geo quote apostrophe 6; uid = Fingerprint32 (ID f)
          in Some (geo_line uid geoS @ concat (map (literal_line uid) (Properties f))))"

text \<open>The buffer and what has been written; \<open>None\<close> stands for a feature that cannot be decoded.\<close>

definition geo_step ::
  "(string \<Rightarrow> 32 word) \<Rightarrow> ('g \<Rightarrow> string option) \<Rightarrow> 'g feature option \<Rightarrow> string \<times> string list \<Rightarrow> unit + string \<times> string list"
  where
  "geo_step Fingerprint32 Marshal fo = (\<lambda>(buf, written).
     case fo of
       None \<Rightarrow> Inl ()
     | Some f \<Rightarrow>
         (case feature_text Fingerprint32 Marshal f of
            None \<Rightarrow> Inl ()
          | Some t \<Rightarrow>
              let buf = buf @ t
              in Inr (if 40000 < length buf then ([], written @ [buf]) else (buf, written))))"

text \<open>
  The program, from the tokens and the features that are decoded when the array has been found. The
  result is what is written, piece by piece.
\<close>

definition geotordf_main ::
  "(string \<Rightarrow> 32 word) \<Rightarrow> ('g \<Rightarrow> string option) \<Rightarrow> token list \<Rightarrow> bool \<Rightarrow> 'g feature option list \<Rightarrow> unit + string list"
  where
  "geotordf_main Fingerprint32 Marshal ts failed features =
     (case findFeatureArray ts failed of
        Inl e \<Rightarrow> Inl ()
      | Inr _ \<Rightarrow>
          err_bind (err_fold (geo_step Fingerprint32 Marshal) features ([], [])) (\<lambda>(buf, written).
            Inr (if 0 < length buf then written @ [buf] else written)))"

section \<open>geofreebase\<close>

text \<open>
  The countries: the name, if it is a string, and the geometry of each feature. An error of the
  decoder is not looked at; after one the loop never ends, since the decoder stays where it is.
\<close>

definition country_step :: "(string option \<times> string) \<Rightarrow> (string \<Rightarrow> string option) \<Rightarrow> (string \<Rightarrow> string option)" where
  "country_step = (\<lambda>(name, gg) countries.
     let ggg = Replace gg quote apostrophe (- 1)
     in case name of None \<Rightarrow> countries | Some country \<Rightarrow> countries(country \<mapsto> ggg))"

definition countryToGeo :: "(string option \<times> string) list \<Rightarrow> bool \<Rightarrow> (string \<Rightarrow> string option) go" where
  "countryToGeo features failed = (if failed then Hang else Ret (fold country_step features Map.empty))"

text \<open>A line in English with the name of a country; the state is the output and the two counts.\<close>

definition country_line ::
  "(string \<Rightarrow> string option) \<Rightarrow> string \<Rightarrow> string \<times> nat \<times> nat \<Rightarrow> (string \<times> nat \<times> nat) go" where
  "country_line countries line = (\<lambda>(out, count1, count2).
     if Contains line ''@en'' then
       let items = Split (CHR 0x09) line
       in go_bind (go_index items 2) (\<lambda>item.
          let country = Trim (hd (Split CHR ''@'' item)) quote
          in case countries country of
               Some geoD \<Rightarrow>
                 Ret (out @ hd items @ '' <loc> '' @ quoted geoD @ ''^^<geo:geojson> .'' @ [CHR 0x0A], count1 + 1, count2)
             | None \<Rightarrow> Ret (out, count1, count2 + 1))
     else Ret (out, count1, count2))"

definition geofreebase_main ::
  "(string option \<times> string) list \<Rightarrow> bool \<Rightarrow> reader \<Rightarrow> (string \<times> nat \<times> nat) go" where
  "geofreebase_main features failed rdf =
     go_bind (countryToGeo features failed) (\<lambda>countries.
       go_fold (country_line countries) (fst (Scan MaxScanTokenSize rdf)) ([], 0, 0))"

section \<open>What geotordf writes\<close>

lemma geo_fold:
  "\<lbrakk> map (\<lambda>fo. Option.bind fo (feature_text F M)) fos = map Some ts \<rbrakk> \<Longrightarrow>
   \<exists>buf' written'. err_fold (geo_step F M) fos (buf, written) = Inr (buf', written')
     \<and> concat written' @ buf' = concat written @ buf @ concat ts
     \<and> (\<forall>w \<in> set written'. w \<in> set written \<or> 40000 < length w) \<and> (length buf \<le> 40000 \<longrightarrow> length buf' \<le> 40000)"
proof (induction fos arbitrary: ts buf written)
  case (Cons fo fos)
  then obtain f t ts' where f: "fo = Some f" "feature_text F M f = Some t" "ts = t # ts'"
    "map (\<lambda>fo. Option.bind fo (feature_text F M)) fos = map Some ts'"
    by (cases ts) (auto simp: bind_eq_Some_conv)
  let ?st = "if 40000 < length (buf @ t) then ([], written @ [buf @ t]) else (buf @ t, written)"
  have "geo_step F M fo (buf, written) = Inr ?st" by (simp add: geo_step_def f)
  moreover from Cons.IH [OF f(4), of "fst ?st" "snd ?st"] obtain buf' written' where
    "err_fold (geo_step F M) fos ?st = Inr (buf', written')"
    "concat written' @ buf' = concat (snd ?st) @ fst ?st @ concat ts'"
    "\<forall>w \<in> set written'. w \<in> set (snd ?st) \<or> 40000 < length w" "length (fst ?st) \<le> 40000 \<longrightarrow> length buf' \<le> 40000"
    by auto
  moreover have "concat (snd ?st) @ fst ?st = concat written @ buf @ t" "length (fst ?st) \<le> 40000" by simp_all
  ultimately show ?case by (auto simp: f(3) split: if_splits)
qed simp

lemma find_loop_skip:
  "Str ''features'' \<notin> set pre \<Longrightarrow> find_loop (pre @ ts) failed = find_loop ts failed"
  by (induction pre) auto

text \<open>
  C38: geotordf writes the lines of all features once and in order: where the first string \<open>features\<close> among
  the tokens starts an array with a feature in it and every feature can be decoded and marshalled,
  the pieces together are the lines, and each piece is longer than 40000 bytes, except the last.
\<close>

theorem geotordf_main_writes:
  assumes "Str ''features'' \<notin> set pre" and "More rest"
    and "map (feature_text F M) fs = map Some ts"
  shows "\<exists>ps. geotordf_main F M (pre @ Str ''features'' # Delim (CHR ''['') # rest) failed (map Some fs) = Inr ps
    \<and> concat ps = concat ts \<and> (\<forall>p. p \<in> set (butlast ps) \<longrightarrow> 40000 < length p)"
proof -
  have found: "findFeatureArray (pre @ Str ''features'' # Delim (CHR ''['') # rest) failed = Inr rest"
    using assms(2) by (simp add: findFeatureArray_def find_loop_skip [OF assms(1)] More_def)
  have "map (\<lambda>fo. Option.bind fo (feature_text F M)) (map Some fs) = map Some ts" using assms(3) by (simp add: comp_def)
  from geo_fold [OF this, of "[]" "[]"] obtain buf written where
    st: "err_fold (geo_step F M) (map Some fs) ([], []) = Inr (buf, written)" "concat written @ buf = concat ts"
    "\<forall>w \<in> set written. 40000 < length w" by auto
  then show ?thesis by (auto simp: geotordf_main_def found dest: in_set_butlastD)
qed

lemma count_replace_n:
  assumes "q \<noteq> a"
  shows "count_list (replace_n [q] [a] n s) q = count_list s q - n"
proof (induction "[q]" "[a]" n s rule: replace_n.induct)
  case (1 n s)
  show ?case
  proof (cases "n = 0 \<or> s = []")
    case False
    then obtain c cs where s: "s = c # cs" by (cases s) auto
    show ?thesis
    proof (cases "c = q")
      case True
      with 1(1) False s have "count_list (replace_n [q] [a] (n - 1) cs) q = count_list cs q - (n - 1)" by simp
      with False True s assms show ?thesis by (subst replace_n.simps) simp
    next
      case c: False
      with 1(2) False s have "count_list (replace_n [q] [a] n cs) q = count_list cs q - n" by simp
      with False c s show ?thesis by (subst replace_n.simps) simp
    qed
  qed (subst replace_n.simps, auto)
qed

text \<open>The quotes that are left: of a property none, of a geometry those after the first six.\<close>

lemma quotes_left:
  "count_list (Replace s quote apostrophe 6) (CHR 0x22) = count_list s (CHR 0x22) - 6"
  "count_list (Replace s quote apostrophe (- 1)) (CHR 0x22) = 0"
  using count_le_length [of s "CHR 0x22"]
  by (simp_all add: Replace_def quote_def apostrophe_def count_replace_n)

text \<open>
  The literals of geotordf: in the line of a geometry there are, beside the two around the literal,
  as many quotation marks as its JSON has above six, and in the line of a property whose name and
  identifier have none there are just the two.
\<close>

theorem geotordf_quotes:
  assumes "CHR 0x22 \<notin> set (uid_text uid)" and "CHR 0x22 \<notin> set (Replace (Trim k ''@#'') '':'' ''.'' (- 1))"
  shows "count_list (geo_line uid (Replace geo quote apostrophe 6)) (CHR 0x22) = 2 + (count_list geo (CHR 0x22) - 6)
    \<and> count_list (literal_line uid (k, Some v)) (CHR 0x22) = 2"
  using assms by (simp add: geo_line_def literal_line_def quoted_def quotes_left count_list_0_iff)

theorem geotordf_quotes_witness:
  "count_list (geo_line 255 (Replace (quoted ''type'' @ quoted ''Point'' @ quoted ''coordinates'') quote apostrophe 6)) (CHR 0x22) = 2
   \<and> literal_line 255 (''@a:b'', Some (quoted ''x''))
       = ''<_uid_:0xff> <a.b> '' @ quoted (apostrophe @ ''x'' @ apostrophe) @ '' .'' @ [CHR 0x0A]"
proof -
  have "CHR 0x22 \<notin> set (uid_text 255)" "CHR 0x22 \<notin> set (Replace (Trim ''@a:b'' ''@#'') '':'' ''.'' (- 1))" by code_simp+
  from geotordf_quotes [OF this, of "quoted ''type'' @ quoted ''Point'' @ quoted ''coordinates''"]
  have "count_list (geo_line 255 (Replace (quoted ''type'' @ quoted ''Point'' @ quoted ''coordinates'') quote apostrophe 6)) (CHR 0x22) = 2"
    by (simp add: quoted_def)
  moreover have "literal_line 255 (''@a:b'', Some (quoted ''x''))
      = ''<_uid_:0xff> <a.b> '' @ quoted (apostrophe @ ''x'' @ apostrophe) @ '' .'' @ [CHR 0x0A]" by code_simp
  ultimately show ?thesis by blast
qed

theorem geotordf_main_writes_witness:
  "geotordf_main (\<lambda>s. of_nat (length s)) Some [Delim (CHR ''{''), Str ''features'', Delim (CHR ''[''), Delim (CHR ''{'')] False
     (map Some [\<lparr>ID = ''ab'', Geometry = ''g'', Properties = [(''n'', Some ''v''), (''m'', None)]\<rparr>])
   = Inr [''<_uid_:0x2> <loc> '' @ quoted ''g'' @ ''^^<geo:geojson> .'' @ [CHR 0x0A] @ ''<_uid_:0x2> <n> '' @ quoted ''v'' @ '' .'' @ [CHR 0x0A]]"
proof -
  let ?f = "\<lparr>ID = ''ab'', Geometry = ''g'', Properties = [(''n'', Some ''v''), (''m'', None)]\<rparr>"
  let ?t = "''<_uid_:0x2> <loc> '' @ quoted ''g'' @ ''^^<geo:geojson> .'' @ [CHR 0x0A] @ ''<_uid_:0x2> <n> '' @ quoted ''v'' @ '' .'' @ [CHR 0x0A]"
  have t: "feature_text (\<lambda>s. of_nat (length s)) Some ?f = Some ?t" by code_simp
  have "More [Delim (CHR ''{'')]" by (simp add: More_def)
  from geotordf_main_writes [of "[Delim (CHR ''{'')]", OF _ this, of "\<lambda>s. of_nat (length s)" Some "[?f]" "[?t]" False] t
  obtain ps where ps: "geotordf_main (\<lambda>s. of_nat (length s)) Some [Delim (CHR ''{''), Str ''features'', Delim (CHR ''[''), Delim (CHR ''{'')] False
      (map Some [?f]) = Inr ps" "concat ps = ?t" by auto
  have found: "findFeatureArray [Delim (CHR ''{''), Str ''features'', Delim (CHR ''[''), Delim (CHR ''{'')] False = Inr [Delim (CHR ''{'')]"
    by (simp add: findFeatureArray_def More_def)
  have "ps = [?t]" using ps(1) t by (simp add: geotordf_main_def found geo_step_def quoted_def)
  with ps(1) show ?thesis by simp
qed

section \<open>What geofreebase writes\<close>

text \<open>The country of a line in English, and what is written for it.\<close>

definition line_country :: "string \<Rightarrow> string" where
  "line_country l = Trim (hd (Split CHR ''@'' (Split (CHR 0x09) l ! 2))) quote"

definition english :: "string list \<Rightarrow> string list" where
  "english ls = filter (\<lambda>l. Contains l ''@en'') ls"

lemma country_fold:
  "\<forall>l \<in> set (english ls). 3 \<le> length (Split (CHR 0x09) l) \<Longrightarrow>
   go_fold (country_line cs) ls (out, n1, n2) = Ret
     (out @ text_of (List.map_filter (\<lambda>l. map_option (\<lambda>g. hd (Split (CHR 0x09) l) @ '' <loc> '' @ quoted g @ ''^^<geo:geojson> .'')
              (cs (line_country l))) (english ls)),
      n1 + length (filter (\<lambda>l. cs (line_country l) \<noteq> None) (english ls)),
      n2 + length (filter (\<lambda>l. cs (line_country l) = None) (english ls)))"
proof (induction ls arbitrary: out n1 n2)
  case (Cons l ls)
  show ?case
  proof (cases "Contains l ''@en''")
    case True
    with Cons.prems have "go_index (Split (CHR 0x09) l) 2 = Ret (Split (CHR 0x09) l ! 2)"
      by (simp add: english_def go_index_def)
    with True Cons.IH Cons.prems show ?thesis
      by (cases "cs (line_country l)")
        (simp_all add: country_line_def Let_def line_country_def english_def map_filter_simps)
  next
    case False
    with Cons.IH Cons.prems show ?thesis by (simp add: country_line_def english_def)
  qed
qed (simp add: english_def map_filter_simps)

text \<open>
  geofreebase writes a line for each line in English whose country is among the features, with the
  last geometry of that name, in order; the two counts are those of the countries found and not
  found. The lines in English must have three fields.
\<close>

theorem geofreebase_main_writes:
  assumes "\<And>l. l \<in> set (english (fst (Scan MaxScanTokenSize rdf))) \<Longrightarrow> 3 \<le> length (Split (CHR 0x09) l)"
  shows "\<exists>cs. countryToGeo features False = Ret cs \<and> geofreebase_main features False rdf = Ret
    (let ls = english (fst (Scan MaxScanTokenSize rdf))
     in (text_of (List.map_filter (\<lambda>l. map_option (\<lambda>g. hd (Split (CHR 0x09) l) @ '' <loc> '' @ quoted g @ ''^^<geo:geojson> .'')
            (cs (line_country l))) ls),
         length (filter (\<lambda>l. cs (line_country l) \<noteq> None) ls), length (filter (\<lambda>l. cs (line_country l) = None) ls)))"
  using country_fold [of "fst (Scan MaxScanTokenSize rdf)" _ "[]" 0 0] assms
  by (auto simp: geofreebase_main_def countryToGeo_def Let_def)

theorem geofreebase_main_writes_witness:
  "\<exists>cs. countryToGeo [(Some ''Peru'', quoted ''g'')] False = Ret cs
     \<and> geofreebase_main [(Some ''Peru'', quoted ''g'')] False
         (text_of [''m'' @ [CHR 0x09] @ ''n'' @ [CHR 0x09] @ quoted ''Peru'' @ ''@en'', ''x'' @ [CHR 0x09] @ ''n'' @ [CHR 0x09] @ ''y@en''], False)
       = Ret (''m <loc> '' @ quoted (apostrophe @ ''g'' @ apostrophe) @ ''^^<geo:geojson> .'' @ [CHR 0x0A], 1, 1)"
proof -
  let ?l = "''m'' @ [CHR 0x09] @ ''n'' @ [CHR 0x09] @ quoted ''Peru'' @ ''@en''"
  let ?l' = "''x'' @ [CHR 0x09] @ ''n'' @ [CHR 0x09] @ ''y@en''"
  have scan: "fst (Scan MaxScanTokenSize (text_of [?l, ?l'], False)) = [?l, ?l']"
    by (simp add: Scan_def text_of_def scan_lines_unlines [unfolded text_of_def] plain_line_def quoted_def MaxScanTokenSize_def
        del: concat.simps list.map)
  have eng: "english [?l, ?l'] = [?l, ?l']" by code_simp
  have three: "\<forall>l \<in> set [?l, ?l']. 3 \<le> length (Split (CHR 0x09) l)" by code_simp
  have names: "map line_country [?l, ?l'] = [''Peru'', ''y'']" "map (\<lambda>l. hd (Split (CHR 0x09) l)) [?l, ?l'] = [''m'', ''x'']" by code_simp+
  from geofreebase_main_writes [of "(text_of [?l, ?l'], False)" "[(Some ''Peru'', quoted ''g'')]", unfolded scan eng] three
  obtain cs where cs: "countryToGeo [(Some ''Peru'', quoted ''g'')] False = Ret cs"
    and run: "geofreebase_main [(Some ''Peru'', quoted ''g'')] False (text_of [?l, ?l'], False) = Ret
      (text_of (List.map_filter (\<lambda>l. map_option (\<lambda>g. hd (Split (CHR 0x09) l) @ '' <loc> '' @ quoted g @ ''^^<geo:geojson> .'')
            (cs (line_country l))) [?l, ?l']),
         length (filter (\<lambda>l. cs (line_country l) \<noteq> None) [?l, ?l']), length (filter (\<lambda>l. cs (line_country l) = None) [?l, ?l']))"
    unfolding Let_def by blast
  have "Replace (quoted ''g'') quote apostrophe (- 1) = apostrophe @ ''g'' @ apostrophe" by code_simp
  with cs have "cs = [''Peru'' \<mapsto> apostrophe @ ''g'' @ apostrophe]" by (auto simp: countryToGeo_def country_step_def)
  with run names have "geofreebase_main [(Some ''Peru'', quoted ''g'')] False (text_of [?l, ?l'], False)
      = Ret (''m <loc> '' @ quoted (apostrophe @ ''g'' @ apostrophe) @ ''^^<geo:geojson> .'' @ [CHR 0x0A], 1, 1)"
    by (simp add: map_filter_simps)
  with cs show ?thesis by blast
qed

end
