(* ===== verification/GoDuration.thy ===== *)
theory GoDuration
  imports KStats GoTextFacts
begin

text \<open>
  \<open>time.ParseDuration\<close> of the Go library: a sign and a sequence of numbers with units, in nanoseconds.
  Sums and products that do not fit in 63 bits are errors.
\<close>

section \<open>Numbers\<close>

text \<open>The digits at the front: their value, unless it exceeds \<open>1 << 63\<close>, and what follows.\<close>

fun leadingInt :: "string \<Rightarrow> nat \<Rightarrow> (nat \<times> string) option" where
  "leadingInt [] x = Some (x, [])"
| "leadingInt (c # cs) x =
     (if \<not> is_digit c then Some (x, c # cs)
      else if 2 ^ 63 div 10 < x then None
      else let x = x * 10 + digit_val c in if 2 ^ 63 < x then None else leadingInt cs x)"

text \<open>The digits of a fraction, of which those that would overflow are dropped, and their scale.\<close>

fun leadingFraction :: "string \<Rightarrow> nat \<Rightarrow> float64 \<Rightarrow> bool \<Rightarrow> nat \<times> float64 \<times> string" where
  "leadingFraction [] x scale overflow = (x, scale, [])"
| "leadingFraction (c # cs) x scale overflow =
     (if \<not> is_digit c then (x, scale, c # cs)
      else if overflow \<or> (2 ^ 63 - 1) div 10 < x then leadingFraction cs x scale True
      else let y = x * 10 + digit_val c
           in if 2 ^ 63 < y then leadingFraction cs x scale True
              else leadingFraction cs y (fmul scale (fround 10)) False)"

definition unitMap :: "string \<Rightarrow> nat option" where
  "unitMap = map_of
     [(''ns'', 1), (''us'', 1000), ([CHR 0xC2, CHR 0xB5, CHR ''s''], 1000), ([CHR 0xCE, CHR 0xBC, CHR ''s''], 1000),
      (''ms'', 1000000), (''s'', 1000000000), (''m'', 60 * 1000000000), (''h'', 3600 * 1000000000)]"

section \<open>Terms\<close>

text \<open>A number with its unit: the nanoseconds, and the text after it.\<close>

definition duration_term :: "string \<Rightarrow> (nat \<times> string) option" where
  "duration_term s =
     (if s = [] \<or> \<not> (hd s = CHR ''.'' \<or> is_digit (hd s)) then None
      else case leadingInt s 0 of
        None \<Rightarrow> None
      | Some (v, s1) \<Rightarrow>
          let pre = length s1 \<noteq> length s;
              (f, scale, s2, post) =
                (if s1 \<noteq> [] \<and> hd s1 = CHR ''.'' then
                   let (f, scale, s2) = leadingFraction (tl s1) 0 (Fin 1) False
                   in (f, scale, s2, length s2 \<noteq> length (tl s1))
                 else (0, Fin 1, s1, False))
          in if \<not> pre \<and> \<not> post then None
             else let u = takeWhile (\<lambda>c. \<not> (c = CHR ''.'' \<or> is_digit c)) s2
                  in if u = [] then None
                     else case unitMap u of
                       None \<Rightarrow> None
                     | Some unt \<Rightarrow>
                         if 2 ^ 63 div unt < v then None
                         else let v = v * unt;
                                  v = (if 0 < f then v + nat (int_of_float (fmul (float_of_int (int f))
                                                           (fdiv (float_of_int (int unt)) scale)))
                                       else v)
                              in if 2 ^ 63 < v then None else Some (v, drop (length u) s2))"

lemma leadingInt_length: "leadingInt s x = Some (v, r) \<Longrightarrow> length r \<le> length s"
  by (induction s x rule: leadingInt.induct) (force simp: Let_def split: if_splits)+

lemma leadingFraction_length: "leadingFraction s x sc ov = (f, sc', r) \<Longrightarrow> length r \<le> length s"
  by (induction s x sc ov rule: leadingFraction.induct) (force simp: Let_def split: if_splits)+

lemma duration_term_length: "duration_term s = Some (v, r) \<Longrightarrow> length r < length s"
  by (auto simp: duration_term_def Let_def split: if_splits option.splits prod.splits
      dest!: leadingInt_length leadingFraction_length)

section \<open>The whole text\<close>

function parse_terms :: "string \<Rightarrow> nat \<Rightarrow> nat option" where
  "parse_terms s d =
     (if s = [] then Some d
      else case duration_term s of
        None \<Rightarrow> None
      | Some (v, r) \<Rightarrow> let d = (d + v) mod 2 ^ 64 in if 2 ^ 63 < d then None else parse_terms r d)"
  by pat_completeness auto
termination
  by (relation "measure (\<lambda>(s, d). length s)") (auto simp: duration_term_length)

declare parse_terms.simps [simp del]

definition ParseDuration :: "string \<Rightarrow> int option" where
  "ParseDuration s =
     (let (neg, s) = strip_sign s
      in if s = ''0'' then Some 0
         else if s = [] then None
         else case parse_terms s 0 of
                None \<Rightarrow> None
              | Some d \<Rightarrow> if neg then Some (wrap64 (- int d)) else if 2 ^ 63 - 1 < d then None else Some (int d))"

section \<open>Whole numbers with a unit\<close>

lemma leadingInt_digits:
  "\<lbrakk> list_all is_digit s; foldl (\<lambda>n c. 10 * n + digit_val c) x s < 2 ^ 63; r = [] \<or> \<not> is_digit (hd r) \<rbrakk> \<Longrightarrow>
   leadingInt (s @ r) x = Some (foldl (\<lambda>n c. 10 * n + digit_val c) x s, r)"
proof (induction s arbitrary: x)
  case Nil
  then show ?case by (cases r) simp_all
next
  case (Cons c s)
  have le: "y \<le> foldl (\<lambda>n c. 10 * n + digit_val c) y s" for y s
  proof (induction s arbitrary: y)
    case (Cons c s)
    from Cons.IH [of "10 * y + digit_val c"] show ?case by simp
  qed simp
  have "10 * x + digit_val c < 2 ^ 63" using le [of "10 * x + digit_val c" s] Cons.prems(2) by simp
  with Cons show ?case by (simp add: mult.commute)
qed

lemma unit_chars:
  assumes "unitMap u = Some k"
  shows "u \<noteq> [] \<and> list_all (\<lambda>c. \<not> (c = CHR ''.'' \<or> is_digit c)) u \<and> 0 < k"
proof -
  have "list_all (\<lambda>(u, k). u \<noteq> [] \<and> list_all (\<lambda>c. \<not> (c = CHR ''.'' \<or> is_digit c)) u \<and> 0 < k)
     [(''ns'', 1 :: nat), (''us'', 1000), ([CHR 0xC2, CHR 0xB5, CHR ''s''], 1000), ([CHR 0xCE, CHR 0xBC, CHR ''s''], 1000),
      (''ms'', 1000000), (''s'', 1000000000), (''m'', 60 * 1000000000), (''h'', 3600 * 1000000000)]"
    by (simp add: is_digit_def)
  with assms [unfolded unitMap_def, THEN map_of_SomeD] show ?thesis by (auto simp only: list_all_iff prod.case)
qed

lemma duration_term_whole:
  assumes "unitMap u = Some k" and "n * k < 2 ^ 63"
  shows "duration_term (decimal n @ u) = Some (n * k, [])"
proof -
  from unit_chars [OF assms(1)] have u: "u \<noteq> []" "list_all (\<lambda>c. \<not> (c = CHR ''.'' \<or> is_digit c)) u" "0 < k" by auto
  then have hd_u: "hd u \<noteq> CHR ''.''" "\<not> is_digit (hd u)" by (cases u; simp)+
  from u(3) have "n \<le> n * k" by simp
  then have "n < 2 ^ 63" using assms(2) by (rule le_less_trans)
  then have lead: "leadingInt (decimal n @ u) 0 = Some (n, u)"
    using leadingInt_digits [of "decimal n" 0 u] hd_u
    by (simp add: list_all_iff decimal_digits flip: digits_val_def)
  have tw: "takeWhile (\<lambda>c. c \<noteq> CHR ''.'' \<and> \<not> is_digit c) u = u"
    using u(2) by (simp add: takeWhile_eq_all_conv list_all_iff)
  have "\<not> 2 ^ 63 div k < n"
    using assms(2) u(3) by (simp add: not_less less_eq_div_iff_mult_less_eq)
  then show ?thesis
    using u(1,3) hd_u assms hd_decimal_digit [of n] by (simp add: duration_term_def lead tw Let_def)
qed

text \<open>A whole number with a unit is read as it is written.\<close>

lemma ParseDuration_whole:
  assumes "unitMap u = Some k" and "n * k < 2 ^ 63"
  shows "ParseDuration (decimal n @ u) = Some (int (n * k))"
proof -
  obtain c cs where d: "decimal n = c # cs" by (cases "decimal n") simp_all
  have "is_digit c" using hd_decimal_digit [of n] d by simp
  then have "strip_sign (decimal n @ u) = (False, decimal n @ u)"
    using digit_not_sign by (auto simp: strip_sign_def d)
  moreover from unit_chars [OF assms(1)] have u: "u \<noteq> []" "list_all (\<lambda>c. \<not> (c = CHR ''.'' \<or> is_digit c)) u" by auto
  then have "decimal n @ u \<noteq> ''0''" using d by (cases cs) (auto simp: Cons_eq_append_conv)
  moreover have "parse_terms (decimal n @ u) 0 = Some (n * k)"
    using duration_term_whole [OF assms] assms(2) d
    by (subst parse_terms.simps) (simp add: parse_terms.simps [of "[]"])
  ultimately show ?thesis using d assms(2) u(1) by (simp add: ParseDuration_def)
qed

end
