(* ===== verification/LoadTests.thy ===== *)
theory LoadTests
  imports GoDuration "HOL-Library.Word"
begin

text \<open>
  The programs that measure a server: loadtest (two copies of the same file), throughputtest and
  pbbenchmark. The answers of the server, the random choices and the clock are parameters; the
  results are the values printed. Durations are int64 nanoseconds, as integers in that range.
\<close>

unbundle bit_operations_syntax

section \<open>Answers\<close>

text \<open>The values of JSON as far as the programs look into them; an object has its members in order.\<close>

datatype json = JObj "(string \<times> json) list" | JNum float64 | JStr string | JOther

type_synonym obj = "string \<Rightarrow> json option"

definition members :: "(string \<times> json) list \<Rightarrow> obj" where
  "members kvs = foldl (\<lambda>m (k, v). m(k \<mapsto> v)) Map.empty kvs"

text \<open>
  Unmarshalling into a map that is already there leaves the members that the text does not have. An
  answer that does not come or cannot be read is \<open>None\<close>.
\<close>

definition unmarshal :: "(string \<times> json) list \<Rightarrow> obj \<Rightarrow> obj" where
  "unmarshal kvs dat = dat ++ members kvs"

section \<open>The pinger\<close>

record pinger =
  dat :: obj
  p_ti :: int
  proT :: int
  jsonT :: int
  parT :: int
  totT :: int

text \<open>A duration in the member \<open>k\<close>: it must be a string; one that does not parse counts as 0.\<close>

definition latency_of :: "obj \<Rightarrow> string \<Rightarrow> int go" where
  "latency_of latency k =
     (case latency k of
        Some (JStr s) \<Rightarrow> Ret (case ParseDuration s of None \<Rightarrow> 0 | Some d \<Rightarrow> d)
      | _ \<Rightarrow> Panic AssertFailed)"

text \<open>
  A request: the time that it took and the answer. Where the request fails the program looks into
  the missing response; an answer that cannot be read is fatal.
\<close>

datatype reply = NoReply | Unreadable | Reply "(string \<times> json) list"

definition ping :: "int \<times> reply \<Rightarrow> unit + pinger \<Rightarrow> (unit + pinger) go" where
  "ping = (\<lambda>(d, r) st. go_bind (Ret st) (\<lambda>st. case st of Inl e \<Rightarrow> Ret (Inl e) | Inr st \<Rightarrow>
     (case r of
        NoReply \<Rightarrow> Panic NilDeref
      | Unreadable \<Rightarrow> Ret (Inl ())
      | Reply kvs \<Rightarrow>
          let st = st\<lparr>dat := unmarshal kvs (dat st), p_ti := wrap64 (p_ti st + d)\<rparr>
          in case dat st ''server_latency'' of
               Some (JObj ls) \<Rightarrow>
                 let latency = members ls
                 in go_bind (latency_of latency ''processing'') (\<lambda>pro.
                    go_bind (latency_of latency ''json'') (\<lambda>js.
                    go_bind (latency_of latency ''parsing'') (\<lambda>par.
                    go_bind (latency_of latency ''total'') (\<lambda>tot.
                      Ret (Inr (st\<lparr>proT := wrap64 (proT st + pro), jsonT := wrap64 (jsonT st + js),
                                   parT := wrap64 (parT st + par), totT := wrap64 (totT st + tot)\<rparr>))))))
             | _ \<Rightarrow> Panic AssertFailed)))"

definition pinger_start :: pinger where
  "pinger_start = \<lparr>dat = Map.empty, p_ti = 0, proT = 0, jsonT = 0, parT = 0, totT = 0\<rparr>"

definition pinger_user :: "(int \<times> reply) list \<Rightarrow> (unit + pinger) go" where
  "pinger_user rs = go_fold ping rs (Inr pinger_start)"

text \<open>The sums over the users, in the order in which they send, and the averages that are printed.\<close>

definition float_sum :: "float64 list \<Rightarrow> float64" where
  "float_sum xs = foldl fadd (Fin 0) xs"

definition pinger_average :: "int \<Rightarrow> int \<Rightarrow> int list \<Rightarrow> float64 \<times> float64" where
  "pinger_average numUser numReq ds =
     (let s = float_sum (map Seconds ds) in (s, fdiv s (float_of_int (wrap64 (numUser * numReq)))))"

section \<open>The throughput test\<close>

record user =
  u_dat :: obj
  u_count :: int
  u_proT :: int
  u_jsonT :: int
  u_parT :: int
  u_totT :: int
  u_lats :: "float64 list"

text \<open>A duration in nanoseconds that must be a number.\<close>

definition nanos_of :: "obj \<Rightarrow> string \<Rightarrow> int go" where
  "nanos_of latency k = (case latency k of Some (JNum x) \<Rightarrow> Ret (int_of_float x) | _ \<Rightarrow> Panic AssertFailed)"

definition user_request :: "(string \<times> json) list option \<Rightarrow> unit + user \<Rightarrow> (unit + user) go" where
  "user_request r st = (case st of Inl e \<Rightarrow> Ret (Inl e) | Inr st \<Rightarrow>
     (case r of
        None \<Rightarrow> Ret (Inl ())
      | Some kvs \<Rightarrow>
          let st = st\<lparr>u_count := u_count st + 1, u_dat := unmarshal kvs (u_dat st)\<rparr>
          in case u_dat st ''extensions'' of
               Some (JObj es) \<Rightarrow>
                 (case members es ''server_latency'' of
                    Some (JObj ls) \<Rightarrow>
                      let latency = members ls
                      in go_bind (nanos_of latency ''encoding_ns'') (\<lambda>pro.
                         go_bind (nanos_of latency ''parsing_ns'') (\<lambda>js.
                         go_bind (nanos_of latency ''processing_ns'') (\<lambda>par.
                           let tot = wrap64 (wrap64 (pro + js) + par)
                           in Ret (Inr (st\<lparr>u_proT := wrap64 (u_proT st + pro), u_jsonT := wrap64 (u_jsonT st + js),
                                           u_parT := wrap64 (u_parT st + par), u_totT := wrap64 (u_totT st + tot),
                                           u_lats := u_lats st @ [Seconds tot]\<rparr>)))))
                  | _ \<Rightarrow> Ret (Inl ()))
             | _ \<Rightarrow> Ret (Inl ())))"

definition user_start :: user where
  "user_start = \<lparr>u_dat = Map.empty, u_count = 0, u_proT = 0, u_jsonT = 0, u_parT = 0, u_totT = 0, u_lats = []\<rparr>"

text \<open>The requests that the clock allows, one after the other.\<close>

definition throughput_user :: "(string \<times> json) list option list \<Rightarrow> (unit + user) go" where
  "throughput_user rs = go_fold user_request rs (Inr user_start)"

record report =
  totCount :: int
  throughput :: float64
  avgTime :: float64
  median :: float64
  pct95 :: float64
  minLat :: float64
  maxLat :: float64

text \<open>
  What is printed, from the counts and the totals that the users have sent, in that order, and the
  latencies that have been collected when the sum is taken.
\<close>

definition throughput_report :: "float64 \<Rightarrow> int list \<Rightarrow> int list \<Rightarrow> float64 list \<Rightarrow> report go" where
  "throughput_report numSec counts totals allLat =
     (let totCount = foldl (\<lambda>n c. wrap64 (n + c)) 0 counts;
          totTi = float_sum (map Seconds totals);
          xs = sort allLat; n = int (length allLat); ms = fmul (Fin 1000)
      in go_bind (go_index xs (go_quot n 2)) (\<lambda>mid.
         go_bind (go_index xs (go_quot (95 * n) 100)) (\<lambda>p95.
         go_bind (go_index xs 0) (\<lambda>lo.
         go_bind (go_index xs (n - 1)) (\<lambda>hi.
           Ret \<lparr>totCount = totCount, throughput = fdiv (float_of_int totCount) (fmul (Fin 3) numSec),
                avgTime = fdiv (ms totTi) (float_of_int totCount), median = ms mid, pct95 = ms p95,
                minLat = ms lo, maxLat = ms hi\<rparr>)))))"

section \<open>Protocol buffers against JSON\<close>

datatype node = Node "node list"

fun numChildren :: "node \<Rightarrow> int" where
  "numChildren (Node cs) = foldl (+) 0 (map numChildren cs) + 1"

text \<open>
  The result for one query, from the number of entities in the JSON text, the node of the protocol
  buffer and the two durations. The latency is meant in milliseconds; the code divides by 10 and
  takes the exclusive or with 6.
\<close>

definition ratio_of :: "int \<Rightarrow> node \<Rightarrow> int \<Rightarrow> int \<Rightarrow> (int \<times> float64 \<times> int) option" where
  "ratio_of numEntities n pbTime jsonTime =
     (if numEntities \<noteq> numChildren n then None
      else Some (numEntities, fdiv (float_of_int pbTime) (float_of_int jsonTime), go_quot jsonTime 10 XOR 6))"

record eRatio =
  e_count :: int
  e_ratio :: float64
  jsonL :: int

definition zero_ratio :: eRatio where
  "zero_ratio = \<lparr>e_count = 0, e_ratio = Fin 0, jsonL = 0\<rparr>"

definition add_ratio :: "int \<times> float64 \<times> int \<Rightarrow> (int \<Rightarrow> eRatio option) \<Rightarrow> (int \<Rightarrow> eRatio option)" where
  "add_ratio = (\<lambda>(ne, r, jl) rmap.
     let er = (case rmap ne of None \<Rightarrow> zero_ratio | Some er \<Rightarrow> er)
     in rmap(ne \<mapsto> er\<lparr>e_count := e_count er + 1, e_ratio := fadd (e_ratio er) r, jsonL := wrap64 (jsonL er + jl)\<rparr>))"

text \<open>
  The loop over the entities while there is time: \<open>clock k\<close> tells it before the \<open>k\<close>-th query. A query
  that fails is fatal.
\<close>

fun query_loop ::
  "(nat \<Rightarrow> bool) \<Rightarrow> (string \<Rightarrow> (int \<times> float64 \<times> int) option) \<Rightarrow> string list \<Rightarrow> nat \<Rightarrow> (int \<Rightarrow> eRatio option) \<Rightarrow>
     (int \<Rightarrow> eRatio option) option" where
  "query_loop clock getRatio [] k rmap = Some rmap"
| "query_loop clock getRatio (d # ds) k rmap =
     (if clock k then (case getRatio d of None \<Rightarrow> None | Some r \<Rightarrow> query_loop clock getRatio ds (k + 1) (add_ratio r rmap))
      else Some rmap)"

definition Query :: "(nat \<Rightarrow> bool) \<Rightarrow> (string \<Rightarrow> (int \<times> float64 \<times> int) option) \<Rightarrow> string list \<Rightarrow> string \<Rightarrow> string \<Rightarrow>
    (int \<Rightarrow> eRatio option) option" where
  "Query clock getRatio entity q1 q2 = query_loop clock (\<lambda>d. getRatio (q1 @ d @ q2)) entity 0 Map.empty"

text \<open>A row of the CSV file: the entities, the average ratio and the average latency.\<close>

definition ratio_row :: "int \<times> eRatio \<Rightarrow> int \<times> float64 \<times> int" where
  "ratio_row = (\<lambda>(k, v). (k, fdiv (e_ratio v) (float_of_int (e_count v)), go_quot (jsonL v) (e_count v)))"

text \<open>The rows in the order \<open>order\<close> of the map.\<close>

definition testQuery :: "(nat \<Rightarrow> bool) \<Rightarrow> (string \<Rightarrow> (int \<times> float64 \<times> int) option) \<Rightarrow> string list \<Rightarrow> string \<Rightarrow> string \<Rightarrow>
    int list \<Rightarrow> (int \<times> float64 \<times> int) list option" where
  "testQuery clock getRatio entity q1 q2 order =
     map_option (\<lambda>rm. map (\<lambda>k. ratio_row (k, the (rm k))) order) (Query clock getRatio entity q1 q2)"

end
