(* ===== verification/LoadTestsProps.thy ===== *)
theory LoadTestsProps
  imports LoadTests
begin

text \<open>
  What the measuring programs compute: the accounts of a user, the order of the percentiles, the
  sums for each number of entities.
\<close>

section \<open>Accounts of a user\<close>

lemma wrap64_add: "wrap64 (wrap64 a + b) = wrap64 (a + b)" "wrap64 (a + wrap64 b) = wrap64 (a + b)"
  by (simp_all add: wrap64_def)

lemma sum_three: "wrap64 (wrap64 (a + b + c) + wrap64 (wrap64 (x + y) + z)) = wrap64 (wrap64 (a + x) + wrap64 (b + y) + wrap64 (c + z))"
  by (simp add: wrap64_def algebra_simps)

lemma nanos_of_Ret: "nanos_of m k = Ret d \<longleftrightarrow> (\<exists>x. m k = Some (JNum x) \<and> d = int_of_float x)"
  by (auto simp: nanos_of_def split: option.splits json.splits)

text \<open>A request that ends normally.\<close>

lemma user_request_Ret:
  assumes "user_request r (Inr st) = Ret (Inr st')"
  obtains kvs es ls pro js par where "r = Some kvs"
    "unmarshal kvs (u_dat st) ''extensions'' = Some (JObj es)" "members es ''server_latency'' = Some (JObj ls)"
    "nanos_of (members ls) ''encoding_ns'' = Ret pro" "nanos_of (members ls) ''parsing_ns'' = Ret js"
    "nanos_of (members ls) ''processing_ns'' = Ret par"
    "st' = st\<lparr>u_count := u_count st + 1, u_dat := unmarshal kvs (u_dat st), u_proT := wrap64 (u_proT st + pro),
               u_jsonT := wrap64 (u_jsonT st + js), u_parT := wrap64 (u_parT st + par),
               u_totT := wrap64 (u_totT st + wrap64 (wrap64 (pro + js) + par)),
               u_lats := u_lats st @ [Seconds (wrap64 (wrap64 (pro + js) + par))]\<rparr>"
  using assms unfolding user_request_def
  by (cases r) (auto simp: go_simps Let_def split: option.splits json.splits)

definition accounts :: "user \<Rightarrow> bool" where
  "accounts st \<longleftrightarrow> u_count st = int (length (u_lats st)) \<and> u_totT st = wrap64 (u_proT st + u_jsonT st + u_parT st)"

lemma user_request_accounts:
  assumes "user_request r (Inr st) = Ret (Inr st')" and "accounts st"
  shows "accounts st' \<and> length (u_lats st') = Suc (length (u_lats st))"
  using assms(1)
proof (rule user_request_Ret)
  fix kvs es ls pro js par
  assume "st' = st\<lparr>u_count := u_count st + 1, u_dat := unmarshal kvs (u_dat st), u_proT := wrap64 (u_proT st + pro),
               u_jsonT := wrap64 (u_jsonT st + js), u_parT := wrap64 (u_parT st + par),
               u_totT := wrap64 (u_totT st + wrap64 (wrap64 (pro + js) + par)),
               u_lats := u_lats st @ [Seconds (wrap64 (wrap64 (pro + js) + par))]\<rparr>"
  with assms(2) show ?thesis by (simp add: accounts_def sum_three)
qed

lemma user_error: "go_fold user_request rs (Inl e) = Ret (Inl e)"
  by (induction rs) (simp_all add: user_request_def)

lemma user_fold_accounts:
  "\<lbrakk> go_fold user_request rs (Inr st) = Ret (Inr st'); accounts st \<rbrakk> \<Longrightarrow>
   accounts st' \<and> length (u_lats st') = length (u_lats st) + length rs"
proof (induction rs arbitrary: st)
  case (Cons r rs)
  from Cons.prems(1) obtain x where x: "user_request r (Inr st) = Ret x" "go_fold user_request rs x = Ret (Inr st')"
    by (auto simp: go_simps)
  then obtain st1 where st1: "x = Inr st1" by (cases x) (auto simp: user_error)
  with user_request_accounts [of r st st1] x Cons.prems(2) have "accounts st1" "length (u_lats st1) = Suc (length (u_lats st))" by auto
  with Cons.IH [of st1] x st1 show ?case by simp
qed simp

text \<open>
  A user of throughputtest keeps its accounts: at the end it has counted its requests and sent a
  latency for each, and the total is, in int64, the sum of the times for encoding, parsing and
  processing.
\<close>

theorem throughput_user_accounts:
  assumes "throughput_user rs = Ret (Inr st)"
  shows "u_count st = int (length rs) \<and> length (u_lats st) = length rs
    \<and> u_totT st = wrap64 (u_proT st + u_jsonT st + u_parT st)"
proof -
  have "accounts user_start" by (simp add: accounts_def user_start_def wrap64_small)
  with user_fold_accounts [OF assms [unfolded throughput_user_def]] show ?thesis
    by (simp add: accounts_def user_start_def)
qed

definition demo_answer :: "rat \<Rightarrow> (string \<times> json) list" where
  "demo_answer x = [(''extensions'', JObj [(''server_latency'', JObj [(''encoding_ns'', JNum (Fin x)),
     (''parsing_ns'', JNum (Fin 20)), (''processing_ns'', JNum (Fin 3))])])]"

lemma demo_request:
  "user_request (Some (demo_answer (of_int x))) (Inr st) = Ret (Inr (st\<lparr>u_count := u_count st + 1,
     u_dat := unmarshal (demo_answer (of_int x)) (u_dat st), u_proT := wrap64 (u_proT st + x), u_jsonT := wrap64 (u_jsonT st + 20),
     u_parT := wrap64 (u_parT st + 3), u_totT := wrap64 (u_totT st + wrap64 (wrap64 (x + 20) + 3)),
     u_lats := u_lats st @ [Seconds (wrap64 (wrap64 (x + 20) + 3))]\<rparr>))"
  by (simp add: user_request_def demo_answer_def unmarshal_def members_def nanos_of_def Let_def)

theorem throughput_user_accounts_witness:
  "\<exists>st. throughput_user [Some (demo_answer (of_int 100)), Some (demo_answer (of_int 200))] = Ret (Inr st)
     \<and> u_count st = 2 \<and> u_totT st = 346"
proof -
  obtain st where st: "throughput_user [Some (demo_answer (of_int 100)), Some (demo_answer (of_int 200))] = Ret (Inr st)"
    "u_proT st = wrap64 (wrap64 (0 + 100) + 200)" "u_jsonT st = wrap64 (wrap64 (0 + 20) + 20)" "u_parT st = wrap64 (wrap64 (0 + 3) + 3)"
    by (simp add: throughput_user_def demo_request user_start_def del: of_int_numeral)
  from throughput_user_accounts [OF st(1)] st show ?thesis by (simp add: wrap64_small)
qed

text \<open>
  An answer without the member \<open>extensions\<close> is not noticed after the first: the map that is
  unmarshalled into still has those of the answer before, whose latency is counted again.
\<close>

theorem stale_latency_counted:
  assumes "user_request (Some kvs) (Inr st) = Ret (Inr st1)" and "''extensions'' \<notin> fst ` set kvs'"
  shows "\<exists>st2. user_request (Some kvs') (Inr st1) = Ret (Inr st2) \<and> u_lats st2 = u_lats st1 @ [last (u_lats st1)]
    \<and> u_count st2 = u_count st1 + 1"
  using assms(1)
proof (rule user_request_Ret)
  fix kvs1 es ls pro js par
  assume ext: "unmarshal kvs1 (u_dat st) ''extensions'' = Some (JObj es)" "members es ''server_latency'' = Some (JObj ls)"
    "nanos_of (members ls) ''encoding_ns'' = Ret pro" "nanos_of (members ls) ''parsing_ns'' = Ret js"
    "nanos_of (members ls) ''processing_ns'' = Ret par"
    and st1: "st1 = st\<lparr>u_count := u_count st + 1, u_dat := unmarshal kvs1 (u_dat st), u_proT := wrap64 (u_proT st + pro),
               u_jsonT := wrap64 (u_jsonT st + js), u_parT := wrap64 (u_parT st + par),
               u_totT := wrap64 (u_totT st + wrap64 (wrap64 (pro + js) + par)),
               u_lats := u_lats st @ [Seconds (wrap64 (wrap64 (pro + js) + par))]\<rparr>"
  have absent: "foldl (\<lambda>m (k, v). m(k \<mapsto> v)) m kvs ''extensions'' = m ''extensions''"
    if "''extensions'' \<notin> fst ` set kvs" for m :: obj and kvs
    using that by (induction kvs arbitrary: m) auto
  have "unmarshal kvs' (u_dat st1) ''extensions'' = Some (JObj es)"
    using ext(1) absent [OF assms(2), of Map.empty] by (simp add: unmarshal_def members_def map_add_def st1)
  then show ?thesis using ext by (simp add: user_request_def Let_def) (simp add: st1)
qed

theorem stale_latency_counted_witness:
  "\<exists>st. throughput_user [Some (demo_answer (of_int 100)), Some [(''data'', JOther)]] = Ret (Inr st)
     \<and> u_lats st = [Seconds (wrap64 (wrap64 (100 + 20) + 3)), Seconds (wrap64 (wrap64 (100 + 20) + 3))]"
  using stale_latency_counted [OF demo_request [of 100 user_start], of "[(''data'', JOther)]"]
  by (auto simp: throughput_user_def demo_request user_start_def simp del: of_int_numeral)

section \<open>The report\<close>

lemma sort_Fin_nth:
  assumes "\<And>x. x \<in> set xs \<Longrightarrow> \<exists>q. x = Fin q" and "i \<le> j" and "j < length xs"
  shows "fle (fmul (Fin 1000) (sort xs ! i)) (fmul (Fin 1000) (sort xs ! j))"
proof -
  from assms(2,3) have "sort xs ! i \<in> set xs" "sort xs ! j \<in> set xs"
    using nth_mem [of i "sort xs"] nth_mem [of j "sort xs"] by auto
  with assms(1) obtain a b where ab: "sort xs ! i = Fin a" "sort xs ! j = Fin b" by blast
  have "sort xs ! i \<le> sort xs ! j" using assms(2,3) by (intro sorted_nth_mono) simp_all
  then have "fle (Fin a) (Fin b)" by (simp add: ab le_iff_fle)
  with fle_fmul_mono [of a b 1000] show ?thesis by (simp add: ab mult.commute)
qed

lemma go_quot_nat: "go_quot (int a) (int b) = int (a div b)"
  by (simp add: go_quot_def sgn_if zdiv_int)

text \<open>
  The report of throughputtest: with no latency the program panics; otherwise the median and the
  95th percentile lie in order between the least and the greatest latency.
\<close>

theorem throughput_report_ordered:
  assumes "\<And>x. x \<in> set allLat \<Longrightarrow> \<exists>q. x = Fin q"
  shows "(allLat = [] \<and> throughput_report numSec counts totals allLat = Panic IndexOutOfRange)
    \<or> (\<exists>r. throughput_report numSec counts totals allLat = Ret r \<and> fle (minLat r) (median r) \<and> fle (median r) (pct95 r)
        \<and> fle (pct95 r) (maxLat r))"
proof (cases "allLat = []")
  case True
  then show ?thesis by (simp add: throughput_report_def go_index_def Let_def go_quot_def)
next
  case False
  define n where "n = length allLat"
  from False have n: "0 < n" by (simp add: n_def)
  have q: "go_quot (int n) 2 = int (n div 2)" "go_quot (95 * int n) 100 = int (95 * n div 100)"
    using go_quot_nat [of n 2] go_quot_nat [of "95 * n" 100] by simp_all
  have last: "int n - 1 = int (n - 1)" using n by simp
  have index: "go_index (sort allLat) (int i) = Ret (sort allLat ! i)" if "i < n" for i
    using that by (simp add: go_index_nat n_def)
  have "go_index (sort allLat) 0 = Ret (sort allLat ! 0)" using index [of 0] n by simp
  note index = this index [of "n div 2"] index [of "95 * n div 100"] index [of "n - 1"]
  have "throughput_report numSec counts totals allLat
      = Ret \<lparr>totCount = foldl (\<lambda>n c. wrap64 (n + c)) 0 counts,
             throughput = fdiv (float_of_int (foldl (\<lambda>n c. wrap64 (n + c)) 0 counts)) (fmul (Fin 3) numSec),
             avgTime = fdiv (fmul (Fin 1000) (float_sum (map Seconds totals))) (float_of_int (foldl (\<lambda>n c. wrap64 (n + c)) 0 counts)),
             median = fmul (Fin 1000) (sort allLat ! (n div 2)), pct95 = fmul (Fin 1000) (sort allLat ! (95 * n div 100)),
             minLat = fmul (Fin 1000) (sort allLat ! 0), maxLat = fmul (Fin 1000) (sort allLat ! (n - 1))\<rparr>"
    unfolding throughput_report_def Let_def n_def [symmetric] q last
    using n index by simp
  moreover have "fle (fmul (Fin 1000) (sort allLat ! i)) (fmul (Fin 1000) (sort allLat ! j))" if "i \<le> j" "j < n" for i j
    using sort_Fin_nth [OF assms, of allLat i j] that by (simp add: n_def)
  moreover have "n div 2 \<le> 95 * n div 100" by linarith
  ultimately show ?thesis using n by auto
qed

theorem throughput_report_ordered_witness:
  "\<exists>r. throughput_report (Fin 10) [3] [6] [Fin 3, Fin 1, Fin 2] = Ret r \<and> fle (minLat r) (median r) \<and> fle (pct95 r) (maxLat r)"
  using throughput_report_ordered [of "[Fin 3, Fin 1, Fin 2]" "Fin 10" "[3]" "[6]"] by auto

section \<open>Ratios\<close>

fun nodes :: "node \<Rightarrow> node list" where
  "nodes (Node cs) = Node cs # concat (map nodes cs)"

lemma foldl_sum: "foldl (+) (a :: int) xs = a + sum_list xs"
  by (induction xs arbitrary: a) simp_all

lemma numChildren_nodes: "numChildren n = int (length (nodes n))"
proof (induction n rule: numChildren.induct)
  case (1 cs)
  then have "sum_list (map numChildren cs) = int (length (concat (map nodes cs)))"
    by (induction cs) simp_all
  then show ?case by (simp add: foldl_sum)
qed

text \<open>The results with a given number of entities.\<close>

definition results_for :: "int \<Rightarrow> (int \<times> float64 \<times> int) list \<Rightarrow> (float64 \<times> int) list" where
  "results_for ne rs = map snd (filter (\<lambda>r. fst r = ne) rs)"

definition ratio_for :: "(float64 \<times> int) list \<Rightarrow> eRatio option" where
  "ratio_for rs =
     (if rs = [] then None
      else Some \<lparr>e_count = int (length rs), e_ratio = foldl fadd (Fin 0) (map fst rs), jsonL = sum64 (map snd rs)\<rparr>)"

lemma ratio_for_snoc:
  "ratio_for (rs @ [(r, jl)]) = Some ((case ratio_for rs of None \<Rightarrow> zero_ratio | Some er \<Rightarrow> er)
     \<lparr>e_count := e_count (case ratio_for rs of None \<Rightarrow> zero_ratio | Some er \<Rightarrow> er) + 1,
      e_ratio := fadd (e_ratio (case ratio_for rs of None \<Rightarrow> zero_ratio | Some er \<Rightarrow> er)) r,
      jsonL := wrap64 (jsonL (case ratio_for rs of None \<Rightarrow> zero_ratio | Some er \<Rightarrow> er) + jl)\<rparr>)"
  by (simp add: ratio_for_def zero_ratio_def sum64_def)

lemma add_ratio_for:
  "add_ratio r (\<lambda>ne. ratio_for (results_for ne rs)) = (\<lambda>ne. ratio_for (results_for ne (rs @ [r])))"
  by (cases r) (auto simp: add_ratio_def Let_def results_for_def ratio_for_snoc fun_eq_iff)

lemma query_loop_results:
  "query_loop clock getRatio ds k (\<lambda>ne. ratio_for (results_for ne rs)) = Some rm \<Longrightarrow>
   \<exists>m new. m \<le> length ds \<and> map getRatio (take m ds) = map Some new \<and> (m = length ds \<or> \<not> clock (k + m))
     \<and> rm = (\<lambda>ne. ratio_for (results_for ne (rs @ new)))"
proof (induction ds arbitrary: k rs)
  case (Cons d ds)
  show ?case
  proof (cases "clock k")
    case True
    with Cons.prems obtain r where r: "getRatio d = Some r"
      "query_loop clock getRatio ds (k + 1) (\<lambda>ne. ratio_for (results_for ne (rs @ [r]))) = Some rm"
      by (auto simp: add_ratio_for split: option.splits)
    from Cons.IH [OF r(2)] obtain m new where "m \<le> length ds" "map getRatio (take m ds) = map Some new"
      "m = length ds \<or> \<not> clock (k + 1 + m)" "rm = (\<lambda>ne. ratio_for (results_for ne ((rs @ [r]) @ new)))" by blast
    with r(1) show ?thesis by (intro exI [of _ "Suc m"] exI [of _ "r # new"]) simp
  next
    case False
    with Cons.prems show ?thesis by (intro exI [of _ 0] exI [of _ "[]"]) simp
  qed
qed simp

text \<open>
  The table of pbbenchmark: it covers the entities up to the end of the list or of the time, and for
  each number of entities it holds how many of their results had it, the sum of their ratios in
  order, and the sum of their latencies in int64.
\<close>

theorem Query_table:
  assumes "Query clock getRatio entity q1 q2 = Some rm"
  shows "\<exists>m rs. m \<le> length entity \<and> (m = length entity \<or> \<not> clock m)
    \<and> map (\<lambda>d. getRatio (q1 @ d @ q2)) (take m entity) = map Some rs
    \<and> rm = (\<lambda>ne. ratio_for (results_for ne rs))"
proof -
  have "(\<lambda>ne. ratio_for (results_for ne [])) = Map.empty" by (simp add: results_for_def ratio_for_def)
  with query_loop_results [of clock "\<lambda>d. getRatio (q1 @ d @ q2)" entity 0 "[]" rm] assms
  show ?thesis by (auto simp: Query_def)
qed

theorem Query_table_witness:
  "\<exists>rm. Query (\<lambda>k. k < 2) (\<lambda>q. Some (2, Fin 1, 5)) [''a'', ''b'', ''c''] [] [] = Some rm
     \<and> (\<exists>m \<le> 3. m = 3 \<or> \<not> m < (2 :: nat))"
proof -
  obtain rm where rm: "Query (\<lambda>k. k < 2) (\<lambda>q. Some (2, Fin 1, 5)) [''a'', ''b'', ''c''] [] [] = Some rm"
    by (simp add: Query_def)
  from Query_table [OF rm] obtain m :: nat where "m \<le> 3 \<and> (m = 3 \<or> \<not> m < 2)" by auto
  with rm show ?thesis by auto
qed

text \<open>The latency of 60 milliseconds, which is meant to be 60.\<close>

lemma json_latency_example: "ratio_of 1 (Node []) 0 60000000 = Some (1, Fin 0, 6000006)"
proof -
  have "fdiv (float_of_int 0) (float_of_int 60000000) = Fin 0"
    using float_of_int_exact [of 60000000] by (simp add: float_of_int_def)
  moreover have "go_quot 60000000 10 XOR 6 = 6000006" by (simp add: go_quot_def)
  ultimately show ?thesis by (simp add: ratio_of_def)
qed

end
