(* ===== verification/LoadMains.thy ===== *)
theory LoadMains
  imports LoadTestsProps GoLines
begin

text \<open>
  The commands around LoadTests: the requests of throughputtest and their lists, the answer for one query
  of pbbenchmark, its CSV files and its main function, and the report of the pinger. The random numbers,
  the servers, the clock and the order of a map are parameters.
\<close>

section \<open>The pinger\<close>

definition lines_tabbed :: "(nat \<times> nat \<times> string) list \<Rightarrow> string" where
  "lines_tabbed ls =
     str_join [CHR 0x0A] (map (\<lambda>(tabs, spaces, s). replicate tabs (CHR 0x09) @ replicate spaces (CHR '' '') @ s) ls)"

definition pinger_query :: string where
  "pinger_query = lines_tabbed
     [(0, 0, ''{''), (2, 2, ''me(_xid_: m.0f4vbz) {''), (3, 4, ''type.object.name.en''), (3, 4, ''film.actor.film {''),
      (4, 6, ''film.performance.film {''), (5, 8, ''type.object.name.en''), (4, 6, ''}''), (3, 4, ''}''), (2, 2, ''}''),
      (2, 0, ''}'')]"

record pinger_totals =
  t_time :: "float64 \<times> float64"
  t_total :: "float64 \<times> float64"
  t_json :: "float64 \<times> float64"
  t_processing :: "float64 \<times> float64"
  t_parsing :: "float64 \<times> float64"

text \<open>
  The users with the requests that each of them makes, in the order in which they end; the channels
  have room for one number of each user.
\<close>

fun pinger_users :: "(int \<times> reply) list list \<Rightarrow> (unit + pinger list) go" where
  "pinger_users [] = Ret (Inr [])"
| "pinger_users (rs # rss) = run_bind (pinger_user rs) (\<lambda>u. run_bind (pinger_users rss) (\<lambda>us. Ret (Inr (u # us))))"

definition pinger_main :: "int \<Rightarrow> int \<Rightarrow> (int \<times> reply) list list \<Rightarrow> (unit + pinger_totals) go" where
  "pinger_main numUser numReq rss =
     (if \<not> chan_fits 8 numUser then Panic MakeChanSize
      else run_bind (pinger_users rss) (\<lambda>us.
        let avg = (\<lambda>f. pinger_average numUser numReq (map f us))
        in Ret (Inr \<lparr>t_time = avg p_ti, t_total = avg totT, t_json = avg jsonT, t_processing = avg proT,
                     t_parsing = avg parT\<rparr>)))"

section \<open>The requests of throughputtest\<close>

definition tp_qa1 :: string where
  "tp_qa1 = lines_tabbed [(0, 0, ''{''), (4, 0, ''debug(func: uid('')]"

definition tp_qa2 :: string where
  "tp_qa2 = lines_tabbed
     [(0, 0, '')) {''), (1, 0, ''name@en''), (1, 0, ''actor.film {''), (2, 0, ''performance.film {''), (3, 0, ''name@en''),
      (2, 0, ''}''), (1, 0, ''}''), (0, 0, ''}''), (0, 0, ''}'')]"

definition tp_qd1 :: string where
  "tp_qd1 = lines_tabbed [(0, 0, ''{''), (3, 2, ''debug(func: uid('')]"

definition tp_qd2 :: string where
  "tp_qd2 = lines_tabbed
     [(0, 0, '')) {''), (1, 0, ''name@en''), (1, 0, ''director.film {''), (2, 0, ''genre {''), (3, 0, ''name@en''),
      (2, 0, ''}''), (1, 0, ''}''), (0, 0, ''}''), (0, 0, ''}'')]"

text \<open>A random element; \<open>rand.Intn(0)\<close> panics. \<open>intn n r\<close> draws a number below \<open>n\<close>.\<close>

definition pick :: "(nat \<Rightarrow> 'r \<Rightarrow> nat \<times> 'r) \<Rightarrow> string list \<Rightarrow> 'r \<Rightarrow> (string \<times> 'r) go" where
  "pick intn xs r = (if xs = [] then Panic BadArgument else let (i, r) = intn (length xs) r in Ret (xs ! i, r))"

text \<open>What a request is: the server and the query.\<close>

definition user_query ::
  "(nat \<Rightarrow> 'r \<Rightarrow> nat \<times> 'r) \<Rightarrow> string list \<Rightarrow> string list \<Rightarrow> string list \<Rightarrow> 'r \<Rightarrow> ((string \<times> string) \<times> 'r) go" where
  "user_query intn actors directors serverList r =
     (let (which, r) = intn 2 r
      in go_bind (if which = 1
                  then go_bind (pick intn actors r) (\<lambda>(a, r). Ret (tp_qa1 @ a @ tp_qa2, r))
                  else go_bind (pick intn directors r) (\<lambda>(d, r). Ret (tp_qd1 @ d @ tp_qd2, r))) (\<lambda>(query, r).
         go_bind (pick intn serverList r) (\<lambda>(server, r). Ret ((server, query), r))))"

text \<open>
  One round of the loop of a user. The error of \<open>http.NewRequest\<close> is ignored: \<open>NewRequest\<close> tells whether it
  takes the server for a URL, and if not, the request is nil and \<open>client.Do\<close> panics on it. (The default
  of the flag, \<open>:10001\<close>, is not a URL, since it has no scheme.) \<open>reply\<close> gives the decoded answer, or fails.
\<close>

definition user_round ::
  "(string \<Rightarrow> bool) \<Rightarrow> (nat \<Rightarrow> 'r \<Rightarrow> nat \<times> 'r) \<Rightarrow> (string \<times> string \<Rightarrow> (string \<times> json) list option) \<Rightarrow>
     string list \<Rightarrow> string list \<Rightarrow> string list \<Rightarrow> 'r \<Rightarrow> user \<Rightarrow> (unit + 'r \<times> user) go" where
  "user_round NewRequest intn reply actors directors serverList r st =
     go_bind (user_query intn actors directors serverList r) (\<lambda>((server, query), r).
       if \<not> NewRequest server then Panic NilDeref
       else run_bind (user_request (reply (server, query)) (Inr st)) (\<lambda>st. Ret (Inr (r, st))))"

text \<open>
  The loop, which goes on while the clock shows less than \<open>numSec\<close> seconds since the start: \<open>elapsed k\<close> is
  what it shows before the \<open>k\<close>-th round, and \<open>serve k\<close> answers the request of that round.
\<close>

partial_function (option) user_loop ::
  "(nat \<Rightarrow> float64) \<Rightarrow> float64 \<Rightarrow> (string \<Rightarrow> bool) \<Rightarrow> (nat \<Rightarrow> 'r \<Rightarrow> nat \<times> 'r) \<Rightarrow>
     (nat \<Rightarrow> string \<times> string \<Rightarrow> (string \<times> json) list option) \<Rightarrow> string list \<Rightarrow> string list \<Rightarrow>
     string list \<Rightarrow> nat \<Rightarrow> 'r \<Rightarrow> user \<Rightarrow> (unit + user) go option" where
  "user_loop elapsed numSec NewRequest intn serve actors directors serverList k r st =
     (if \<not> flt (elapsed k) numSec then Some (Ret (Inr st))
      else case user_round NewRequest intn (serve k) actors directors serverList r st of
             Panic p \<Rightarrow> Some (Panic p)
           | Hang \<Rightarrow> Some Hang
           | Ret (Inl e) \<Rightarrow> Some (Ret (Inl e))
           | Ret (Inr (r, st)) \<Rightarrow>
               user_loop elapsed numSec NewRequest intn serve actors directors serverList (k + 1) r st)"

definition runUser ::
  "(nat \<Rightarrow> float64) \<Rightarrow> float64 \<Rightarrow> (string \<Rightarrow> bool) \<Rightarrow> (nat \<Rightarrow> 'r \<Rightarrow> nat \<times> 'r) \<Rightarrow>
     (nat \<Rightarrow> string \<times> string \<Rightarrow> (string \<times> json) list option) \<Rightarrow> string list \<Rightarrow> string list \<Rightarrow>
     string list \<Rightarrow> 'r \<Rightarrow> (unit + user) go" where
  "runUser elapsed numSec NewRequest intn serve actors directors serverList r =
     may_hang (user_loop elapsed numSec NewRequest intn serve actors directors serverList 0 r user_start)"

text \<open>
  What main reads before the users start: the lists, by a scanner whose errors are ignored, and the
  servers. If one of the files cannot be opened it just returns.
\<close>

definition throughput_setup ::
  "(string \<Rightarrow> reader option) \<Rightarrow> string \<Rightarrow> (string list \<times> string list \<times> string list) option" where
  "throughput_setup fs serverAddr =
     (case (fs ''listofactors_uid'', fs ''listofdirectors_uid'') of
        (Some af, Some df) \<Rightarrow>
          Some (fst (Scan MaxScanTokenSize af), fst (Scan MaxScanTokenSize df), Split (CHR '','') serverAddr)
      | _ \<Rightarrow> None)"

section \<open>The answers of pbbenchmark\<close>

text \<open>\<open>strings.Count\<close> of a string that is not empty: occurrences that do not overlap.\<close>

function strings_Count :: "string \<Rightarrow> string \<Rightarrow> nat" where
  "strings_Count s t =
     (if s = [] \<or> t = [] then 0
      else if prefix t s then Suc (strings_Count (drop (length t) s) t)
      else strings_Count (tl s) t)"
  by pat_completeness auto
termination
  by (relation "measure (\<lambda>(s, t). length s)") auto

declare strings_Count.simps [simp del]

text \<open>
  Both answers to a query: \<open>post\<close> gives the text of the HTTP answer and its members, if it is JSON; \<open>rpc\<close>
  the node and the duration of the other. \<open>None\<close> is fatal.
\<close>

definition getRatio ::
  "(string \<Rightarrow> (string \<times> (string \<times> json) list option) option) \<Rightarrow> (string \<Rightarrow> (node \<times> string) option) \<Rightarrow> string \<Rightarrow>
     (int \<times> float64 \<times> int) option go" where
  "getRatio post rpc q =
     (case post q of
        None \<Rightarrow> Ret None
      | Some (body, None) \<Rightarrow> Ret None
      | Some (body, Some kvs) \<Rightarrow>
          let numEntities = int (strings_Count body ''_uid_'')
          in case members kvs ''server_latency'' of
               Some (JObj ls) \<Rightarrow>
                 go_bind (latency_of (members ls) ''json'') (\<lambda>jsonTime.
                   case rpc q of
                     None \<Rightarrow> Ret None
                   | Some (n, pb) \<Rightarrow>
                       Ret (ratio_of numEntities n (case ParseDuration pb of None \<Rightarrow> 0 | Some d \<Rightarrow> d) jsonTime))
             | _ \<Rightarrow> Panic AssertFailed)"

section \<open>The CSV files of pbbenchmark\<close>

text \<open>
  \<open>strconv.FormatFloat(x, 'E', -1, 64)\<close>: the shortest digits that read back as \<open>x\<close>, one of them before the
  point, and an exponent of at least two digits.
\<close>

definition show_exp :: "int \<Rightarrow> string" where
  "show_exp e = (let s = decimal (nat \<bar>e\<bar>) in (if e < 0 then CHR ''-'' else CHR ''+'') # (if length s < 2 then CHR ''0'' # s else s))"

fun format_E :: "float64 \<Rightarrow> string" where
  "format_E (Fin x) =
     (if x = 0 then ''0E+00''
      else let (d, n) = shortest_digits \<bar>x\<bar> 17 1; ds = decimal (nat d);
               e = int (length ds) - 1 + dec_exp \<bar>x\<bar> - n; m = trim_right (CHR ''0'') ds
           in (if x < 0 then ''-'' else []) @ take 1 m @ (if length m \<le> 1 then [] else CHR ''.'' # drop 1 m)
                @ ''E'' @ show_exp e)"
| "format_E PInf = ''+Inf''"
| "format_E NInf = ''-Inf''"
| "format_E NaN = ''NaN''"

text \<open>A record of the CSV writer; none of the fields needs quotes.\<close>

definition csv_record :: "string list \<Rightarrow> string" where
  "csv_record fs = str_join '','' fs @ [CHR 0x0A]"

definition ratio_record :: "int \<times> float64 \<times> int \<Rightarrow> string" where
  "ratio_record = (\<lambda>(numEntities, avgRatio, jsonL). csv_record [show_int numEntities, format_E avgRatio, show_int jsonL])"

definition testQuery_file ::
  "(nat \<Rightarrow> bool) \<Rightarrow> (string \<Rightarrow> (int \<times> float64 \<times> int) option) \<Rightarrow> string list \<Rightarrow> string \<Rightarrow> string \<Rightarrow> string \<Rightarrow>
     ((int \<Rightarrow> eRatio option) \<Rightarrow> int list) \<Rightarrow> (string \<times> string) option" where
  "testQuery_file clock getR entity name q1 q2 order =
     (case Query clock getR entity q1 q2 of
        None \<Rightarrow> None
      | Some rm \<Rightarrow> Some (name @ ''.csv'', concat (map (\<lambda>k. ratio_record (ratio_row (k, the (rm k)))) (order rm))))"

definition pb_qa1 :: string where
  "pb_qa1 = lines_tabbed [(0, 0, ''{''), (1, 5, ''me(_xid_:'')]"

definition pb_qa2 :: string where
  "pb_qa2 = lines_tabbed
     [(0, 0, '') {''), (1, 9, ''type.object.name.en''), (1, 9, ''film.actor.film {''), (1, 13, ''film.performance.film {''),
      (1, 17, ''type.object.name.en''), (1, 13, ''}''), (1, 9, ''}''), (1, 5, ''}''), (1, 3, ''}'')]"

definition pb_qd1 :: string where
  "pb_qd1 = lines_tabbed [(0, 0, ''{''), (0, 8, ''me(_xid_:'')]"

definition pb_qd2 :: string where
  "pb_qd2 = lines_tabbed
     [(0, 0, '') {''), (0, 14, ''type.object.name.en''), (0, 14, ''film.director.film  {''), (0, 20, ''film.film.genre {''),
      (0, 22, ''type.object.name.en''), (0, 20, ''}''), (0, 14, ''}''), (0, 8, ''}''), (0, 4, ''}'')]"

text \<open>
  The command: the files that it writes, and whether it comes to its end. The clocks are those of the
  two tests.
\<close>

definition pb_main ::
  "(string \<Rightarrow> reader option) \<Rightarrow> (nat \<Rightarrow> bool) \<Rightarrow> (nat \<Rightarrow> bool) \<Rightarrow> (string \<Rightarrow> (int \<times> float64 \<times> int) option) \<Rightarrow>
     ((int \<Rightarrow> eRatio option) \<Rightarrow> int list) \<Rightarrow> (string \<times> string) list \<times> bool" where
  "pb_main fs clockA clockD getR order =
     (case fs ''../throughputtest/listofactors'' of
        None \<Rightarrow> ([], False)
      | Some af \<Rightarrow>
          (case testQuery_file clockA getR (fst (Scan MaxScanTokenSize af)) ''actors'' pb_qa1 pb_qa2 order of
             None \<Rightarrow> ([], False)
           | Some fa \<Rightarrow>
               (case fs ''../throughputtest/listofdirectors'' of
                  None \<Rightarrow> ([fa], False)
                | Some df \<Rightarrow>
                    (case testQuery_file clockD getR (fst (Scan MaxScanTokenSize df)) ''directors'' pb_qd1 pb_qd2 order of
                       None \<Rightarrow> ([fa], False)
                     | Some fd \<Rightarrow> ([fa, fd], True)))))"

section \<open>What the commands do\<close>

lemma pick_Ret:
  assumes "\<And>n r. 0 < n \<Longrightarrow> fst (intn n r) < n" and "pick intn xs r = Ret (x, r')"
  shows "x \<in> set xs"
  using assms(2) assms(1) [of "length xs" r]
  by (auto simp: pick_def split: if_splits prod.splits)

text \<open>A request goes to one of the servers and asks for one of the entities of the lists.\<close>

lemma user_query_Ret:
  assumes "user_query intn actors directors serverList r = Ret ((server, query), r')"
    and intn: "\<And>n r. 0 < n \<Longrightarrow> fst (intn n r) < n"
  shows "server \<in> set serverList
    \<and> ((\<exists>a \<in> set actors. query = tp_qa1 @ a @ tp_qa2) \<or> (\<exists>d \<in> set directors. query = tp_qd1 @ d @ tp_qd2))"
proof -
  obtain w r1 where w: "intn 2 r = (w, r1)" by (cases "intn 2 r")
  show ?thesis
  proof (cases "w = 1")
    case True
    with assms(1) w obtain a r2 where "pick intn actors r1 = Ret (a, r2)" "pick intn serverList r2 = Ret (server, r')"
      "query = tp_qa1 @ a @ tp_qa2" by (auto simp: user_query_def go_simps)
    with pick_Ret [of intn, OF intn] show ?thesis by blast
  next
    case False
    with assms(1) w obtain d r2 where "pick intn directors r1 = Ret (d, r2)" "pick intn serverList r2 = Ret (server, r')"
      "query = tp_qd1 @ d @ tp_qd2" by (auto simp: user_query_def go_simps)
    with pick_Ret [of intn, OF intn] show ?thesis by blast
  qed
qed

lemma run_bind_eq: "run_bind m f = Ret (Inr y) \<longleftrightarrow> (\<exists>x. m = Ret (Inr x) \<and> f x = Ret (Inr y))"
  by (cases m) (auto simp: run_bind_def split: sum.splits)

text \<open>An answer that has the three times, as numbers, where the program looks for them.\<close>

definition good_reply :: "(string \<times> json) list option \<Rightarrow> bool" where
  "good_reply a \<longleftrightarrow> (\<exists>kvs es ls. a = Some kvs \<and> members kvs ''extensions'' = Some (JObj es)
     \<and> members es ''server_latency'' = Some (JObj ls)
     \<and> (\<forall>k \<in> {''encoding_ns'', ''parsing_ns'', ''processing_ns''}. \<exists>x. members ls k = Some (JNum x)))"

lemma good_reply_request: "good_reply a \<Longrightarrow> \<exists>st'. user_request a (Inr st) = Ret (Inr st')"
  by (auto simp: good_reply_def user_request_def unmarshal_def nanos_of_def Let_def)

lemma pick_nonempty: "xs \<noteq> [] \<Longrightarrow> \<exists>x r'. pick intn xs r = Ret (x, r')"
  by (simp add: pick_def split: prod.splits)

lemma user_query_returns:
  assumes "actors \<noteq> []" and "directors \<noteq> []" and "serverList \<noteq> []"
  shows "\<exists>req r'. user_query intn actors directors serverList r = Ret (req, r')"
proof -
  obtain w r1 where w: "intn 2 r = (w, r1)" by (cases "intn 2 r")
  obtain a ra where a: "pick intn actors r1 = Ret (a, ra)" using pick_nonempty [OF assms(1), of intn r1] by blast
  obtain d rd where d: "pick intn directors r1 = Ret (d, rd)" using pick_nonempty [OF assms(2), of intn r1] by blast
  obtain x rx where "pick intn serverList ra = Ret (x, rx)" using pick_nonempty [OF assms(3), of intn ra] by blast
  moreover obtain y ry where "pick intn serverList rd = Ret (y, ry)" using pick_nonempty [OF assms(3), of intn rd] by blast
  ultimately show ?thesis by (simp add: user_query_def w a d)
qed

text \<open>The requests that a user may make.\<close>

definition asked :: "string list \<Rightarrow> string list \<Rightarrow> string list \<Rightarrow> string \<times> string \<Rightarrow> bool" where
  "asked actors directors serverList = (\<lambda>(server, query). server \<in> set serverList
     \<and> ((\<exists>a \<in> set actors. query = tp_qa1 @ a @ tp_qa2) \<or> (\<exists>d \<in> set directors. query = tp_qd1 @ d @ tp_qd2)))"

lemma user_round_returns:
  assumes "\<And>n r. 0 < n \<Longrightarrow> fst (intn n r) < n"
    and "actors \<noteq> []" and "directors \<noteq> []" and "serverList \<noteq> []" and "\<And>req. good_reply (reply req)"
    and "\<And>s. s \<in> set serverList \<Longrightarrow> NewRequest s"
  shows "\<exists>req r' st'. user_round NewRequest intn reply actors directors serverList r st = Ret (Inr (r', st'))
    \<and> asked actors directors serverList req \<and> user_request (reply req) (Inr st) = Ret (Inr st')"
proof -
  obtain req r' where q: "user_query intn actors directors serverList r = Ret (req, r')"
    using user_query_returns [OF assms(2-4), of intn r] by blast
  obtain server query where req: "req = (server, query)" by (cases req)
  from user_query_Ret [OF q [unfolded req] assms(1)] have a: "asked actors directors serverList req"
    by (simp add: asked_def req)
  then have "NewRequest server" using assms(6) by (simp add: asked_def req)
  moreover obtain st' where "user_request (reply req) (Inr st) = Ret (Inr st')" using good_reply_request [OF assms(5)] by blast
  ultimately show ?thesis using q a by (auto simp: user_round_def req)
qed

lemma user_loop_runs:
  assumes "\<And>n r. 0 < n \<Longrightarrow> fst (intn n r) < n"
    and "actors \<noteq> []" and "directors \<noteq> []" and "serverList \<noteq> []" and "\<And>k req. good_reply (serve k req)"
    and "\<And>s. s \<in> set serverList \<Longrightarrow> NewRequest s"
    and "\<not> flt (elapsed n) numSec" and "\<forall>i < n. flt (elapsed i) numSec" and "k \<le> n"
  shows "\<exists>st' reqs. user_loop elapsed numSec NewRequest intn serve actors directors serverList k r st = Some (Ret (Inr st'))
    \<and> length reqs = n - k \<and> list_all (asked actors directors serverList) reqs
    \<and> go_fold user_request (map (\<lambda>(i, req). serve i req) (enumerate k reqs)) (Inr st) = Ret (Inr st')"
  using assms(9)
proof (induction "n - k" arbitrary: k r st)
  case 0
  then have "k = n" by simp
  with assms(7) show ?case by (intro exI [of _ st] exI [of _ "[]"]) (simp add: user_loop.simps)
next
  case (Suc m)
  then have k: "flt (elapsed k) numSec" using assms(8) by simp
  from user_round_returns [of intn actors directors serverList "serve k" NewRequest, OF assms(1-6)]
  obtain req r' st1 where round: "user_round NewRequest intn (serve k) actors directors serverList r st = Ret (Inr (r', st1))"
    "asked actors directors serverList req" "user_request (serve k req) (Inr st) = Ret (Inr st1)" by blast
  have "m = n - Suc k" "Suc k \<le> n" using Suc.hyps(2) by simp_all
  from Suc.hyps(1) [OF this, of r' st1] obtain st' reqs where
    "user_loop elapsed numSec NewRequest intn serve actors directors serverList (Suc k) r' st1 = Some (Ret (Inr st'))"
    "length reqs = n - Suc k" "list_all (asked actors directors serverList) reqs"
    "go_fold user_request (map (\<lambda>(i, req). serve i req) (enumerate (Suc k) reqs)) (Inr st1) = Ret (Inr st')" by blast
  with round k Suc.hyps(2) show ?case
    by (intro exI [of _ st'] exI [of _ "req # reqs"]) (simp add: user_loop.simps [of _ _ _ _ _ _ _ _ k])
qed

text \<open>
  C39: a user of throughputtest, when the lists and the servers are not empty, \<open>http.NewRequest\<close> takes every
  server for a URL and every answer has its three times as numbers: if the clock shows \<open>numSec\<close> seconds
  or more before some round, the user comes to its end, having made one request in each round before
  the first such one, each to one of the servers and for an actor or a director of the lists. Its
  state is that of the answers to these requests one after the other: the count is that of the
  requests, there is one latency for each, and the total is the sum of the three times, as int64.
\<close>

theorem throughput_loop_accounts:
  assumes "\<And>n r. 0 < n \<Longrightarrow> fst (intn n r) < n"
    and "actors \<noteq> []" and "directors \<noteq> []" and "serverList \<noteq> []" and "\<And>k req. good_reply (serve k req)"
    and "\<And>s. s \<in> set serverList \<Longrightarrow> NewRequest s" and "\<not> flt (elapsed m) numSec"
  shows "\<exists>n st reqs. \<not> flt (elapsed n) numSec \<and> (\<forall>i < n. flt (elapsed i) numSec)
      \<and> runUser elapsed numSec NewRequest intn serve actors directors serverList r = Ret (Inr st)
      \<and> length reqs = n \<and> list_all (asked actors directors serverList) reqs
      \<and> throughput_user (map (\<lambda>(i, req). serve i req) (enumerate 0 reqs)) = Ret (Inr st)
      \<and> u_count st = int n \<and> length (u_lats st) = n
      \<and> u_totT st = wrap64 (u_proT st + u_jsonT st + u_parT st)"
proof -
  define n where "n = (LEAST n. \<not> flt (elapsed n) numSec)"
  have n: "\<not> flt (elapsed n) numSec" "\<forall>i < n. flt (elapsed i) numSec"
    unfolding n_def by (rule LeastI [of _ m], rule assms(7)) (auto dest: not_less_Least)
  from user_loop_runs [of intn actors directors serverList serve NewRequest, OF assms(1-6) n, of 0 r user_start]
  obtain st reqs where st: "user_loop elapsed numSec NewRequest intn serve actors directors serverList 0 r user_start = Some (Ret (Inr st))"
    "length reqs = n" "list_all (asked actors directors serverList) reqs"
    "throughput_user (map (\<lambda>(i, req). serve i req) (enumerate 0 reqs)) = Ret (Inr st)"
    by (auto simp: throughput_user_def)
  have "accounts user_start" by (simp add: accounts_def user_start_def wrap64_small)
  with user_fold_accounts [of "map (\<lambda>(i, req). serve i req) (enumerate 0 reqs)" user_start st] st
  have "accounts st" "length (u_lats st) = n" by (simp_all add: throughput_user_def user_start_def)
  with st n show ?thesis by (auto simp: accounts_def runUser_def)
qed

text \<open>
  Where no server is a URL, as with the default of the flag, the first round panics, if the clock allows
  one at all.
\<close>

theorem throughput_bad_server:
  assumes "\<And>n r. 0 < n \<Longrightarrow> fst (intn n r) < n"
    and "actors \<noteq> []" and "directors \<noteq> []" and "serverList \<noteq> []"
    and "\<And>s. s \<in> set serverList \<Longrightarrow> \<not> NewRequest s" and "flt (elapsed 0) numSec"
  shows "runUser elapsed numSec NewRequest intn serve actors directors serverList r = Panic NilDeref"
proof -
  obtain server query r' where q: "user_query intn actors directors serverList r = Ret ((server, query), r')"
    using user_query_returns [OF assms(2-4), of intn r] by auto
  from user_query_Ret [OF q assms(1)] assms(5) have "\<not> NewRequest server" by blast
  with q have "user_round NewRequest intn (serve 0) actors directors serverList r user_start = Panic NilDeref"
    by (simp add: user_round_def)
  with assms(6) show ?thesis by (simp add: runUser_def user_loop.simps)
qed

definition number_chars :: "char set" where
  "number_chars = {c. is_digit c} \<union> set ''+-.EInfNa''"

lemma number_chars_decimal: "set (decimal n) \<subseteq> number_chars"
  using decimal_digits by (auto simp: number_chars_def)

lemma number_chars_exp: "set (show_exp e) \<subseteq> number_chars"
  using number_chars_decimal [of "nat \<bar>e\<bar>"]
  by (auto simp: show_exp_def Let_def number_chars_def is_digit_def split: if_splits)

lemma number_chars_trim: "set (trim_right z (decimal n)) \<subseteq> number_chars"
proof -
  have "set (trim_right z (decimal n)) \<subseteq> set (decimal n)" by (auto simp: trim_right_def dest: set_dropWhileD)
  then show ?thesis using number_chars_decimal by blast
qed

lemma number_chars_E: "set (format_E x) \<subseteq> number_chars"
proof (cases x)
  case (Fin q)
  show ?thesis
  proof (cases "q = 0")
    case True
    then show ?thesis by (auto simp: Fin number_chars_def is_digit_def)
  next
    case False
    obtain d n where dn: "shortest_digits \<bar>q\<bar> 17 1 = (d, n)" by (cases "shortest_digits \<bar>q\<bar> 17 1")
    let ?m = "trim_right (CHR ''0'') (decimal (nat d))"
    have "set (take 1 ?m) \<subseteq> number_chars" "set (drop 1 ?m) \<subseteq> number_chars"
      using number_chars_trim [of "CHR ''0''" "nat d"] by (auto dest: in_set_takeD in_set_dropD)
    moreover have "CHR ''-'' \<in> number_chars" "CHR ''.'' \<in> number_chars" "CHR ''E'' \<in> number_chars"
      by (simp_all add: number_chars_def)
    ultimately show ?thesis using False number_chars_exp by (auto simp: Fin dn Let_def)
  qed
qed (auto simp: number_chars_def)

lemma ratio_fields: "\<forall>f \<in> set [show_int k, format_E x, show_int l]. CHR '','' \<notin> set f \<and> CHR 0x0A \<notin> set f"
proof -
  have "CHR '','' \<notin> number_chars" "CHR 0x0A \<notin> number_chars" by (simp_all add: number_chars_def is_digit_def)
  with number_chars_E [of x] show_int_chars [of "CHR '',''"] show_int_plain show ?thesis by (fastforce simp: is_digit_def)
qed

lemma cut_records:
  "fst (cut_lines (concat (map (\<lambda>(k, x, l). ratio_record (k, x, l)) rows)))
     = map (\<lambda>(k, x, l). str_join '','' [show_int k, format_E x, show_int l] @ [CHR 0x0A]) rows"
proof (induction rows)
  case Nil
  show ?case by (subst cut_lines.simps) simp
next
  case (Cons row rows)
  obtain k x l where row: "row = (k, x, l)" by (cases row)
  have "CHR 0x0A \<notin> set (str_join '','' [show_int k, format_E x, show_int l])"
    using ratio_fields [of k x l] by simp
  from cut_lines_cons [OF this] Cons.IH show ?case by (simp add: row ratio_record_def csv_record_def)
qed

text \<open>
  A CSV file of pbbenchmark, read line by line and split at the commas, gives for each number of entities
  in the table that number, the average ratio in scientific form and the average latency.
\<close>

theorem testQuery_file_rows:
  assumes "testQuery_file clock getR entity name q1 q2 order = Some (file, content)"
  shows "\<exists>rm. Query clock getR entity q1 q2 = Some rm \<and> file = name @ ''.csv''
    \<and> map (\<lambda>l. Split (CHR '','') (butlast l)) (fst (cut_lines content))
      = map (\<lambda>k. case ratio_row (k, the (rm k)) of (k, x, l) \<Rightarrow> [show_int k, format_E x, show_int l]) (order rm)"
proof -
  from assms obtain rm where rm: "Query clock getR entity q1 q2 = Some rm" "file = name @ ''.csv''"
    "content = concat (map (\<lambda>(k, x, l). ratio_record (k, x, l)) (map (\<lambda>k. ratio_row (k, the (rm k))) (order rm)))"
    by (auto simp: testQuery_file_def comp_def split: option.splits)
  have "Split (CHR '','') (str_join '','' [show_int k, format_E x, show_int l]) = [show_int k, format_E x, show_int l]" for k x l
    using Split_join [of "[show_int k, format_E x, show_int l]" "CHR '',''"] ratio_fields [of k x l] by auto
  then have "map (\<lambda>l. Split (CHR '','') (butlast l))
        (map (\<lambda>(k, x, l). str_join '','' [show_int k, format_E x, show_int l] @ [CHR 0x0A]) rows)
      = map (\<lambda>(k, x, l). [show_int k, format_E x, show_int l]) rows" for rows
    by (induction rows) (auto simp: butlast_append simp del: str_join.simps)
  then have "map (\<lambda>l. Split (CHR '','') (butlast l)) (fst (cut_lines content))
      = map (\<lambda>(k, x, l). [show_int k, format_E x, show_int l]) (map (\<lambda>k. ratio_row (k, the (rm k))) (order rm))"
    unfolding rm(3) by (simp only: cut_records)
  with rm(1,2) show ?thesis by (auto simp: case_prod_unfold)
qed

definition demo_rate :: "string \<Rightarrow> (int \<times> float64 \<times> int) option" where
  "demo_rate q = Some (1, Fin 2, 6)"

theorem testQuery_file_rows_witness:
  "\<exists>content. testQuery_file (\<lambda>k. True) demo_rate [''m.1''] ''actors'' pb_qa1 pb_qa2 (\<lambda>rm. [1]) = Some (''actors.csv'', content)
    \<and> map (\<lambda>l. hd (Split (CHR '','') (butlast l))) (fst (cut_lines content)) = [show_int 1]"
proof -
  obtain rm where q: "Query (\<lambda>k. True) demo_rate [''m.1''] pb_qa1 pb_qa2 = Some rm"
    by (simp add: Query_def demo_rate_def)
  then obtain content where c: "testQuery_file (\<lambda>k. True) demo_rate [''m.1''] ''actors'' pb_qa1 pb_qa2 (\<lambda>rm. [1]) = Some (''actors.csv'', content)"
    by (simp add: testQuery_file_def)
  from testQuery_file_rows [OF c] obtain rm' where
    "map (\<lambda>l. Split (CHR '','') (butlast l)) (fst (cut_lines content))
      = map (\<lambda>k. case ratio_row (k, the (rm' k)) of (k, x, l) \<Rightarrow> [show_int k, format_E x, show_int l]) [1]" by blast
  then have "map hd (map (\<lambda>l. Split (CHR '','') (butlast l)) (fst (cut_lines content))) = [show_int 1]"
    by (simp add: ratio_row_def)
  then have "map (\<lambda>l. hd (Split (CHR '','') (butlast l))) (fst (cut_lines content)) = [show_int 1]"
    by (simp add: comp_def)
  with c show ?thesis by (intro exI conjI)
qed

definition demo_draw :: "nat \<Rightarrow> nat \<Rightarrow> nat \<times> nat" where
  "demo_draw n r = (r mod n, r + 1)"

text \<open>What is a URL here: what starts with a scheme for HTTP.\<close>

definition demo_url :: "string \<Rightarrow> bool" where
  "demo_url s \<longleftrightarrow> prefix ''http://'' s"

definition demo_clock :: "nat \<Rightarrow> float64" where
  "demo_clock k = Fin (of_nat k)"

theorem throughput_loop_accounts_witness:
  "\<exists>st. runUser demo_clock (Fin 2) demo_url demo_draw (\<lambda>k req. Some (demo_answer 100)) [''a''] [''d''] [''http://:10001''] 0
       = Ret (Inr st) \<and> u_count st = 2"
proof -
  have "fst (demo_draw n r) < n" if "0 < n" for n r using that by (simp add: demo_draw_def)
  moreover have "good_reply (Some (demo_answer 100))" by (simp add: good_reply_def demo_answer_def members_def)
  moreover have "\<not> flt (demo_clock 2) (Fin 2)" by (simp add: demo_clock_def)
  ultimately obtain n st where n: "\<not> flt (demo_clock n) (Fin 2)" "\<forall>i < n. flt (demo_clock i) (Fin 2)"
    and st: "runUser demo_clock (Fin 2) demo_url demo_draw (\<lambda>k req. Some (demo_answer 100)) [''a''] [''d''] [''http://:10001''] 0
       = Ret (Inr st)" "u_count st = int n"
    using throughput_loop_accounts [of demo_draw "[''a'']" "[''d'']" "[''http://:10001'']" "\<lambda>k req. Some (demo_answer 100)"
        demo_url demo_clock 2 "Fin 2" 0] by (auto simp: demo_url_def)
  have "n = 2" using n(1) spec [OF n(2), of 2] by (force simp: demo_clock_def)
  with st show ?thesis by simp
qed

theorem throughput_bad_server_witness:
  "runUser demo_clock (Fin 2) demo_url demo_draw (\<lambda>k req. Some (demo_answer 100)) [''a''] [''d''] ['':10001''] 0 = Panic NilDeref"
  by (rule throughput_bad_server) (simp_all add: demo_draw_def demo_url_def demo_clock_def)

end
