(* ===== verification/KValidate.thy ===== *)
theory KValidate
  imports KClient KFiles KCompare
begin

text \<open>
  k-shortest-path/cmd/validate, which compares two files of distances, and cmd/handprobe, which asks a
  server for two paths in a small graph and tells from their costs what the server understands by
  the second shortest path. What the server answers is a parameter.
\<close>

section \<open>validate\<close>

definition validate_epsilon :: float64 where
  "validate_epsilon = fround (1 / 10000)"

datatype vertex_check = Pass | Missing | InfMismatch | Different

definition check_vertex :: "float64 \<Rightarrow> float64 option \<Rightarrow> vertex_check" where
  "check_vertex expected found =
     (case found of
        None \<Rightarrow> Missing
      | Some g \<Rightarrow>
          if is_inf expected 1 \<and> is_inf g 1 then Pass
          else if is_inf expected 1 \<noteq> is_inf g 1 then InfMismatch
          else let denom = fabs expected; denom = (if feq denom (Fin 0) then Fin 1 else denom)
               in if flt validate_epsilon (fdiv (fabs (fsub expected g)) denom) then Different else Pass)"

record validate_state =
  passed :: int
  failed :: int
  fails :: "(int \<times> vertex_check) list"

definition validate_vertex ::
  "int \<Rightarrow> (int \<Rightarrow> float64 option) \<Rightarrow> int \<times> float64 \<Rightarrow> validate_state \<Rightarrow> validate_state" where
  "validate_vertex maxShow got = (\<lambda>(v, expected) st.
     case check_vertex expected (got v) of
       Pass \<Rightarrow> st\<lparr>passed := passed st + 1\<rparr>
     | c \<Rightarrow> st\<lparr>failed := failed st + 1,
              fails := (if int (length (fails st)) < maxShow then fails st @ [(v, c)] else fails st)\<rparr>)"

text \<open>
  The command: the vertices of the reference in the order \<open>order\<close> in which Go iterates over the map;
  the result is what is printed, and whether the exit code is 0.
\<close>

definition validate_main ::
  "(string \<Rightarrow> reader option) \<Rightarrow> string \<Rightarrow> string \<Rightarrow> int \<Rightarrow> ((int \<Rightarrow> float64 option) \<Rightarrow> int list) \<Rightarrow>
     (unit ldbc_error option + validate_state \<times> bool)" where
  "validate_main fs ref act maxShow order =
     (if ref = [] \<or> act = [] then Inl None
      else case ReadSSSP (fs ref) of
        Inl e \<Rightarrow> Inl (Some e)
      | Inr expected \<Rightarrow>
          (case ReadSSSP (fs act) of
             Inl e \<Rightarrow> Inl (Some e)
           | Inr got \<Rightarrow>
               let st = fold (validate_vertex maxShow got) (map (\<lambda>v. (v, the (expected v))) (order expected))
                          \<lparr>passed = 0, failed = 0, fails = []\<rparr>
               in Inr (st, failed st \<le> 0)))"

section \<open>handprobe\<close>

text \<open>The graph that is loaded: its edges with their weights, and the text of the mutation.\<close>

definition hand_graph :: "(int \<times> int \<times> int) list" where
  "hand_graph = [(1, 2, 1), (2, 3, 1), (3, 4, 1), (2, 4, 5), (1, 5, 10), (5, 4, 10)]"

definition handGraphRDF :: string where
  "handGraphRDF = CHR 0x0A # text_of
     (map (\<lambda>n. ''_:n'' @ show_int n @ '' <graphalytics_id> '' @ CHR 0x22 # show_int n @ CHR 0x22 # ''^^<xs:int> .'') [1, 2, 3, 4, 5]
      @ map (\<lambda>(s, t, w). ''_:n'' @ show_int s @ '' <connected> _:n'' @ show_int t @ '' (weight='' @ show_int w @ ''.0) .'') hand_graph)"

definition lookup_query :: "int \<Rightarrow> string" where
  "lookup_query gid = ''{ q(func: eq(graphalytics_id, '' @ show_int gid @ '')) { uid } }''"

datatype probe_error = AlterFailed | MutateFailed | LookupFailed int | GidNotFound int | ProbeFailed

text \<open>\<open>ask\<close> gives the uids that the decoded answer to a lookup holds.\<close>

definition lookupUID :: "(string \<Rightarrow> string list option) \<Rightarrow> int \<Rightarrow> probe_error + string" where
  "lookupUID ask gid =
     (case ask (lookup_query gid) of
        None \<Rightarrow> Inl (LookupFailed gid)
      | Some [] \<Rightarrow> Inl (GidNotFound gid)
      | Some (u # us) \<Rightarrow> Inr u)"

definition probe_query :: "string \<Rightarrow> string \<Rightarrow> int \<Rightarrow> int \<Rightarrow> string" where
  "probe_query src dst numpaths maxFrontier =
     (let frontier = (if 0 < maxFrontier then '', maxfrontiersize: '' @ show_int maxFrontier else []);
          nl = (\<lambda>tabs s. CHR 0x0A # replicate tabs (CHR 0x09) @ s)
      in nl 1 ''{'' @
         nl 2 (''path as shortest(from: '' @ src @ '', to: '' @ dst @ '', numpaths: '' @ show_int numpaths @ frontier @ '') {'') @
         nl 3 ''connected @facets(weight)'' @ nl 2 ''}'' @
         nl 2 ''result(func: uid(path)) { uid graphalytics_id }'' @ nl 1 ''}'')"

text \<open>The costs in an answer; one that is not JSON, or has another form, has none.\<close>

definition parseWeights :: "KClient.json option \<Rightarrow> float64 list" where
  "parseWeights raw =
     (case raw of
        None \<Rightarrow> []
      | Some body \<Rightarrow>
          (case decode_paths body of
             None \<Rightarrow> []
           | Some paths \<Rightarrow>
               sort (List.map_filter (\<lambda>p. let (w, ok) = toFloat (jget p ''_weight_'') in if ok then Some w else None) paths)))"

definition approx :: "float64 \<Rightarrow> float64 \<Rightarrow> bool" where
  "approx a b = (let d = fsub a b in flt d (fround (1 / 1000000)) \<and> flt (fround (- 1 / 1000000)) d)"

datatype probe_verdict = LooplessYen | DisjointPaths | OnlyOnePath | Unexpected "float64 list"

definition verdict_of :: "float64 list \<Rightarrow> probe_verdict" where
  "verdict_of ws =
     (if 2 \<le> length ws \<and> approx (ws ! 0) (Fin 3) \<and> approx (ws ! 1) (Fin 6) then LooplessYen
      else if 2 \<le> length ws \<and> approx (ws ! 0) (Fin 3) \<and> approx (ws ! 1) (Fin 20) then DisjointPaths
      else if length ws = 1 \<and> approx (ws ! 0) (Fin 3) then OnlyOnePath
      else Unexpected ws)"

text \<open>
  The command: \<open>alter\<close> and \<open>mutate\<close> tell whether the server takes the schema and the graph, \<open>shortest\<close> is
  its answer to the query, as parsed JSON, with an outer \<open>None\<close> for an error or a timeout.
\<close>

definition handprobe_main ::
  "(string \<Rightarrow> bool) \<Rightarrow> (string \<Rightarrow> bool) \<Rightarrow> (string \<Rightarrow> string list option) \<Rightarrow> (string \<Rightarrow> KClient.json option option) \<Rightarrow>
     int \<Rightarrow> int \<Rightarrow> probe_error + probe_verdict" where
  "handprobe_main alter mutate ask shortest numpaths maxFrontier =
     (if \<not> alter Schema then Inl AlterFailed
      else if \<not> mutate handGraphRDF then Inl MutateFailed
      else err_bind (lookupUID ask 1) (\<lambda>src. err_bind (lookupUID ask 4) (\<lambda>dst.
        case shortest (probe_query src dst numpaths maxFrontier) of
          None \<Rightarrow> Inl ProbeFailed
        | Some raw \<Rightarrow> Inr (verdict_of (parseWeights raw)))))"

section \<open>The verdict of validate\<close>

lemma fsub_self: "x \<noteq> NInf \<Longrightarrow> x \<noteq> PInf \<Longrightarrow> x \<noteq> NaN \<Longrightarrow> fsub x x = Fin 0"
  by (cases x) (simp_all add: fsub_def)

lemma fle_unit: "\<lbrakk> fle (Fin 0) x; fle x (Fin 1) \<rbrakk> \<Longrightarrow> \<exists>e. x = Fin e \<and> 0 \<le> e"
  by (cases x) auto

lemma epsilon_Fin: "\<exists>e. validate_epsilon = Fin e \<and> 0 \<le> e"
proof -
  have "fle validate_epsilon (fround 1)" unfolding validate_epsilon_def by (rule fround_mono) simp
  moreover have "fround 1 = Fin 1" using float_of_int_exact [of 1] by (simp add: float_of_int_def)
  moreover have "fle (Fin 0) validate_epsilon" unfolding validate_epsilon_def by (rule fround_nonneg) simp
  ultimately show ?thesis using fle_unit [of validate_epsilon] by simp
qed

text \<open>
  A vertex passes in \<open>validate\<close> exactly if the two distances, taken as vectors of one cost, pass in the
  package compare with the same tolerance; the distances must not be \<open>-Inf\<close>.
\<close>

theorem check_vertex_compare:
  assumes "a \<noteq> NInf" and "b \<noteq> NInf"
  shows "check_vertex a (Some b) = Pass \<longleftrightarrow> Correct (Vectors [a] [b] validate_epsilon)"
proof -
  obtain e where e: "validate_epsilon = Fin e" "0 \<le> e" using epsilon_Fin by blast
  have V: "Correct (Vectors [a] [b] validate_epsilon) \<longleftrightarrow> \<not> flt validate_epsilon (cmp_relErr a b)"
    using e(2) unfolding e(1) by (cases "cmp_relErr a b") (auto simp: Correct_def Vectors_def worstRelErr_def Let_def)
  have C: "check_vertex a (Some b) = Pass \<longleftrightarrow> \<not> flt validate_epsilon (cmp_relErr a b)"
    unfolding check_vertex_def cmp_relErr_def e(1) using assms e(2)
    by (cases a; cases b) (auto simp: Let_def fsub_def)
  show ?thesis by (simp add: V C)
qed

theorem check_vertex_compare_witness:
  "\<not> Correct (Vectors [PInf] [Fin 1] validate_epsilon) \<and> Correct (Vectors [Fin 5] [Fin 5] validate_epsilon)"
proof -
  obtain e where e: "validate_epsilon = Fin e" "0 \<le> e" using epsilon_Fin by blast
  have "check_vertex PInf (Some (Fin 1)) \<noteq> Pass" "check_vertex (Fin 5) (Some (Fin 5)) = Pass"
    using e(2) unfolding check_vertex_def e(1) by (simp_all add: fsub_def)
  with check_vertex_compare [of PInf "Fin 1"] check_vertex_compare [of "Fin 5" "Fin 5"] show ?thesis by simp
qed

lemma validate_fold:
  "int (length (fails st)) = min (failed st) (max 0 n) \<Longrightarrow>
   (let st' = fold (validate_vertex n got) vs st
    in passed st' = passed st + int (length (filter (\<lambda>(v, d). check_vertex d (got v) = Pass) vs))
      \<and> failed st' = failed st + int (length (filter (\<lambda>(v, d). check_vertex d (got v) \<noteq> Pass) vs))
      \<and> int (length (fails st')) = min (failed st') (max 0 n))"
proof (induction vs arbitrary: st)
  case (Cons vd vs)
  obtain v d where vd: "vd = (v, d)" by (cases vd)
  let ?st = "validate_vertex n got (v, d) st"
  show ?case
  proof (cases "check_vertex d (got v) = Pass")
    case True
    then have "?st = st\<lparr>passed := passed st + 1\<rparr>" by (simp add: validate_vertex_def)
    with Cons.IH [of ?st] Cons.prems True show ?thesis by (simp add: vd Let_def)
  next
    case False
    then have "failed ?st = failed st + 1" "passed ?st = passed st"
      "length (fails ?st) = (if int (length (fails st)) < n then Suc (length (fails st)) else length (fails st))"
      by (cases "check_vertex d (got v)"; simp add: validate_vertex_def)+
    with Cons.IH [of ?st] Cons.prems False show ?thesis by (auto simp: vd Let_def split: if_splits)
  qed
qed simp

text \<open>
  C25: the exit code of \<open>validate\<close> is 0 exactly if every vertex of the reference passes; passed and failed
  count the vertices of the reference, and at most \<open>maxShow\<close> failures are shown. Vertices that only
  the actual file has do not count.
\<close>

theorem validate_main_verdict:
  assumes "ref \<noteq> []" and "act \<noteq> []" and "ReadSSSP (fs ref) = (Inr expected :: unit ldbc_error + _)"
    and "ReadSSSP (fs act) = (Inr got :: unit ldbc_error + _)"
    and "distinct (order expected)" and "set (order expected) = dom expected"
  shows "\<exists>st ok. validate_main fs ref act maxShow order = Inr (st, ok)
    \<and> (ok \<longleftrightarrow> (\<forall>v d. expected v = Some d \<longrightarrow> check_vertex d (got v) = Pass))
    \<and> passed st + failed st = int (card (dom expected))
    \<and> int (length (fails st)) = min (failed st) (max 0 maxShow)"
proof -
  let ?vs = "map (\<lambda>v. (v, the (expected v))) (order expected)"
  let ?st = "fold (validate_vertex maxShow got) ?vs \<lparr>passed = 0, failed = 0, fails = []\<rparr>"
  let ?bad = "filter (\<lambda>(v, d). check_vertex d (got v) \<noteq> Pass) ?vs"
  have st: "passed ?st = int (length (filter (\<lambda>(v, d). check_vertex d (got v) = Pass) ?vs))"
    "failed ?st = int (length ?bad)" "int (length (fails ?st)) = min (failed ?st) (max 0 maxShow)"
    using validate_fold [of "\<lparr>passed = 0, failed = 0, fails = []\<rparr>" maxShow got ?vs] by (simp_all add: Let_def)
  have "length ?vs = card (dom expected)" using assms(5,6) distinct_card by fastforce
  moreover have "length (filter (\<lambda>(v, d). check_vertex d (got v) = Pass) ?vs) + length ?bad = length ?vs"
    using sum_length_filter_compl [of "\<lambda>(v, d). check_vertex d (got v) = Pass" ?vs] by (simp add: case_prod_unfold)
  ultimately have "passed ?st + failed ?st = int (card (dom expected))" using st by simp
  moreover have "failed ?st \<le> 0 \<longleftrightarrow> (\<forall>v d. expected v = Some d \<longrightarrow> check_vertex d (got v) = Pass)"
  proof -
    have "failed ?st \<le> 0 \<longleftrightarrow> ?bad = []" unfolding st(2) by (simp only: of_nat_le_0_iff length_0_conv)
    also have "\<dots> \<longleftrightarrow> (\<forall>v \<in> dom expected. check_vertex (the (expected v)) (got v) = Pass)"
      using assms(6) by (auto simp: filter_empty_conv)
    finally show ?thesis by (auto simp: dom_def)
  qed
  ultimately show ?thesis using assms(1-4) st(3) by (simp add: validate_main_def Let_def)
qed

definition infinite_at :: "int list \<Rightarrow> int \<Rightarrow> float64 option" where
  "infinite_at vs v = (if v \<in> set vs then Some PInf else None)"

theorem validate_main_verdict_witness:
  "\<exists>st. validate_main (\<lambda>f. Some (writeSSSP (if f = ''a'' then [1] else [1, 2]) (\<lambda>v. None), False)) ''a'' ''b'' 10 (\<lambda>m. [1])
     = Inr (st, True) \<and> passed st + failed st = 1"
proof -
  let ?fs = "\<lambda>f. Some (writeSSSP (if f = ''a'' then [1] else [1, 2]) (\<lambda>v. None), False)"
  have rd: "read_distance None = PInf" by (simp add: read_distance_def)
  have good: "\<forall>v \<in> set vs. in_int64 v \<and> good_distance None" if "vs \<in> {[1], [1, 2]}" for vs
    using that by (auto simp: in_int64_def good_distance_def)
  have read: "ReadSSSP (Some (writeSSSP vs (\<lambda>v. None), False)) = (Inr (infinite_at vs) :: unit ldbc_error + (int \<Rightarrow> float64 option))"
    if "vs \<in> {[1], [1, 2]}" for vs
    using read_written_SSSP [OF good [OF that], where ?'e = unit] unfolding rd infinite_at_def [abs_def] .
  have dom1: "dom (infinite_at [1]) = {1}" by (auto simp: infinite_at_def dom_def)
  have "ReadSSSP (?fs ''a'') = (Inr (infinite_at [1]) :: unit ldbc_error + (int \<Rightarrow> float64 option))"
    "ReadSSSP (?fs ''b'') = (Inr (infinite_at [1, 2]) :: unit ldbc_error + (int \<Rightarrow> float64 option))"
    using read by simp_all
  with validate_main_verdict [of "''a''" "''b''" ?fs "infinite_at [1]" "infinite_at [1, 2]" "\<lambda>m. [1]" 10] dom1
  obtain st ok where "validate_main ?fs ''a'' ''b'' 10 (\<lambda>m. [1]) = Inr (st, ok)" "passed st + failed st = 1"
    "ok \<longleftrightarrow> (\<forall>v d. infinite_at [1] v = Some d \<longrightarrow> check_vertex d (infinite_at [1, 2] v) = Pass)" by auto
  moreover have "check_vertex d (infinite_at [1, 2] v) = Pass" if "infinite_at [1] v = Some d" for v d
    using that by (auto simp: infinite_at_def check_vertex_def split: if_splits)
  ultimately show ?thesis by auto
qed

section \<open>The hand graph\<close>

text \<open>The paths of the graph without loops, and their costs.\<close>

fun hand_walk :: "int list \<Rightarrow> bool" where
  "hand_walk (u # v # p) \<longleftrightarrow> (\<exists>w. (u, v, w) \<in> set hand_graph) \<and> hand_walk (v # p)"
| "hand_walk p \<longleftrightarrow> p \<noteq> []"

fun hand_cost :: "int list \<Rightarrow> int" where
  "hand_cost (u # v # p) = (case map_of (map (\<lambda>(s, t, w). ((s, t), w)) hand_graph) (u, v) of Some w \<Rightarrow> w | None \<Rightarrow> 0) + hand_cost (v # p)"
| "hand_cost p = 0"

definition hand_paths :: "int list set" where
  "hand_paths = {p. hand_walk p \<and> distinct p \<and> hd p = 1 \<and> last p = 4}"

lemma hand_walk_4: "hand_walk (4 # p) \<Longrightarrow> p = []"
  by (cases p) (auto simp: hand_graph_def)

lemma hand_walk_35: "\<lbrakk> hand_walk (u # p); u = 3 \<or> u = 5; last (u # p) = 4 \<rbrakk> \<Longrightarrow> p = [4]"
  by (cases p) (auto simp: hand_graph_def dest: hand_walk_4)

lemma hand_walk_2: "\<lbrakk> hand_walk (2 # p); last (2 # p) = 4 \<rbrakk> \<Longrightarrow> p = [4] \<or> p = [3, 4]"
  by (cases p) (auto simp: hand_graph_def dest: hand_walk_4 hand_walk_35)

lemma hand_walk_1: "\<lbrakk> hand_walk (1 # p); last (1 # p) = 4 \<rbrakk> \<Longrightarrow> p = [2, 4] \<or> p = [2, 3, 4] \<or> p = [5, 4]"
  by (cases p) (auto simp: hand_graph_def dest: hand_walk_2 hand_walk_35)

lemma hand_paths_eq: "hand_paths = {[1, 2, 3, 4], [1, 2, 4], [1, 5, 4]}"
proof
  show "hand_paths \<subseteq> {[1, 2, 3, 4], [1, 2, 4], [1, 5, 4]}"
  proof
    fix p assume p: "p \<in> hand_paths"
    then obtain q where "p = 1 # q" by (cases p) (auto simp: hand_paths_def)
    with p hand_walk_1 [of q] show "p \<in> {[1, 2, 3, 4], [1, 2, 4], [1, 5, 4]}" by (auto simp: hand_paths_def)
  qed
  show "{[1, 2, 3, 4], [1, 2, 4], [1, 5, 4]} \<subseteq> hand_paths" by (auto simp: hand_paths_def hand_graph_def)
qed

lemma fround_fneg: "fround (- x) = fneg (fround x)"
  by (auto simp: fround_def Let_def)

lemma tolerance: "\<exists>t. fround (1 / 1000000) = Fin t \<and> fround (- 1 / 1000000) = Fin (- t) \<and> 0 < t \<and> t \<le> 1"
proof -
  let ?x = "1 / 1000000 :: rat"
  have "pow2 (- 20) \<le> ?x" by (simp add: pow2_def)
  also have "?x < pow2 (binade ?x + 1)" by (rule binade_bounds) simp
  finally have "- 20 \<le> binade ?x" by (simp add: pow2_less_iff)
  then have "pow2 (binade ?x) \<le> round_pos ?x" by (intro round_pos_ge_start) simp_all
  then have pos: "0 < round_pos ?x" using pow2_pos [of "binade ?x"] by linarith
  have "fle (fround ?x) (fround 1)" by (rule fround_mono) simp
  moreover have "fround 1 = Fin 1" using float_of_int_exact [of 1] by (simp add: float_of_int_def)
  moreover have "fround ?x = PInf \<or> fround ?x = Fin (round_pos ?x)" by (simp add: fround_def Let_def)
  ultimately have "fround ?x = Fin (round_pos ?x)" "round_pos ?x \<le> 1" by auto
  with pos fround_fneg [of ?x] show ?thesis by auto
qed

lemma fround_cost: "n \<in> {- 20..20} \<Longrightarrow> fround (of_int n) = Fin (of_int n)"
proof -
  assume n: "n \<in> {- 20..20}"
  have nonneg: "fround (of_int m) = Fin (of_int m)" if "0 \<le> m" "m \<le> 20" for m
    using float_of_int_exact [of m] that by (simp add: float_of_int_def)
  show ?thesis
  proof (cases "0 \<le> n")
    case False
    with nonneg [of "- n"] n fround_fneg [of "of_int (- n)"] show ?thesis by simp
  qed (use n nonneg in simp)
qed

lemma approx_cost: "\<lbrakk> 0 \<le> a; a \<le> 20; 0 \<le> b; b \<le> 20 \<rbrakk> \<Longrightarrow> approx (Fin (of_int a)) (Fin (of_int b)) \<longleftrightarrow> a = b"
proof -
  assume ab: "0 \<le> a" "a \<le> 20" "0 \<le> b" "b \<le> 20"
  then have d: "fsub (Fin (of_int a)) (Fin (of_int b)) = Fin (of_int (a - b))"
    using fround_cost [of "a - b"] by (simp add: fsub_def)
  obtain t where t: "fround (1 / 1000000) = Fin t" "fround (- 1 / 1000000) = Fin (- t)" "0 < t" "t \<le> 1"
    using tolerance by blast
  have "a = b" if "of_int (a - b) < t" "- t < of_int (a - b)"
  proof -
    from that t(4) have "(of_int (a - b) :: rat) < of_int 1" "of_int (- 1) < (of_int (a - b) :: rat)" by simp_all
    then show ?thesis by (simp only: of_int_less_iff)
  qed
  with t(3) show ?thesis unfolding approx_def d t(1,2) Let_def by auto
qed

definition costs :: "int list \<Rightarrow> float64 list" where
  "costs ns = map (\<lambda>n. Fin (of_int n)) ns"

lemma cost_verdicts:
  "verdict_of (costs [3, 6]) = LooplessYen" "verdict_of (costs [3, 20]) = DisjointPaths" "verdict_of (costs [3]) = OnlyOnePath"
  using approx_cost [of 3 3] approx_cost [of 6 6] approx_cost [of 20 20] approx_cost [of 20 6]
  by (simp_all add: verdict_of_def costs_def)

definition path_edges :: "int list \<Rightarrow> (int \<times> int) set" where
  "path_edges p = set (zip p (tl p))"

text \<open>
  What the comment of handprobe claims: the graph has three paths from 1 to 4 without loops, of costs 3,
  6 and 20; the second of them by cost shares an edge with the shortest, and the only path that
  shares none is the third; and the verdict tells the two cases apart.
\<close>

theorem handprobe_settles:
  "hand_paths = {[1, 2, 3, 4], [1, 2, 4], [1, 5, 4]}
   \<and> map hand_cost [[1, 2, 3, 4], [1, 2, 4], [1, 5, 4]] = [3, 6, 20]
   \<and> {p \<in> hand_paths. path_edges p \<inter> path_edges [1, 2, 3, 4] = {}} = {[1, 5, 4]}
   \<and> verdict_of (costs [hand_cost [1, 2, 3, 4], hand_cost [1, 2, 4]]) = LooplessYen
   \<and> verdict_of (costs [hand_cost [1, 2, 3, 4], hand_cost [1, 5, 4]]) = DisjointPaths"
proof -
  have "hand_cost [1, 2, 3, 4] = 3" "hand_cost [1, 2, 4] = 6" "hand_cost [1, 5, 4] = 20" by (simp_all add: hand_graph_def)
  moreover have "{p \<in> hand_paths. path_edges p \<inter> path_edges [1, 2, 3, 4] = {}} = {[1, 5, 4]}"
    unfolding hand_paths_eq by (auto simp: path_edges_def)
  ultimately show ?thesis using hand_paths_eq cost_verdicts by simp
qed

end
