(* ===== verification/CacheReport.thy ===== *)
theory CacheReport
  imports CacheBench GoLines
begin

text \<open>
  cachebench/ristretto/bench.go: the results of the benchmarks and the records of the CSV file. What
  \<open>testing.Benchmark\<close> measures is a parameter.
\<close>

section \<open>Formatting\<close>

definition pad_left :: "nat \<Rightarrow> char \<Rightarrow> string \<Rightarrow> string" where
  "pad_left n c s = replicate (n - length s) c @ s"

text \<open>The verbs \<open>%nd\<close> and \<open>%0nd\<close>.\<close>

definition fmt_d :: "nat \<Rightarrow> int \<Rightarrow> string" where
  "fmt_d n v = pad_left n CHR '' '' (show_int v)"

definition fmt_0d :: "nat \<Rightarrow> int \<Rightarrow> string" where
  "fmt_0d n v =
     (if v < 0 then CHR ''-'' # pad_left (n - 1) CHR ''0'' (decimal (nat (- v)))
      else pad_left n CHR ''0'' (decimal (nat v)))"

text \<open>The verb \<open>%6.2f\<close>: two decimals, the exact expansion rounded to even.\<close>

fun two_decimals :: "float64 \<Rightarrow> string" where
  "two_decimals (Fin x) =
     (let k = nat (round_even (\<bar>x\<bar> * 100))
      in (if x < 0 then ''-'' else []) @ decimal (k div 100) @ ''.'' @ pad_left 2 CHR ''0'' (decimal (k mod 100)))"
| "two_decimals PInf = ''+Inf''"
| "two_decimals NInf = ''-Inf''"
| "two_decimals NaN = ''NaN''"

definition fmt_62f :: "float64 \<Rightarrow> string" where
  "fmt_62f x = pad_left 6 CHR '' '' (two_decimals x)"

section \<open>Results\<close>

definition ratio :: "policy_log \<Rightarrow> float64" where
  "ratio p = fdiv (float_of_int (pl_hits p)) (float_of_int (wrap64 (pl_hits p + pl_misses p)))"

text \<open>What is used of a \<open>BenchmarkResult\<close>: the number of iterations, its text and its quotients.\<close>

record bench_result =
  br_N :: int
  br_String :: string
  br_AllocsPerOp :: int
  br_BytesPerOp :: int
  br_NsPerOp :: int

record log_result =
  Ops :: float64
  Allocs :: u64
  Bytes :: u64
  Procs :: int
  lr_Hits :: int
  lr_Misses :: int
  NsOp :: int

definition zero_log_result :: log_result where
  "zero_log_result = \<lparr>Ops = Fin 0, Allocs = 0, Bytes = 0, Procs = 0, lr_Hits = 0, lr_Misses = 0, NsOp = 0\<rparr>"

definition NewResult :: "int \<Rightarrow> bench_result \<Rightarrow> log_collection \<Rightarrow> log_result go" where
  "NewResult procs res coll =
     (if br_N res = 0 then Ret (zero_log_result\<lparr>lr_Hits := coll_Hits coll, lr_Misses := coll_Misses coll\<rparr>)
      else go_bind (go_index (Split (CHR 0x09) (br_String res)) 2) (\<lambda>field.
        case ParseFloat (Trim field '' MB/s'') of
          None \<Rightarrow> Panic AssertFailed
        | Some opsraw \<Rightarrow>
            Ret \<lparr>Ops = opsraw, Allocs = of_int (br_AllocsPerOp res), Bytes = of_int (br_BytesPerOp res), Procs = procs,
                 lr_Hits = coll_Hits coll, lr_Misses = coll_Misses coll, NsOp = br_NsPerOp res\<rparr>))"

section \<open>Records\<close>

definition log_record :: "benchmark \<Rightarrow> log_result \<Rightarrow> string list go" where
  "log_record b r =
     (let goroutines = fmt_d 2 (wrap64 (Para b * Procs r));
          mOpsPerSec = fmt_62f (Ops r); allocsPerOp = fmt_0d 2 (uint (Allocs r)); bytesPerOp = fmt_0d 3 (uint (Bytes r));
          nsPerOp = fmt_d 6 (NsOp r); totalHits = fmt_0d 8 (lr_Hits r); totalMisses = fmt_0d 8 (lr_Misses r);
          hitRatio = fmt_62f (fmul (Fin 100) (fdiv (float_of_int (lr_Hits r)) (float_of_int (wrap64 (lr_Hits r + lr_Misses r)))))
                       @ ''%''
      in go_bind (go_slice (Label b) 0 4) (\<lambda>kind.
           Ret (if kind = ''hits''
                then [Name b, Label b, goroutines, ''------'', ''------'', ''--'', ''---'', totalHits, totalMisses, hitRatio]
                else [Name b, Label b, goroutines, mOpsPerSec, nsPerOp, allocsPerOp, bytesPerOp,
                      ''--------'', ''--------'', ''-------''])))"

text \<open>
  The loop over the benchmarks: \<open>run_hits b\<close> is the collection of logs that a hit ratio benchmark leaves,
  \<open>run_speed b\<close> what \<open>testing.Benchmark\<close> returns for the other ones and the logs that it leaves.
\<close>

definition zero_bench :: bench_result where
  "zero_bench = \<lparr>br_N = 0, br_String = [], br_AllocsPerOp = 0, br_BytesPerOp = 0, br_NsPerOp = 0\<rparr>"

definition run_benchmark ::
  "int \<Rightarrow> (benchmark \<Rightarrow> log_collection go) \<Rightarrow> (benchmark \<Rightarrow> (bench_result \<times> log_collection) go) \<Rightarrow> benchmark \<Rightarrow>
     (benchmark \<times> log_result) go" where
  "run_benchmark procs run_hits run_speed b =
     go_bind (if HitsBencher b \<noteq> None then go_bind (run_hits b) (\<lambda>coll. Ret (zero_bench, coll))
              else if SpeedBencher b \<noteq> None then run_speed b
              else Ret (zero_bench, [])) (\<lambda>(res, coll).
       go_bind (NewResult procs res coll) (\<lambda>r. Ret (b, r)))"

definition run_benchmarks ::
  "int \<Rightarrow> (benchmark \<Rightarrow> log_collection go) \<Rightarrow> (benchmark \<Rightarrow> (bench_result \<times> log_collection) go) \<Rightarrow> benchmark list \<Rightarrow>
     string go" where
  "run_benchmarks procs run_hits run_speed bs =
     go_bind (go_fold (\<lambda>b logs. go_bind (run_benchmark procs run_hits run_speed b) (\<lambda>l. Ret (logs @ [l]))) bs []) (\<lambda>logs.
     go_bind (go_fold (\<lambda>(b, r) recs. go_bind (log_record b r) (\<lambda>rec. Ret (recs @ [rec]))) logs []) (\<lambda>recs.
       Ret (save recs)))"

section \<open>The width of the columns\<close>

lemma length_pad_left: "length (pad_left n c s) = max n (length s)"
  by (simp add: pad_left_def)

lemma length_fmt_0d: "\<lbrakk> 0 \<le> v; v < 10 ^ n; 0 < n \<rbrakk> \<Longrightarrow> length (fmt_0d n v) = n"
proof -
  assume v: "0 \<le> v" "v < 10 ^ n" "0 < n"
  then have "int (nat v) < int (10 ^ n)" by simp
  then have "nat v < 10 ^ n" by (simp only: of_nat_less_iff)
  from length_decimal [OF this v(3)] v(1) show ?thesis by (simp add: fmt_0d_def length_pad_left)
qed

lemma length_fmt_d: "\<lbrakk> 0 \<le> v; v < 10 ^ n; 0 < n \<rbrakk> \<Longrightarrow> length (fmt_d n v) = n"
proof -
  assume v: "0 \<le> v" "v < 10 ^ n" "0 < n"
  then have "int (nat v) < int (10 ^ n)" by simp
  then have "nat v < 10 ^ n" by (simp only: of_nat_less_iff)
  from length_decimal [OF this v(3)] v(1) show ?thesis by (simp add: fmt_d_def length_pad_left show_int_def)
qed

lemma length_percent:
  assumes "0 \<le> x" and "x \<le> 100"
  shows "length (fmt_62f (Fin x)) = 6"
proof -
  define k where "k = nat (round_even (\<bar>x\<bar> * 100))"
  have "round_even (\<bar>x\<bar> * 100) \<le> round_even (of_int 10000)" using assms by (intro round_even_mono) simp
  then have "round_even (\<bar>x\<bar> * 100) \<le> 10000" by (simp only: round_even_of_int)
  then have k: "k \<le> 10000" by (simp add: k_def)
  have "k mod 100 < 10 ^ 2" by simp
  from length_decimal [OF this] have "length (decimal (k mod 100)) \<le> 2" by simp
  moreover have "k div 100 < 10 ^ 3" using k by simp
  from length_decimal [OF this] have "length (decimal (k div 100)) \<le> 3" by simp
  moreover have "nat (round_even (x * 100)) = k" using assms(1) by (simp add: k_def)
  ultimately show ?thesis using assms(1)
    by (simp add: fmt_62f_def length_pad_left Let_def)
qed

lemma hit_ratio_range:
  assumes "0 \<le> h" and "0 \<le> m" and "h < 10 ^ 8" and "m < 10 ^ 8"
  defines "q \<equiv> fmul (Fin 100) (fdiv (float_of_int h) (float_of_int (wrap64 (h + m))))"
  shows "q = NaN \<or> (\<exists>x. q = Fin x \<and> 0 \<le> x \<and> x \<le> 100)"
proof (cases "h + m = 0")
  case True
  with assms(1,2) have "h = 0" "m = 0" by simp_all
  then show ?thesis by (simp add: q_def wrap64_small float_of_int_def)
next
  case False
  define s where "s = h + m"
  have s: "0 < s" "h \<le> s" "s < 2 ^ 53" using False assms(1-4) by (simp_all add: s_def)
  have w: "wrap64 (h + m) = s" using s by (simp add: s_def wrap64_small)
  have f: "float_of_int h = Fin (of_int h)" "float_of_int s = Fin (of_int s)"
    using float_of_int_exact [of h] float_of_int_exact [of s] assms(1) s by simp_all
  have unit: "fround 1 = Fin 1" "fround 100 = Fin 100"
    using float_of_int_exact [of 1] float_of_int_exact [of 100] by (simp_all add: float_of_int_def)
  have "0 \<le> (of_int h / of_int s :: rat)" "(of_int h / of_int s :: rat) \<le> 1" using assms(1) s by simp_all
  then have "fle (Fin 0) (fround (of_int h / of_int s))" "fle (fround (of_int h / of_int s)) (Fin 1)"
    using fround_nonneg fround_mono [of "of_int h / of_int s" 1] unit by simp_all
  then obtain r where r: "fround (of_int h / of_int s) = Fin r" "0 \<le> r" "r \<le> 1"
    by (cases "fround (of_int h / of_int s)") auto
  have "fle (Fin 0) (fround (100 * r))" "fle (fround (100 * r)) (Fin 100)"
    using fround_nonneg [of "100 * r"] fround_mono [of "100 * r" 100] r unit by simp_all
  then obtain x where "fround (100 * r) = Fin x" "0 \<le> x" "x \<le> 100" by (cases "fround (100 * r)") auto
  with r s show ?thesis by (simp add: q_def w f)
qed

text \<open>
  The columns of the hit ratio records line up: with at most two digits of goroutines and counts below
  \<open>10 ^ 8\<close>, the ratio is a number between 0 and 100 or not a number, and the fields behind the label
  have the widths of their columns.
\<close>

theorem hits_record_widths:
  assumes "take 4 (Label b) = ''hits''" and "0 \<le> wrap64 (Para b * Procs r)" and "wrap64 (Para b * Procs r) < 100"
    and "0 \<le> lr_Hits r" and "lr_Hits r < 10 ^ 8" and "0 \<le> lr_Misses r" and "lr_Misses r < 10 ^ 8"
  shows "\<exists>fs. log_record b r = Ret (Name b # Label b # fs) \<and> map length fs = [2, 6, 6, 2, 3, 8, 8, 7]"
proof -
  have "4 \<le> length (Label b)" using arg_cong [OF assms(1), of length] by simp
  then have kind: "go_slice (Label b) 0 4 = Ret ''hits''"
    using assms(1) by (simp add: go_slice_def)
  have "length (fmt_62f NaN) = 6" by (simp add: fmt_62f_def length_pad_left)
  with hit_ratio_range [OF assms(4,6,5,7)] length_percent
  have ratio: "length (fmt_62f (fmul (Fin 100) (fdiv (float_of_int (lr_Hits r)) (float_of_int (wrap64 (lr_Hits r + lr_Misses r)))))) = 6"
    by auto
  show ?thesis
    using length_fmt_d [of "wrap64 (Para b * Procs r)" 2] length_fmt_0d [of "lr_Hits r" 8] length_fmt_0d [of "lr_Misses r" 8]
      assms(2-7) ratio
    by (simp add: log_record_def kind Let_def)
qed

theorem hits_record_widths_witness:
  "\<exists>fs. log_record \<lparr>Name = ''n'', Label = ''hits-zipf'', HitsBencher = Some BHitsZipf, SpeedBencher = None, Para = 1, Create = (KOptimal, 5)\<rparr>
       (zero_log_result\<lparr>lr_Hits := 3, lr_Misses := 1\<rparr>) = Ret (''n'' # ''hits-zipf'' # fs) \<and> map length fs = [2, 6, 6, 2, 3, 8, 8, 7]"
  using hits_record_widths [of "\<lparr>Name = ''n'', Label = ''hits-zipf'', HitsBencher = Some BHitsZipf, SpeedBencher = None, Para = 1, Create = (KOptimal, 5)\<rparr>"
      "zero_log_result\<lparr>lr_Hits := 3, lr_Misses := 1\<rparr>"]
  by (simp add: zero_log_result_def wrap64_small)

end
