(* ===== verification/WorkPool.thy ===== *)
theory WorkPool
  imports Prelude "HOL-Library.Multiset"
begin

text \<open>
  Workers that take jobs from a channel: the main goroutine starts \<open>n\<close> workers, sends the jobs,
  closes the channel and waits for the workers. What a worker does with a job is a sequence of
  actions on the state that the workers share, each of which is one step; an action may end the
  whole program. The clients are \<open>runPerf\<close> of the benchmark, the bolt loader and the mutations.
\<close>

section \<open>Steps\<close>

text \<open>
  A worker starts, is idle (it waits for a job), is busy with a job in some phase, or has ended. The
  field \<open>handled\<close> records the jobs that are done with, in that order.
\<close>

record ('j, 'w, 's) work_pool =
  unsent :: "'j list"
  channel :: "'j list"
  closed :: bool
  starting :: nat
  waiting :: nat
  busy :: "('j \<times> 'w) multiset"
  ended :: nat
  handled :: "'j list"
  shared :: 's

definition work_start :: "nat \<Rightarrow> 'j list \<Rightarrow> 's \<Rightarrow> ('j, 'w, 's) work_pool" where
  "work_start n js s =
     \<lparr>unsent = js, channel = [], closed = False, starting = n, waiting = 0, busy = {#}, ended = 0, handled = [],
      shared = s\<rparr>"

text \<open>
  \<open>act j w s w' s'\<close> is an action on the job \<open>j\<close> in phase \<open>w\<close>, after which the worker is in another phase
  or (\<open>None\<close>) done with the job. A worker that starts may first have to open something, \<open>opens\<close>
  telling whether an attempt succeeds; it tries again until one does. Nothing happens any more in a
  state that is \<open>halted\<close>.
\<close>

definition at_once :: "'s \<Rightarrow> bool \<times> 's" where
  "at_once s = (True, s)"

lemma at_once_eq [simp]: "at_once s = (b, s') \<longleftrightarrow> b \<and> s' = s"
  by (auto simp: at_once_def)

inductive work_step ::
  "nat \<Rightarrow> ('s \<Rightarrow> bool \<times> 's) \<Rightarrow> 'w \<Rightarrow> ('j \<Rightarrow> 'w \<Rightarrow> 's \<Rightarrow> 'w option \<Rightarrow> 's \<Rightarrow> bool) \<Rightarrow> ('s \<Rightarrow> bool) \<Rightarrow>
     ('j, 'w, 's) work_pool \<Rightarrow> ('j, 'w, 's) work_pool \<Rightarrow> bool"
  for cap :: nat and opens :: "'s \<Rightarrow> bool \<times> 's" and first :: 'w and act :: "'j \<Rightarrow> 'w \<Rightarrow> 's \<Rightarrow> 'w option \<Rightarrow> 's \<Rightarrow> bool" and halted :: "'s \<Rightarrow> bool" where
  start: "\<lbrakk> \<not> halted (shared p); 0 < starting p; opens (shared p) = (True, s) \<rbrakk> \<Longrightarrow>
     work_step cap opens first act halted p
       (p\<lparr>starting := starting p - 1, waiting := waiting p + 1, shared := s\<rparr>)"
| try_again: "\<lbrakk> \<not> halted (shared p); 0 < starting p; opens (shared p) = (False, s) \<rbrakk> \<Longrightarrow>
     work_step cap opens first act halted p (p\<lparr>shared := s\<rparr>)"
| send: "\<lbrakk> \<not> halted (shared p); unsent p = j # js; length (channel p) < cap \<rbrakk> \<Longrightarrow>
     work_step cap opens first act halted p (p\<lparr>unsent := js, channel := channel p @ [j]\<rparr>)"
| close: "\<lbrakk> \<not> halted (shared p); unsent p = []; \<not> closed p \<rbrakk> \<Longrightarrow>
     work_step cap opens first act halted p (p\<lparr>closed := True\<rparr>)"
| take: "\<lbrakk> \<not> halted (shared p); channel p = j # js; 0 < waiting p \<rbrakk> \<Longrightarrow>
     work_step cap opens first act halted p
       (p\<lparr>channel := js, waiting := waiting p - 1, busy := add_mset (j, first) (busy p)\<rparr>)"
| act: "\<lbrakk> \<not> halted (shared p); (j, w) \<in># busy p; act j w (shared p) (Some w') s \<rbrakk> \<Longrightarrow>
     work_step cap opens first act halted p (p\<lparr>busy := add_mset (j, w') (busy p - {#(j, w)#}), shared := s\<rparr>)"
| finish: "\<lbrakk> \<not> halted (shared p); (j, w) \<in># busy p; act j w (shared p) None s \<rbrakk> \<Longrightarrow>
     work_step cap opens first act halted p
       (p\<lparr>busy := busy p - {#(j, w)#}, waiting := waiting p + 1, handled := handled p @ [j], shared := s\<rparr>)"
| return: "\<lbrakk> \<not> halted (shared p); channel p = []; closed p; 0 < waiting p \<rbrakk> \<Longrightarrow>
     work_step cap opens first act halted p (p\<lparr>waiting := waiting p - 1, ended := ended p + 1\<rparr>)"

inductive work_reach ::
  "nat \<Rightarrow> ('s \<Rightarrow> bool \<times> 's) \<Rightarrow> 'w \<Rightarrow> ('j \<Rightarrow> 'w \<Rightarrow> 's \<Rightarrow> 'w option \<Rightarrow> 's \<Rightarrow> bool) \<Rightarrow> ('s \<Rightarrow> bool) \<Rightarrow>
     ('j, 'w, 's) work_pool \<Rightarrow> ('j, 'w, 's) work_pool \<Rightarrow> bool"
  for cap :: nat and opens :: "'s \<Rightarrow> bool \<times> 's" and first :: 'w and act :: "'j \<Rightarrow> 'w \<Rightarrow> 's \<Rightarrow> 'w option \<Rightarrow> 's \<Rightarrow> bool" and halted :: "'s \<Rightarrow> bool"
    and p0 :: "('j, 'w, 's) work_pool" where
  refl: "work_reach cap opens first act halted p0 p0"
| step: "\<lbrakk> work_reach cap opens first act halted p0 p; work_step cap opens first act halted p p' \<rbrakk> \<Longrightarrow>
     work_reach cap opens first act halted p0 p'"

text \<open>The wait for \<open>n\<close> workers is over.\<close>

definition work_done :: "nat \<Rightarrow> ('j, 'w, 's) work_pool \<Rightarrow> bool" where
  "work_done n p \<longleftrightarrow> closed p \<and> ended p = n"

section \<open>The invariant\<close>

definition work_ok :: "nat \<Rightarrow> 'j list \<Rightarrow> ('j, 'w, 's) work_pool \<Rightarrow> bool" where
  "work_ok n js p \<longleftrightarrow>
     mset (unsent p) + mset (channel p) + image_mset fst (busy p) + mset (handled p) = mset js
     \<and> starting p + waiting p + size (busy p) + ended p = n
     \<and> (closed p \<longrightarrow> unsent p = []) \<and> (0 < ended p \<longrightarrow> closed p \<and> channel p = [])"

lemma work_ok_start: "work_ok n js (work_start n js s)"
  by (simp add: work_ok_def work_start_def)

lemma work_ok_step: "work_step cap opens first act halted p p' \<Longrightarrow> work_ok n js p \<Longrightarrow> work_ok n js p'"
proof (induction rule: work_step.induct)
  case (act p j w w' s)
  then obtain B where "busy p = add_mset (j, w) B" by (metis insert_DiffM)
  with act.prems show ?case by (simp add: work_ok_def)
next
  case (finish p j w s)
  then obtain B where "busy p = add_mset (j, w) B" by (metis insert_DiffM)
  with finish.prems show ?case by (auto simp: work_ok_def)
qed (auto simp: work_ok_def)

lemma work_reach_ok: "work_reach cap opens first act halted (work_start n js s) p \<Longrightarrow> work_ok n js p"
  by (induction rule: work_reach.induct) (auto intro: work_ok_start work_ok_step)

text \<open>When the wait is over every job has been handled once.\<close>

lemma work_done_handled:
  assumes "work_ok n js p" and "work_done n p" and "0 < n"
  shows "mset (handled p) = mset js"
  using assms by (auto simp: work_ok_def work_done_def)

text \<open>An invariant that every step keeps holds in every state that is reached.\<close>

lemma work_reach_inv:
  assumes "work_reach cap opens first act halted p0 p" and "I p0"
    and "\<And>p p'. work_reach cap opens first act halted p0 p \<Longrightarrow> I p \<Longrightarrow> work_step cap opens first act halted p p' \<Longrightarrow> I p'"
  shows "I p"
  using assms(1) by induction (auto intro: assms(2,3))

section \<open>Steps between given states\<close>

definition pool_at ::
  "'j list \<Rightarrow> 'j list \<Rightarrow> bool \<Rightarrow> nat \<Rightarrow> nat \<Rightarrow> ('j \<times> 'w) multiset \<Rightarrow> nat \<Rightarrow> 'j list \<Rightarrow> 's \<Rightarrow>
     ('j, 'w, 's) work_pool" where
  "pool_at u c d n w b e h s =
     \<lparr>unsent = u, channel = c, closed = d, starting = n, waiting = w, busy = b, ended = e, handled = h, shared = s\<rparr>"

lemma pool_at_start: "work_start n js s = pool_at js [] False n 0 {#} 0 [] s"
  by (simp add: work_start_def pool_at_def)

lemma pool_at_sel [simp]:
  "closed (pool_at u c d n w b e h s) = d" "ended (pool_at u c d n w b e h s) = e"
  "handled (pool_at u c d n w b e h s) = h" "shared (pool_at u c d n w b e h s) = s"
  by (simp_all add: pool_at_def)

lemma pool_at_steps:
  fixes cap opens first and act :: "'j \<Rightarrow> 'w \<Rightarrow> 's \<Rightarrow> 'w option \<Rightarrow> 's \<Rightarrow> bool" and halted
  defines "to \<equiv> work_step cap opens first act halted"
  assumes "\<not> halted s"
  shows "opens s = (True, s') \<Longrightarrow> to (pool_at u c d (Suc n) w b e h s) (pool_at u c d n (Suc w) b e h s')"
    and "length c < cap \<Longrightarrow> to (pool_at (j # u) c d n w b e h s) (pool_at u (c @ [j]) d n w b e h s)"
    and "to (pool_at [] c False n w b e h s) (pool_at [] c True n w b e h s)"
    and "to (pool_at u (j # c) d n (Suc w) b e h s) (pool_at u c d n w (add_mset (j, first) b) e h s)"
    and "act j x s (Some x') s' \<Longrightarrow>
      to (pool_at u c d n w (add_mset (j, x) b) e h s) (pool_at u c d n w (add_mset (j, x') b) e h s')"
    and "act j x s None s' \<Longrightarrow>
      to (pool_at u c d n w (add_mset (j, x) b) e h s) (pool_at u c d n (Suc w) b e (h @ [j]) s')"
    and "to (pool_at u [] True n (Suc w) b e h s) (pool_at u [] True n w b (Suc e) h s)"
  using assms(2)
    work_step.start [of halted "pool_at u c d (Suc n) w b e h s" opens s' cap first act]
    work_step.send [of halted "pool_at (j # u) c d n w b e h s" j u cap opens first act]
    work_step.close [of halted "pool_at [] c False n w b e h s" cap opens first act]
    work_step.take [of halted "pool_at u (j # c) d n (Suc w) b e h s" j c cap opens first act]
    work_step.act [of halted "pool_at u c d n w (add_mset (j, x) b) e h s" j x act x' s' cap opens first]
    work_step.finish [of halted "pool_at u c d n w (add_mset (j, x) b) e h s" j x act s' cap opens first]
    work_step.return [of halted "pool_at u [] True n (Suc w) b e h s" cap opens first act]
  by (simp_all add: to_def pool_at_def)

section \<open>Progress\<close>

lemma work_progress:
  assumes "work_ok n js p" and enabled: "\<And>j w s. \<not> halted s \<Longrightarrow> \<exists>w' s'. act j w s w' s'"
    and "\<not> halted (shared p)" and "\<not> work_done n p" and "0 < n" and "0 < cap"
  shows "\<exists>p'. work_step cap opens first act halted p p'"
proof (cases "busy p = {#}")
  case False
  then obtain j w where jw: "(j, w) \<in># busy p" by (metis multiset_nonemptyE surj_pair)
  obtain w' s' where "act j w (shared p) w' s'" using enabled assms(3) by blast
  then show ?thesis
    using work_step.act [of halted p j w act _ s' cap opens first] work_step.finish [of halted p j w act s' cap opens first] assms(3) jw
    by (cases w') (auto simp del: work_pool.update_convs)
next
  case nobody: True
  consider "0 < starting p" | "starting p = 0" "0 < waiting p" | "starting p = 0" "waiting p = 0" by fastforce
  then show ?thesis
  proof cases
    case 1
    obtain b s where "opens (shared p) = (b, s)" by fastforce
    with 1 show ?thesis
      using work_step.start [of halted p opens s cap first act] work_step.try_again [of halted p opens s cap first act] assms(3)
      by (cases b) (auto simp del: work_pool.update_convs)
  next
    case 2
    consider j ns where "channel p = j # ns" | "channel p = []" "closed p" | "channel p = []" "\<not> closed p" "unsent p = []"
      | j ns where "channel p = []" "unsent p = j # ns"
      by (metis neq_Nil_conv)
    then show ?thesis
    proof cases
      case 1
      then show ?thesis using work_step.take [of halted p j ns cap opens first act] 2(2) assms(3) by auto
    next
      case 2
      then show ?thesis using work_step.return [of halted p cap opens first act] \<open>0 < waiting p\<close> assms(3) by auto
    next
      case 3
      then show ?thesis using work_step.close [of halted p cap opens first act] assms(3) by auto
    next
      case 4
      then show ?thesis using work_step.send [of halted p j ns cap opens first act] assms(3,6) by auto
    qed
  next
    case 3
    with nobody assms(1,4,5) show ?thesis by (simp add: work_ok_def work_done_def)
  qed
qed

section \<open>Jobs that end\<close>

text \<open>
  What the actions promise: each of them brings the job nearer to its end, an attempt to open that
  fails brings the next success nearer, and as long as the program is not halted there is an action.
  Then the pool goes on until it is halted or done, and it cannot go on for ever.
\<close>

locale ending_jobs =
  fixes act :: "'j \<Rightarrow> 'w \<Rightarrow> 's \<Rightarrow> 'w option \<Rightarrow> 's \<Rightarrow> bool" and weight :: "'w \<Rightarrow> nat" and first :: 'w
    and opens :: "'s \<Rightarrow> bool \<times> 's" and patience :: "'s \<Rightarrow> nat"
  assumes nearer: "act j w s (Some w') s' \<Longrightarrow> weight w' < weight w"
    and patient: "act j w s x s' \<Longrightarrow> patience s' \<le> patience s"
    and fails: "opens s = (False, s') \<Longrightarrow> patience s' < patience s"
begin

definition pool_weight :: "('j, 'w, 's) work_pool \<Rightarrow> nat" where
  "pool_weight p =
     (weight first + 3) * length (unsent p) + (weight first + 2) * length (channel p)
     + (\<Sum>(j, w) \<in># busy p. weight w + 1) + (if closed p then 0 else 1)
     + (waiting p + size (busy p))"

text \<open>Workers start, then attempts are used up, then jobs come nearer to their ends.\<close>

definition pool_order :: "(('j, 'w, 's) work_pool \<times> ('j, 'w, 's) work_pool) set" where
  "pool_order = measures [starting, \<lambda>p. patience (shared p), pool_weight]"

lemma step_order: "work_step cap opens first act halted p p' \<Longrightarrow> (p', p) \<in> pool_order"
proof (induction rule: work_step.induct)
  case (try_again p s)
  with fails show ?case by (simp add: pool_order_def)
next
  case (act p j w w' s)
  then obtain B where "busy p = add_mset (j, w) B" by (metis insert_DiffM)
  with nearer [OF act(3)] patient [OF act(3)] show ?case by (auto simp: pool_order_def pool_weight_def)
next
  case (finish p j w s)
  then obtain B where "busy p = add_mset (j, w) B" by (metis insert_DiffM)
  with patient [OF finish(3)] show ?case by (auto simp: pool_order_def pool_weight_def)
qed (auto simp: pool_order_def pool_weight_def)

lemma steps_end: "wf {(p', p). work_step cap opens first act halted p p'}"
proof -
  have "{(p', p). work_step cap opens first act halted p p'} \<subseteq> pool_order" using step_order by auto
  then show ?thesis by (rule wf_subset [rotated]) (simp add: pool_order_def)
qed

end

locale live_jobs = ending_jobs act weight first opens patience
  for act :: "'j \<Rightarrow> 'w \<Rightarrow> 's \<Rightarrow> 'w option \<Rightarrow> 's \<Rightarrow> bool" and weight :: "'w \<Rightarrow> nat" and first :: 'w
    and opens :: "'s \<Rightarrow> bool \<times> 's" and patience :: "'s \<Rightarrow> nat" +
  fixes halted :: "'s \<Rightarrow> bool"
  assumes enabled: "\<not> halted s \<Longrightarrow> \<exists>w' s'. act j w s w' s'"
begin

lemma progress:
  assumes "work_ok n js p" and "\<not> halted (shared p)" and "\<not> work_done n p" and "0 < n" and "0 < cap"
  shows "\<exists>p'. work_step cap opens first act halted p p'"
  by (rule work_progress [OF assms(1), of halted act]) (use assms enabled in blast)+

end

end
