(* ===== verification/KPerf.thy ===== *)
theory KPerf
  imports KBenchProps KShortestProps
begin

text \<open>
  The rest of k-shortest-path/cmd/bench/main.go: the result of the perf mode with the peak of the heap,
  the result of the correctness mode, and the JSON of a failure. The answers to the queries, in the
  order in which they come, the allocs of the heap and the clock are parameters.
\<close>

section \<open>The perf mode\<close>

record perf_config =
  pc_dataset :: string
  pc_maxFrontier :: int
  pc_numPaths :: int
  pc_pairs :: int
  pc_concurrency :: int

record perfResult =
  pr_Dataset :: string
  pr_MaxFrontier :: int
  pr_NumPaths :: int
  pr_Pairs :: int
  pr_Concurrency :: int
  pr_Latency :: summary
  HeapMaxMB :: "64 word"

text \<open>The greatest of the allocs of the heap.\<close>

definition heap_peak :: "64 word list \<Rightarrow> 64 word" where
  "heap_peak allocs = fold (\<lambda>alloc peak. if peak < alloc then alloc else peak) allocs 0"

text \<open>The channel of pairs has room for two pairs a worker; without workers the run waits for ever.\<close>

definition runPerf ::
  "(nat \<Rightarrow> 'r \<Rightarrow> nat \<times> 'r) \<Rightarrow> int list \<Rightarrow> uid_map \<Rightarrow> perf_config \<Rightarrow> 'r \<Rightarrow>
     ((string \<times> string) list \<Rightarrow> (ShortestResult \<times> client_error option) list) \<Rightarrow> 64 word list \<Rightarrow> int \<Rightarrow> perfResult option go" where
  "runPerf intn order uidMap cfg r answers allocs wall =
     go_bind (perf_pairs intn order uidMap (pc_pairs cfg) r) (\<lambda>ps.
       case ps of
         None \<Rightarrow> Ret None
       | Some ps \<Rightarrow>
           if \<not> chan_fits 32 (wrap64 (pc_concurrency cfg * 2)) then Panic MakeChanSize
           else if pc_concurrency cfg \<le> 0 \<and> ps \<noteq> [] then Hang
           else Ret (Some
           \<lparr>pr_Dataset = path_Base (pc_dataset cfg), pr_MaxFrontier = pc_maxFrontier cfg, pr_NumPaths = pc_numPaths cfg,
            pr_Pairs = pc_pairs cfg, pr_Concurrency = pc_concurrency cfg,
            pr_Latency = fst (Summarize wall (perf_record (answers ps))), HeapMaxMB = heap_peak allocs div (1024 * 1024)\<rparr>))"

section \<open>The correctness mode\<close>

record correctness_report =
  rp_Dataset :: string
  rp_SourceVertex :: int
  rp_MaxFrontier :: int
  rp_Concurrency :: int
  rp_Sampled :: nat
  rp_Epsilon :: float64
  rp_tally :: correctnessResult
  rp_Latency :: summary

text \<open>
  The answers for the targets, as the main loop receives them from the pool. Without a worker
  the feeder and the main loop wait for ever.
\<close>

definition runCorrectness ::
  "(int \<Rightarrow> nat \<Rightarrow> nat list) \<Rightarrow> int list \<Rightarrow> (string \<Rightarrow> reader option) \<Rightarrow> Dataset \<Rightarrow> uid_map \<Rightarrow> int \<Rightarrow> int \<Rightarrow>
     int \<Rightarrow> int \<Rightarrow> (string \<Rightarrow> int list \<Rightarrow> query_result list) \<Rightarrow> int \<Rightarrow> (start_error + correctness_report) go" where
  "runCorrectness shuffle order fs ds uidMap n seed maxFrontier concurrency answers wall =
     (case correctness_start shuffle order fs ds uidMap n seed of
        Inl e \<Rightarrow> Ret (Inl e)
      | Inr (srcUID, ref, targets) \<Rightarrow>
          if \<not> chan_fits 88 (wrap64 (concurrency * 2)) then Panic MakeChanSize
          else if concurrency \<le> 0 \<and> targets \<noteq> [] then Hang
          else let tally = fold (count_query ref) (answers srcUID targets) zero_tally
            in Ret (Inr
               \<lparr>rp_Dataset = ds_Name ds, rp_SourceVertex = SourceVertex (ds_Properties ds), rp_MaxFrontier = maxFrontier,
                rp_Concurrency = concurrency, rp_Sampled = length targets, rp_Epsilon = epsilon, rp_tally = tally,
                rp_Latency = fst (Summarize wall (cr_rec tally))\<rparr>))"

text \<open>A failure as JSON; the relative error is left out if it is 0.\<close>

definition failure_json :: "correctnessFailure \<Rightarrow> json" where
  "failure_json f =
     JObject ([(''vertex'', JNumber (show_int (Vertex f))), (''expected'', jsonDist (Expected f)), (''got'', jsonDist (Got f))]
       @ (if feq (RelErr f) (Fin 0) then [] else [(''rel_err'', JFloat (RelErr f))]))"

section \<open>Facts\<close>

lemma perf_pairs_length:
  assumes "perf_pairs intn order uidMap pairs r = Ret (Some ps)"
  shows "int (length ps) = pairs"
proof -
  have "length ijs = k" if "draw_pairs intn ids k r = Ret ijs" for ids k r ijs
    using that by (induction k arbitrary: r ijs) (auto simp: go_simps)
  then show ?thesis using assms by (auto simp: perf_pairs_def make_fits_def Let_def go_simps split: if_splits)
qed

lemma heap_peak_Max: "s \<in> set allocs \<Longrightarrow> s \<le> heap_peak allocs"
proof -
  have "p \<le> fold (\<lambda>alloc peak. if peak < alloc then alloc else peak) ss p
      \<and> (\<forall>s \<in> set ss. s \<le> fold (\<lambda>alloc peak. if peak < alloc then alloc else peak) ss p)" for ss and p :: "64 word"
  proof (induction ss arbitrary: p)
    case (Cons s ss)
    from Cons.IH [of "if p < s then s else p"] show ?case by (auto split: if_splits)
  qed simp
  then show "s \<in> set allocs \<Longrightarrow> s \<le> heap_peak allocs" by (simp add: heap_peak_def)
qed

lemma redraw_differs:
  assumes "redraw intn ids a b r = Some res" and intn: "\<And>n r. 0 < n \<Longrightarrow> fst (intn n r) < n" and "b \<in> set ids"
  shows "a \<noteq> fst res \<and> fst res \<in> set ids"
proof -
  let ?good = "\<lambda>f xs a b (res :: int \<times> 'a). f = intn \<longrightarrow> xs = ids \<longrightarrow> b \<in> set ids \<longrightarrow> a \<noteq> fst res \<and> fst res \<in> set ids"
  have "?good intn ids a b res"
  proof (rule redraw.raw_induct [where P = "\<lambda>f xs a b _ res. ?good f xs a b res", OF _ assms(1)], intro impI)
    fix loop :: "(nat \<Rightarrow> 'a \<Rightarrow> nat \<times> 'a) \<Rightarrow> int list \<Rightarrow> int \<Rightarrow> int \<Rightarrow> 'a \<Rightarrow> (int \<times> 'a) option" and f xs a b r res
    assume IH: "\<And>f xs a b r res. loop f xs a b r = Some res \<Longrightarrow> ?good f xs a b res"
      and eq: "(if a = b then let (j, r) = f (length xs) r in loop f xs a (xs ! j) r else Some (b, r)) = Some res"
      and "f = intn" "xs = ids" "b \<in> set ids"
    show "a \<noteq> fst res \<and> fst res \<in> set ids"
    proof (cases "a = b")
      case True
      obtain j r1 where j: "intn (length ids) r = (j, r1)" by (cases "intn (length ids) r")
      have "j < length ids" using intn [of "length ids" r] j \<open>b \<in> set ids\<close> by (auto dest: length_pos_if_in_set)
      moreover have "loop intn ids a (ids ! j) r1 = Some res" using eq True j \<open>f = intn\<close> \<open>xs = ids\<close> by simp
      ultimately show ?thesis using IH [of intn ids a "ids ! j" r1 res] by simp
    next
      case False
      with eq \<open>b \<in> set ids\<close> show ?thesis by auto
    qed
  qed
  with assms(3) show ?thesis by simp
qed

definition pair_ok :: "int list \<Rightarrow> int \<times> int \<Rightarrow> bool" where
  "pair_ok ids p \<longleftrightarrow> fst p \<noteq> snd p \<and> fst p \<in> set ids \<and> snd p \<in> set ids"

lemma draw_pair_ok:
  assumes "draw_pair intn ids r = Ret (p, r')" and "\<And>n r. 0 < n \<Longrightarrow> fst (intn n r) < n" and "ids \<noteq> []"
  shows "pair_ok ids p"
proof -
  obtain i r1 where i: "intn (length ids) r = (i, r1)" by (cases "intn (length ids) r")
  obtain j r2 where j: "intn (length ids) r1 = (j, r2)" by (cases "intn (length ids) r1")
  from assms(1) i j obtain b where "redraw intn ids (ids ! i) (ids ! j) r2 = Some (b, r')" "p = (ids ! i, b)"
    by (cases "redraw intn ids (ids ! i) (ids ! j) r2") (auto simp: draw_pair_def go_simps)
  moreover have "i < length ids" "j < length ids"
    using assms(2) [of "length ids" r] assms(2) [of "length ids" r1] assms(3) i j by simp_all
  ultimately show ?thesis using redraw_differs [of intn ids "ids ! i" "ids ! j" r2 "(b, r')"] assms(2)
    by (simp add: pair_ok_def)
qed

lemma draw_pairs_ok:
  assumes "\<And>n r. 0 < n \<Longrightarrow> fst (intn n r) < n" and "ids \<noteq> []"
  shows "draw_pairs intn ids k r = Ret ps \<Longrightarrow> length ps = k \<and> list_all (pair_ok ids) ps"
proof (induction k arbitrary: r ps)
  case (Suc k)
  then obtain p r' ps' where "draw_pair intn ids r = Ret (p, r')" "draw_pairs intn ids k r' = Ret ps'" "ps = p # ps'"
    by (auto simp: go_simps)
  with Suc.IH [of r' ps'] draw_pair_ok [of intn ids r p r'] assms show ?case by simp
qed simp

lemma perf_record_counts:
  "int (length (recorder.samples (perf_record rs))) + errs (perf_record rs) = int (length rs)"
proof -
  have "int (length (recorder.samples (fold (\<lambda>(sr, err) rec. if err \<noteq> None then RecordError rec else Record (Latency sr) rec) rs rec0)))
      + errs (fold (\<lambda>(sr, err) rec. if err \<noteq> None then RecordError rec else Record (Latency sr) rec) rs rec0)
      = int (length (recorder.samples rec0)) + errs rec0 + int (length rs)" for rec0
    by (induction rs arbitrary: rec0) (auto simp: RecordError_def Record_def)
  from this [of stats_New] show ?thesis by (simp add: perf_record_def stats_New_def)
qed

text \<open>
  A perf run that ends queries as many pairs as asked for, each of the uids of two different vertices
  of the graph, and if every query gives one answer, the summary counts each of them as a latency
  or an error.
\<close>

theorem runPerf_pairs:
  assumes "runPerf intn order uidMap cfg r answers allocs wall = Ret (Some res)"
    and "\<And>n r. 0 < n \<Longrightarrow> fst (intn n r) < n" and "\<And>ps. length (answers ps) = length ps"
  shows "(\<exists>ps. perf_pairs intn order uidMap (pc_pairs cfg) r = Ret (Some ps) \<and> int (length ps) = pc_pairs cfg
      \<and> list_all (\<lambda>(u, v). \<exists>a \<in> set order. \<exists>b \<in> set order. a \<noteq> b \<and> u = (case uidMap a of Some x \<Rightarrow> x | None \<Rightarrow> [])
          \<and> v = (case uidMap b of Some x \<Rightarrow> x | None \<Rightarrow> [])) ps)
    \<and> int (Count (pr_Latency res)) + Errors (pr_Latency res) = pc_pairs cfg"
proof -
  from assms(1) obtain ps where ps: "perf_pairs intn order uidMap (pc_pairs cfg) r = Ret (Some ps)"
    and res: "pr_Latency res = fst (Summarize wall (perf_record (answers ps)))"
    by (auto simp: runPerf_def go_simps split: option.splits if_splits)
  let ?uid = "\<lambda>v. case uidMap v of Some u \<Rightarrow> u | None \<Rightarrow> []"
  from ps obtain ijs where ijs: "draw_pairs intn (sort order) (nat (pc_pairs cfg)) r = Ret ijs"
    "ps = map (\<lambda>(a, b). (?uid a, ?uid b)) ijs" and long: "2 \<le> length order" and nonneg: "0 \<le> pc_pairs cfg"
    by (auto simp: perf_pairs_def make_fits_def Let_def go_simps split: if_splits)
  have "sort order \<noteq> []" using long by (metis length_sort list.size(3) not_numeral_le_zero)
  from draw_pairs_ok [OF assms(2) this ijs(1)] have ok: "length ijs = nat (pc_pairs cfg)" "list_all (pair_ok order) ijs"
    by (auto simp: list_all_iff pair_ok_def)
  then have len: "int (length ps) = pc_pairs cfg" using nonneg by (simp add: ijs(2))
  moreover have "list_all (\<lambda>(u, v). \<exists>a \<in> set order. \<exists>b \<in> set order. a \<noteq> b \<and> u = ?uid a \<and> v = ?uid b) ps"
    using ok(2) by (fastforce simp: list_all_iff ijs(2) pair_ok_def)
  moreover have "int (Count (pr_Latency res)) + Errors (pr_Latency res) = pc_pairs cfg"
    using perf_record_counts [of "answers ps"] len assms(3) by (simp add: res Summarize_counts)
  ultimately show ?thesis using ps by blast
qed

text \<open>
  A correctness run over the pool: the report samples the targets, and passed, failed and failed
  queries add up to them.
\<close>

theorem runCorrectness_counts:
  assumes "correctness_start shuffle order fs ds uidMap n seed = Inr (src, ref, targets)"
    and "reachable_pool (nat concurrency) targets s" and "pool_done s" and "0 < concurrency"
    and "chan_fits 88 (concurrency * 2)"
  shows "\<exists>rep. runCorrectness shuffle order fs ds uidMap n seed maxFrontier concurrency (\<lambda>_ _. received s) wall = Ret (Inr rep)
    \<and> rp_Sampled rep = length targets \<and> tally_ok (length targets) (rp_tally rep)
    \<and> Count (rp_Latency rep) + QueryErrors (rp_tally rep) = length targets"
proof -
  have "image_mset fst (mset (received s)) = mset targets"
    using done_received [OF reachable_ok [OF assms(2)] assms(3)] assms(4) by simp
  then have "length (received s) = length targets" by (metis size_image_mset size_mset)
  with count_queries_ok [OF tally_ok_zero, of "received s" ref]
  have "tally_ok (length targets) (fold (count_query ref) (received s) zero_tally)" by simp
  moreover have "wrap64 (concurrency * 2) = concurrency * 2"
    using assms(4,5) by (intro wrap64_small) (simp_all add: chan_fits_def)
  ultimately show ?thesis using assms(1,4,5) by (simp add: runCorrectness_def Let_def Summarize_counts tally_ok_def)
qed

end
