(* ===== verification/KPerfPool.thy ===== *)
theory KPerfPool
  imports WorkPool KPerf
begin

text \<open>
  The workers of the perf mode of k-shortest-path/cmd/bench/main.go: each takes pairs, asks the server and
  records the latency or the error in the recorder that all share. The recorder holds its lock
  in each of its methods, so recording is one step.
\<close>

inductive perf_act ::
  "string \<times> string \<Rightarrow> unit \<Rightarrow> recorder \<Rightarrow> unit option \<Rightarrow> recorder \<Rightarrow> bool" where
  query_failed: "perf_act p () rec None (RecordError rec)"
| answered: "perf_act p () rec None (Record (Latency (sr :: ShortestResult)) rec)"

text \<open>The states that the workers reach with the pairs \<open>ps\<close>; the channel has room for two pairs a worker.\<close>

definition perf_reach ::
  "nat \<Rightarrow> (string \<times> string) list \<Rightarrow> (string \<times> string, unit, recorder) work_pool \<Rightarrow> bool" where
  "perf_reach n ps = work_reach (2 * n) at_once () perf_act (\<lambda>_. False) (work_start n ps stats_New)"

interpretation perf: live_jobs perf_act "\<lambda>_. 0" "()" at_once "\<lambda>_. 0" "\<lambda>_. False"
proof
  show "(0 :: nat) < 0" if "at_once s = (False, s')" for s s' :: recorder using that by simp
  show "0 < (0 :: nat)" if "perf_act p w s (Some w') s'" for p w s w' s'
    using that by (cases rule: perf_act.cases)
  show "\<exists>w' s'. perf_act p w s w' s'" for p w s using perf_act.query_failed [of p s] by (cases w) auto
qed simp

text \<open>The recorder after the answers: it is the same whatever worker has recorded each of them.\<close>

lemma perf_record_snoc:
  "perf_record (rs @ [(sr, err)]) = (if err \<noteq> None then RecordError (perf_record rs) else Record (Latency sr) (perf_record rs))"
  by (simp add: perf_record_def)

definition perf_inv :: "(string \<times> string, unit, recorder) work_pool \<Rightarrow> bool" where
  "perf_inv p \<longleftrightarrow> (\<exists>rs. shared p = perf_record rs \<and> length rs = length (handled p))"

lemma perf_inv_step: "work_step cap at_once () perf_act (\<lambda>_. False) p p' \<Longrightarrow> perf_inv p \<Longrightarrow> perf_inv p'"
proof (induction rule: work_step.induct)
  case (act p j w w' s)
  from act(3) show ?case by (cases rule: perf_act.cases)
next
  case (finish p j w s)
  then obtain rs where rs: "shared p = perf_record rs" "length rs = length (handled p)" by (auto simp: perf_inv_def)
  obtain sr err where "s = perf_record (rs @ [(sr, err)])"
    using finish(3) by (cases rule: perf_act.cases) (force simp: rs(1) perf_record_snoc)+
  then have "s = perf_record (rs @ [(sr, err)]) \<and> length (rs @ [(sr, err)]) = length (handled p @ [j])" using rs(2) by simp
  then show ?case unfolding perf_inv_def by (auto simp del: length_append)
qed (auto simp: perf_inv_def)

text \<open>
  C23: the perf mode with its workers: with a positive number of workers, for which Go can make the channel,
  and pairs that have been drawn, these are as many as asked for; in every state that is reached
  before the wait is over some goroutine can go on, and the run ends (each query returning); then
  each pair has been queried once, and the result counts each of them as a latency or an error, so
  that its count and its errors add up to the number of pairs asked for.
\<close>

theorem runPerf_workers:
  assumes "perf_pairs intn order uidMap (pc_pairs cfg) r = Ret (Some ps)" and "0 < pc_concurrency cfg"
    and "chan_fits 32 (pc_concurrency cfg * 2)" and "perf_reach (nat (pc_concurrency cfg)) ps p"
  shows "int (length ps) = pc_pairs cfg
    \<and> (\<not> work_done (nat (pc_concurrency cfg)) p \<longrightarrow>
      (\<exists>p'. work_step (2 * nat (pc_concurrency cfg)) at_once () perf_act (\<lambda>_. False) p p'))
    \<and> wf {(p', p). work_step (2 * nat (pc_concurrency cfg)) at_once () perf_act (\<lambda>_. False) p p'}
    \<and> (work_done (nat (pc_concurrency cfg)) p \<longrightarrow> mset (handled p) = mset ps
      \<and> (\<exists>rs res. shared p = perf_record rs \<and> runPerf intn order uidMap cfg r (\<lambda>_. rs) allocs wall = Ret (Some res)
           \<and> int (Count (pr_Latency res)) + Errors (pr_Latency res) = pc_pairs cfg))"
proof -
  have len: "int (length ps) = pc_pairs cfg" by (rule perf_pairs_length [OF assms(1)])
  have wrap: "wrap64 (pc_concurrency cfg * 2) = pc_concurrency cfg * 2"
    using assms(2,3) by (intro wrap64_small) (simp_all add: chan_fits_def)
  let ?n = "nat (pc_concurrency cfg)"
  have n: "0 < ?n" "0 < 2 * ?n" using assms(2) by simp_all
  note reach = assms(4) [unfolded perf_reach_def]
  have ok: "work_ok ?n ps p" by (rule work_reach_ok [OF reach])
  have "perf_record [] = stats_New" by (simp add: perf_record_def)
  then have "perf_inv (work_start ?n ps stats_New)" by (auto simp: perf_inv_def work_start_def intro: exI [of _ "[]"])
  from work_reach_inv [OF reach, of perf_inv, OF this] perf_inv_step have "perf_inv p" by blast
  then obtain rs where rs: "shared p = perf_record rs" "length rs = length (handled p)" by (auto simp: perf_inv_def)
  have "mset (handled p) = mset ps \<and> (\<exists>rs res. shared p = perf_record rs
      \<and> runPerf intn order uidMap cfg r (\<lambda>_. rs) allocs wall = Ret (Some res)
      \<and> int (Count (pr_Latency res)) + Errors (pr_Latency res) = pc_pairs cfg)" if fin: "work_done ?n p"
  proof -
    have h: "mset (handled p) = mset ps" by (rule work_done_handled [OF ok fin n(1)])
    obtain res where res: "runPerf intn order uidMap cfg r (\<lambda>_. rs) allocs wall = Ret (Some res)"
      "pr_Latency res = fst (Summarize wall (perf_record rs))"
      using assms(1,2,3) by (simp add: runPerf_def wrap)
    have "int (Count (pr_Latency res)) + Errors (pr_Latency res) = pc_pairs cfg"
      using perf_record_counts [of rs] rs(2) mset_eq_length [OF h] len by (simp add: res(2) Summarize_counts)
    with h rs(1) res(1) show ?thesis by blast
  qed
  moreover have "\<exists>p'. work_step (2 * ?n) at_once () perf_act (\<lambda>_. False) p p'" if "\<not> work_done ?n p"
    using perf.progress [OF ok _ that n] by simp
  ultimately show ?thesis using len perf.steps_end by blast
qed

definition demo_intn :: "nat \<Rightarrow> nat \<Rightarrow> nat \<times> nat" where
  "demo_intn n r = (r mod n, r + 1)"

definition demo_uids :: uid_map where
  "demo_uids = [1 \<mapsto> ''0x1'', 2 \<mapsto> ''0x2'']"

definition demo_perf :: perf_config where
  "demo_perf = \<lparr>pc_dataset = ''d'', pc_maxFrontier = 0, pc_numPaths = 1, pc_pairs = 1, pc_concurrency = 1\<rparr>"

lemma demo_pairs: "perf_pairs demo_intn [1, 2] demo_uids (pc_pairs demo_perf) 0 = Ret (Some [(''0x1'', ''0x2'')])"
proof -
  have "draw_pair demo_intn [1, 2] (0 :: nat) = Ret ((1, 2), 2)"
    by (simp add: draw_pair_def demo_intn_def redraw.simps)
  then have "draw_pairs demo_intn [1, 2] (Suc 0) 0 = Ret [(1, 2)]" by simp
  then show ?thesis by (simp add: perf_pairs_def demo_uids_def demo_perf_def make_fits_def)
qed

lemma reach_queried: "perf_reach 1 [q] (pool_at [] [] True 0 0 {#} (Suc 0) [q] (RecordError stats_New))"
proof -
  let ?R = "work_reach 2 at_once () perf_act (\<lambda>_. False) (pool_at [q] [] False (Suc 0) 0 {#} 0 [] stats_New)"
  note steps = pool_at_steps [where halted = "\<lambda>_. False" and act = perf_act and cap = 2 and first = "()" and opens = at_once, OF not_False_eq_True [THEN eqTrueE]]
  have "?R (pool_at [q] [] False (Suc 0) 0 {#} 0 [] stats_New)" by (rule work_reach.refl)
  from work_reach.step [OF this steps(1) [OF at_once_def]]
  have "?R (pool_at [q] [] False 0 (Suc 0) {#} 0 [] stats_New)" .
  from work_reach.step [OF this steps(2)]
  have "?R (pool_at [] [q] False 0 (Suc 0) {#} 0 [] stats_New)" by simp
  from work_reach.step [OF this steps(3)]
  have "?R (pool_at [] [q] True 0 (Suc 0) {#} 0 [] stats_New)" .
  from work_reach.step [OF this steps(4)]
  have "?R (pool_at [] [] True 0 0 {#(q, ())#} 0 [] stats_New)" .
  from work_reach.step [OF this steps(6) [OF perf_act.query_failed]]
  have "?R (pool_at [] [] True 0 (Suc 0) {#} 0 [q] (RecordError stats_New))" by simp
  from work_reach.step [OF this steps(7)]
  have "?R (pool_at [] [] True 0 0 {#} (Suc 0) [q] (RecordError stats_New))" .
  then show ?thesis by (simp add: perf_reach_def pool_at_start numeral_2_eq_2)
qed

theorem runPerf_workers_witness:
  "\<exists>rs res. runPerf demo_intn [1, 2] demo_uids demo_perf 0 (\<lambda>_. rs) [] 1000 = Ret (Some res)
    \<and> int (Count (pr_Latency res)) + Errors (pr_Latency res) = 1"
proof -
  let ?p = "pool_at [] [] True 0 0 {#} (Suc 0) [(''0x1'', ''0x2'')] (RecordError stats_New)"
  have "0 < pc_concurrency demo_perf" "chan_fits 32 (pc_concurrency demo_perf * 2)" "perf_reach (nat (pc_concurrency demo_perf)) [(''0x1'', ''0x2'')] ?p"
    using reach_queried by (simp_all add: demo_perf_def chan_fits_def)
  from runPerf_workers [OF demo_pairs this, of "[]" 1000] show ?thesis by (auto simp: work_done_def demo_perf_def)
qed

end
