(* ===== verification/LoaderWorkers.thy ===== *)
theory LoaderWorkers
  imports WorkPool BatchesProps
begin

text \<open>
  The workers of the two loaders. Those of scripts/mutations share the variable into which they decode
  the answers; those of data/neo4j share two counters.
\<close>

section \<open>Workers of the mutations\<close>

datatype mutation_phase = Counting | Posting | Decoding string | Testing | Failing

record mutation_shared =
  ms_count :: u64
  ms_resp :: response
  ms_fatal :: "request_error option"

text \<open>
  \<open>replies b a\<close>: an attempt, perhaps after others that failed, to post \<open>b\<close> is answered by \<open>a\<close>. Each access
  to the shared variable is a step of its own.
\<close>

inductive mutation_act ::
  "(string \<Rightarrow> string \<Rightarrow> bool) \<Rightarrow> (string \<Rightarrow> response \<Rightarrow> response option) \<Rightarrow> string \<Rightarrow> mutation_phase \<Rightarrow> mutation_shared \<Rightarrow>
     mutation_phase option \<Rightarrow> mutation_shared \<Rightarrow> bool"
  for replies :: "string \<Rightarrow> string \<Rightarrow> bool" and Unmarshal :: "string \<Rightarrow> response \<Rightarrow> response option" where
  count: "mutation_act replies Unmarshal m Counting s (Some Posting) (s\<lparr>ms_count := ms_count s + 1\<rparr>)"
| post: "replies (mutation_body m) a \<Longrightarrow> mutation_act replies Unmarshal m Posting s (Some (Decoding a)) s"
| decode: "Unmarshal a (ms_resp s) = Some r \<Longrightarrow>
     mutation_act replies Unmarshal m (Decoding a) s (Some Testing) (s\<lparr>ms_resp := r\<rparr>)"
| undecodable: "Unmarshal a (ms_resp s) = None \<Longrightarrow>
     mutation_act replies Unmarshal m (Decoding a) s None (s\<lparr>ms_fatal := Some BadAnswer\<rparr>)"
| accept: "Code (ms_resp s) = ''ErrorOk'' \<Longrightarrow> mutation_act replies Unmarshal m Testing s None s"
| reject: "Code (ms_resp s) \<noteq> ''ErrorOk'' \<Longrightarrow> mutation_act replies Unmarshal m Testing s (Some Failing) s"
| fail: "mutation_act replies Unmarshal m Failing s None (s\<lparr>ms_fatal := Some (NotOk m (Message (ms_resp s)))\<rparr>)"


definition mutation_halted :: "mutation_shared \<Rightarrow> bool" where
  "mutation_halted s \<longleftrightarrow> ms_fatal s \<noteq> None"

definition zero_response :: response where
  "zero_response = \<lparr>Code = [], Message = []\<rparr>"

definition mutation_zero :: mutation_shared where
  "mutation_zero = \<lparr>ms_count = 0, ms_resp = zero_response, ms_fatal = None\<rparr>"

text \<open>The states that \<open>n\<close> workers reach with the mutations \<open>ms\<close>; the channel has room for three times as many.\<close>

definition mutation_reach ::
  "(string \<Rightarrow> string \<Rightarrow> bool) \<Rightarrow> (string \<Rightarrow> response \<Rightarrow> response option) \<Rightarrow> nat \<Rightarrow> string list \<Rightarrow>
     (string, mutation_phase, mutation_shared) work_pool \<Rightarrow> bool" where
  "mutation_reach replies Unmarshal n ms =
     work_reach (3 * n) at_once Counting (mutation_act replies Unmarshal) mutation_halted (work_start n ms mutation_zero)"



section \<open>One worker of the mutations\<close>





lemma request_error: "go_fold (request_step Do Unmarshal) ms (Inl e) = Ret (Inl e)"
  by (induction ms) (simp_all add: request_step_def run_bind_def)







text \<open>
  C33: with two workers the error can get lost. Whatever the server answers to a mutation, an error or not,
  as long as the answer can be decoded: if another mutation is accepted, there is a run in which the second worker decodes its answer
  into the shared response before the first tests it; the program ends normally, and both
  mutations count as done.
\<close>

theorem mutations_two_workers_race:
  assumes "replies (mutation_body m) a" and "Unmarshal a zero_response = Some bad"
    and "replies (mutation_body m') a'" and "Unmarshal a' bad = Some good" and "Code good = ''ErrorOk''"
  shows "\<exists>p. mutation_reach replies Unmarshal 2 [m, m'] p \<and> work_done 2 p \<and> handled p = [m', m]
    \<and> ms_fatal (shared p) = None \<and> ms_count (shared p) = 2"
proof -
  define S where "S c r = \<lparr>ms_count = c, ms_resp = r, ms_fatal = None\<rparr>" for c r
  let ?act = "mutation_act replies Unmarshal"
  let ?R = "work_reach 6 at_once Counting ?act mutation_halted (pool_at [m, m'] [] False (Suc (Suc 0)) 0 {#} 0 [] (S 0 zero_response))"
  have live: "\<not> mutation_halted (S c r)" for c r by (simp add: mutation_halted_def S_def)
  have acts: "?act m Counting (S 0 r) (Some Posting) (S 1 r)"
    "?act m Posting (S 1 r) (Some (Decoding a)) (S 1 r)"
    "?act m (Decoding a) (S 1 zero_response) (Some Testing) (S 1 bad)"
    "?act m' Counting (S 1 r) (Some Posting) (S 2 r)"
    "?act m' Posting (S 2 r) (Some (Decoding a')) (S 2 r)"
    "?act m' (Decoding a') (S 2 bad) (Some Testing) (S 2 good)"
    "?act m' Testing (S 2 good) None (S 2 good)" "?act m Testing (S 2 good) None (S 2 good)" for r
    using mutation_act.count [of replies Unmarshal m "S 0 r"] mutation_act.count [of replies Unmarshal m' "S 1 r"]
      mutation_act.post [where replies = replies and Unmarshal = Unmarshal] assms(1,3)
      mutation_act.decode [of Unmarshal a "S 1 zero_response" bad replies m]
      mutation_act.decode [of Unmarshal a' "S 2 bad" good replies m']
      mutation_act.accept [of "S 2 good" replies Unmarshal] assms(2,4,5)
    by (simp_all add: S_def)
  note steps = pool_at_steps [where halted = mutation_halted and act = ?act and cap = 6 and first = Counting and opens = at_once]
  have "?R (pool_at [m, m'] [] False (Suc (Suc 0)) 0 {#} 0 [] (S 0 zero_response))"
    by (rule work_reach.refl)
  from work_reach.step [OF this steps(1) [OF live at_once_def]]
  have "?R (pool_at [m, m'] [] False (Suc 0) (Suc 0) {#} 0 [] (S 0 zero_response))" by simp
  from work_reach.step [OF this steps(1) [OF live at_once_def]]
  have "?R (pool_at [m, m'] [] False 0 (Suc (Suc 0)) {#} 0 [] (S 0 zero_response))" by simp
  from work_reach.step [OF this steps(2) [OF live]]
  have "?R (pool_at [m'] [m] False 0 (Suc (Suc 0)) {#} 0 [] (S 0 zero_response))" by simp
  from work_reach.step [OF this steps(2) [OF live]]
  have "?R (pool_at [] [m, m'] False 0 (Suc (Suc 0)) {#} 0 [] (S 0 zero_response))" by simp
  from work_reach.step [OF this steps(3) [OF live]]
  have "?R (pool_at [] [m, m'] True 0 (Suc (Suc 0)) {#} 0 [] (S 0 zero_response))" by simp
  from work_reach.step [OF this steps(4) [OF live]]
  have "?R (pool_at [] [m'] True 0 (Suc 0) {#(m, Counting)#} 0 [] (S 0 zero_response))" by simp
  from work_reach.step [OF this steps(5) [OF live acts(1)]]
  have "?R (pool_at [] [m'] True 0 (Suc 0) {#(m, Posting)#} 0 [] (S 1 zero_response))" by simp
  from work_reach.step [OF this steps(5) [OF live acts(2)]]
  have "?R (pool_at [] [m'] True 0 (Suc 0) {#(m, Decoding a)#} 0 [] (S 1 zero_response))" by simp
  from work_reach.step [OF this steps(5) [OF live acts(3)]]
  have "?R (pool_at [] [m'] True 0 (Suc 0) {#(m, Testing)#} 0 [] (S 1 bad))" by simp
  from work_reach.step [OF this steps(4) [OF live]]
  have "?R (pool_at [] [] True 0 0 {#(m', Counting), (m, Testing)#} 0 [] (S 1 bad))" by simp
  from work_reach.step [OF this steps(5) [OF live acts(4)]]
  have "?R (pool_at [] [] True 0 0 {#(m', Posting), (m, Testing)#} 0 [] (S 2 bad))" by simp
  from work_reach.step [OF this steps(5) [OF live acts(5)]]
  have "?R (pool_at [] [] True 0 0 {#(m', Decoding a'), (m, Testing)#} 0 [] (S 2 bad))" by simp
  from work_reach.step [OF this steps(5) [OF live acts(6)]]
  have "?R (pool_at [] [] True 0 0 {#(m', Testing), (m, Testing)#} 0 [] (S 2 good))" by simp
  from work_reach.step [OF this steps(6) [OF live acts(7)]]
  have "?R (pool_at [] [] True 0 (Suc 0) {#(m, Testing)#} 0 [m'] (S 2 good))" by simp
  from work_reach.step [OF this steps(6) [OF live acts(8)]]
  have "?R (pool_at [] [] True 0 (Suc (Suc 0)) {#} 0 [m', m] (S 2 good))" by simp
  from work_reach.step [OF this steps(7) [OF live]]
  have "?R (pool_at [] [] True 0 (Suc 0) {#} (Suc 0) [m', m] (S 2 good))" by simp
  from work_reach.step [OF this steps(7) [OF live]]
  have "?R (pool_at [] [] True 0 0 {#} (Suc (Suc 0)) [m', m] (S 2 good))" by simp
  then show ?thesis
    by (auto simp: mutation_reach_def pool_at_start mutation_zero_def S_def work_done_def numeral_2_eq_2 intro!: exI)
qed

definition demo_reply :: "string \<Rightarrow> string \<Rightarrow> bool" where
  "demo_reply b a \<longleftrightarrow> (if b = mutation_body ''bad'' then a = ''Error'' else a = ''ErrorOk'')"

definition demo_unmarshal :: "string \<Rightarrow> response \<Rightarrow> response option" where
  "demo_unmarshal a r = Some (r\<lparr>Code := a\<rparr>)"

theorem mutations_two_workers_race_witness:
  "\<exists>p. mutation_reach demo_reply demo_unmarshal 2 [''bad'', ''good''] p \<and> work_done 2 p \<and> ms_fatal (shared p) = None"
  using mutations_two_workers_race [of demo_reply "''bad''" "''Error''" demo_unmarshal "\<lparr>Code = ''Error'', Message = []\<rparr>"
      "''good''" "''ErrorOk''" "\<lparr>Code = ''ErrorOk'', Message = []\<rparr>"]
  by (auto simp: demo_reply_def demo_unmarshal_def zero_response_def mutation_body_def)





section \<open>Workers of the bolt loader\<close>

datatype bolt_phase = Preparing | Executing | CountingRows | CountingRequests | Closing

record bolt_shared =
  b_rdfs :: u64
  b_mutations :: u64
  b_fatal :: bool
  b_opens :: nat

text \<open>
  A worker starts when it has got a connection: \<open>Open i\<close> tells whether the \<open>i\<close>-th call of \<open>OpenPool\<close> by
  any of the workers succeeds; after one that fails the worker calls again. Later a call of the driver
  that fails is fatal.
\<close>

definition bolt_open :: "(nat \<Rightarrow> bool) \<Rightarrow> bolt_shared \<Rightarrow> bool \<times> bolt_shared" where
  "bolt_open Open s = (Open (b_opens s), s\<lparr>b_opens := b_opens s + 1\<rparr>)"

inductive bolt_act ::
  "bolt_row list \<Rightarrow> bolt_phase \<Rightarrow> bolt_shared \<Rightarrow> bolt_phase option \<Rightarrow> bolt_shared \<Rightarrow> bool" where
  prepared: "bolt_act r Preparing s (Some Executing) s"
| not_prepared: "bolt_act r Preparing s None (s\<lparr>b_fatal := True\<rparr>)"
| executed: "bolt_act r Executing s (Some CountingRows) s"
| not_executed: "bolt_act r Executing s None (s\<lparr>b_fatal := True\<rparr>)"
| count_rows: "bolt_act r CountingRows s (Some CountingRequests) (s\<lparr>b_rdfs := b_rdfs s + of_nat (length r)\<rparr>)"
| count_request: "bolt_act r CountingRequests s (Some Closing) (s\<lparr>b_mutations := b_mutations s + 1\<rparr>)"
| pipeline_closed: "bolt_act r Closing s None s"
| not_closed: "bolt_act r Closing s None (s\<lparr>b_fatal := True\<rparr>)"

inductive_cases bolt_actE: "bolt_act r w s w' s'"

definition bolt_zero :: bolt_shared where
  "bolt_zero = \<lparr>b_rdfs = 0, b_mutations = 0, b_fatal = False, b_opens = 0\<rparr>"

text \<open>The states that \<open>n\<close> workers reach with the requests \<open>reqs\<close>, the size of a request being \<open>sz\<close>.\<close>

definition bolt_reach ::
  "(nat \<Rightarrow> bool) \<Rightarrow> nat \<Rightarrow> nat \<Rightarrow> bolt_row list list \<Rightarrow>
     (bolt_row list, bolt_phase, bolt_shared) work_pool \<Rightarrow> bool" where
  "bolt_reach Open n sz reqs =
     work_reach (2 * sz) (bolt_open Open) Preparing bolt_act b_fatal (work_start n reqs bolt_zero)"

fun bolt_weight :: "bolt_phase \<Rightarrow> nat" where
  "bolt_weight Preparing = 4"
| "bolt_weight Executing = 3"
| "bolt_weight CountingRows = 2"
| "bolt_weight CountingRequests = 1"
| "bolt_weight Closing = 0"

lemma bolt_enabled: "\<exists>w' s'. bolt_act r w s w' s'"
  by (cases w) (blast intro: bolt_act.intros)+

text \<open>The number of calls until the next that succeeds, if there always is one.\<close>

definition bolt_patience :: "(nat \<Rightarrow> bool) \<Rightarrow> bolt_shared \<Rightarrow> nat" where
  "bolt_patience Open s = (LEAST k. Open (b_opens s + k))"

lemma bolt_patience_less:
  assumes "\<forall>i. \<exists>j \<ge> i. Open j" and "bolt_open Open s = (False, s')"
  shows "bolt_patience Open s' < bolt_patience Open s"
proof -
  let ?k = "LEAST k. Open (b_opens s + k)"
  obtain j where "b_opens s \<le> j" "Open j" using assms(1) by blast
  then have "Open (b_opens s + (j - b_opens s))" by simp
  then have k: "Open (b_opens s + ?k)" by (rule LeastI)
  from assms(2) have s': "\<not> Open (b_opens s)" "b_opens s' = Suc (b_opens s)" by (auto simp: bolt_open_def)
  then have "?k \<noteq> 0" using k by (metis add_0_right)
  then have "Open (b_opens s' + (?k - 1))" using k s' by simp
  then have "(LEAST k. Open (b_opens s' + k)) \<le> ?k - 1" by (rule Least_le)
  with \<open>?k \<noteq> 0\<close> show ?thesis by (simp add: bolt_patience_def)
qed

lemma bolt_act_opens: "bolt_act r w s x s' \<Longrightarrow> b_opens s' = b_opens s"
  by (auto elim: bolt_actE)

lemma bolt_live:
  assumes "\<forall>i. \<exists>j \<ge> i. Open j"
  shows "live_jobs bolt_act bolt_weight (bolt_open Open) (bolt_patience Open) b_fatal"
proof
  show "bolt_patience Open s' < bolt_patience Open s" if "bolt_open Open s = (False, s')" for s s'
    using bolt_patience_less [OF assms that] .
  show "bolt_patience Open s' \<le> bolt_patience Open s" if "bolt_act r w s x s'" for r w s x s'
    using bolt_act_opens [OF that] by (simp add: bolt_patience_def)
qed (auto elim: bolt_actE intro: bolt_enabled)

text \<open>What the workers have counted: the requests that are handled, and those that are past the count.\<close>

definition rows_counted :: "(bolt_row list \<times> bolt_phase) multiset \<Rightarrow> u64" where
  "rows_counted b = (\<Sum>(r, w) \<in># b. if w \<in> {CountingRequests, Closing} then of_nat (length r) else 0)"

definition requests_counted :: "(bolt_row list \<times> bolt_phase) multiset \<Rightarrow> u64" where
  "requests_counted b = (\<Sum>(r, w) \<in># b. if w = Closing then 1 else 0)"

definition bolt_inv :: "(bolt_row list, bolt_phase, bolt_shared) work_pool \<Rightarrow> bool" where
  "bolt_inv p \<longleftrightarrow> b_fatal (shared p) \<or>
     b_rdfs (shared p) = of_nat (length (concat (handled p))) + rows_counted (busy p)
     \<and> b_mutations (shared p) = of_nat (length (handled p)) + requests_counted (busy p)"

lemma bolt_inv_step:
  "work_step cap (bolt_open Open) Preparing bolt_act b_fatal p p' \<Longrightarrow> bolt_inv p \<Longrightarrow> bolt_inv p'"
proof (induction rule: work_step.induct)
  case (act p j w w' s)
  then obtain B where "busy p = add_mset (j, w) B" by (metis insert_DiffM)
  with act show ?case by (auto simp: bolt_inv_def rows_counted_def requests_counted_def elim!: bolt_actE)
next
  case (finish p j w s)
  then obtain B where "busy p = add_mset (j, w) B" by (metis insert_DiffM)
  with finish show ?case by (auto simp: bolt_inv_def rows_counted_def requests_counted_def algebra_simps elim!: bolt_actE)
qed (auto simp: bolt_inv_def rows_counted_def requests_counted_def bolt_open_def)

text \<open>Without a connection no worker starts.\<close>

definition none_started :: "nat \<Rightarrow> (bolt_row list, bolt_phase, bolt_shared) work_pool \<Rightarrow> bool" where
  "none_started n p \<longleftrightarrow> starting p = n \<and> handled p = [] \<and> \<not> b_fatal (shared p)"

lemma none_started_step:
  assumes "work_step cap (bolt_open Open) Preparing bolt_act b_fatal p p'" and "\<forall>i. \<not> Open i"
    and "work_ok n reqs p" and "none_started n p"
  shows "none_started n p'"
  using assms by (cases rule: work_step.cases) (auto simp: none_started_def work_ok_def bolt_open_def)

lemma bolt_counts_perm:
  assumes "mset reqs = mset reqs'"
  shows "bolt_counts reqs = bolt_counts reqs'"
proof -
  have "length (concat reqs) = sum_mset (image_mset length (mset reqs))" for reqs :: "bolt_row list list"
    by (induction reqs) simp_all
  with assms have "length (concat reqs) = length (concat reqs')" by simp
  then show ?thesis by (simp add: bolt_counts_def bolt_counts_sums mset_eq_length [OF assms])
qed

text \<open>
  C31: whatever the order in which the workers of data/neo4j take and count the requests: when the wait is
  over and nothing has failed, every request has been handled once and the counters are those of
  the requests one after the other. Until then, unless a call of the driver is fatal, some goroutine
  can go on. If, however long one waits, an attempt to open a connection succeeds again, the run ends;
  if none ever succeeds, all workers keep trying and no request is handled.
\<close>

theorem bolt_workers_count:
  assumes "0 < n" and "0 < sz" and "bolt_reach Open n sz reqs p"
  shows "(work_done n p \<and> \<not> b_fatal (shared p) \<longrightarrow>
       mset (handled p) = mset reqs \<and> (b_rdfs (shared p), b_mutations (shared p)) = bolt_counts reqs)
    \<and> (\<not> work_done n p \<and> \<not> b_fatal (shared p) \<longrightarrow>
         (\<exists>p'. work_step (2 * sz) (bolt_open Open) Preparing bolt_act b_fatal p p'))
    \<and> ((\<forall>i. \<exists>j \<ge> i. Open j) \<longrightarrow> wf {(p', p). work_step (2 * sz) (bolt_open Open) Preparing bolt_act b_fatal p p'})
    \<and> ((\<forall>i. \<not> Open i) \<longrightarrow> starting p = n \<and> handled p = [] \<and> \<not> work_done n p \<and> \<not> b_fatal (shared p))"
proof -
  let ?step = "work_step (2 * sz) (bolt_open Open) Preparing bolt_act b_fatal"
  note reach = assms(3) [unfolded bolt_reach_def]
  have ok: "work_ok n reqs p" by (rule work_reach_ok [OF reach])
  have "bolt_inv (work_start n reqs bolt_zero)"
    by (simp add: bolt_inv_def work_start_def bolt_zero_def rows_counted_def requests_counted_def)
  from work_reach_inv [OF reach, of bolt_inv, OF this] bolt_inv_step have inv: "bolt_inv p" by blast
  have "mset (handled p) = mset reqs \<and> (b_rdfs (shared p), b_mutations (shared p)) = bolt_counts reqs"
    if fin: "work_done n p" and live: "\<not> b_fatal (shared p)"
  proof -
    have h: "mset (handled p) = mset reqs" by (rule work_done_handled [OF ok fin assms(1)])
    from ok fin have "busy p = {#}" by (auto simp: work_ok_def work_done_def)
    with inv live have "(b_rdfs (shared p), b_mutations (shared p)) = bolt_counts (handled p)"
      by (simp add: bolt_inv_def rows_counted_def requests_counted_def bolt_counts_def bolt_counts_sums)
    with h bolt_counts_perm [OF h] show ?thesis by simp
  qed
  moreover have "\<exists>p'. ?step p p'" if "\<not> work_done n p" "\<not> b_fatal (shared p)"
    by (rule work_progress [OF ok, of b_fatal bolt_act]) (use that assms(1,2) bolt_enabled in simp_all)
  moreover have "wf {(p', p). ?step p p'}" if "\<forall>i. \<exists>j \<ge> i. Open j"
    using live_jobs.axioms(1) [OF bolt_live [OF that]] by (rule ending_jobs.steps_end)
  moreover have "starting p = n \<and> handled p = [] \<and> \<not> work_done n p \<and> \<not> b_fatal (shared p)" if "\<forall>i. \<not> Open i"
  proof -
    have "none_started n (work_start n reqs bolt_zero)" by (simp add: none_started_def work_start_def bolt_zero_def)
    from work_reach_inv [OF reach, of "none_started n", OF this] none_started_step [OF _ that] work_reach_ok
    have none: "none_started n p" by metis
    with none ok assms(1) show ?thesis by (auto simp: none_started_def work_ok_def work_done_def)
  qed
  ultimately show ?thesis by blast
qed

definition demo_loaded :: "bolt_row \<Rightarrow> (bolt_row list, bolt_phase, bolt_shared) work_pool" where
  "demo_loaded row = pool_at [] [] True 0 0 {#} (Suc 0) [[row]] \<lparr>b_rdfs = 1, b_mutations = 1, b_fatal = False, b_opens = 1\<rparr>"

lemma reach_loaded: "bolt_reach (\<lambda>_. True) 1 1 [[row]] (demo_loaded row)"
proof -
  define S where "S k a b = \<lparr>b_rdfs = a, b_mutations = b, b_fatal = False, b_opens = k\<rparr>" for k a b
  let ?R = "work_reach 2 (bolt_open (\<lambda>_. True)) Preparing bolt_act b_fatal (pool_at [[row]] [] False (Suc 0) 0 {#} 0 [] (S 0 0 0))"
  have live: "\<not> b_fatal (S k a b)" for k a b by (simp add: S_def)
  have acts: "bolt_act [row] CountingRows (S 1 0 0) (Some CountingRequests) (S 1 1 0)"
    "bolt_act [row] CountingRequests (S 1 1 0) (Some Closing) (S 1 1 1)"
    using bolt_act.count_rows [of "[row]" "S 1 0 0"] bolt_act.count_request [of "[row]" "S 1 1 0"] by (simp_all add: S_def)
  have opened: "bolt_open (\<lambda>_. True) (S 0 0 0) = (True, S 1 0 0)" by (simp add: bolt_open_def S_def)
  note steps = pool_at_steps [where halted = b_fatal and act = bolt_act and cap = 2 and first = Preparing
      and opens = "bolt_open (\<lambda>_. True)"]
  have "?R (pool_at [[row]] [] False (Suc 0) 0 {#} 0 [] (S 0 0 0))" by (rule work_reach.refl)
  from work_reach.step [OF this steps(1) [OF live opened]]
  have "?R (pool_at [[row]] [] False 0 (Suc 0) {#} 0 [] (S 1 0 0))" .
  from work_reach.step [OF this steps(2) [OF live]]
  have "?R (pool_at [] [[row]] False 0 (Suc 0) {#} 0 [] (S 1 0 0))" by simp
  from work_reach.step [OF this steps(3) [OF live]]
  have "?R (pool_at [] [[row]] True 0 (Suc 0) {#} 0 [] (S 1 0 0))" .
  from work_reach.step [OF this steps(4) [OF live]]
  have "?R (pool_at [] [] True 0 0 {#([row], Preparing)#} 0 [] (S 1 0 0))" .
  from work_reach.step [OF this steps(5) [OF live bolt_act.prepared]]
  have "?R (pool_at [] [] True 0 0 {#([row], Executing)#} 0 [] (S 1 0 0))" .
  from work_reach.step [OF this steps(5) [OF live bolt_act.executed]]
  have "?R (pool_at [] [] True 0 0 {#([row], CountingRows)#} 0 [] (S 1 0 0))" .
  from work_reach.step [OF this steps(5) [OF live acts(1)]]
  have "?R (pool_at [] [] True 0 0 {#([row], CountingRequests)#} 0 [] (S 1 1 0))" .
  from work_reach.step [OF this steps(5) [OF live acts(2)]]
  have "?R (pool_at [] [] True 0 0 {#([row], Closing)#} 0 [] (S 1 1 1))" .
  from work_reach.step [OF this steps(6) [OF live bolt_act.pipeline_closed]]
  have "?R (pool_at [] [] True 0 (Suc 0) {#} 0 [[row]] (S 1 1 1))" by simp
  from work_reach.step [OF this steps(7) [OF live]]
  have "?R (demo_loaded row)" by (simp add: demo_loaded_def S_def)
  then show ?thesis by (simp add: bolt_reach_def pool_at_start bolt_zero_def S_def numeral_2_eq_2)
qed

theorem bolt_workers_count_witness:
  "bolt_counts [[(''MERGE'', [])]] = (1, 1) \<and> handled (demo_loaded (''MERGE'', [])) = [[(''MERGE'', [])]]"
  using bolt_workers_count [OF _ _ reach_loaded, of "(''MERGE'', [])"] by (simp add: demo_loaded_def work_done_def)

end
