(* ===== verification/KFetch.thy ===== *)
theory KFetch
  imports KPrepare
begin

text \<open>
  k-shortest-path/cmd/prepare/main.go: where the source file comes from, and the temporary file of a
  download. The files are a map from their names; the server, the names of temporary files and
  what the archives hold are parameters.
\<close>

section \<open>Fetching\<close>

text \<open>\<open>filepath.Ext\<close>: from the last dot of the last element.\<close>

definition path_Ext :: "string \<Rightarrow> string" where
  "path_Ext s =
     (let e = takeWhile (\<lambda>c. c \<noteq> CHR ''.'' \<and> c \<noteq> CHR ''/'') (rev s); r = drop (length e) (rev s)
      in if r \<noteq> [] \<and> hd r = CHR ''.'' then CHR ''.'' # rev e else [])"

record http_response =
  StatusCode :: int
  body :: reader

datatype fetch_error = LocalPath | GetFailed | BadStatus int | NoTempFile | CopyFailed

type_synonym files = "string \<Rightarrow> reader option"

text \<open>The file that the cleanup removes, if any.\<close>

definition run_cleanup :: "string option \<Rightarrow> files \<Rightarrow> files" where
  "run_cleanup tmp fs = (case tmp of None \<Rightarrow> fs | Some name \<Rightarrow> fs(name := None))"

text \<open>
  \<open>Get url\<close> is the response, \<open>CreateTemp ext\<close> the name of a new file whose name ends in \<open>ext\<close>. The result
  is the path with the cleanup, or an error, and the files.
\<close>

definition fetch ::
  "(string \<Rightarrow> http_response option) \<Rightarrow> (string \<Rightarrow> string option) \<Rightarrow> string \<Rightarrow> files \<Rightarrow>
     (fetch_error + string \<times> string option) \<times> files" where
  "fetch Get CreateTemp url fs =
     (if \<not> Contains url ''://'' then (if fs url = None then Inl LocalPath else Inr (url, None), fs)
      else case Get url of
             None \<Rightarrow> (Inl GetFailed, fs)
           | Some resp \<Rightarrow>
               if StatusCode resp \<noteq> 200 then (Inl (BadStatus (StatusCode resp)), fs)
               else (case CreateTemp (path_Ext url) of
                       None \<Rightarrow> (Inl NoTempFile, fs)
                     | Some tmp \<Rightarrow>
                         let fs = fs(tmp \<mapsto> (fst (body resp), False))
                         in if snd (body resp) then (Inl CopyFailed, fs(tmp := None))
                            else (Inr (tmp, Some tmp), fs)))"

text \<open>
  The command: what it writes, its error, and the files afterwards. The cleanup is deferred, and
  \<open>log.Fatalf\<close> ends the program without it.
\<close>

definition prepare_run ::
  "'g graph_ops \<Rightarrow> ('g \<Rightarrow> int \<Rightarrow> int \<Rightarrow> float64) \<Rightarrow> (reader \<Rightarrow> reader option) \<Rightarrow>
     (reader \<Rightarrow> (string \<times> reader option) list option) \<Rightarrow> (string \<Rightarrow> http_response option) \<Rightarrow> (string \<Rightarrow> string option) \<Rightarrow>
     string \<Rightarrow> string \<Rightarrow> string \<Rightarrow> string \<Rightarrow> int \<Rightarrow> files \<Rightarrow> (((string \<times> string) list \<times> prep_error option) \<times> files) go" where
  "prepare_run ops dijkstra gunzip unzip Get CreateTemp url format name outDir source fs =
     (if url = [] \<or> format = [] \<or> name = [] then Ret (([], Some FlagsRequired), fs)
      else case fetch Get CreateTemp url fs of
             (Inl e, fs') \<Rightarrow> Ret (([], Some FetchFailed), fs')
           | (Inr (path, tmp), fs') \<Rightarrow>
               go_bind (prepare_main ops dijkstra fs' gunzip (\<lambda>p. case fs' p of None \<Rightarrow> None | Some f \<Rightarrow> unzip f)
                          (\<lambda>_. Some path) url format name outDir source)
                 (\<lambda>r. Ret (r, if snd r = None then run_cleanup tmp fs' else fs')))"

section \<open>The temporary file\<close>

text \<open>What \<open>os.CreateTemp\<close> promises: a name that is not taken and ends in the extension.\<close>

definition new_names :: "(string \<Rightarrow> string option) \<Rightarrow> files \<Rightarrow> bool" where
  "new_names CreateTemp fs \<longleftrightarrow> (\<forall>ext name. CreateTemp ext = Some name \<longrightarrow> fs name = None \<and> HasSuffix name ext)"

lemma fetch_Inr:
  assumes "fetch Get CreateTemp url fs = (Inr (path, tmp), fs')" and "new_names CreateTemp fs"
  obtains "\<not> Contains url ''://''" "tmp = None" "path = url" "fs' = fs" "fs url \<noteq> None"
  | resp where "Contains url ''://''" "tmp = Some path" "Get url = Some resp" "StatusCode resp = 200" "\<not> snd (body resp)"
      "fs path = None" "HasSuffix path (path_Ext url)" "fs' = fs(path \<mapsto> (fst (body resp), False))"
proof (cases "Contains url ''://''")
  case True
  with assms(1) obtain resp where "Get url = Some resp" "StatusCode resp = 200" "CreateTemp (path_Ext url) = Some path"
    "tmp = Some path" "\<not> snd (body resp)" "fs' = fs(path \<mapsto> (fst (body resp), False))"
    by (auto simp: fetch_def Let_def split: if_splits option.splits)
  with that(2) True assms(2) show ?thesis by (auto simp: new_names_def)
next
  case False
  with that(1) assms(1) show ?thesis by (auto simp: fetch_def split: if_splits)
qed

lemma fetch_Inl:
  assumes "fetch Get CreateTemp url fs = (Inl e, fs')" and "new_names CreateTemp fs"
  shows "fs' = fs"
proof -
  have "fs(tmp \<mapsto> f, tmp := None) = fs" if "CreateTemp ext = Some tmp" for tmp ext f
    using assms(2) that by (auto simp: new_names_def)
  with assms(1) show ?thesis by (auto simp: fetch_def Let_def split: if_splits option.splits)
qed

text \<open>
  C14: the files beside what prepare writes. A run that succeeds leaves them as they were, the download being
  removed, and so does one on a local file or one whose fetch fails. But if an error comes after a
  download, the temporary file stays behind with the whole body.
\<close>

theorem prepare_temp_file:
  assumes "new_names CreateTemp fs" and "format \<noteq> []" and "name \<noteq> []" and "url \<noteq> []"
    and "prepare_run ops dijkstra gunzip unzip Get CreateTemp url format name outDir source fs = Ret ((out, err), fs')"
  shows "(err = None \<or> \<not> Contains url ''://'' \<or> (\<exists>e fs1. fetch Get CreateTemp url fs = (Inl e, fs1)) \<longrightarrow> fs' = fs)
    \<and> (err \<noteq> None \<and> fs' \<noteq> fs \<longrightarrow> (\<exists>tmp resp. Get url = Some resp \<and> StatusCode resp = 200 \<and> HasSuffix tmp (path_Ext url)
        \<and> fs tmp = None \<and> fs' = fs(tmp \<mapsto> (fst (body resp), False))))
    \<and> (\<forall>path tmp fs1. fetch Get CreateTemp url fs = (Inr (path, Some tmp), fs1) \<and> err \<noteq> None \<longrightarrow> fs' tmp \<noteq> None \<and> fs tmp = None)"
proof -
  obtain res fs1 where f: "fetch Get CreateTemp url fs = (res, fs1)" by (cases "fetch Get CreateTemp url fs")
  show ?thesis
  proof (cases res)
    case (Inl e)
    with fetch_Inl [of Get CreateTemp url fs e fs1] f assms have "fs' = fs" by (auto simp: prepare_run_def)
    with f Inl show ?thesis by simp
  next
    case (Inr pt)
    obtain path tmp where pt: "pt = (path, tmp)" by (cases pt)
    from assms f Inr pt have main: "fs' = (if err = None then run_cleanup tmp fs1 else fs1)"
      by (auto simp: prepare_run_def go_simps)
    from f Inr pt have f': "fetch Get CreateTemp url fs = (Inr (path, tmp), fs1)" by simp
    from f' assms(1) show ?thesis
    proof (cases rule: fetch_Inr)
      case 1
      then show ?thesis by (simp add: f' main run_cleanup_def)
    next
      case (2 resp)
      show ?thesis
      proof (cases err)
        case None
        with 2 show ?thesis by (simp add: f' main run_cleanup_def fun_upd_idem)
      next
        case (Some e)
        with 2 show ?thesis by (auto simp: f' main)
      qed
    qed
  qed
qed

text \<open>A download in a format that prepare does not know.\<close>

definition demo_get :: "string \<Rightarrow> http_response option" where
  "demo_get url = Some \<lparr>StatusCode = 200, body = (''data'', False)\<rparr>"

definition demo_temp :: "string \<Rightarrow> string option" where
  "demo_temp ext = Some (''/tmp/prepare-1'' @ ext)"

definition demo_run :: "(((string \<times> string) list \<times> prep_error option) \<times> files) go" where
  "demo_run = prepare_run map_ops (\<lambda>g s t. Fin 0) Some (\<lambda>r. None) demo_get demo_temp ''http://h/x.gz'' ''tsv'' ''n'' ''d'' 1 Map.empty"

lemma demo_ext: "path_Ext ''http://h/x.gz'' = ''.gz''"
  by (simp add: path_Ext_def Let_def)

lemma demo_fetch: "fetch demo_get demo_temp ''http://h/x.gz'' Map.empty =
    (Inr (''/tmp/prepare-1.gz'', Some ''/tmp/prepare-1.gz''), [''/tmp/prepare-1.gz'' \<mapsto> (''data'', False)])"
proof -
  have "''http://h/x.gz'' = ''http'' @ ''://'' @ ''h/x.gz''" by simp
  then have "Contains ''http://h/x.gz'' ''://''" unfolding Contains_def sublist_def by blast
  then show ?thesis by (simp add: fetch_def demo_get_def demo_temp_def demo_ext)
qed

theorem prepare_temp_file_witness:
  "\<exists>fs'. demo_run = Ret (([], Some UnknownFormat), fs') \<and> fs' ''/tmp/prepare-1.gz'' \<noteq> None"
proof -
  have new: "new_names demo_temp Map.empty" by (simp add: new_names_def demo_temp_def HasSuffix_def suffix_def)
  obtain fs' where r: "demo_run = Ret (([], Some UnknownFormat), fs')"
    by (simp add: demo_run_def prepare_run_def demo_fetch prepare_main_def)
  from prepare_temp_file [OF new _ _ _ r [unfolded demo_run_def]] demo_fetch r show ?thesis by auto
qed

end
