(* ===== verification/CacheAdapters.thy ===== *)
theory CacheAdapters
  imports CacheBench
begin

text \<open>
  The constructors of the adapters of cachebench/ristretto/cache.go: what each passes to its library. The
  constructor of the library, which gives the library's cache or an error, is a parameter. The
  product of the capacity and the size of an entry wraps as an int does.
\<close>

record ristretto_config =
  NumCounters :: int
  MaxCost :: int
  BufferItems :: int

definition NewBenchRistretto :: "(ristretto_config \<Rightarrow> 's option) \<Rightarrow> int \<Rightarrow> bool \<Rightarrow> 's adapter go" where
  "NewBenchRistretto NewCache cap t =
     (case NewCache \<lparr>NumCounters = wrap64 (cap * 10), MaxCost = cap, BufferItems = 64\<rparr> of
        None \<Rightarrow> Panic AssertFailed
      | Some c \<Rightarrow> Ret (new_adapter c t))"

definition NewBenchBaseMutex :: "(int \<Rightarrow> 's) \<Rightarrow> int \<Rightarrow> bool \<Rightarrow> 's adapter" where
  "NewBenchBaseMutex lru_New cap t = new_adapter (lru_New cap) t"

record bigcache_config =
  Shards :: int
  LifeWindow :: int
  MaxEntriesInWindow :: int
  MaxEntrySize :: int
  Verbose :: bool
  HardMaxCacheSize :: int

definition bigcache_megabytes :: "int \<Rightarrow> int" where
  "bigcache_megabytes cap = go_quot (go_quot (wrap64 (cap * 1482)) 1024) 1024"

definition NewBenchBigCache :: "(bigcache_config \<Rightarrow> 's option) \<Rightarrow> int \<Rightarrow> bool \<Rightarrow> 's adapter go" where
  "NewBenchBigCache NewBigCache cap t =
     (case NewBigCache \<lparr>Shards = 256, LifeWindow = 0, MaxEntriesInWindow = cap, MaxEntrySize = 1482, Verbose = False,
                        HardMaxCacheSize = bigcache_megabytes cap\<rparr> of
        None \<Rightarrow> Panic AssertFailed
      | Some c \<Rightarrow> Ret (new_adapter c t))"

definition NewBenchFastCache :: "(int \<Rightarrow> 's) \<Rightarrow> int \<Rightarrow> bool \<Rightarrow> 's adapter" where
  "NewBenchFastCache fastcache_New cap t = new_adapter (fastcache_New (wrap64 (cap * 1468))) t"

definition NewBenchFreeCache :: "(int \<Rightarrow> 's) \<Rightarrow> int \<Rightarrow> bool \<Rightarrow> 's adapter" where
  "NewBenchFreeCache freecache_NewCache cap t = new_adapter (freecache_NewCache (wrap64 (cap * 1488))) t"

definition NewBenchGoburrow :: "(int \<Rightarrow> 's) \<Rightarrow> int \<Rightarrow> bool \<Rightarrow> 's adapter" where
  "NewBenchGoburrow goburrow_New cap t = new_adapter (goburrow_New cap) t"

definition adapter_Log :: "'s adapter \<Rightarrow> policy_log" where
  "adapter_Log c = log c"

section \<open>The limit of BigCache\<close>

lemma go_quot_pos: "\<lbrakk> 0 \<le> a; 0 < b \<rbrakk> \<Longrightarrow> go_quot a b = a div b"
  by (cases "a = 0") (simp_all add: go_quot_def)

text \<open>
  The limit that BigCache gets is the size of the entries in whole megabytes, rounded down. Below 708
  entries it is 0, which that library takes as no limit; for the capacity of the benchmarks it is
  141.
\<close>

theorem bigcache_limit:
  assumes "0 \<le> cap" and "cap < 2 ^ 52"
  shows "bigcache_megabytes cap * 2 ^ 20 \<le> cap * 1482 \<and> cap * 1482 < (bigcache_megabytes cap + 1) * 2 ^ 20
    \<and> (bigcache_megabytes cap = 0 \<longleftrightarrow> cap < 708)"
proof -
  have "wrap64 (cap * 1482) = cap * 1482" using assms by (intro wrap64_small) simp_all
  moreover have "0 \<le> cap * 1482 div 1024" using assms(1) by (simp add: pos_imp_zdiv_nonneg_iff)
  ultimately have "bigcache_megabytes cap = cap * 1482 div 1024 div 1024"
    using assms(1) by (simp add: bigcache_megabytes_def go_quot_pos)
  also have "\<dots> = cap * 1482 div 1048576" by (simp add: zdiv_zmult2_eq [symmetric])
  finally have m: "bigcache_megabytes cap = cap * 1482 div 1048576" .
  have "cap * 1482 div 1048576 * 1048576 \<le> cap * 1482" "cap * 1482 < cap * 1482 div 1048576 * 1048576 + 1048576"
    using pos_mod_bound [of 1048576 "cap * 1482"] pos_mod_sign [of 1048576 "cap * 1482"] div_mult_mod_eq [of "cap * 1482" 1048576]
    by linarith+
  moreover have "cap * 1482 div 1048576 = 0 \<longleftrightarrow> cap < 708" using assms(1) by linarith
  moreover have "(2 :: int) ^ 20 = 1048576" by simp
  ultimately show ?thesis by (simp only: m distrib_right mult_1)
qed

theorem bigcache_limit_witness:
  "bigcache_megabytes 100000 * 2 ^ 20 \<le> 148200000 \<and> bigcache_megabytes 700 = 0"
  using bigcache_limit [of 100000] bigcache_limit [of 700] by simp

end
