(* ===== verification/StreamMain.thy ===== *)
theory StreamMain
  imports TweetsProps
begin

text \<open>
  twitterdata/stream/stream.go: the credentials, the client, and the workers with their files. Reading the
  credentials, decoding them, asking Twitter whether they are valid, creating a file and marshalling
  a message are parameters, and so is which worker takes which message.
\<close>

section \<open>The client\<close>

record twitterCreds =
  AccessSecret :: string
  AccessToken :: string
  ConsumerKey :: string
  ConsumerSecret :: string

datatype client_failure = NoCredentialsFile string | BadCredentialsFile string | VerifyFailed | InvalidCredentials

definition readCredentials ::
  "(string \<Rightarrow> string option) \<Rightarrow> (string \<Rightarrow> twitterCreds option) \<Rightarrow> string \<Rightarrow> client_failure + twitterCreds" where
  "readCredentials ReadFile Unmarshal path =
     (case ReadFile path of
        None \<Rightarrow> Inl (NoCredentialsFile path)
      | Some jsn \<Rightarrow> (case Unmarshal jsn of None \<Rightarrow> Inl (BadCredentialsFile path) | Some creds \<Rightarrow> Inr creds))"

text \<open>\<open>Verify\<close> is \<open>None\<close> where the request fails; the client is known by its credentials.\<close>

definition newTwitterClient ::
  "(twitterCreds \<Rightarrow> bool option) \<Rightarrow> twitterCreds \<Rightarrow> client_failure + twitterCreds" where
  "newTwitterClient Verify creds =
     (case Verify creds of
        None \<Rightarrow> Inl VerifyFailed
      | Some ok \<Rightarrow> if \<not> ok then Inl InvalidCredentials else Inr creds)"

section \<open>The workers\<close>

definition feed_path :: "string \<Rightarrow> nat \<Rightarrow> string" where
  "feed_path outDir i = outDir @ ''/twitter_feed_'' @ decimal i @ ''.json''"

text \<open>The messages that worker \<open>i\<close> takes, in order.\<close>

definition taken_by :: "nat list \<Rightarrow> 'm list \<Rightarrow> nat \<Rightarrow> 'm list" where
  "taken_by takers work i = map snd (filter (\<lambda>(w, m). w = i) (zip takers work))"

text \<open>
  The command, when the stream has come to its end: the files with what is in them. An error, as one in
  creating a file, is a panic.
\<close>

definition stream_main ::
  "(string \<Rightarrow> string option) \<Rightarrow> (string \<Rightarrow> twitterCreds option) \<Rightarrow> (twitterCreds \<Rightarrow> bool option) \<Rightarrow> (string \<Rightarrow> bool) \<Rightarrow>
     ('m \<Rightarrow> string option) \<Rightarrow> int \<Rightarrow> string \<Rightarrow> string \<Rightarrow> nat list \<Rightarrow> 'm list \<Rightarrow> (string \<times> stream_state) list go" where
  "stream_main ReadFile Unmarshal Verify Create Marshal numWorkers credentialsFile outputPath takers work =
     (case err_bind (readCredentials ReadFile Unmarshal credentialsFile) (newTwitterClient Verify) of
        Inl e \<Rightarrow> Panic AssertFailed
      | Inr client \<Rightarrow>
          if list_ex (\<lambda>i. \<not> Create (feed_path outputPath i)) [0..<nat numWorkers] then Panic AssertFailed
          else Ret (map (\<lambda>i. (feed_path outputPath i, stream_doWork Marshal (taken_by takers work i))) [0..<nat numWorkers]))"

section \<open>What is in the files\<close>

lemma feed_path_inj: "feed_path d i = feed_path d j \<longleftrightarrow> i = j"
  by (simp add: feed_path_def decimal_inj)

lemma taken_lengths:
  "\<lbrakk> list_all (\<lambda>w. w < n) takers; length takers = length work \<rbrakk> \<Longrightarrow>
   sum_list (map (\<lambda>i. length (taken_by takers work i)) [0..<n]) = length work"
proof (induction takers work rule: list_induct2')
  case (4 w takers m work)
  have "sum_list (map (\<lambda>i. length (taken_by (w # takers) (m # work) i)) [0..<n])
      = sum_list (map (\<lambda>i. if w = i then 1 else 0) [0..<n]) + sum_list (map (\<lambda>i. length (taken_by takers work i)) [0..<n])"
    by (subst sum_list_addf [symmetric]) (rule arg_cong [of _ _ sum_list], simp add: taken_by_def)
  moreover have "sum_list (map (\<lambda>i. if w = i then 1 else 0 :: nat) [0..<n]) = 1" using 4(2)
    by (simp add: interv_sum_list_conv_sum_set_nat)
  ultimately show ?case using 4 by simp
qed (simp_all add: taken_by_def)

text \<open>
  When the credentials are valid and the files can be created, each worker has a file of its own; every
  message is counted by one of them; each file holds the JSON of that worker's messages, one to a line
  and in order, except for up to 4096 bytes at its end that were never flushed.
\<close>

theorem stream_main_files:
  assumes "ReadFile cf = Some jsn" and "Unmarshal jsn = Some creds" and "Verify creds = Some True"
    and "\<And>i. Create (feed_path d i)"
    and "list_all (\<lambda>w. w < n) takers" and "length takers = length work"
  shows "\<exists>out. stream_main ReadFile Unmarshal Verify Create Marshal (int n) cf d takers work = Ret out
    \<and> map fst out = map (feed_path d) [0..<n] \<and> distinct (map fst out)
    \<and> sum_list (map (st_total \<circ> snd) out) = length work
    \<and> (\<forall>i < n. \<exists>lost. stream_text Marshal (taken_by takers work i) = stream_file (snd (out ! i)) @ lost \<and> length lost \<le> 4096)"
proof -
  let ?st = "\<lambda>i. stream_doWork Marshal (taken_by takers work i)"
  let ?out = "map (\<lambda>i. (feed_path d i, ?st i)) [0..<n]"
  have "stream_main ReadFile Unmarshal Verify Create Marshal (int n) cf d takers work = Ret ?out"
    using assms(1-4) by (simp add: stream_main_def readCredentials_def newTwitterClient_def list_ex_iff)
  moreover have "distinct (map fst ?out)" by (simp add: comp_def distinct_map inj_on_def feed_path_inj)
  moreover have "st_total (?st i) = length (taken_by takers work i)" for i
    using stream_doWork_inv [of Marshal "taken_by takers work i"] by simp
  with taken_lengths [OF assms(5,6)] have "sum_list (map (st_total \<circ> snd) ?out) = length work" by (simp add: comp_def)
  moreover have "\<exists>lost. stream_text Marshal (taken_by takers work i) = stream_file (?st i) @ lost \<and> length lost \<le> 4096" for i
    using stream_doWork_inv [of Marshal "taken_by takers work i"]
    by (intro exI [of _ "snd (st_writer (?st i))"]) (simp add: bufio_size_def)
  ultimately show ?thesis by (intro exI [of _ ?out]) (simp add: comp_def)
qed

theorem stream_main_files_witness:
  "\<exists>out. stream_main (\<lambda>f. Some ''{}'') (\<lambda>j. Some \<lparr>AccessSecret = [], AccessToken = [], ConsumerKey = [], ConsumerSecret = []\<rparr>)
       (\<lambda>c. Some True) (\<lambda>p. True) Some 2 ''credentials.json'' ''d'' [1, 0] [''a'', ''b''] = Ret out
     \<and> distinct (map fst out)"
  using stream_main_files [of "\<lambda>f. Some ''{}''" "''credentials.json''" "''{}''"
      "\<lambda>j. Some \<lparr>AccessSecret = [], AccessToken = [], ConsumerKey = [], ConsumerSecret = []\<rparr>" _ "\<lambda>c. Some True" "\<lambda>p. True" "''d''" 2
      "[1, 0]" "[''a'', ''b'']" Some] by auto

end
