(* ===== verification/Spec2Isabelle.thy ===== *)
theory Spec2Isabelle
  imports PbProps CacheOptimalProps CacheBenchProps KPrepareProps KConvert KClientProps KShortestProps KBenchProps
    RdfVerify MovieLensProps FilmConvert TweetsProps NeoLoader Finder OrientTransform IndexTestsProps BatchesProps
    TypeToolsProps Regression GeoConvert LoadMains KValidate CacheReport KPerfPool LoaderWorkers KFetch CacheAdapters StreamMain
begin

text \<open>
  dgraph-benchmarks: the programs with which Dgraph was benchmarked against other graph stores.
  The development models the Go programs with logic of their own; what they call outside the
  repository (gonum, dgo, groupvarint, the cache libraries, \<open>math/rand\<close>) is a parameter, and what
  they use of the standard library is defined.

  The parts and their theories.

  \<^item> \<open>Prelude\<close>: outcomes of Go functions (a value, a panic, no return), errors as sums, slices,
    \<open>sort.Search\<close>. \<open>GoHeap\<close>: \<open>container/heap\<close> with the locale \<open>min_queue\<close>. \<open>GoStrings\<close>, \<open>GoText\<close>,
    \<open>GoTextFacts\<close>: decimal numbers, \<open>bufio.Scanner\<close>, \<open>strings\<close>, \<open>strconv\<close>, \<open>filepath\<close>. \<open>GoFloat\<close>: float64
    as rationals with rounding to nearest even, infinities and NaN.
  \<^item> bitmap/codec.go: \<open>Varint\<close> and \<open>GroupVarint\<close> (the locale \<open>group_varint\<close> and its interpretation on
    the four byte code), \<open>UidCodec\<close> (Encoder, Decoder and the free functions), \<open>UidBlocks\<close>, \<open>UidRoundtrip\<close>
    and \<open>UidSeek\<close> (lemmas), \<open>UidPackProps\<close>. A list of uids is cut into blocks of equal 32 high bits and of
    at most \<open>blockSize\<close> numbers; decoding returns the list, and Seek and LinearSeek find the block.
  \<^item> bitmap/pb.pb.go: \<open>PbWire\<close>, \<open>PbWrite\<close>, \<open>PbRead\<close>, \<open>PbProps\<close>: Size, Marshal and Unmarshal of UidBlock
    and UidPack, whose messages are pointers that may be nil, as may the pointers in \<open>Blocks\<close>; the
    backwards writer refines the wire format, the reader inverts it, never panics and skips unknown
    fields. \<open>pointers\<close> takes a pack of the codec to its message.
  \<^item> cachebench/ristretto: \<open>CacheOptimal\<close> and \<open>CacheOptimalProps\<close> (BenchOptimal against the policy of the
    locale \<open>optimal_client\<close>), \<open>CacheBench\<close> and \<open>CacheBenchProps\<close> (the adapters, the loops, the selection
    of benchmarks, the CSV text), \<open>CacheAdapters\<close> (constructors), \<open>CacheReport\<close> (the results and their records).
  \<^item> k-shortest-path/internal: \<open>KCompare\<close> (compare.go), \<open>KStats\<close> (stats.go), \<open>KOracle\<close> (oracle.go over the
    locale \<open>weighted_graph\<close>, interpreted on finite maps), \<open>KLdbc\<close> (parse.go), \<open>KClient\<close> and \<open>KClientProps\<close>
    (client.go).
  \<^item> k-shortest-path/cmd: \<open>KPrepare\<close>, \<open>KFiles\<close> and \<open>KPrepareProps\<close> (prepare: parsers and writers, and
    that internal/ldbc reads the files back), \<open>KConvert\<close> (convert), \<open>KShortestRun\<close> and \<open>KShortestProps\<close>
    (bench/kshortest.go), \<open>KBench\<close>, \<open>KBenchProps\<close>, \<open>KPerf\<close> and \<open>KPerfPool\<close> (bench/main.go),
    \<open>KFetch\<close> (the download of prepare and its temporary file), \<open>KValidate\<close> (validate and handprobe).
  \<^item> Shared by the small programs: \<open>NQuads\<close> (the record of the RDF parser), \<open>GoLines\<close> (\<open>ReadString\<close> loops,
    \<open>Trim\<close>, \<open>Replace\<close>), \<open>GoTime\<close> (the two layouts of twitterdata), \<open>GoDuration\<close> (\<open>time.ParseDuration\<close>).
  \<^item> RDF and conversions: \<open>RdfVerify\<close> (scripts/verify), \<open>FilmConvert\<close> (convert/main.go), \<open>MovieLens\<close> and
    \<open>MovieLensProps\<close> (movielens/conv100k and conv20m), \<open>TypeTools\<close> and \<open>TypeToolsProps\<close> (scripts/add-types),
    \<open>GeoConvert\<close> (geotordf, geofreebase), \<open>OrientTransform\<close> (orientdb/transform), \<open>Finder\<close> (finder/entity.go).
  \<^item> Loading: \<open>NeoLoader\<close> (neo), \<open>Batches\<close>, \<open>BatchesProps\<close> and \<open>LoaderWorkers\<close> (scripts/mutations,
    data/neo4j), \<open>Tweets\<close>, \<open>TweetsProps\<close> and \<open>StreamMain\<close> (twitterdata).
  \<^item> \<open>WorkPool\<close>: workers that take jobs from a channel and act on shared state, as a step relation, with the
    locales \<open>ending_jobs\<close> and \<open>live_jobs\<close> (a worker may first have to open something, and try again), which are interpreted on the perf mode of the benchmark, on
    the bolt loader and (the first of them) on the mutations.
  \<^item> Measuring and testing: \<open>IndexTests\<close> and \<open>IndexTestsProps\<close> (indextest), \<open>Regression\<close> (regression and
    its replay), \<open>LoadTests\<close>, \<open>LoadTestsProps\<close> and \<open>LoadMains\<close> (loadtest, throughputtest, pbbenchmark).

  How they interact. prepare writes a data set; internal/ldbc reads it for convert, whose RDF the
  bulk loader takes, and for bench, which loads the reference graph, asks Dgraph through
  internal/client, compares the cost vectors and counts. The theorems follow this: files read back
  what was written, the two graphs have the same weights when the weights are whole numbers (and a
  theorem shows that they can differ otherwise), the answer's weights are sorted, the counts of a
  run add up, the choice of targets does not depend on the order of Go's maps, and the pools of
  workers are step relations whose invariants give one result for each target, pair or request. One
  worker of scripts/mutations refines the loop over its jobs, and with two workers a rejected
  mutation can go unnoticed. The small programs
  stand alone; their theorems say what they write for what they read (each line once and in order,
  batches of the size asked for, what is joined and what is lost), that the two index tests load
  inverse graphs, and that renaming types commutes with printing them.

  Bounds and fuel. Machine integers are words where they wrap, and integers in range otherwise.
  The lengths of \<open>make\<close> are checked against the address space of 48 bits (\<open>make_fits\<close>, \<open>chan_fits\<close>);
  below that, memory is supposed to suffice.
  Loops that need not end (\<open>encode_buffer_loop\<close>, \<open>linear_seek_loop\<close>, \<open>fetch_loop\<close>, \<open>redraw\<close>, \<open>fail_loop\<close>,
  \<open>retry\<close>, \<open>user_loop\<close>) are partial functions, with theorems on when they return; the shortest printing of a float
  tries 17 digits, which are enough for binary64. Scanners have the limits of the code (64 KiB or
  1 MiB a line). Goroutines that send on one channel are an interleaving or a list of choices, and
  the iteration over a map is a parameter that gives the order.

  Not modelled: writing to disk failing (except where a definition says so), log lines, flag
  parsing, timing (a clock or a latency is a parameter), gzip and zip decoding, network calls, the
  other messages of the generated pb.pb.go, the interleaving of the goroutines of the cache
  benchmarks, and bitmap/main.go, which times a library. A step of a worker is one access to what the
  workers share; the weaker guarantees of a data race are not modelled.
\<close>

lemma sovPb_le: "sovPb x \<le> 10"
  using length_put_uvarint [of x] by (simp add: sovPb_put_uvarint)

lemma UidBlock_Size_le: "UidBlock_Size (Some b) \<le> 33 + length (Deltas b)"
  using sovPb_le [of "Base b"] sovPb_le [of "of_nat (length (Deltas b))"] sovPb_le [of "ucast (NumUids b)"]
  by (simp add: UidBlock_Size_def Let_def)

context group_varint
begin

lemma length_pack_deltas: "length (pack_deltas Encode4 p us) \<le> 17 * Suc (length us)"
proof (induction "length us" arbitrary: p us rule: less_induct)
  case less
  obtain tmp p' where t: "fill_tmp 4 p us = (tmp, p')" by fastforce
  have "length tmp = 4" using length_fill_tmp [of 4 p us] t by simp
  then have first: "length (Encode4 tmp) \<le> 17" using BytesUsed_Encode4 BytesUsed_le by metis
  show ?case
  proof (cases "length us \<le> 4")
    case True
    with first t show ?thesis by (simp add: pack_deltas.simps)
  next
    case False
    then have "length (pack_deltas Encode4 p' (drop 4 us)) \<le> 17 * Suc (length (drop 4 us))"
      by (intro less) simp
    with False first t show ?thesis by (simp add: pack_deltas.simps [of _ p])
  qed
qed

text \<open>A message takes at most 61 bytes a uid.\<close>

lemma block_entry_le:
  assumes "us \<noteq> []"
  shows "1 + UidBlock_Size (Some (mk_block Encode4 us)) + sovPb (of_nat (UidBlock_Size (Some (mk_block Encode4 us))))
    \<le> 61 * length us"
proof -
  have "length (Deltas (mk_block Encode4 us)) \<le> 17 * length us"
    using length_pack_deltas [of "hd us" "tl us"] assms by (cases us) (simp_all add: mk_block_def)
  moreover have "0 < length us" using assms by simp
  ultimately show ?thesis
    using UidBlock_Size_le [of "mk_block Encode4 us"] sovPb_le [of "of_nat (UidBlock_Size (Some (mk_block Encode4 us)))"]
    by linarith
qed

lemma UidPack_Size_encode:
  assumes "Blocks p = map (mk_block Encode4) uss" and "\<forall>us \<in> set uss. us \<noteq> []"
  shows "UidPack_Size (Some (pointers p)) \<le> 23 + 61 * length (concat uss)"
proof -
  let ?sz = "\<lambda>e. 1 + UidBlock_Size e + sovPb (of_nat (UidBlock_Size e))"
  have "sum_list (map ?sz (map Some (map (mk_block Encode4) uss))) \<le> 61 * length (concat uss)"
    using assms(2)
  proof (induction uss)
    case (Cons us uss)
    with block_entry_le [of us] show ?case by simp
  qed simp
  moreover have "(if BlockSize p \<noteq> 0 then 1 + sovPb (ucast (BlockSize p)) else 0) \<le> 11"
    "(if AllocRef p \<noteq> 0 then 2 + sovPb (AllocRef p) else 0) \<le> 12"
    using sovPb_le [of "ucast (BlockSize p)"] sovPb_le [of "AllocRef p"] by simp_all
  ultimately show ?thesis
    unfolding UidPack_Size_def option.case fold_block_sizes pointers_sel assms(1) by linarith
qed

end

section \<open>Properties that span components\<close>

text \<open>
  C2: the codec and its messages together. A nondecreasing list of uids that is not empty, with a block
  size from 1 to \<open>2 ^ 32 - 4\<close>, survives encoding, marshalling, unmarshalling into a zero message and
  decoding, when there are at most \<open>2 ^ 42\<close> uids and their number times the block size is at most
  \<open>2 ^ 45\<close>, so that Go can make the slices. For the empty list \<open>Encode\<close> returns nil, which \<open>Marshal\<close>
  does not accept: it panics.
\<close>

theorem uid_pack_pipeline:
  assumes "group_varint Encode4 Decode4 BytesUsed"
    and "sorted uids" and "1 \<le> blockSize" and "blockSize \<le> 2 ^ 32 - 4"
    and "int (length uids) * blockSize \<le> 2 ^ 45" and "length uids \<le> 2 ^ 42"
  shows "if uids = [] then Encode Encode4 ref uids blockSize = Ret None \<and> UidPack_Marshal None = Panic NilDeref
    else \<exists>pack bs. Encode Encode4 ref uids blockSize = Ret (Some pack)
      \<and> UidPack_Marshal (Some (pointers pack)) = Ret bs
      \<and> UidPack_Unmarshal bs zero_pack = ok (pointers pack)
      \<and> Decode Decode4 BytesUsed (Some pack) 0 = Ret uids"
proof (cases "uids = []")
  case True
  have "UidPack_Marshal None = Panic NilDeref"
    by (simp add: UidPack_Marshal_def UidPack_Size_def UidPack_MarshalToSizedBuffer_def make_slice_def make_fits_def go_slice_def)
  with True group_varint.Encode_pack [OF assms(1,2,4), of ref] show ?thesis by auto
next
  case False
  obtain uss where uss: "concat uss = uids" "good_blocks blockSize uss" and
    some: "uids \<noteq> [] \<Longrightarrow> \<exists>p. Encode Encode4 ref uids blockSize = Ret (Some p) \<and> pack_of Encode4 uss p
       \<and> p = \<lparr>BlockSize = word_of_int blockSize, Blocks = map (mk_block Encode4) uss, AllocRef = ref\<rparr>"
    by (rule group_varint.Encode_pack [OF assms(1,2,4), of ref]) blast
  with False obtain p where p: "Encode Encode4 ref uids blockSize = Ret (Some p)" "Blocks p = map (mk_block Encode4) uss"
    by auto
  have "\<forall>us \<in> set uss. us \<noteq> []" using uss(2) by (auto simp: good_blocks_def run_def)
  from group_varint.UidPack_Size_encode [OF assms(1) p(2) this] assms(6) uss(1)
  have size: "UidPack_Size (Some (pointers p)) \<le> 2 ^ 48" by simp
  then have "UidPack_Size (Some (pointers p)) < 2 ^ 63" by simp
  from UidPack_Unmarshal_wire [OF this] UidPack_Marshal_wire [OF size] p(1)
    group_varint.decode_encode [OF assms(1,2,4), of ref] assms(3,5) False
  show ?thesis by auto
qed

theorem uid_pack_pipeline_witness:
  "\<exists>pack bs. Encode gv_Encode4 7 [0, 5, 9] 2 = Ret (Some pack)
    \<and> UidPack_Marshal (Some (pointers pack)) = Ret bs
    \<and> UidPack_Unmarshal bs zero_pack = ok (pointers pack)
    \<and> Decode gv_Decode4 gv_BytesUsed (Some pack) 0 = Ret [0, 5, 9]"
  using uid_pack_pipeline [OF gv.group_varint_axioms, of "[0, 5, 9]" 2 7] by simp

lemma length_ways: "length (both_ways d es) = (if d then 1 else 2) * length es"
  by (induction es) (auto simp: both_ways_def)

lemma effective_ways: "effective ds = both_ways (directed_set ds) (edges ds)"
  by (simp add: effective_def both_ways_def)

text \<open>
  C11: the RDF of a prepared data set has two triples for each vertex and then exactly the triples
  of the effective edges, with rounded weights, once for each edge if the data set is directed;
  if it is not, both prepare and convert add the reverse edges, so four for each edge.
\<close>

theorem writeRDF_prepared:
  assumes "fs (VertexFile d) = Some (writeVertices (vertices ds), False)"
    and "fs (EdgeFile d) = Some (fst (writeEdges ds), False)"
    and "Directed (ds_Properties d) = directed_set ds"
    and "\<forall>v \<in> set (vertices ds). in_int64 v" and "\<forall>e \<in> set (edges ds). road_edge e"
  shows "\<exists>L. writeRDF fs d = Inr (text_of (concat (map vertex_triples (vertices ds)) @ L), length (vertices ds), length L)
    \<and> set L = (\<lambda>(s, t, w). edge_triple s t w) ` set (map round_edge (effective ds))
    \<and> length L = (if directed_set ds then 1 else 4) * length (edges ds)"
proof -
  let ?es = "map round_edge (effective ds)"
  let ?L = "map (\<lambda>(s, t, w). edge_triple s t w) (both_ways (directed_set ds) ?es)"
  have L: "concat (map (\<lambda>(s, t, w). if directed_set ds then [edge_triple s t w]
      else [edge_triple s t w, edge_triple t s w]) ?es) = ?L"
    by (auto simp: both_ways_def map_concat comp_def intro!: arg_cong [where f = concat] split: prod.splits)
  have "length ?L = (if directed_set ds then 1 else 2) * length ?es" by (simp add: length_ways)
  then have rdf: "err_fold (rdf_edge (directed_set ds)) ?es (vs, 0) = Inr (vs @ ?L, length ?L)" for vs
    unfolding rdf_edges L by simp
  have "writeRDF fs d = Inr (text_of (concat (map vertex_triples (vertices ds)) @ ?L), length (vertices ds), length ?L)"
    by (simp only: writeRDF_def assms(1-3) read_written_vertices [OF assms(4)] writeEdges_text fst_conv
        scan_edge_texts [OF effective_road [OF assms(5)]] rdf err_bind_simps sum.case prod.case)
  moreover have "set ?L = (\<lambda>(s, t, w). edge_triple s t w) ` set ?es"
    by (simp only: set_map both_ways_effective [unfolded set_map])
  moreover have "length ?L = (if directed_set ds then 1 else 4) * length (edges ds)"
    by (simp add: length_ways) (simp add: effective_ways length_ways)
  ultimately show ?thesis by blast
qed

definition demo_dataset :: Dataset where
  "demo_dataset = \<lparr>ds_Name = ''r'', ds_Root = ''r'', VertexFile = ''v'', EdgeFile = ''e'', PropsFile = ''p'',
     SSSPRefFile = ''s'', ds_Properties = \<lparr>Directed = False, WeightedSSSP = True, SourceVertex = 0\<rparr>\<rparr>"

theorem writeRDF_prepared_witness:
  "\<exists>L. writeRDF [''v'' \<mapsto> (writeVertices (vertices demo_roads), False), ''e'' \<mapsto> (fst (writeEdges demo_roads), False)]
      demo_dataset = Inr (text_of (concat (map vertex_triples (vertices demo_roads)) @ L), length (vertices demo_roads), length L)
    \<and> set L = (\<lambda>(s, t, w). edge_triple s t w) ` set (map round_edge (effective demo_roads))
    \<and> length L = (if directed_set demo_roads then 1 else 4) * length (edges demo_roads)"
  by (rule writeRDF_prepared [OF _ _ _ _ demo_roads_edges])
    (simp_all add: demo_dataset_def demo_roads_def in_int64_def)

end
